(* ===== verification/Idtx_Prelude.thy ===== *)
theory Idtx_Prelude
  imports Main "HOL-Library.Word" "HOL-Library.Sublist"
begin

text \<open>
  Shared vocabulary of the development: the machine integer types of the C++ sources, the result
  type of operations that can throw, the named collections that the component theories fill, and
  the generic lemmas on lists, words and maps that more than one component uses.
\<close>

subsection \<open>Types\<close>

text \<open>\<^verbatim>\<open>std::uint8_t\<close>, \<^verbatim>\<open>std::uint16_t\<close>, \<^verbatim>\<open>std::uint32_t\<close> and \<^verbatim>\<open>std::uint64_t\<close>;
  \<^verbatim>\<open>std::size_t\<close> is 64 bits wide on every platform the server is built for.\<close>

type_synonym u8 = "8 word"
type_synonym u16 = "16 word"
type_synonym u32 = "32 word"
type_synonym u64 = "64 word"

text \<open>\<^verbatim>\<open>ConnectionId\<close> (\<^verbatim>\<open>SessionCommand.h\<close>); 0 means ``no connection''.\<close>

type_synonym ConnectionId = u64

text \<open>The value of \<^verbatim>\<open>BaseMessage.server_seq\<close> and \<^verbatim>\<open>Session::server_seq\<close>.\<close>

type_synonym server_seq = u64

text \<open>A call that may leave by an exception: \<open>Inl\<close> carries the exception's \<^verbatim>\<open>what()\<close>.\<close>

type_synonym 'a throws = "string + 'a"

subsection \<open>Named collections\<close>

named_theorems manager_kept \<open>operations that keep the invariant of the session registry\<close>
named_theorems in_bounds \<open>drawing operations that stay inside the pixel buffer, and their composition\<close>
named_theorems acks_added \<open>how many acknowledgements the handler of a command adds\<close>

subsection \<open>Strings\<close>

text \<open>\<^verbatim>\<open>s.starts_with(p)\<close>, \<^verbatim>\<open>s.ends_with(p)\<close> and \<^verbatim>\<open>s.find(p) != npos\<close> of \<^verbatim>\<open>std::string\<close>.\<close>

definition starts_with :: "string \<Rightarrow> string \<Rightarrow> bool" where
  "starts_with s p \<longleftrightarrow> take (length p) s = p"

definition ends_with :: "string \<Rightarrow> string \<Rightarrow> bool" where
  "ends_with s p \<longleftrightarrow> length p \<le> length s \<and> drop (length s - length p) s = p"

fun contains :: "string \<Rightarrow> string \<Rightarrow> bool" where
  "contains [] p = (p = [])"
| "contains (c # cs) p = (starts_with (c # cs) p \<or> contains cs p)"

lemma starts_with_prefix: "starts_with s p \<longleftrightarrow> prefix p s"
  unfolding starts_with_def by (metis append_eq_conv_conj append_take_drop_id prefix_def)

lemma ends_with_suffix: "ends_with s p \<longleftrightarrow> suffix p s"
proof
  assume "ends_with s p"
  then show "suffix p s"
    unfolding ends_with_def by (metis append_take_drop_id suffix_def)
next
  assume "suffix p s"
  then show "ends_with s p"
    by (auto simp: ends_with_def suffix_def)
qed

lemma contains_sublist: "contains s p \<longleftrightarrow> sublist p s"
proof (induction s p rule: contains.induct)
  case (1 p)
  then show ?case by simp
next
  case (2 c cs p)
  then show ?case by (simp add: starts_with_prefix sublist_Cons_right)
qed

lemma contains_append_iff: "contains (xs @ p @ ys) p"
  by (auto simp: contains_sublist)

text \<open>The pieces of a string between separators; never empty.\<close>

fun split_on :: "char \<Rightarrow> string \<Rightarrow> string list" where
  "split_on c [] = [[]]"
| "split_on c (x # xs) =
     (if x = c then [] # split_on c xs
      else case split_on c xs of l # ls \<Rightarrow> (x # l) # ls | [] \<Rightarrow> [[x]])"

lemma split_on_nonempty [simp]: "split_on c s \<noteq> []"
  by (induction c s rule: split_on.induct) (auto split: list.split)

lemma split_on_pieces: "p \<in> set (split_on c s) \<Longrightarrow> c \<notin> set p"
  by (induction c s arbitrary: p rule: split_on.induct) (auto split: list.splits if_splits)

lemma split_on_chars: "p \<in> set (split_on c s) \<Longrightarrow> set p \<subseteq> set s"
  by (induction c s arbitrary: p rule: split_on.induct) (fastforce split: list.splits if_splits)+

subsection \<open>Words\<close>

lemma unat_inc: "unat w + 1 < 2 ^ LENGTH('a) \<Longrightarrow> unat (w + 1 :: 'a::len word) = unat w + 1"
  by (simp add: unat_word_ariths)

lemma word_less_inc: "unat w + 1 < 2 ^ LENGTH('a) \<Longrightarrow> w < (w + 1 :: 'a::len word)"
  by (simp add: word_less_nat_alt unat_inc)

lemma max_word_ge: "(a :: 'a::len word) \<le> max a b" "b \<le> max a b"
  by simp_all

subsection \<open>Lists\<close>

lemma sorted_snoc: "sorted (xs @ [x]) \<longleftrightarrow> sorted xs \<and> (\<forall>y\<in>set xs. y \<le> x)"
  by (auto simp: sorted_append)

subsection \<open>Counting list elements\<close>

definition cnt :: "('a \<Rightarrow> bool) \<Rightarrow> 'a list \<Rightarrow> nat" where
  "cnt P xs = length (filter P xs)"

lemma cnt_simps [simp]:
  "cnt P [] = 0" "cnt P (x # xs) = (if P x then 1 else 0) + cnt P xs"
  by (simp_all add: cnt_def)

lemma cnt_update:
  "i < length xs \<Longrightarrow>
   cnt P (xs[i := y]) + (if P (xs ! i) then 1 else 0) = cnt P xs + (if P y then 1 else 0)"
proof (induction xs arbitrary: i)
  case (Cons x xs)
  then show ?case by (cases i) (use Cons.IH in force)+
qed simp

lemma cnt_replicate_False: "\<not> P x \<Longrightarrow> cnt P (replicate n x) = 0"
  by (simp add: cnt_def)

lemma cnt_pos_iff: "0 < cnt P xs \<longleftrightarrow> (\<exists>x\<in>set xs. P x)"
  by (induction xs) auto

lemma cnt_two:
  assumes "i < length xs" "j < length xs" "i \<noteq> j" "P (xs ! i)" "P (xs ! j)"
  shows "2 \<le> cnt P xs"
proof -
  have "{i, j} \<subseteq> {k. k < length xs \<and> P (xs ! k)}" using assms by auto
  then have "card {i, j} \<le> card {k. k < length xs \<and> P (xs ! k)}" by (intro card_mono) auto
  then show ?thesis using assms(3) by (simp add: cnt_def length_filter_conv_card)
qed

lemma ex_set_update:
  "i < length xs \<Longrightarrow> P y \<or> (\<exists>x\<in>set xs. P x) \<and> \<not> P (xs ! i) \<Longrightarrow> \<exists>x\<in>set (xs[i := y]). P x"
  by (metis in_set_conv_nth length_list_update nth_list_update)

subsection \<open>Decimal numbers\<close>

text \<open>\<^verbatim>\<open>std::to_string\<close> of an integer.\<close>

definition digit_char :: "nat \<Rightarrow> char" where
  "digit_char d = char_of (48 + d)"

fun nat_to_string :: "nat \<Rightarrow> string" where
  "nat_to_string n = (if n < 10 then [digit_char n] else nat_to_string (n div 10) @ [digit_char (n mod 10)])"

declare nat_to_string.simps [simp del]

definition int_to_string :: "int \<Rightarrow> string" where
  "int_to_string i = (if i < 0 then CHR ''-'' # nat_to_string (nat (- i)) else nat_to_string (nat i))"

lemma nat_to_string_nonempty [simp]: "nat_to_string n \<noteq> []"
  by (subst nat_to_string.simps) simp

end
