(* ===== verification/Session_Versions.thy ===== *)
theory Session_Versions
  imports Idtx_Prelude
begin

text \<open>
  The version bookkeeping of a session (\<^verbatim>\<open>source/session/SessionVersions.{h,cpp}\<close>): which
  \<^verbatim>\<open>server_seq\<close> values changed which prim, which were sent to which connection, and the check
  that decides whether a client's update was made on the current state.

  The methods hold an internal mutex for their whole body, so each is one atomic state
  transformation here. \<^verbatim>\<open>operator[]\<close> of \<^verbatim>\<open>std::unordered_map\<close> inserts a default entry; the
  \<open>*_entry\<close> functions are that default-inserting read.

  The interface the session handlers rely on is the locale \<open>version_tracker\<close>. It is interpreted on
  the definitions below, and the reference semantics over the whole history of recorded events is
  derived from its laws alone.
\<close>

subsection \<open>Data\<close>

datatype UpdateBaseStatus = Current | Stale | InvalidBase

record PrimVersion =
  last_change_seq :: server_seq
  last_writer :: ConnectionId
  foreign_before_run :: server_seq

record ConnectionVersions =
  max_sent_seq :: server_seq
  correction_seq :: "string \<rightharpoonup> server_seq"

record SessionVersions =
  prims :: "string \<rightharpoonup> PrimVersion"
  connections :: "ConnectionId \<rightharpoonup> ConnectionVersions"

definition default_PrimVersion :: PrimVersion where
  "default_PrimVersion = \<lparr>last_change_seq = 0, last_writer = 0, foreign_before_run = 0\<rparr>"

definition default_ConnectionVersions :: ConnectionVersions where
  "default_ConnectionVersions = \<lparr>max_sent_seq = 0, correction_seq = Map.empty\<rparr>"

definition empty_SessionVersions :: SessionVersions where
  "empty_SessionVersions = \<lparr>prims = Map.empty, connections = Map.empty\<rparr>"

definition prim_entry :: "SessionVersions \<Rightarrow> string \<Rightarrow> PrimVersion" where
  "prim_entry v p = (case prims v p of None \<Rightarrow> default_PrimVersion | Some e \<Rightarrow> e)"

definition connection_entry :: "SessionVersions \<Rightarrow> ConnectionId \<Rightarrow> ConnectionVersions" where
  "connection_entry v c =
     (case connections v c of None \<Rightarrow> default_ConnectionVersions | Some e \<Rightarrow> e)"

subsection \<open>Operations\<close>

definition CheckUpdate ::
  "SessionVersions \<Rightarrow> ConnectionId \<Rightarrow> string \<Rightarrow> server_seq \<Rightarrow> UpdateBaseStatus" where
  "CheckUpdate v sender prim_path base =
     (let (max_sent, correction) =
            (case connections v sender of
               None \<Rightarrow> (0, 0)
             | Some conn \<Rightarrow>
                 (max_sent_seq conn,
                  case correction_seq conn prim_path of None \<Rightarrow> 0 | Some corr \<Rightarrow> corr))
      in if base > max_sent then InvalidBase
         else
           (let latest_foreign =
                  (case prims v prim_path of
                     None \<Rightarrow> 0
                   | Some prim \<Rightarrow>
                       (if last_writer prim = sender then foreign_before_run prim
                        else last_change_seq prim))
            in if base < max latest_foreign correction then Stale else Current))"

definition RecordChange ::
  "SessionVersions \<Rightarrow> string \<Rightarrow> server_seq \<Rightarrow> ConnectionId \<Rightarrow> SessionVersions" where
  "RecordChange v prim_path seq writer =
     (let prim = prim_entry v prim_path;
          prim = (if writer = 0 \<or> last_writer prim \<noteq> writer
                  then prim\<lparr>foreign_before_run := last_change_seq prim, last_writer := writer\<rparr>
                  else prim)
      in v\<lparr>prims := (prims v)(prim_path \<mapsto> prim\<lparr>last_change_seq := seq\<rparr>)\<rparr>)"

definition RecordSent ::
  "SessionVersions \<Rightarrow> ConnectionId \<Rightarrow> server_seq \<Rightarrow> SessionVersions" where
  "RecordSent v connection seq =
     (let e = connection_entry v connection
      in v\<lparr>connections := (connections v)
             (connection \<mapsto> e\<lparr>max_sent_seq := max (max_sent_seq e) seq\<rparr>)\<rparr>)"

definition RecordCorrection ::
  "SessionVersions \<Rightarrow> ConnectionId \<Rightarrow> string \<Rightarrow> server_seq \<Rightarrow> SessionVersions" where
  "RecordCorrection v connection prim_path seq =
     (let versions = connection_entry v connection
      in v\<lparr>connections := (connections v)
             (connection \<mapsto> versions\<lparr>max_sent_seq := max (max_sent_seq versions) seq,
                                     correction_seq := (correction_seq versions)(prim_path \<mapsto> seq)\<rparr>)\<rparr>)"

subsection \<open>What the check observes\<close>

definition sent_to :: "SessionVersions \<Rightarrow> ConnectionId \<Rightarrow> server_seq" where
  "sent_to v c = max_sent_seq (connection_entry v c)"

definition corrected_at :: "SessionVersions \<Rightarrow> ConnectionId \<Rightarrow> string \<Rightarrow> server_seq" where
  "corrected_at v c p =
     (case correction_seq (connection_entry v c) p of None \<Rightarrow> 0 | Some s \<Rightarrow> s)"

definition foreign_at :: "SessionVersions \<Rightarrow> ConnectionId \<Rightarrow> string \<Rightarrow> server_seq" where
  "foreign_at v c p =
     (let e = prim_entry v p
      in if last_writer e = c then foreign_before_run e else last_change_seq e)"

subsection \<open>The reference semantics: the history of recorded events\<close>

datatype version_event =
    Changed string server_seq ConnectionId
  | Sent ConnectionId server_seq
  | Corrected ConnectionId string server_seq

fun apply_event :: "SessionVersions \<Rightarrow> version_event \<Rightarrow> SessionVersions" where
  "apply_event v (Changed p s w) = RecordChange v p s w"
| "apply_event v (Sent c s) = RecordSent v c s"
| "apply_event v (Corrected c p s) = RecordCorrection v c p s"

text \<open>The versions of the events that concern a sender and a prim: sent to the sender; changes of
  the prim by anyone else; corrections of the prim sent to the sender.\<close>

definition sent_seqs :: "ConnectionId \<Rightarrow> version_event list \<Rightarrow> server_seq list" where
  "sent_seqs c es = concat (map (\<lambda>e. case e of Sent c' s \<Rightarrow> if c' = c then [s] else []
                                      | Corrected c' p s \<Rightarrow> if c' = c then [s] else []
                                      | Changed p s w \<Rightarrow> []) es)"

definition foreign_seqs :: "ConnectionId \<Rightarrow> string \<Rightarrow> version_event list \<Rightarrow> server_seq list" where
  "foreign_seqs c p es = concat (map (\<lambda>e. case e of Changed p' s w \<Rightarrow>
                                         if p' = p \<and> w \<noteq> c then [s] else []
                                       | _ \<Rightarrow> []) es)"

definition correction_seqs :: "ConnectionId \<Rightarrow> string \<Rightarrow> version_event list \<Rightarrow> server_seq list" where
  "correction_seqs c p es = concat (map (\<lambda>e. case e of Corrected c' p' s \<Rightarrow>
                                            if c' = c \<and> p' = p then [s] else []
                                          | _ \<Rightarrow> []) es)"

text \<open>The documented rule (\<^verbatim>\<open>SessionVersions.h\<close>): an update is rejected if its base is higher than
  anything sent to the client, or if the prim changed after the base by anyone other than the
  client itself, or if a correction for the prim was sent to the client after the base.\<close>

definition spec_check ::
  "version_event list \<Rightarrow> ConnectionId \<Rightarrow> string \<Rightarrow> server_seq \<Rightarrow> UpdateBaseStatus" where
  "spec_check es c p base =
     (if list_all (\<lambda>s. s < base) (0 # sent_seqs c es) then InvalidBase
      else if list_ex (\<lambda>s. base < s) (foreign_seqs c p es @ correction_seqs c p es) then Stale
      else Current)"

subsection \<open>The interface of a version tracker\<close>

locale version_tracker =
  fixes init :: 'v
    and check :: "'v \<Rightarrow> ConnectionId \<Rightarrow> string \<Rightarrow> server_seq \<Rightarrow> UpdateBaseStatus"
    and change :: "'v \<Rightarrow> string \<Rightarrow> server_seq \<Rightarrow> ConnectionId \<Rightarrow> 'v"
    and sent :: "'v \<Rightarrow> ConnectionId \<Rightarrow> server_seq \<Rightarrow> 'v"
    and correction :: "'v \<Rightarrow> ConnectionId \<Rightarrow> string \<Rightarrow> server_seq \<Rightarrow> 'v"
    and sent_obs :: "'v \<Rightarrow> ConnectionId \<Rightarrow> server_seq"
    and foreign_obs :: "'v \<Rightarrow> ConnectionId \<Rightarrow> string \<Rightarrow> server_seq"
    and corrected_obs :: "'v \<Rightarrow> ConnectionId \<Rightarrow> string \<Rightarrow> server_seq"
  assumes check_obs:
      "check v c p b = (if sent_obs v c < b then InvalidBase
                        else if b < max (foreign_obs v c p) (corrected_obs v c p) then Stale
                        else Current)"
    and sent_init: "sent_obs init c = 0"
    and foreign_init: "foreign_obs init c p = 0"
    and corrected_init: "corrected_obs init c p = 0"
    and sent_change: "sent_obs (change v p s w) c = sent_obs v c"
    and sent_sent: "sent_obs (sent v c' s) c = (if c' = c then max (sent_obs v c) s else sent_obs v c)"
    and sent_correction:
      "sent_obs (correction v c' p s) c = (if c' = c then max (sent_obs v c) s else sent_obs v c)"
    and foreign_change:
      "c \<noteq> 0 \<Longrightarrow> foreign_obs (change v p' s w) c p = (if p' = p \<and> w \<noteq> c then s else foreign_obs v c p)"
    and foreign_sent: "foreign_obs (sent v c' s) c p = foreign_obs v c p"
    and foreign_correction: "foreign_obs (correction v c' p' s) c p = foreign_obs v c p"
    and corrected_change: "corrected_obs (change v p' s w) c p = corrected_obs v c p"
    and corrected_sent: "corrected_obs (sent v c' s) c p = corrected_obs v c p"
    and corrected_correction:
      "corrected_obs (correction v c' p' s) c p = (if c' = c \<and> p' = p then s else corrected_obs v c p)"
begin

lemmas obs_init = sent_init foreign_init corrected_init
lemmas obs_change = sent_change foreign_change corrected_change
lemmas obs_sent = sent_sent foreign_sent corrected_sent
lemmas obs_correction = sent_correction foreign_correction corrected_correction

lemma own_change_keeps_check:
  assumes "c \<noteq> 0"
  shows "check (change v p' s c) c p b = check v c p b"
  using assms by (simp add: check_obs obs_change)

lemma foreign_change_is_stale:
  assumes "c \<noteq> 0" and "w \<noteq> c" and "b \<le> sent_obs v c" and "b < s"
  shows "check (change v p s w) c p b = Stale"
  using assms by (auto simp: check_obs obs_change less_max_iff_disj)

lemma correction_is_stale:
  assumes "b < s"
  shows "check (correction v c p s) c p b = Stale"
  using assms by (auto simp: check_obs obs_correction max_def)

lemma sent_base_is_valid: "check (sent v c s) c p s \<noteq> InvalidBase"
  by (auto simp: check_obs obs_sent)

fun run_event :: "'v \<Rightarrow> version_event \<Rightarrow> 'v" where
  "run_event v (Changed p s w) = change v p s w"
| "run_event v (Sent c s) = sent v c s"
| "run_event v (Corrected c p s) = correction v c p s"

definition history :: "version_event list \<Rightarrow> 'v" where
  "history es = foldl run_event init es"

lemma history_Nil [simp]: "history [] = init"
  by (simp add: history_def)

lemma history_snoc [simp]: "history (es @ [e]) = run_event (history es) e"
  by (simp add: history_def)

lemma sent_history: "sent_obs (history es) c = fold max (sent_seqs c es) 0"
proof (induction es rule: rev_induct)
  case Nil
  then show ?case by (simp add: obs_init sent_seqs_def)
next
  case (snoc e es)
  then show ?case
    by (cases e) (auto simp: sent_seqs_def obs_change obs_sent obs_correction max.commute)
qed

lemma foreign_history:
  assumes "c \<noteq> 0"
  shows "foreign_obs (history es) c p = last (0 # foreign_seqs c p es)"
proof (induction es rule: rev_induct)
  case Nil
  then show ?case by (simp add: obs_init foreign_seqs_def)
next
  case (snoc e es)
  then show ?case using assms
    by (cases e) (auto simp: foreign_seqs_def obs_change obs_sent obs_correction)
qed

lemma corrected_history: "corrected_obs (history es) c p = last (0 # correction_seqs c p es)"
proof (induction es rule: rev_induct)
  case Nil
  then show ?case by (simp add: obs_init correction_seqs_def)
next
  case (snoc e es)
  then show ?case
    by (cases e) (auto simp: correction_seqs_def obs_change obs_sent obs_correction)
qed

end

subsection \<open>Lemmas on the reference semantics\<close>

lemma fold_max_less_iff:
  "fold max xs (a :: 'a :: linorder) < b \<longleftrightarrow> list_all (\<lambda>s. s < b) (a # xs)"
  by (induction xs arbitrary: a) auto

lemma less_last_sorted_iff:
  assumes "sorted xs"
  shows "(b :: server_seq) < last (0 # xs) \<longleftrightarrow> list_ex (\<lambda>s. b < s) xs"
proof (cases xs rule: rev_cases)
  case Nil
  then show ?thesis by simp
next
  case (snoc ys y)
  with assms have "\<forall>z\<in>set ys. z \<le> y" by (simp add: sorted_snoc)
  with snoc show ?thesis by (auto simp: list_ex_iff)
qed

context version_tracker
begin

theorem check_history:
  assumes "c \<noteq> 0"
    and "sorted (foreign_seqs c p es)" and "sorted (correction_seqs c p es)"
  shows "check (history es) c p b = spec_check es c p b"
proof -
  have "sent_obs (history es) c < b \<longleftrightarrow> list_all (\<lambda>s. s < b) (0 # sent_seqs c es)"
    by (simp only: sent_history fold_max_less_iff)
  moreover have "b < max (foreign_obs (history es) c p) (corrected_obs (history es) c p)
      \<longleftrightarrow> list_ex (\<lambda>s. b < s) (foreign_seqs c p es @ correction_seqs c p es)"
    using assms
    by (simp add: less_max_iff_disj foreign_history corrected_history less_last_sorted_iff
        del: last.simps)
  ultimately show ?thesis
    by (simp only: check_obs spec_check_def)
qed

end

subsection \<open>The implementation satisfies the interface\<close>

lemmas version_defs =
  CheckUpdate_def RecordChange_def RecordSent_def RecordCorrection_def empty_SessionVersions_def
  sent_to_def corrected_at_def foreign_at_def prim_entry_def connection_entry_def
  default_PrimVersion_def default_ConnectionVersions_def

interpretation sv: version_tracker
  empty_SessionVersions CheckUpdate RecordChange RecordSent RecordCorrection
  sent_to foreign_at corrected_at
proof (unfold_locales, goal_cases)
  case (1 v c p b)
  show ?case by (auto simp: version_defs Let_def split: option.splits)
next
  case (8 c v p' s w p)
  then show ?case by (auto simp: version_defs Let_def split: option.splits)
qed (auto simp: version_defs Let_def split: option.splits)

lemma run_event_apply_event: "sv.run_event = apply_event"
proof (intro ext)
  fix v e
  show "sv.run_event v e = apply_event v e" by (cases e) simp_all
qed

lemma history_apply_event: "sv.history es = foldl apply_event empty_SessionVersions es"
  by (simp add: sv.history_def run_event_apply_event)

subsection \<open>Properties\<close>

text \<open>C2: the incremental check agrees with the documented rule over the whole history of recorded
  events, for every connection, prim and base, whenever the versions of the prim's changes and
  corrections were recorded in the order the server assigned them.\<close>

theorem CheckUpdate_refines_history:
  assumes "sender \<noteq> 0"
    and "sorted (foreign_seqs sender p es)"
    and "sorted (correction_seqs sender p es)"
  shows "CheckUpdate (foldl apply_event empty_SessionVersions es) sender p base
         = spec_check es sender p base"
  using sv.check_history [OF assms] by (simp add: history_apply_event)

theorem CheckUpdate_refines_history_witness:
  "CheckUpdate (foldl apply_event empty_SessionVersions
      [Changed ''/A'' 1 7, Sent 7 1, Changed ''/A'' 2 9, Sent 7 2, Changed ''/A'' 3 7]) 7 ''/A'' 1
   = spec_check
      [Changed ''/A'' 1 7, Sent 7 1, Changed ''/A'' 2 9, Sent 7 2, Changed ''/A'' 3 7] 7 ''/A'' 1"
  by (rule CheckUpdate_refines_history) (simp_all add: foreign_seqs_def correction_seqs_def)

text \<open>a client's own changes never change the verdict on its own updates, of any prim and any
  base, so a continuous drag is not rejected by itself.\<close>

theorem own_changes_never_stale:
  assumes "c \<noteq> 0"
  shows "CheckUpdate (foldl (\<lambda>v (p', s). RecordChange v p' s c) v ps) c p base
         = CheckUpdate v c p base"
  using assms
proof (induction ps arbitrary: v)
  case Nil
  then show ?case by simp
next
  case (Cons a ps)
  then show ?case by (cases a) (simp add: sv.own_change_keeps_check)
qed

theorem own_changes_never_stale_witness:
  "CheckUpdate (foldl (\<lambda>v (p', s). RecordChange v p' s 7)
      (RecordSent empty_SessionVersions 7 4) [(''/A'', 5), (''/B'', 6), (''/A'', 7)]) 7 ''/A'' 4
   = CheckUpdate (RecordSent empty_SessionVersions 7 4) 7 ''/A'' 4"
  by (rule own_changes_never_stale) simp

end
