(* ===== verification/Executor.thy ===== *)
theory Executor
  imports Idtx_Prelude
begin

text \<open>
  The thread pool that runs the drain tasks
  (\<^verbatim>\<open>source/concurrency/WorkerExecutor.{h,cpp}\<close>).

  Every critical section of the class mutex is one atomic operation: \<open>Post\<close>, \<open>Stop_request\<close> (the part
  of \<^verbatim>\<open>Stop\<close> under the lock) and \<open>WorkerLoop_take\<close> (the part of \<^verbatim>\<open>WorkerLoop\<close> under the lock, after the
  wait predicate holds). A task is a value; running it is the interval between \<open>WorkerLoop_take\<close> and
  \<open>WorkerLoop_finish\<close>, and an exception of the task is dropped, so both ways of finishing are the same
  step. \<open>executor_step\<close> interleaves the workers with callers. Two history fields record the accepted
  tasks and the tasks handed to workers.
\<close>

subsection \<open>State and operations\<close>

datatype 'a worker = Waiting | Running 'a | Exited

record 'a WorkerExecutor =
  tasks :: "'a list"
  workers :: "'a worker list"
  worker_count :: nat
  stopping :: bool
  accepted_tasks :: "'a list"
  started_tasks :: "'a list"

datatype executor_error = Invalid_argument | Thread_creation_failed

text \<open>\<open>threads_start\<close> says whether the platform could create every thread; if not, the threads created
  so far are stopped and joined and the exception leaves the constructor.\<close>

definition WorkerExecutor_create :: "bool \<Rightarrow> nat \<Rightarrow> executor_error + 'a WorkerExecutor" where
  "WorkerExecutor_create threads_start count =
     (if count = 0 then Inl Invalid_argument
      else if \<not> threads_start then Inl Thread_creation_failed
      else Inr \<lparr>tasks = [], workers = replicate count Waiting, worker_count = count, stopping = False,
                accepted_tasks = [], started_tasks = []\<rparr>)"

text \<open>An empty \<^verbatim>\<open>std::function\<close> is \<open>None\<close>.\<close>

definition Post :: "'a option \<Rightarrow> 'a WorkerExecutor \<Rightarrow> 'a WorkerExecutor \<times> bool" where
  "Post task e =
     (case task of
        None \<Rightarrow> (e, False)
      | Some t \<Rightarrow>
          if stopping e then (e, False)
          else (e\<lparr>tasks := tasks e @ [t], accepted_tasks := accepted_tasks e @ [t]\<rparr>, True))"

text \<open>The result says whether this call goes on to join the workers.\<close>

definition Stop_request :: "'a WorkerExecutor \<Rightarrow> 'a WorkerExecutor \<times> bool" where
  "Stop_request e = (if stopping e then (e, False) else (e\<lparr>stopping := True\<rparr>, True))"

definition joined :: "'a WorkerExecutor \<Rightarrow> bool" where
  "joined e \<longleftrightarrow> (\<forall>w\<in>set (workers e). w = Exited)"

definition WorkerLoop_ready :: "'a WorkerExecutor \<Rightarrow> bool" where
  "WorkerLoop_ready e \<longleftrightarrow> stopping e \<or> tasks e \<noteq> []"

definition WorkerLoop_take :: "nat \<Rightarrow> 'a WorkerExecutor \<Rightarrow> 'a WorkerExecutor" where
  "WorkerLoop_take i e =
     (case tasks e of
        [] \<Rightarrow> e\<lparr>workers := (workers e)[i := Exited]\<rparr>
      | t # ts \<Rightarrow> e\<lparr>tasks := ts, workers := (workers e)[i := Running t],
                    started_tasks := started_tasks e @ [t]\<rparr>)"

definition WorkerLoop_finish :: "nat \<Rightarrow> 'a WorkerExecutor \<Rightarrow> 'a WorkerExecutor" where
  "WorkerLoop_finish i e = e\<lparr>workers := (workers e)[i := Waiting]\<rparr>"

definition WorkerCount :: "'a WorkerExecutor \<Rightarrow> nat" where
  "WorkerCount e = worker_count e"

inductive executor_step :: "'a WorkerExecutor \<Rightarrow> 'a WorkerExecutor \<Rightarrow> bool" where
  post: "executor_step e (fst (Post task e))"
| stop: "executor_step e (fst (Stop_request e))"
| take: "i < length (workers e) \<Longrightarrow> workers e ! i = Waiting \<Longrightarrow> WorkerLoop_ready e \<Longrightarrow>
    executor_step e (WorkerLoop_take i e)"
| finish: "i < length (workers e) \<Longrightarrow> workers e ! i = Running t \<Longrightarrow>
    executor_step e (WorkerLoop_finish i e)"

inductive executor_reachable :: "nat \<Rightarrow> 'a WorkerExecutor \<Rightarrow> bool" for n :: nat where
  start: "WorkerExecutor_create True n = Inr e \<Longrightarrow> executor_reachable n e"
| step: "executor_reachable n e \<Longrightarrow> executor_step e e' \<Longrightarrow> executor_reachable n e'"

subsection \<open>The invariant\<close>

definition executor_inv :: "nat \<Rightarrow> 'a WorkerExecutor \<Rightarrow> bool" where
  "executor_inv n e \<longleftrightarrow>
     0 < n \<and> length (workers e) = n \<and> worker_count e = n \<and>
     accepted_tasks e = started_tasks e @ tasks e \<and>
     (Exited \<in> set (workers e) \<longrightarrow> stopping e \<and> tasks e = [])"

lemma executor_inv_create:
  "WorkerExecutor_create b n = Inr e \<Longrightarrow> executor_inv n e"
  by (auto simp: WorkerExecutor_create_def executor_inv_def split: if_splits)

lemma executor_inv_step:
  "executor_step e e' \<Longrightarrow> executor_inv n e \<Longrightarrow> executor_inv n e'"
proof (induction rule: executor_step.induct)
  case (take i e)
  then show ?case
    by (auto simp: WorkerLoop_take_def WorkerLoop_ready_def executor_inv_def split: list.splits
        dest!: set_update_subset_insert [THEN subsetD])
next
  case (finish i e t)
  then show ?case
    by (auto simp: WorkerLoop_finish_def executor_inv_def
        dest!: set_update_subset_insert [THEN subsetD])
qed (auto simp: executor_inv_def Post_def Stop_request_def split: option.split)

lemma executor_reachable_inv: "executor_reachable n e \<Longrightarrow> executor_inv n e"
  by (induction rule: executor_reachable.induct) (auto intro: executor_inv_create executor_inv_step)

text \<open>The contract the clients use: accepted tasks are handed out in order, and once the owner has
  joined the workers nothing accepted is left behind.\<close>

locale fifo_executor =
  fixes reach :: "'e \<Rightarrow> bool" and accepted started queued :: "'e \<Rightarrow> 't list" and finished :: "'e \<Rightarrow> bool"
  assumes order: "reach e \<Longrightarrow> accepted e = started e @ queued e"
    and finished_empty: "reach e \<Longrightarrow> finished e \<Longrightarrow> queued e = []"
begin

lemma started_prefix: "reach e \<Longrightarrow> prefix (started e) (accepted e)"
  by (simp add: order)

lemma finished_all_started: "reach e \<Longrightarrow> finished e \<Longrightarrow> started e = accepted e"
  by (simp add: order finished_empty)

end

interpretation ex: fifo_executor "executor_reachable n" accepted_tasks started_tasks tasks joined
proof
  fix e :: "'a WorkerExecutor"
  assume r: "executor_reachable n e"
  then have inv: "executor_inv n e" by (rule executor_reachable_inv)
  then show "accepted_tasks e = started_tasks e @ tasks e" by (simp add: executor_inv_def)
  show "tasks e = []" if "joined e"
    using inv that by (cases "workers e") (auto simp: executor_inv_def joined_def)
qed

lemma joined_refuses:
  assumes "executor_reachable n e" and "joined e"
  shows "Post task e = (e, False)"
proof -
  have "executor_inv n e" by (rule executor_reachable_inv [OF assms(1)])
  then have "stopping e" using assms(2) by (cases "workers e") (auto simp: executor_inv_def joined_def)
  then show ?thesis by (simp add: Post_def split: option.split)
qed

subsection \<open>Properties\<close>

text \<open>Stopping the executor loses nothing: when \<^verbatim>\<open>Stop\<close> has joined the workers, every task
  that \<^verbatim>\<open>Post\<close> accepted has been run by a worker, in the order of acceptance, none is still running,
  and \<^verbatim>\<open>Post\<close> accepts no more.\<close>

theorem executor_stop_complete:
  assumes "executor_reachable n e" and "joined e"
  shows "started_tasks e = accepted_tasks e \<and> (\<forall>t. Running t \<notin> set (workers e)) \<and>
    Post task e = (e, False)"
proof (intro conjI allI)
  show "started_tasks e = accepted_tasks e" by (rule ex.finished_all_started [OF assms])
  show "Running t \<notin> set (workers e)" for t using assms(2) by (auto simp: joined_def)
  show "Post task e = (e, False)" by (rule joined_refuses [OF assms])
qed

definition demo_executor :: "nat WorkerExecutor" where
  "demo_executor = WorkerLoop_take 0 (fst (Stop_request (WorkerLoop_finish 0 (WorkerLoop_take 0 (fst (Post (Some 7)
     \<lparr>tasks = [], workers = [Waiting], worker_count = 1, stopping = False,
      accepted_tasks = [], started_tasks = []\<rparr>))))))"

theorem executor_stop_complete_witness:
  "accepted_tasks demo_executor = [7] \<and> started_tasks demo_executor = [7]"
proof -
  let ?e0 = "\<lparr>tasks = [], workers = [Waiting], worker_count = 1, stopping = False,
      accepted_tasks = [], started_tasks = []\<rparr> :: nat WorkerExecutor"
  let ?e1 = "fst (Post (Some 7) ?e0)"
  let ?e2 = "WorkerLoop_take 0 ?e1"
  let ?e3 = "WorkerLoop_finish 0 ?e2"
  let ?e4 = "fst (Stop_request ?e3)"
  have "executor_reachable 1 ?e0"
    by (rule executor_reachable.start) (simp add: WorkerExecutor_create_def)
  then have "executor_reachable 1 ?e1" by (rule executor_reachable.step) (rule executor_step.post)
  then have "executor_reachable 1 ?e2"
    by (rule executor_reachable.step) (rule executor_step.take; simp add: Post_def WorkerLoop_ready_def)
  then have "executor_reachable 1 ?e3"
    by (rule executor_reachable.step) (rule executor_step.finish [where t = 7]; simp add: Post_def WorkerLoop_take_def)
  then have "executor_reachable 1 ?e4" by (rule executor_reachable.step) (rule executor_step.stop)
  then have r: "executor_reachable 1 demo_executor" unfolding demo_executor_def
    by (rule executor_reachable.step)
      (rule executor_step.take; simp add: Post_def WorkerLoop_take_def WorkerLoop_finish_def
        Stop_request_def WorkerLoop_ready_def)
  have "joined demo_executor" "accepted_tasks demo_executor = [7]"
    by (simp_all add: demo_executor_def joined_def Post_def WorkerLoop_take_def WorkerLoop_finish_def
        Stop_request_def)
  with executor_stop_complete [OF r] show ?thesis by simp
qed

end
