(* ===== verification/Mailbox.thy ===== *)
theory Mailbox
  imports Idtx_Prelude
begin

text \<open>
  The lock-free multiple-producer single-consumer ring buffer
  (\<^verbatim>\<open>source/session/BoundedMpscMailbox.h\<close>).

  Positions and slot sequence numbers are 64-bit words, a slot's storage is \<open>None\<close> while no value
  lives in it. The model runs any number of producers and the one consumer interleaved, one step
  per access to shared memory: \<open>TryEmplace_step\<close> and \<open>TryPop_step\<close> are the two operations cut at
  their atomic accesses, a weak compare-exchange may fail spuriously, and \<open>mailbox_step\<close> is the
  interleaving. Interleaving semantics is sequentially consistent; that the release stores and
  acquire loads of the sequence numbers are enough for it is not modelled.

  Two history variables, the values in the order their positions were reserved and the values in
  the order the consumer took them, state what the mailbox promises. The theorems hold as long as
  fewer than \<^term>\<open>(2::nat) ^ 63\<close> positions (less the capacity) have been reserved: beyond that the
  signed subtraction of the sources would overflow.
\<close>

unbundle bit_operations_syntax

subsection \<open>The mailbox\<close>

record 'a Slot =
  sequence :: u64
  storage :: "'a option"

record 'a mailbox =
  slots :: "'a Slot list"
  enqueue_position :: u64
  dequeue_position :: u64

text \<open>\<open>Capacity\<close> is the template parameter; \<^verbatim>\<open>kIndexMask\<close> selects the slot of a position.\<close>

abbreviation Capacity :: "'a mailbox \<Rightarrow> nat" where
  "Capacity m \<equiv> length (slots m)"

definition ValidMailboxCapacity :: "nat \<Rightarrow> bool" where
  "ValidMailboxCapacity cap \<longleftrightarrow> 2 \<le> cap \<and> (\<exists>k<64. cap = 2 ^ k)"

definition kIndexMask :: "nat \<Rightarrow> u64" where
  "kIndexMask cap = of_nat cap - 1"

definition slot_index :: "nat \<Rightarrow> u64 \<Rightarrow> nat" where
  "slot_index cap position = unat (position AND kIndexMask cap)"

definition slot_at :: "'a mailbox \<Rightarrow> u64 \<Rightarrow> 'a Slot" where
  "slot_at m position = slots m ! slot_index (Capacity m) position"

definition set_slot :: "'a mailbox \<Rightarrow> u64 \<Rightarrow> 'a Slot \<Rightarrow> 'a mailbox" where
  "set_slot m position slot = m\<lparr>slots := (slots m)[slot_index (Capacity m) position := slot]\<rparr>"

definition BoundedMpscMailbox :: "nat \<Rightarrow> 'a mailbox" where
  "BoundedMpscMailbox cap =
     \<lparr>slots = map (\<lambda>index. \<lparr>sequence = of_nat index, storage = None\<rparr>) [0..<cap],
      enqueue_position = 0, dequeue_position = 0\<rparr>"

text \<open>\<^verbatim>\<open>static_cast<std::intptr_t>(a) - static_cast<std::intptr_t>(b)\<close>. The difference is defined in
  C++ only if it fits \<^verbatim>\<open>std::intptr_t\<close>.\<close>

definition intptr_difference :: "u64 \<Rightarrow> u64 \<Rightarrow> int" where
  "intptr_difference a b = sint a - sint b"

definition difference_defined :: "u64 \<Rightarrow> u64 \<Rightarrow> bool" where
  "difference_defined a b \<longleftrightarrow>
     - (2 ^ 63) \<le> intptr_difference a b \<and> intptr_difference a b < 2 ^ 63"

subsection \<open>The operations, cut at their accesses to shared memory\<close>

datatype 'a producer =
    PIdle
  | PLoadSequence u64 'a
  | PCompareExchange u64 'a
  | PReload 'a
  | PConstruct u64 'a
  | PPublish u64
  | PReturn bool

fun TryEmplace_step :: "bool \<Rightarrow> 'a mailbox \<Rightarrow> 'a producer \<Rightarrow> 'a mailbox \<times> 'a producer" where
  "TryEmplace_step spurious m (PLoadSequence position v) =
     (let difference = intptr_difference (sequence (slot_at m position)) position
      in if difference = 0 then (m, PCompareExchange position v)
         else if difference < 0 then (m, PReturn False)
         else (m, PReload v))"
| "TryEmplace_step spurious m (PCompareExchange position v) =
     (if \<not> spurious \<and> enqueue_position m = position
      then (m\<lparr>enqueue_position := position + 1\<rparr>, PConstruct position v)
      else (m, PLoadSequence (enqueue_position m) v))"
| "TryEmplace_step spurious m (PReload v) = (m, PLoadSequence (enqueue_position m) v)"
| "TryEmplace_step spurious m (PConstruct position v) =
     (set_slot m position ((slot_at m position)\<lparr>storage := Some v\<rparr>), PPublish position)"
| "TryEmplace_step spurious m (PPublish position) =
     (set_slot m position ((slot_at m position)\<lparr>sequence := position + 1\<rparr>), PReturn True)"
| "TryEmplace_step spurious m PIdle = (m, PIdle)"
| "TryEmplace_step spurious m (PReturn r) = (m, PReturn r)"

text \<open>Moving out of a slot whose storage holds no value is undefined behaviour: \<open>CFault\<close>.\<close>

datatype 'a consumer =
    CIdle
  | CLoadSequence u64
  | CMove u64
  | CRelease u64 'a
  | CAdvance u64 'a
  | CReturn "'a option"
  | CFault

fun TryPop_step :: "'a mailbox \<Rightarrow> 'a consumer \<Rightarrow> 'a mailbox \<times> 'a consumer" where
  "TryPop_step m (CLoadSequence position) =
     (let difference = intptr_difference (sequence (slot_at m position)) (position + 1)
      in if difference \<noteq> 0 then (m, CReturn None) else (m, CMove position))"
| "TryPop_step m (CMove position) =
     (case storage (slot_at m position) of
        None \<Rightarrow> (m, CFault)
      | Some v \<Rightarrow> (set_slot m position ((slot_at m position)\<lparr>storage := None\<rparr>), CRelease position v))"
| "TryPop_step m (CRelease position v) =
     (set_slot m position ((slot_at m position)\<lparr>sequence := position + of_nat (Capacity m)\<rparr>),
      CAdvance position v)"
| "TryPop_step m (CAdvance position v) =
     (m\<lparr>dequeue_position := position + 1\<rparr>, CReturn (Some v))"
| "TryPop_step m CIdle = (m, CIdle)"
| "TryPop_step m (CReturn r) = (m, CReturn r)"
| "TryPop_step m CFault = (m, CFault)"

definition ApproximateSize :: "'a mailbox \<Rightarrow> u64" where
  "ApproximateSize m =
     (let difference = enqueue_position m - dequeue_position m
      in if difference < of_nat (Capacity m) then difference else of_nat (Capacity m))"

definition EmptyApproximate :: "'a mailbox \<Rightarrow> bool" where
  "EmptyApproximate m \<longleftrightarrow> enqueue_position m = dequeue_position m"

subsection \<open>Interleaved executions\<close>

record 'a mbx =
  mb :: "'a mailbox"
  producers :: "nat \<Rightarrow> 'a producer"
  consumer :: "'a consumer"
  reserved :: "'a list"
  taken :: "'a list"

definition init_mbx :: "nat \<Rightarrow> 'a mbx" where
  "init_mbx cap = \<lparr>mb = BoundedMpscMailbox cap, producers = (\<lambda>_. PIdle), consumer = CIdle,
                   reserved = [], taken = []\<rparr>"

fun newly_reserved :: "'a producer \<Rightarrow> 'a producer \<Rightarrow> 'a list" where
  "newly_reserved (PCompareExchange _ v) (PConstruct _ _) = [v]"
| "newly_reserved _ _ = []"

fun newly_taken :: "'a consumer \<Rightarrow> 'a consumer \<Rightarrow> 'a list" where
  "newly_taken (CMove _) (CRelease _ v) = [v]"
| "newly_taken _ _ = []"

inductive mailbox_step :: "'a mbx \<Rightarrow> 'a mbx \<Rightarrow> bool" where
  call_emplace:
    "producers s i = PIdle \<Longrightarrow>
     mailbox_step s (s\<lparr>producers := (producers s)
       (i := PLoadSequence (enqueue_position (mb s)) v)\<rparr>)"
| emplace:
    "TryEmplace_step spurious (mb s) (producers s i) = (m', pc') \<Longrightarrow>
     mailbox_step s (s\<lparr>mb := m', producers := (producers s)(i := pc'),
       reserved := reserved s @ newly_reserved (producers s i) pc'\<rparr>)"
| return_emplace:
    "producers s i = PReturn r \<Longrightarrow>
     mailbox_step s (s\<lparr>producers := (producers s)(i := PIdle)\<rparr>)"
| call_pop:
    "consumer s = CIdle \<Longrightarrow>
     mailbox_step s (s\<lparr>consumer := CLoadSequence (dequeue_position (mb s))\<rparr>)"
| pop:
    "TryPop_step (mb s) (consumer s) = (m', pc') \<Longrightarrow>
     mailbox_step s (s\<lparr>mb := m', consumer := pc',
       taken := taken s @ newly_taken (consumer s) pc'\<rparr>)"
| return_pop:
    "consumer s = CReturn r \<Longrightarrow> mailbox_step s (s\<lparr>consumer := CIdle\<rparr>)"

inductive mbx_reachable :: "nat \<Rightarrow> 'a mbx \<Rightarrow> bool" for cap :: nat where
  start: "mbx_reachable cap (init_mbx cap)"
| step: "mbx_reachable cap s \<Longrightarrow> mailbox_step s s' \<Longrightarrow> mbx_reachable cap s'"

subsection \<open>Ring arithmetic\<close>

lemma slot_index_of_nat:
  assumes "ValidMailboxCapacity cap" and "p < 2 ^ 64"
  shows "slot_index cap (of_nat p) = p mod cap"
proof -
  from assms obtain k where k: "k < 64" "cap = 2 ^ k" by (auto simp: ValidMailboxCapacity_def)
  have "kIndexMask cap = mask k"
    by (simp add: kIndexMask_def k mask_eq_exp_minus_1)
  then have "of_nat p AND kIndexMask cap = (take_bit k (of_nat p) :: u64)"
    by (simp add: take_bit_eq_mask)
  then have "slot_index cap (of_nat p) = take_bit k (unat (of_nat p :: u64))"
    by (simp only: slot_index_def unsigned_take_bit_eq)
  also have "\<dots> = p mod cap"
    using assms(2) by (simp add: unat_of_nat take_bit_eq_mod k)
  finally show ?thesis .
qed

lemma mod_window_inj:
  assumes "p mod c = q mod c" and "r \<le> p" "p < r + c" and "r \<le> q" "q < r + c"
  shows "p = (q :: nat)"
  using assms
proof (induction p q rule: linorder_wlog)
  case (le a b)
  from le have "b - a < c" by linarith
  moreover from le have "c dvd b - a" by (metis mod_eq_dvd_iff_nat)
  ultimately show ?case using le by (metis diff_is_0_eq dvd_imp_le leD le_antisym neq0_conv)
next
  case (sym a b)
  then show ?case by metis
qed

lemma sint_of_nat_small: "p < 2 ^ 63 \<Longrightarrow> sint (of_nat p :: u64) = int p"
  by (simp add: signed_of_nat signed_take_bit_int_eq_self)

lemma intptr_difference_of_nat:
  assumes "p < 2 ^ 63" and "q < 2 ^ 63"
  shows "intptr_difference (of_nat p) (of_nat q) = int p - int q"
  using assms by (simp add: intptr_difference_def sint_of_nat_small)

lemma of_nat_u64_eq_iff:
  "p < 2 ^ 63 \<Longrightarrow> q < 2 ^ 63 \<Longrightarrow> (of_nat p :: u64) = of_nat q \<longleftrightarrow> p = q"
  by (metis sint_of_nat_small of_nat_eq_iff)

subsection \<open>The invariant\<close>

text \<open>The slot of an absolute position, how many slots the consumer has released, and which
  reserved positions are still held by a producer.\<close>

definition slotn :: "'a mailbox \<Rightarrow> nat \<Rightarrow> 'a Slot" where
  "slotn m p = slots m ! (p mod Capacity m)"

definition released :: "'a mbx \<Rightarrow> nat" where
  "released s = (case consumer s of CRelease _ _ \<Rightarrow> length (taken s) - 1 | _ \<Rightarrow> length (taken s))"

fun holds :: "'a producer \<Rightarrow> u64 \<Rightarrow> bool" where
  "holds (PConstruct w _) w' = (w = w')"
| "holds (PPublish w) w' = (w = w')"
| "holds _ _ = False"

fun producer_ok :: "'a mbx \<Rightarrow> nat \<Rightarrow> 'a producer \<Rightarrow> bool" where
  "producer_ok s R (PLoadSequence w _) = (\<exists>p\<le>length (reserved s). w = of_nat p)"
| "producer_ok s R (PCompareExchange w _) =
     (\<exists>p\<le>length (reserved s). w = of_nat p \<and> p < R + Capacity (mb s))"
| "producer_ok s R (PConstruct w v) =
     (\<exists>p<length (reserved s). w = of_nat p \<and> length (taken s) \<le> p \<and> reserved s ! p = v \<and>
        slotn (mb s) p = \<lparr>sequence = of_nat p, storage = None\<rparr>)"
| "producer_ok s R (PPublish w) =
     (\<exists>p<length (reserved s). w = of_nat p \<and> length (taken s) \<le> p \<and>
        slotn (mb s) p = \<lparr>sequence = of_nat p, storage = Some (reserved s ! p)\<rparr>)"
| "producer_ok s R _ = True"

fun consumer_ok :: "'a mbx \<Rightarrow> 'a consumer \<Rightarrow> bool" where
  "consumer_ok s CIdle = (dequeue_position (mb s) = of_nat (length (taken s)))"
| "consumer_ok s (CReturn _) = (dequeue_position (mb s) = of_nat (length (taken s)))"
| "consumer_ok s (CLoadSequence w) =
     (dequeue_position (mb s) = of_nat (length (taken s)) \<and> w = of_nat (length (taken s)))"
| "consumer_ok s (CMove w) =
     (dequeue_position (mb s) = of_nat (length (taken s)) \<and> w = of_nat (length (taken s)) \<and>
      length (taken s) < length (reserved s) \<and>
      sequence (slotn (mb s) (length (taken s))) = of_nat (length (taken s) + 1))"
| "consumer_ok s (CRelease w _) =
     (0 < length (taken s) \<and> w = of_nat (length (taken s) - 1) \<and>
      dequeue_position (mb s) = of_nat (length (taken s) - 1))"
| "consumer_ok s (CAdvance w _) =
     (0 < length (taken s) \<and> w = of_nat (length (taken s) - 1) \<and>
      dequeue_position (mb s) = of_nat (length (taken s) - 1))"
| "consumer_ok s CFault = False"

definition free_ok :: "'a mbx \<Rightarrow> nat \<Rightarrow> bool" where
  "free_ok s R \<longleftrightarrow> (\<forall>p. length (reserved s) \<le> p \<and> p < R + Capacity (mb s) \<longrightarrow>
     slotn (mb s) p = \<lparr>sequence = of_nat p, storage = None\<rparr>)"

definition published :: "'a mbx \<Rightarrow> nat \<Rightarrow> bool" where
  "published s p \<longleftrightarrow> slotn (mb s) p =
     \<lparr>sequence = of_nat (p + 1), storage = (if p < length (taken s) then None else Some (reserved s ! p))\<rparr>"

definition cell_ok :: "'a mbx \<Rightarrow> nat \<Rightarrow> bool" where
  "cell_ok s p \<longleftrightarrow> published s p \<or>
     length (taken s) \<le> p \<and> sequence (slotn (mb s) p) = of_nat p \<and> (\<exists>i. holds (producers s i) (of_nat p))"

definition used_ok :: "'a mbx \<Rightarrow> nat \<Rightarrow> bool" where
  "used_ok s R \<longleftrightarrow> (\<forall>p. R \<le> p \<and> p < length (reserved s) \<longrightarrow> cell_ok s p)"

definition mbx_inv :: "nat \<Rightarrow> 'a mbx \<Rightarrow> bool" where
  "mbx_inv cap s \<longleftrightarrow>
     Capacity (mb s) = cap \<and>
     take (length (taken s)) (reserved s) = taken s \<and>
     length (taken s) \<le> length (reserved s) \<and>
     length (reserved s) \<le> released s + cap \<and>
     enqueue_position (mb s) = of_nat (length (reserved s)) \<and>
     free_ok s (released s) \<and> used_ok s (released s) \<and>
     (\<forall>i. producer_ok s (released s) (producers s i)) \<and>
     (\<forall>i j w. holds (producers s i) w \<longrightarrow> holds (producers s j) w \<longrightarrow> i = j) \<and>
     consumer_ok s (consumer s)"

text \<open>No more than this many positions are reserved.\<close>

definition mbx_bounded :: "nat \<Rightarrow> 'a mbx \<Rightarrow> bool" where
  "mbx_bounded cap s \<longleftrightarrow> length (reserved s) + cap + 1 < 2 ^ 63"

lemma ValidMailboxCapacity_pos: "ValidMailboxCapacity cap \<Longrightarrow> 0 < cap"
  by (simp add: ValidMailboxCapacity_def)

lemma Capacity_set_slot [simp]: "Capacity (set_slot m w x) = Capacity m"
  by (simp add: set_slot_def)

lemma positions_set_slot [simp]:
  "enqueue_position (set_slot m w x) = enqueue_position m"
  "dequeue_position (set_slot m w x) = dequeue_position m"
  by (simp_all add: set_slot_def)

lemma slotn_positions [simp]:
  "slotn (m\<lparr>enqueue_position := a\<rparr>) p = slotn m p"
  "slotn (m\<lparr>dequeue_position := a\<rparr>) p = slotn m p"
  by (simp_all add: slotn_def)

lemma slot_at_of_nat:
  "ValidMailboxCapacity (Capacity m) \<Longrightarrow> p < 2 ^ 63 \<Longrightarrow> slot_at m (of_nat p) = slotn m p"
  by (simp add: slot_at_def slotn_def slot_index_of_nat)

lemma slotn_set_slot:
  assumes "ValidMailboxCapacity (Capacity m)" and "q < 2 ^ 63"
  shows "slotn (set_slot m (of_nat q) x) p =
    (if p mod Capacity m = q mod Capacity m then x else slotn m p)"
  using assms ValidMailboxCapacity_pos [OF assms(1)]
  by (auto simp: slotn_def set_slot_def slot_index_of_nat nth_list_update)

lemma slotn_set_slot_window:
  assumes "ValidMailboxCapacity (Capacity m)" and "q < 2 ^ 63"
    and "r \<le> p" "p < r + Capacity m" and "r \<le> q" "q < r + Capacity m"
  shows "slotn (set_slot m (of_nat q) x) p = (if p = q then x else slotn m p)"
  using assms mod_window_inj [of p "Capacity m" q r] by (auto simp: slotn_set_slot)

lemma mbx_inv_init:
  assumes "ValidMailboxCapacity cap"
  shows "mbx_inv cap (init_mbx cap)"
  by (auto simp: mbx_inv_def init_mbx_def BoundedMpscMailbox_def released_def free_ok_def
      used_ok_def slotn_def)

end
