(* ===== verification/Mailbox_Invariant.thy ===== *)
theory Mailbox_Invariant
  imports Mailbox
begin

text \<open>
  Every step of every interleaving keeps the mailbox invariant \<^const>\<open>mbx_inv\<close>: one lemma per atomic
  step of \<^verbatim>\<open>TryEmplace\<close> and \<^verbatim>\<open>TryPop\<close>, then reachability.
\<close>

subsection \<open>Every step keeps the invariant\<close>

lemma released_taken: "released s \<le> length (taken s)" "length (taken s) \<le> Suc (released s)"
  by (auto simp: released_def split: consumer.splits)

lemma released_update [simp]:
  "released (s\<lparr>producers := a\<rparr>) = released s"
  "released (s\<lparr>mb := b\<rparr>) = released s"
  "released (s\<lparr>reserved := c\<rparr>) = released s"
  by (simp_all add: released_def split: consumer.split)

lemma mbx_invI:
  assumes "Capacity (mb s) = cap" and "take (length (taken s)) (reserved s) = taken s"
    and "length (taken s) \<le> length (reserved s)" and "length (reserved s) \<le> released s + cap"
    and "enqueue_position (mb s) = of_nat (length (reserved s))"
    and "free_ok s (released s)" and "used_ok s (released s)"
    and "\<And>i. producer_ok s (released s) (producers s i)"
    and "\<And>i j w. holds (producers s i) w \<Longrightarrow> holds (producers s j) w \<Longrightarrow> i = j"
    and "consumer_ok s (consumer s)"
  shows "mbx_inv cap s"
  unfolding mbx_inv_def using assms by blast

lemma mbx_invD:
  assumes "mbx_inv cap s"
  shows "Capacity (mb s) = cap" and "take (length (taken s)) (reserved s) = taken s"
    and "length (taken s) \<le> length (reserved s)" and "length (reserved s) \<le> released s + cap"
    and "enqueue_position (mb s) = of_nat (length (reserved s))"
    and "free_ok s (released s)" and "used_ok s (released s)"
    and "producer_ok s (released s) (producers s i)"
    and "holds (producers s i) w \<Longrightarrow> holds (producers s j) w \<Longrightarrow> i = j"
    and "consumer_ok s (consumer s)"
  using assms unfolding mbx_inv_def by blast+

text \<open>A used or free slot that a step does not touch is as it was.\<close>

lemma cell_ok_keep:
  assumes "cell_ok s q" and "slotn (mb s') q = slotn (mb s) q" and "reserved s' ! q = reserved s ! q"
    and "q < length (taken s') \<longleftrightarrow> q < length (taken s)"
    and "\<And>i. holds (producers s i) (of_nat q) \<Longrightarrow> holds (producers s' i) (of_nat q)"
  shows "cell_ok s' q"
  using assms by (auto simp: cell_ok_def published_def not_less [symmetric])

lemma free_ok_keep:
  assumes "free_ok s R"
    and "\<And>q. length (reserved s') \<le> q \<Longrightarrow> q < R' + Capacity (mb s') \<Longrightarrow>
      slotn (mb s') q = \<lparr>sequence = of_nat q, storage = None\<rparr> \<or>
      length (reserved s) \<le> q \<and> q < R + Capacity (mb s) \<and> slotn (mb s') q = slotn (mb s) q"
  shows "free_ok s' R'"
  using assms unfolding free_ok_def by (metis (no_types, lifting))

text \<open>Changing the state of a producer that neither held nor holds a position.\<close>

lemma mbx_inv_producer:
  assumes "mbx_inv cap s" and "\<And>w. \<not> holds (producers s i) w" and "\<And>w. \<not> holds pc w"
    and "producer_ok s (released s) pc"
  shows "mbx_inv cap (s\<lparr>producers := (producers s)(i := pc)\<rparr>)"
proof -
  have "producer_ok (s\<lparr>producers := f\<rparr>) R x = producer_ok s R x" for f R and x :: "'a producer"
    by (cases x) auto
  moreover have "consumer_ok (s\<lparr>producers := f\<rparr>) x = consumer_ok s x" for f and x :: "'a consumer"
    by (cases x) auto
  moreover have "used_ok (s\<lparr>producers := (producers s)(i := pc)\<rparr>) R" if "used_ok s R" for R
    unfolding used_ok_def
  proof (intro allI impI)
    fix p assume "R \<le> p \<and> p < length (reserved (s\<lparr>producers := (producers s)(i := pc)\<rparr>))"
    then have "cell_ok s p" using that by (simp add: used_ok_def)
    then show "cell_ok (s\<lparr>producers := (producers s)(i := pc)\<rparr>) p"
      by (rule cell_ok_keep) (use assms(2) in auto)
  qed
  ultimately show ?thesis
    using assms by (auto simp: mbx_inv_def free_ok_def)
qed

lemma mbx_inv_seq_cases:
  assumes inv: "mbx_inv cap s" and p: "released s \<le> p" "p < released s + cap"
  shows "sequence (slotn (mb s) p) = of_nat p \<or>
         p < length (reserved s) \<and> sequence (slotn (mb s) p) = of_nat (p + 1)"
proof (cases "p < length (reserved s)")
  case True
  with inv p have "published s p \<or> sequence (slotn (mb s) p) = of_nat p"
    by (auto simp: mbx_inv_def used_ok_def cell_ok_def)
  with True show ?thesis by (auto simp: published_def)
next
  case False
  with inv p show ?thesis by (auto simp: mbx_inv_def free_ok_def)
qed

text \<open>Every slot is that of exactly one position in the window of \<open>cap\<close> positions from \<open>R\<close> on.\<close>

lemma window_representative:
  assumes "0 < (cap :: nat)"
  obtains r where "R \<le> r" "r < R + cap" "r mod cap = p mod cap"
    "\<And>x. R \<le> x \<Longrightarrow> x < R + cap \<Longrightarrow> x mod cap = p mod cap \<Longrightarrow> x = r"
proof -
  define r where "r = R + (p + (cap - R mod cap)) mod cap"
  have r: "R \<le> r" "r < R + cap" using assms by (simp_all add: r_def)
  have "r mod cap = (R mod cap + (p + (cap - R mod cap))) mod cap" by (simp add: r_def mod_simps)
  also have "R mod cap + (p + (cap - R mod cap)) = p + cap"
    using mod_less_divisor [OF assms, of R] by linarith
  finally have m: "r mod cap = p mod cap" by simp
  show ?thesis by (rule that [OF r m]) (rule mod_window_inj [of _ cap r R]; simp add: r m)
qed

text \<open>What a producer learns from the sequence number of a slot: with an observed position \<open>p\<close> that
  is not ahead of the reservations, 0 means the slot is free for \<open>p\<close>, a negative difference means
  the mailbox is full.\<close>

lemma mbx_inv_observe:
  assumes inv: "mbx_inv cap s" and cap: "ValidMailboxCapacity cap" and b: "mbx_bounded cap s"
    and p: "p \<le> length (reserved s)"
  obtains q where "q < 2 ^ 63" "sequence (slotn (mb s) p) = of_nat q"
    and "q = p \<Longrightarrow> p < released s + cap"
    and "q < p \<Longrightarrow> length (reserved s) = released s + cap"
proof -
  let ?R = "released s" and ?N = "length (reserved s)"
  have NR: "?N \<le> ?R + cap" using mbx_invD(4) [OF inv] .
  have small: "?R + cap + 1 < 2 ^ 63"
    using b inv released_taken(1) [of s] by (auto simp: mbx_bounded_def mbx_inv_def)
  have c2: "2 \<le> cap" using cap by (simp add: ValidMailboxCapacity_def)
  then have "0 < cap" by simp
  then obtain r where r: "?R \<le> r" "r < ?R + cap" "r mod cap = p mod cap"
      and only: "\<And>x. ?R \<le> x \<Longrightarrow> x < ?R + cap \<Longrightarrow> x mod cap = p mod cap \<Longrightarrow> x = r"
    by (rule window_representative [where R = ?R and p = p]) blast
  have same: "slotn (mb s) p = slotn (mb s) r" using r(3) by (simp add: slotn_def mbx_invD(1) [OF inv])
  from mbx_inv_seq_cases [OF inv r(1,2)] obtain q where q: "sequence (slotn (mb s) r) = of_nat q"
      "q = r \<or> q = r + 1 \<and> r < ?N" by metis
  show ?thesis
  proof (rule that [of q])
    show "q < 2 ^ 63" using q(2) r small by auto
    show "sequence (slotn (mb s) p) = of_nat q" using q same by simp
    show "p < ?R + cap" if "q = p"
      using that q(2) only [of ?R] p NR c2 by (cases "p = ?R + cap") auto
    show "?N = ?R + cap" if "q < p"
      using that q(2) r(1) only [of p] p NR by (cases "p < ?R + cap") auto
  qed
qed

lemma mbx_bounds:
  assumes "mbx_inv cap s" and "mbx_bounded cap s"
  shows "length (reserved s) + 1 < 2 ^ 63" "length (taken s) + cap + 1 < 2 ^ 63"
    "released s + cap + 1 < 2 ^ 63"
  using assms released_taken(1) [of s] by (auto simp: mbx_inv_def mbx_bounded_def)

text \<open>A reserved position that a producer holds lies in the window of the slots in use.\<close>

lemma holds_position:
  assumes "mbx_inv cap s" and "holds (producers s i) w"
  obtains p where "p < length (reserved s)" "w = of_nat p" "length (taken s) \<le> p"
    "sequence (slotn (mb s) p) = of_nat p"
proof -
  have "producer_ok s (released s) (producers s i)" using assms(1) by (simp add: mbx_inv_def)
  with assms(2) show ?thesis by (cases "producers s i") (auto intro: that)
qed

text \<open>A step keeps what it says of the other producers as long as it only appends to the reserved
  values, releases more slots, and does not write the slots they hold.\<close>

lemma producer_ok_mono:
  assumes ok: "producer_ok s R pc"
    and "reserved s' = reserved s @ ys" and t: "length (taken s') \<le> length (taken s) \<or> (\<forall>w. holds pc w \<longrightarrow>
      w \<noteq> of_nat (length (taken s)) \<and> length (taken s') = length (taken s) + 1)"
    and "R \<le> R'" and "Capacity (mb s') = Capacity (mb s)"
    and sl: "\<And>p. holds pc (of_nat p) \<Longrightarrow> length (taken s) \<le> p \<Longrightarrow> p < length (reserved s) \<Longrightarrow>
      slotn (mb s') p = slotn (mb s) p"
  shows "producer_ok s' R' pc"
proof (cases pc)
  case (PLoadSequence w v)
  with ok obtain p where "p \<le> length (reserved s)" "w = of_nat p" by auto
  with PLoadSequence assms show ?thesis by (auto intro!: exI [of _ p])
next
  case (PCompareExchange w v)
  with ok obtain p where "p \<le> length (reserved s)" "w = of_nat p" "p < R + Capacity (mb s)" by auto
  with PCompareExchange assms show ?thesis by (auto intro!: exI [of _ p])
next
  case (PConstruct w v)
  with ok obtain p where p: "p < length (reserved s)" "w = of_nat p" "length (taken s) \<le> p"
      "reserved s ! p = v" "slotn (mb s) p = \<lparr>sequence = of_nat p, storage = None\<rparr>" by auto
  moreover have "length (taken s') \<le> p"
    using t p PConstruct by (cases "p = length (taken s)") auto
  ultimately show ?thesis
    using PConstruct assms(2) sl [of p] by (auto simp: nth_append intro!: exI [of _ p])
next
  case (PPublish w)
  with ok obtain p where p: "p < length (reserved s)" "w = of_nat p" "length (taken s) \<le> p"
      "slotn (mb s) p = \<lparr>sequence = of_nat p, storage = Some (reserved s ! p)\<rparr>" by auto
  moreover have "length (taken s') \<le> p"
    using t p PPublish by (cases "p = length (taken s)") auto
  ultimately show ?thesis
    using PPublish assms(2) sl [of p] by (auto simp: nth_append intro!: exI [of _ p])
qed auto

lemma mbx_inv_load_sequence:
  assumes inv: "mbx_inv cap s" and cap: "ValidMailboxCapacity cap" and b: "mbx_bounded cap s"
    and pc: "producers s i = PLoadSequence w v"
    and st: "TryEmplace_step sp (mb s) (producers s i) = (m', pc')"
  shows "mbx_inv cap (s\<lparr>mb := m', producers := (producers s)(i := pc'),
      reserved := reserved s @ newly_reserved (producers s i) pc'\<rparr>)"
proof -
  have capm: "Capacity (mb s) = cap" using inv by (simp add: mbx_inv_def)
  have "producer_ok s (released s) (producers s i)" using inv by (simp add: mbx_inv_def)
  with pc obtain p where p: "p \<le> length (reserved s)" "w = of_nat p" by auto
  obtain q where q: "q < 2 ^ 63" "sequence (slotn (mb s) p) = of_nat q"
      "q = p \<Longrightarrow> p < released s + cap"
    using mbx_inv_observe [OF inv cap b p(1)] by metis
  have p63: "p < 2 ^ 63" using p mbx_bounds(1) [OF inv b] by simp
  have d: "intptr_difference (sequence (slot_at (mb s) w)) w = int q - int p"
    using p p63 q cap by (simp add: slot_at_of_nat capm intptr_difference_of_nat)
  have m: "m' = mb s" and nr: "newly_reserved (producers s i) pc' = []"
    using st pc by (auto simp: Let_def split: if_splits)
  have ok: "producer_ok s (released s) pc'"
    using st pc p q d by (auto simp: Let_def capm split: if_splits)
  have nh: "\<not> holds pc' w'" for w' using st pc by (auto simp: Let_def split: if_splits)
  show ?thesis
    using mbx_inv_producer [OF inv _ nh ok] pc by (simp add: m nr)
qed

text \<open>Reserving the next position: its slot is free, and nobody holds it.\<close>

lemma next_not_held:
  assumes "mbx_inv cap s" and "mbx_bounded cap s"
  shows "\<not> holds (producers s j) (of_nat (length (reserved s)))"
proof
  assume "holds (producers s j) (of_nat (length (reserved s)))"
  then obtain p where "p < length (reserved s)" "of_nat (length (reserved s)) = (of_nat p :: u64)"
    by (rule holds_position [OF assms(1)])
  then show False using mbx_bounds(1) [OF assms] by (auto simp: of_nat_u64_eq_iff)
qed

lemma mbx_inv_reserve:
  assumes inv: "mbx_inv cap s" and b: "mbx_bounded cap s" and NR: "length (reserved s) < released s + cap"
    and pc: "\<And>w. \<not> holds (producers s i) w"
  shows "mbx_inv cap (s\<lparr>mb := (mb s)\<lparr>enqueue_position := of_nat (length (reserved s) + 1)\<rparr>,
      producers := (producers s)(i := PConstruct (of_nat (length (reserved s))) v), reserved := reserved s @ [v]\<rparr>)"
    (is "mbx_inv cap ?s")
proof (rule mbx_invI)
  let ?N = "length (reserved s)" and ?R = "released s"
  have free: "slotn (mb s) ?N = \<lparr>sequence = of_nat ?N, storage = None\<rparr>"
    using mbx_invD(1,6) [OF inv] NR by (simp add: free_ok_def)
  have R: "released ?s = ?R" by simp
  show "free_ok ?s (released ?s)" unfolding R by (rule free_ok_keep [OF mbx_invD(6) [OF inv]]) simp
  show "used_ok ?s (released ?s)"
    unfolding R used_ok_def
  proof (intro allI impI)
    fix q assume q: "?R \<le> q \<and> q < length (reserved ?s)"
    show "cell_ok ?s q"
    proof (cases "q < ?N")
      case True
      then have "cell_ok s q" using mbx_invD(7) [OF inv] q by (simp add: used_ok_def)
      then show ?thesis by (rule cell_ok_keep) (use True pc in \<open>auto simp: nth_append\<close>)
    next
      case False
      then have "q = ?N" using q by simp
      then show ?thesis using free mbx_invD(3) [OF inv] by (auto simp: cell_ok_def)
    qed
  qed
  show "producer_ok ?s (released ?s) (producers ?s j)" for j
  proof (cases "j = i")
    case True
    then show ?thesis using free mbx_invD(3) [OF inv] by (auto intro!: exI [of _ ?N])
  next
    case False
    have "producer_ok ?s ?R (producers s j)"
      by (rule producer_ok_mono [OF mbx_invD(8) [OF inv], where ys = "[v]"]) simp_all
    with False show ?thesis by simp
  qed
  show "j = k" if "holds (producers ?s j) x" "holds (producers ?s k) x" for j k x
    using that next_not_held [OF inv b] mbx_invD(9) [OF inv, of j x k] by (auto split: if_splits)
  show "consumer_ok ?s (consumer ?s)" using mbx_invD(10) [OF inv] by (cases "consumer s") simp_all
qed (use mbx_invD(1-5) [OF inv] NR in simp_all)

lemma mbx_inv_cas:
  assumes inv: "mbx_inv cap s" and cap: "ValidMailboxCapacity cap"
    and pc: "producers s i = PCompareExchange w v"
    and st: "TryEmplace_step sp (mb s) (producers s i) = (m', pc')"
    and b: "mbx_bounded cap (s\<lparr>mb := m', producers := (producers s)(i := pc'),
      reserved := reserved s @ newly_reserved (producers s i) pc'\<rparr>)"
  shows "mbx_inv cap (s\<lparr>mb := m', producers := (producers s)(i := pc'),
      reserved := reserved s @ newly_reserved (producers s i) pc'\<rparr>)"
proof (cases "\<not> sp \<and> enqueue_position (mb s) = w")
  case False
  then have "m' = mb s" "pc' = PLoadSequence (enqueue_position (mb s)) v"
    using st pc by auto
  moreover have "producer_ok s (released s) (PLoadSequence (enqueue_position (mb s)) v)"
    using inv by (auto simp: mbx_inv_def)
  ultimately show ?thesis
    using mbx_inv_producer [OF inv, of i "PLoadSequence (enqueue_position (mb s)) v"] pc
    by simp
next
  case True
  then have m: "m' = (mb s)\<lparr>enqueue_position := w + 1\<rparr>" and pc': "pc' = PConstruct w v"
    and w: "w = of_nat (length (reserved s))"
    using st pc mbx_invD(5) [OF inv] by auto
  have b': "mbx_bounded cap s" using b by (simp add: mbx_bounded_def)
  have "length (reserved s) < released s + cap"
    using mbx_invD(1) [OF inv] mbx_invD(8) [OF inv, of i] mbx_bounds(1) [OF inv b'] by (auto simp: pc w of_nat_u64_eq_iff)
  from mbx_inv_reserve [OF inv b' this, of i v] show ?thesis by (simp add: pc m pc' w add.commute)
qed

text \<open>A producer writes the slot of the position it holds: constructing the value keeps it held,
  publishing gives it up.\<close>

lemma holds_inj: "holds pc v \<Longrightarrow> holds pc w \<Longrightarrow> v = w"
  by (cases pc) simp_all

lemma window_positions:
  assumes "mbx_inv cap s" and "length (taken s) \<le> q" and "q < length (reserved s)"
  shows "released s \<le> q" "q < released s + cap"
  using assms released_taken(1) [of s] mbx_invD(4) [OF assms(1)] by auto

lemma slotn_write:
  assumes inv: "mbx_inv cap s" and cap: "ValidMailboxCapacity cap" and b: "mbx_bounded cap s"
    and p: "p < length (reserved s)" "length (taken s) \<le> p" and q: "released s \<le> q" "q < released s + cap"
  shows "slotn (set_slot (mb s) (of_nat p) x) q = (if q = p then x else slotn (mb s) q)"
  using q window_positions [OF inv p(2,1)] p(1) mbx_bounds(1) [OF inv b] cap mbx_invD(1) [OF inv]
  by (simp add: slotn_set_slot_window [where r = "released s"])

lemma used_ok_write:
  assumes inv: "mbx_inv cap s" and cap: "ValidMailboxCapacity cap" and b: "mbx_bounded cap s"
    and p: "p < length (reserved s)" "length (taken s) \<le> p" "holds (producers s i) (of_nat p)"
    and x: "sequence x = of_nat p \<and> holds pc' (of_nat p) \<or>
      x = \<lparr>sequence = of_nat (p + 1), storage = Some (reserved s ! p)\<rparr>"
  shows "used_ok (s\<lparr>mb := set_slot (mb s) (of_nat p) x, producers := (producers s)(i := pc')\<rparr>) (released s)"
    (is "used_ok ?s _")
  unfolding used_ok_def
proof (intro allI impI)
  fix q assume "released s \<le> q \<and> q < length (reserved ?s)"
  then have q: "released s \<le> q" "q < length (reserved s)" "q < released s + cap"
    using mbx_invD(4) [OF inv] by auto
  note sl = slotn_write [OF inv cap b p(1,2) q(1,3)]
  show "cell_ok ?s q"
  proof (cases "q = p")
    case True
    then show ?thesis using p x sl by (auto simp: cell_ok_def published_def intro!: exI [of _ i])
  next
    case False
    then have "(of_nat q :: u64) \<noteq> of_nat p"
      using p(1) q(2) mbx_bounds(1) [OF inv b] by (simp add: of_nat_u64_eq_iff)
    then have "\<not> holds (producers s i) (of_nat q)" using holds_inj p(3) by blast
    moreover have "cell_ok s q" using mbx_invD(7) [OF inv] q by (simp add: used_ok_def)
    ultimately show ?thesis using sl False by (auto elim!: cell_ok_keep)
  qed
qed

lemma consumer_ok_write:
  assumes inv: "mbx_inv cap s" and cap: "ValidMailboxCapacity cap" and b: "mbx_bounded cap s"
    and p: "p < length (reserved s)" "length (taken s) \<le> p" "holds (producers s i) (of_nat p)"
  shows "consumer_ok (s\<lparr>mb := set_slot (mb s) (of_nat p) x, producers := f\<rparr>) (consumer s)"
proof -
  let ?T = "length (taken s)"
  have c: "consumer_ok s (consumer s)" by (rule mbx_invD(10) [OF inv])
  have "sequence (slotn (set_slot (mb s) (of_nat p) x) ?T) = of_nat (?T + 1)" if "consumer s = CMove w" for w
  proof -
    have seq: "?T < length (reserved s)" "sequence (slotn (mb s) ?T) = of_nat (?T + 1)" using c that by simp_all
    obtain p' where "p' < length (reserved s)" "(of_nat p :: u64) = of_nat p'" "sequence (slotn (mb s) p') = of_nat p'"
      using holds_position [OF inv p(3)] by metis
    then have "sequence (slotn (mb s) p) = of_nat p"
      using p(1) mbx_bounds(1) [OF inv b] by (auto simp: of_nat_u64_eq_iff)
    moreover have "(of_nat (?T + 1) :: u64) \<noteq> of_nat ?T"
      using mbx_bounds(2) [OF inv b] by (subst of_nat_u64_eq_iff) auto
    ultimately have "?T \<noteq> p" using seq(2) by auto
    then show ?thesis using seq slotn_write [OF inv cap b p(1,2) window_positions [OF inv le_refl seq(1)]] by simp
  qed
  with c show ?thesis by (cases "consumer s") auto
qed

lemma producer_ok_write:
  assumes inv: "mbx_inv cap s" and cap: "ValidMailboxCapacity cap" and b: "mbx_bounded cap s"
    and p: "p < length (reserved s)" "length (taken s) \<le> p" "holds (producers s i) (of_nat p)" and j: "j \<noteq> i"
  shows "producer_ok (s\<lparr>mb := set_slot (mb s) (of_nat p) x, producers := f\<rparr>) (released s) (producers s j)" (is "producer_ok ?s _ _")
proof (rule producer_ok_mono [where s = s and ys = "[]" and R = "released s"])
  show "producer_ok s (released s) (producers s j)" by (rule mbx_invD(8) [OF inv])
  fix q assume q: "holds (producers s j) (of_nat q)" "length (taken s) \<le> q" "q < length (reserved s)"
  have "q \<noteq> p" using q(1) j mbx_invD(9) [OF inv _ p(3), of j] by metis
  then show "slotn (mb ?s) q = slotn (mb s) q"
    using slotn_write [OF inv cap b p(1,2) window_positions [OF inv q(2,3)]] by simp
qed simp_all

lemma mbx_inv_write:
  assumes inv: "mbx_inv cap s" and cap: "ValidMailboxCapacity cap" and b: "mbx_bounded cap s"
    and p: "p < length (reserved s)" "length (taken s) \<le> p" "holds (producers s i) (of_nat p)"
    and pc': "\<And>w. holds pc' w \<Longrightarrow> w = of_nat p"
    and x: "sequence x = of_nat p \<and> holds pc' (of_nat p) \<or>
      x = \<lparr>sequence = of_nat (p + 1), storage = Some (reserved s ! p)\<rparr>"
    and ok': "producer_ok (s\<lparr>mb := set_slot (mb s) (of_nat p) x\<rparr>) (released s) pc'"
  shows "mbx_inv cap (s\<lparr>mb := set_slot (mb s) (of_nat p) x, producers := (producers s)(i := pc')\<rparr>)"
    (is "mbx_inv cap ?s")
proof (rule mbx_invI)
  have R: "released ?s = released s" by simp
  show "free_ok ?s (released ?s)" unfolding R
  proof (rule free_ok_keep [OF mbx_invD(6) [OF inv]], goal_cases)
    case (1 q)
    then have "released s \<le> q" "q < released s + cap" "q \<noteq> p"
      using p(1) window_positions(1) [OF inv p(2,1)] mbx_invD(1) [OF inv] by auto
    then show ?case using 1 slotn_write [OF inv cap b p(1,2)] by simp
  qed
  show "used_ok ?s (released ?s)" unfolding R by (rule used_ok_write [OF inv cap b p x])
  have "producer_ok (s\<lparr>mb := m, producers := f\<rparr>) (released s) pc' = producer_ok (s\<lparr>mb := m\<rparr>) (released s) pc'" for m f
    by (cases pc') auto
  then show "producer_ok ?s (released ?s) (producers ?s j)" for j
    using ok' producer_ok_write [OF inv cap b p, of j] by simp
  have "holds (producers s j) w" if "holds (producers ?s j) w" for j w
    using that p(3) pc' [of w] by (cases "j = i") simp_all
  then show "j = k" if "holds (producers ?s j) w" "holds (producers ?s k) w" for j k w
    using that mbx_invD(9) [OF inv] by blast
  show "consumer_ok ?s (consumer ?s)" using consumer_ok_write [OF inv cap b p] by simp
qed (use mbx_invD(1-5) [OF inv] in simp_all)

lemma mbx_inv_construct:
  assumes inv: "mbx_inv cap s" and cap: "ValidMailboxCapacity cap" and b: "mbx_bounded cap s"
    and pc: "producers s i = PConstruct w v"
    and st: "TryEmplace_step sp (mb s) (producers s i) = (m', pc')"
  shows "mbx_inv cap (s\<lparr>mb := m', producers := (producers s)(i := pc'),
      reserved := reserved s @ newly_reserved (producers s i) pc'\<rparr>)"
proof -
  have "producer_ok s (released s) (producers s i)" and capm: "Capacity (mb s) = cap"
    using inv by (simp_all add: mbx_inv_def)
  with pc obtain p where p: "p < length (reserved s)" "w = of_nat p" "length (taken s) \<le> p"
      "reserved s ! p = v" "slotn (mb s) p = \<lparr>sequence = of_nat p, storage = None\<rparr>"
    by auto
  then have "p < 2 ^ 63" using mbx_bounds(1) [OF inv b] by simp
  with p pc st cap capm have m: "m' = set_slot (mb s) (of_nat p) \<lparr>sequence = of_nat p, storage = Some v\<rparr>"
    and pc': "pc' = PPublish (of_nat p)"
    by (auto simp: slot_at_of_nat)
  have "slotn m' p = \<lparr>sequence = of_nat p, storage = Some v\<rparr>"
    using \<open>p < 2 ^ 63\<close> cap capm by (simp add: m slotn_set_slot)
  then have ok: "producer_ok (s\<lparr>mb := m'\<rparr>) (released s) pc'"
    using p by (auto simp: pc')
  have "mbx_inv cap (s\<lparr>mb := m', producers := (producers s)(i := pc')\<rparr>)"
    unfolding m using p pc ok by (intro mbx_inv_write [OF inv cap b p(1,3)]) (simp_all add: m pc')
  then show ?thesis by (simp add: pc)
qed

lemma mbx_inv_publish:
  assumes inv: "mbx_inv cap s" and cap: "ValidMailboxCapacity cap" and b: "mbx_bounded cap s"
    and pc: "producers s i = PPublish w"
    and st: "TryEmplace_step sp (mb s) (producers s i) = (m', pc')"
  shows "mbx_inv cap (s\<lparr>mb := m', producers := (producers s)(i := pc'),
      reserved := reserved s @ newly_reserved (producers s i) pc'\<rparr>)"
proof -
  have "producer_ok s (released s) (producers s i)" and capm: "Capacity (mb s) = cap"
    using inv by (simp_all add: mbx_inv_def)
  with pc obtain p where p: "p < length (reserved s)" "w = of_nat p" "length (taken s) \<le> p"
      "slotn (mb s) p = \<lparr>sequence = of_nat p, storage = Some (reserved s ! p)\<rparr>"
    by auto
  then have "p < 2 ^ 63" using mbx_bounds(1) [OF inv b] by simp
  with p pc st cap capm have
    m: "m' = set_slot (mb s) (of_nat p) \<lparr>sequence = of_nat (p + 1), storage = Some (reserved s ! p)\<rparr>"
    and pc': "pc' = PReturn True"
    by (auto simp: slot_at_of_nat add.commute)
  have "mbx_inv cap (s\<lparr>mb := m', producers := (producers s)(i := pc')\<rparr>)"
    unfolding m using p pc by (intro mbx_inv_write [OF inv cap b p(1,3)]) (simp_all add: pc')
  then show ?thesis by (simp add: pc)
qed

text \<open>The consumer's steps that write no slot.\<close>

lemma mbx_inv_consumer:
  assumes inv: "mbx_inv cap s"
    and R: "released (s\<lparr>mb := (mb s)\<lparr>dequeue_position := d\<rparr>, consumer := c\<rparr>) = released s"
    and c: "consumer_ok (s\<lparr>mb := (mb s)\<lparr>dequeue_position := d\<rparr>, consumer := c\<rparr>) c"
  shows "mbx_inv cap (s\<lparr>mb := (mb s)\<lparr>dequeue_position := d\<rparr>, consumer := c\<rparr>)" (is "mbx_inv cap ?s")
proof (rule mbx_invI)
  show "free_ok ?s (released ?s)" unfolding R using mbx_invD(6) [OF inv] by (simp add: free_ok_def)
  have "cell_ok ?s p = cell_ok s p" for p by (simp add: cell_ok_def published_def)
  then show "used_ok ?s (released ?s)" unfolding R using mbx_invD(7) [OF inv]
    by (simp add: used_ok_def)
  have "producer_ok ?s r pc = producer_ok s r pc" for r and pc :: "'a producer"
    by (cases pc) simp_all
  then show "producer_ok ?s (released ?s) (producers ?s j)" for j unfolding R
    using mbx_invD(8) [OF inv] by simp
  show "j = k" if "holds (producers ?s j) x" "holds (producers ?s k) x" for j k x
    using mbx_invD(9) [OF inv, of j x k] that by simp
  show "consumer_ok ?s (consumer ?s)" using c by simp
  show "length (reserved ?s) \<le> released ?s + cap" unfolding R using mbx_invD(4) [OF inv] by simp
qed (use mbx_invD(1,2,3,5) [OF inv] in simp_all)

lemma record_update_same [simp]:
  "s\<lparr>mb := (mb s)\<lparr>dequeue_position := dequeue_position (mb s)\<rparr>, consumer := c\<rparr> = s\<lparr>consumer := c\<rparr>"
  by simp

lemma mbx_inv_consumer_local:
  assumes inv: "mbx_inv cap s" and R: "released (s\<lparr>consumer := c\<rparr>) = released s"
    and c: "consumer_ok (s\<lparr>consumer := c\<rparr>) c"
  shows "mbx_inv cap (s\<lparr>consumer := c\<rparr>)"
  using mbx_inv_consumer [OF inv, where d = "dequeue_position (mb s)" and c = c] assms(2,3) by simp

text \<open>The consumer sees a sequence number one above its position only in a published slot, and such
  a slot holds the value that was reserved there.\<close>

lemma published_head:
  assumes inv: "mbx_inv cap s" and b: "mbx_bounded cap s" and R: "released s = length (taken s)"
    and T: "length (taken s) < length (reserved s)"
    and seq: "sequence (slotn (mb s) (length (taken s))) = of_nat (length (taken s) + 1)"
  shows "slotn (mb s) (length (taken s)) =
    \<lparr>sequence = of_nat (length (taken s) + 1), storage = Some (reserved s ! length (taken s))\<rparr>"
proof -
  have "of_nat (length (taken s) + 1) \<noteq> (of_nat (length (taken s)) :: u64)"
    using mbx_bounds(2) [OF inv b] by (subst of_nat_u64_eq_iff) auto
  with mbx_invD(7) [OF inv, unfolded R used_ok_def, rule_format, of "length (taken s)"] T seq
  have "published s (length (taken s))" by (simp add: cell_ok_def)
  then show ?thesis by (simp add: published_def)
qed

lemma seq_published:
  assumes inv: "mbx_inv cap s" and b: "mbx_bounded cap s" and cap: "ValidMailboxCapacity cap"
    and R: "released s = length (taken s)"
    and seq: "intptr_difference (sequence (slotn (mb s) (length (taken s)))) (of_nat (length (taken s)) + 1) = 0"
  shows "length (taken s) < length (reserved s) \<and>
    sequence (slotn (mb s) (length (taken s))) = of_nat (length (taken s) + 1)"
proof -
  let ?T = "length (taken s)"
  have c: "0 < cap" by (rule ValidMailboxCapacity_pos [OF cap])
  have T: "?T < 2 ^ 63" "?T + 1 < 2 ^ 63" using mbx_bounds(2) [OF inv b] by auto
  have d: "intptr_difference (of_nat ?T) (of_nat ?T + 1) = -1"
    using intptr_difference_of_nat [of ?T "?T + 1"] T by (simp add: add.commute)
  from mbx_inv_seq_cases [OF inv, of ?T] R c
  consider "sequence (slotn (mb s) ?T) = of_nat ?T"
    | "?T < length (reserved s)" "sequence (slotn (mb s) ?T) = of_nat (?T + 1)"
    by auto
  then show ?thesis
  proof cases
    case 1
    with seq d show ?thesis by simp
  qed simp
qed

lemma mbx_inv_pop_load:
  assumes inv: "mbx_inv cap s" and cap: "ValidMailboxCapacity cap" and b: "mbx_bounded cap s"
    and pc: "consumer s = CLoadSequence w"
    and st: "TryPop_step (mb s) (consumer s) = (m', pc')"
  shows "mbx_inv cap (s\<lparr>mb := m', consumer := pc', taken := taken s @ newly_taken (consumer s) pc'\<rparr>)"
proof -
  let ?T = "length (taken s)"
  have w: "w = of_nat ?T" "dequeue_position (mb s) = of_nat ?T"
    using mbx_invD(10) [OF inv] pc by simp_all
  have R: "released s = ?T" by (simp add: released_def pc)
  have at: "slot_at (mb s) w = slotn (mb s) ?T"
    using mbx_bounds(2) [OF inv b] cap mbx_invD(1) [OF inv] by (simp add: w slot_at_of_nat)
  have m: "m' = mb s" "newly_taken (consumer s) pc' = []"
    using st pc by (auto simp: Let_def split: if_splits)
  have "mbx_inv cap (s\<lparr>consumer := pc'\<rparr>)"
  proof (cases "intptr_difference (sequence (slot_at (mb s) w)) (w + 1) = 0")
    case True
    then have "pc' = CMove w" using st pc by auto
    then show ?thesis
      using seq_published [OF inv b cap R] True at R w
      by (intro mbx_inv_consumer_local [OF inv]) (simp_all add: released_def)
  next
    case False
    then have "pc' = CReturn None" using st pc by auto
    then show ?thesis
      using w R by (intro mbx_inv_consumer_local [OF inv]) (simp_all add: released_def)
  qed
  then show ?thesis using m by simp
qed

lemma mbx_inv_advance:
  assumes inv: "mbx_inv cap s" and pc: "consumer s = CAdvance w v"
    and st: "TryPop_step (mb s) (consumer s) = (m', pc')"
  shows "mbx_inv cap (s\<lparr>mb := m', consumer := pc', taken := taken s @ newly_taken (consumer s) pc'\<rparr>)"
proof -
  let ?T = "length (taken s)"
  have w: "w + 1 = of_nat ?T"
    using mbx_invD(10) [OF inv] pc by (cases "taken s") (simp_all add: add.commute)
  have "mbx_inv cap (s\<lparr>mb := (mb s)\<lparr>dequeue_position := w + 1\<rparr>, consumer := CReturn (Some v)\<rparr>)"
    by (rule mbx_inv_consumer [OF inv]) (simp_all add: released_def pc w)
  then show ?thesis using st pc by simp
qed

text \<open>Moving the value out of the head slot, and releasing that slot for the next round.\<close>

lemma head_not_held:
  assumes inv: "mbx_inv cap s" and b: "mbx_bounded cap s" and pc: "consumer s = CMove w"
  shows "\<not> holds (producers s j) (of_nat (length (taken s)))"
proof
  let ?T = "length (taken s)"
  assume "holds (producers s j) (of_nat ?T)"
  then obtain p where p: "p < length (reserved s)" "of_nat ?T = (of_nat p :: u64)" "sequence (slotn (mb s) p) = of_nat p"
    by (rule holds_position [OF inv])
  have T: "?T < 2 ^ 63" "?T + 1 < 2 ^ 63" using mbx_bounds(2) [OF inv b] by simp_all
  have "?T = p" using p(1,2) T mbx_bounds(1) [OF inv b] of_nat_u64_eq_iff [of ?T p] by simp
  then have "(of_nat (?T + 1) :: u64) = of_nat ?T" using mbx_invD(10) [OF inv] p(3) pc by simp
  then show False using T of_nat_u64_eq_iff [of "?T + 1" ?T] by simp
qed

lemma mbx_inv_take:
  assumes inv: "mbx_inv cap s" and cap: "ValidMailboxCapacity cap" and b: "mbx_bounded cap s"
    and pc: "consumer s = CMove w"
  shows "mbx_inv cap (s\<lparr>mb := set_slot (mb s) (of_nat (length (taken s))) \<lparr>sequence = of_nat (length (taken s) + 1), storage = None\<rparr>,
      consumer := CRelease w v, taken := taken s @ [reserved s ! length (taken s)]\<rparr>)" (is "mbx_inv cap ?s")
proof (rule mbx_invI)
  let ?T = "length (taken s)" and ?N = "length (reserved s)"
  have w: "w = of_nat ?T" "dequeue_position (mb s) = of_nat ?T" "?T < ?N"
    using mbx_invD(10) [OF inv] pc by simp_all
  have R: "released s = ?T" "released ?s = ?T" by (simp_all add: released_def pc)
  note sl = slotn_write [OF inv cap b w(3) le_refl, unfolded R]
  show "take (length (taken ?s)) (reserved ?s) = taken ?s"
    using mbx_invD(2) [OF inv] w(3) by (simp add: take_Suc_conv_app_nth)
  show "free_ok ?s (released ?s)" unfolding R
    by (rule free_ok_keep [OF mbx_invD(6) [OF inv]]) (use w(3) R mbx_invD(1) [OF inv] in \<open>simp add: sl\<close>)
  show "used_ok ?s (released ?s)" unfolding R used_ok_def
  proof (intro allI impI)
    fix q assume "?T \<le> q \<and> q < length (reserved ?s)"
    then have q: "?T \<le> q" "q < ?N" "q < ?T + cap" using mbx_invD(4) [OF inv] R by auto
    then have "cell_ok s q" using mbx_invD(7) [OF inv] R by (simp add: used_ok_def)
    then show "cell_ok ?s q" using q sl [OF q(1,3)] by (cases "q = ?T") (auto simp: cell_ok_def published_def)
  qed
  show "producer_ok ?s (released ?s) (producers ?s j)" for j
  proof -
    note nh = head_not_held [OF inv b pc, of j]
    have "producer_ok ?s ?T (producers s j)"
    proof (rule producer_ok_mono [where s = s and R = ?T and ys = "[]"])
      show "producer_ok s ?T (producers s j)" using mbx_invD(8) [OF inv, of j] by (simp add: R)
      fix q assume q: "holds (producers s j) (of_nat q)" "?T \<le> q" "q < ?N"
      then have "q \<noteq> ?T" using nh by auto
      then show "slotn (mb ?s) q = slotn (mb s) q" using sl window_positions [OF inv q(2,3)] R by simp
    qed (use nh in auto)
    then show ?thesis unfolding R by simp
  qed
  show "j = k" if "holds (producers ?s j) x" "holds (producers ?s k) x" for j k x
    using mbx_invD(9) [OF inv, of j x k] that by simp
  show "length (reserved ?s) \<le> released ?s + cap" unfolding R using mbx_invD(4) [OF inv] R by simp
qed (use mbx_invD(1,5,10) [OF inv] pc in simp_all)

lemma mbx_inv_move:
  assumes inv: "mbx_inv cap s" and cap: "ValidMailboxCapacity cap" and b: "mbx_bounded cap s"
    and pc: "consumer s = CMove w"
    and st: "TryPop_step (mb s) (consumer s) = (m', pc')"
  shows "mbx_inv cap (s\<lparr>mb := m', consumer := pc', taken := taken s @ newly_taken (consumer s) pc'\<rparr>)"
proof -
  let ?T = "length (taken s)"
  have w: "w = of_nat ?T" "?T < length (reserved s)" "sequence (slotn (mb s) ?T) = of_nat (?T + 1)"
    using mbx_invD(10) [OF inv] pc by simp_all
  have R: "released s = ?T" by (simp add: released_def pc)
  have "slot_at (mb s) w = \<lparr>sequence = of_nat (?T + 1), storage = Some (reserved s ! ?T)\<rparr>"
    using published_head [OF inv b R w(2,3)] mbx_bounds(2) [OF inv b] cap mbx_invD(1) [OF inv]
    by (simp add: w(1) slot_at_of_nat)
  then have "m' = set_slot (mb s) (of_nat ?T) \<lparr>sequence = of_nat (?T + 1), storage = None\<rparr>"
    "pc' = CRelease w (reserved s ! ?T)"
    using st pc by (auto simp: w(1))
  then show ?thesis using mbx_inv_take [OF inv cap b pc] pc by simp
qed

lemma mbx_inv_free:
  assumes inv: "mbx_inv cap s" and cap: "ValidMailboxCapacity cap" and b: "mbx_bounded cap s"
    and pc: "consumer s = CRelease w v" and T: "length (taken s) = R + 1"
  shows "mbx_inv cap (s\<lparr>mb := set_slot (mb s) (of_nat R) \<lparr>sequence = of_nat (R + cap), storage = None\<rparr>,
      consumer := CAdvance w v\<rparr>)" (is "mbx_inv cap ?s")
proof (rule mbx_invI)
  let ?T = "length (taken s)" and ?N = "length (reserved s)"
  have R: "released s = R" "released ?s = ?T" using T by (simp_all add: released_def pc)
  have capm: "Capacity (mb s) = cap" and N: "?N \<le> R + cap" "?T \<le> ?N"
    using mbx_invD(1,3,4) [OF inv] R by simp_all
  have R63: "R < 2 ^ 63" using mbx_bounds(2) [OF inv b] T by simp
  have sl: "slotn (mb ?s) q = slotn (mb s) q" if "?T \<le> q" "q < R + cap" for q
    using that T R63 cap ValidMailboxCapacity_pos [OF cap] by (simp add: slotn_set_slot_window [where r = R] capm)
  show "free_ok ?s (released ?s)" unfolding R
  proof (rule free_ok_keep [OF mbx_invD(6) [OF inv]], goal_cases)
    case (1 q)
    then have q: "?N \<le> q" "q < R + cap + 1" using capm T by simp_all
    show ?case
    proof (cases "q = R + cap")
      case True
      then show ?thesis using cap R63 by (simp add: slotn_set_slot capm)
    next
      case False
      then have "?T \<le> q" "q < R + cap" using q N by simp_all
      then show ?thesis using sl [of q] q(1) R capm by simp
    qed
  qed
  show "used_ok ?s (released ?s)" unfolding R used_ok_def
  proof (intro allI impI)
    fix q assume "?T \<le> q \<and> q < length (reserved ?s)"
    then have q: "?T \<le> q" "q < R + cap" "cell_ok s q" using N T R mbx_invD(7) [OF inv] by (auto simp: used_ok_def)
    from q(3) show "cell_ok ?s q" by (rule cell_ok_keep) (use sl [OF q(1,2)] in simp_all)
  qed
  show "producer_ok ?s (released ?s) (producers ?s j)" for j
  proof -
    have "producer_ok ?s ?T (producers s j)"
    proof (rule producer_ok_mono [where s = s and R = R and ys = "[]"])
      show "producer_ok s R (producers s j)" using mbx_invD(8) [OF inv, of j] by (simp add: R)
      fix q assume "holds (producers s j) (of_nat q)" "?T \<le> q" "q < ?N"
      then show "slotn (mb ?s) q = slotn (mb s) q" using N sl [of q] by simp
    qed (simp_all add: T del: One_nat_def)
    then show ?thesis unfolding R by simp
  qed
  show "j = k" if "holds (producers ?s j) x" "holds (producers ?s k) x" for j k x
    using mbx_invD(9) [OF inv, of j x k] that by simp
  show "length (reserved ?s) \<le> released ?s + cap" unfolding R using N T by simp
qed (use mbx_invD(1,2,3,5,10) [OF inv] pc in simp_all)

lemma mbx_inv_release:
  assumes inv: "mbx_inv cap s" and cap: "ValidMailboxCapacity cap" and b: "mbx_bounded cap s"
    and pc: "consumer s = CRelease w v"
    and st: "TryPop_step (mb s) (consumer s) = (m', pc')"
  shows "mbx_inv cap (s\<lparr>mb := m', consumer := pc', taken := taken s @ newly_taken (consumer s) pc'\<rparr>)"
proof -
  obtain R where T: "length (taken s) = R + 1" and w: "w = of_nat R"
    using mbx_invD(10) [OF inv] pc by (cases "taken s") simp_all
  have "published s R"
    using mbx_invD(3,7) [OF inv] T by (auto simp: used_ok_def cell_ok_def released_def pc)
  then have "slot_at (mb s) w = \<lparr>sequence = of_nat (R + 1), storage = None\<rparr>"
    using mbx_bounds(2) [OF inv b] cap T mbx_invD(1) [OF inv] by (simp add: w slot_at_of_nat published_def)
  with st pc have "m' = set_slot (mb s) (of_nat R) \<lparr>sequence = of_nat (R + cap), storage = None\<rparr>" "pc' = CAdvance w v"
    using mbx_invD(1) [OF inv] by (auto simp: w)
  then show ?thesis using mbx_inv_free [OF inv cap b pc T] pc by simp
qed

inductive_cases mailbox_stepE: "mailbox_step s s'"

lemma newly_stutter [simp]: "newly_reserved p p = []" "newly_taken c c = []"
  by (cases p; simp) (cases c; simp)

lemma mbx_inv_emplace:
  assumes inv: "mbx_inv cap s" and cap: "ValidMailboxCapacity cap"
    and st: "TryEmplace_step sp (mb s) (producers s i) = (m', pc')"
    and b: "mbx_bounded cap (s\<lparr>mb := m', producers := (producers s)(i := pc'),
      reserved := reserved s @ newly_reserved (producers s i) pc'\<rparr>)"
  shows "mbx_inv cap (s\<lparr>mb := m', producers := (producers s)(i := pc'),
      reserved := reserved s @ newly_reserved (producers s i) pc'\<rparr>)"
proof (cases "producers s i")
  case (PCompareExchange w v)
  with inv cap st b show ?thesis by (intro mbx_inv_cas)
next
  case (PReload v)
  with st have "m' = mb s" "pc' = PLoadSequence (enqueue_position (mb s)) v" by auto
  moreover have "mbx_inv cap (s\<lparr>producers := (producers s)(i := PLoadSequence (enqueue_position (mb s)) v)\<rparr>)"
    by (rule mbx_inv_producer [OF inv]) (use PReload mbx_invD(5) [OF inv] in auto)
  ultimately show ?thesis using PReload by simp
next
  case (PLoadSequence w v)
  then have "mbx_bounded cap s" using b by (simp add: mbx_bounded_def)
  with inv cap PLoadSequence st show ?thesis by (intro mbx_inv_load_sequence)
next
  case (PConstruct w v)
  then have "mbx_bounded cap s" using b by (simp add: mbx_bounded_def)
  with inv cap PConstruct st show ?thesis by (intro mbx_inv_construct)
next
  case (PPublish w)
  then have "mbx_bounded cap s" using b by (simp add: mbx_bounded_def)
  with inv cap PPublish st show ?thesis by (intro mbx_inv_publish)
next
  case PIdle
  then have "pc' = producers s i" "m' = mb s" using st by simp_all
  with inv show ?thesis by simp
next
  case (PReturn r)
  then have "pc' = producers s i" "m' = mb s" using st by simp_all
  with inv show ?thesis by simp
qed

lemma mbx_inv_pop:
  assumes inv: "mbx_inv cap s" and cap: "ValidMailboxCapacity cap" and b: "mbx_bounded cap s"
    and st: "TryPop_step (mb s) (consumer s) = (m', pc')"
  shows "mbx_inv cap (s\<lparr>mb := m', consumer := pc', taken := taken s @ newly_taken (consumer s) pc'\<rparr>)"
proof (cases "consumer s")
  case (CLoadSequence w)
  with assms show ?thesis by (intro mbx_inv_pop_load)
next
  case (CMove w)
  with assms show ?thesis by (intro mbx_inv_move)
next
  case (CRelease w v)
  with assms show ?thesis by (intro mbx_inv_release)
next
  case (CAdvance w v)
  with assms show ?thesis by (intro mbx_inv_advance)
next
  case CIdle
  then have "pc' = consumer s" "m' = mb s" using st by simp_all
  with inv show ?thesis by simp
next
  case (CReturn r)
  then have "pc' = consumer s" "m' = mb s" using st by simp_all
  with inv show ?thesis by simp
next
  case CFault
  with mbx_invD(10) [OF inv] show ?thesis by simp
qed

lemma mbx_inv_step:
  assumes "mailbox_step s s'" and "mbx_inv cap s" and cap: "ValidMailboxCapacity cap"
    and "mbx_bounded cap s'"
  shows "mbx_inv cap s'"
  using assms(1,2,4)
proof (induction rule: mailbox_step.induct)
  case (call_emplace s i v)
  show ?case
    by (rule mbx_inv_producer) (use call_emplace mbx_invD(5) [OF call_emplace(2)] in auto)
next
  case (emplace spurious s i m' pc')
  show ?case by (rule mbx_inv_emplace [OF emplace(2) cap emplace(1,3)])
next
  case (return_emplace s i r)
  show ?case by (rule mbx_inv_producer) (use return_emplace in auto)
next
  case (call_pop s)
  show ?case
    by (rule mbx_inv_consumer_local)
      (use call_pop mbx_invD(10) [OF call_pop(2)] in \<open>auto simp: released_def\<close>)
next
  case (pop s m' pc')
  show ?case by (rule mbx_inv_pop [OF pop(2) cap _ pop(1)]) (use pop(3) in \<open>simp add: mbx_bounded_def\<close>)
next
  case (return_pop s r)
  show ?case
    by (rule mbx_inv_consumer_local)
      (use return_pop mbx_invD(10) [OF return_pop(2)] in \<open>auto simp: released_def\<close>)
qed

lemma mailbox_step_reserved:
  "mailbox_step s s' \<Longrightarrow> \<exists>ys. reserved s' = reserved s @ ys"
  by (erule mailbox_stepE) auto

theorem mbx_reachable_inv:
  assumes "mbx_reachable cap s" and cap: "ValidMailboxCapacity cap" and "mbx_bounded cap s"
  shows "mbx_inv cap s"
  using assms(1,3)
proof (induction rule: mbx_reachable.induct)
  case start
  show ?case by (rule mbx_inv_init [OF cap])
next
  case (step s s')
  then have "mbx_bounded cap s"
    using mailbox_step_reserved [OF step.hyps(2)] by (auto simp: mbx_bounded_def)
  with step show ?case by (blast intro: mbx_inv_step cap)
qed

end
