(* ===== verification/Simulation.thy ===== *)
theory Simulation
  imports Main
begin

text \<open>
  Refinement between step relations, used wherever one component of the server implements what another is
  modelled with. A step of the lower system is any number of steps of the upper one, seen through an
  abstraction of the states.
\<close>

locale simulation =
  fixes reach :: "'c \<Rightarrow> bool" and step :: "'c \<Rightarrow> 'c \<Rightarrow> bool"
    and view :: "'c \<Rightarrow> 'a" and astep :: "'a \<Rightarrow> 'a \<Rightarrow> bool"
  assumes step_reach: "reach x \<Longrightarrow> step x y \<Longrightarrow> reach y"
    and step_sim: "reach x \<Longrightarrow> step x y \<Longrightarrow> astep\<^sup>*\<^sup>* (view x) (view y)"
begin

lemma run_reach: "step\<^sup>*\<^sup>* x y \<Longrightarrow> reach x \<Longrightarrow> reach y"
  by (induction rule: rtranclp_induct) (auto intro: step_reach)

lemma run_sim: "step\<^sup>*\<^sup>* x y \<Longrightarrow> reach x \<Longrightarrow> astep\<^sup>*\<^sup>* (view x) (view y)"
proof (induction rule: rtranclp_induct)
  case (step y z)
  then have "reach y" by (auto intro: run_reach)
  with step show ?case by (meson rtranclp_trans step_sim)
qed simp

text \<open>What the upper system keeps, the lower one keeps.\<close>

lemma run_invariant:
  assumes "step\<^sup>*\<^sup>* x y" and "reach x" and "P (view x)" and "\<And>a b. astep a b \<Longrightarrow> P a \<Longrightarrow> P b"
  shows "P (view y)"
  using run_sim [OF assms(1,2)] assms(3) by (induction rule: rtranclp_induct) (auto intro: assms(4))

end

text \<open>Two refinements in a row.\<close>

locale simulation_chain =
  lower: simulation reach step view mstep + upper: simulation mreach mstep mview astep
  for reach :: "'c \<Rightarrow> bool" and step :: "'c \<Rightarrow> 'c \<Rightarrow> bool" and view :: "'c \<Rightarrow> 'b" and mstep :: "'b \<Rightarrow> 'b \<Rightarrow> bool"
    and mreach :: "'b \<Rightarrow> bool" and mview :: "'b \<Rightarrow> 'a" and astep :: "'a \<Rightarrow> 'a \<Rightarrow> bool" +
  assumes view_reach: "reach x \<Longrightarrow> mreach (view x)"

sublocale simulation_chain \<subseteq> whole: simulation reach step "\<lambda>x. mview (view x)" astep
proof
  show "reach y" if "reach x" "step x y" for x y using that by (rule lower.step_reach)
  show "astep\<^sup>*\<^sup>* (mview (view x)) (mview (view y))" if "reach x" "step x y" for x y
    using lower.step_sim [OF that] view_reach [OF that(1)] by (rule upper.run_sim)
qed

end
