(* ===== verification/Mailbox_Queue.thy ===== *)
theory Mailbox_Queue
  imports Mailbox_Invariant Simulation
begin

text \<open>
  What the mailbox promises its clients: the refinement to a queue of cells, the interface
  \<open>mpsc_queue\<close> with its interpretation on the session mailbox, the destructor, and the properties
  of the mailbox.
\<close>

subsection \<open>Abstract queue of cells\<close>

text \<open>What clients see: a queue of cells, each with its value and whether it has been published. A
  producer first reserves a cell at the end and later publishes it, the consumer takes the head
  once it is published.\<close>

type_synonym 'a cell = "'a \<times> bool"

inductive cell_step :: "nat \<Rightarrow> 'a cell list \<Rightarrow> 'a cell list \<Rightarrow> bool" for cap :: nat where
  stutter: "cell_step cap cs cs"
| reserve: "length cs < cap \<Longrightarrow> cell_step cap cs (cs @ [(v, False)])"
| publish: "k < length cs \<Longrightarrow> cs ! k = (v, False) \<Longrightarrow> cell_step cap cs (cs[k := (v, True)])"
| take: "cell_step cap ((v, True) # cs) cs"

declare cell_step.stutter [simp]

definition held :: "'a mbx \<Rightarrow> nat \<Rightarrow> bool" where
  "held s p \<longleftrightarrow> (\<exists>i. holds (producers s i) (of_nat p))"

definition cells :: "'a mbx \<Rightarrow> 'a cell list" where
  "cells s = map (\<lambda>p. (reserved s ! p, \<not> held s p)) [length (taken s)..<length (reserved s)]"

lemma length_cells [simp]: "length (cells s) = length (reserved s) - length (taken s)"
  by (simp add: cells_def)

lemma held_iff_sequence:
  assumes inv: "mbx_inv cap s" and b: "mbx_bounded cap s"
    and p: "length (taken s) \<le> p" "p < length (reserved s)"
  shows "held s p \<longleftrightarrow> sequence (slotn (mb s) p) = of_nat p"
proof
  have small: "q < 2 ^ 63" if "q < length (reserved s)" for q
    using that mbx_bounds(1) [OF inv b] by simp
  show "sequence (slotn (mb s) p) = of_nat p" if "held s p"
  proof -
    from that obtain i where "holds (producers s i) (of_nat p)" by (auto simp: held_def)
    then obtain q where "q < length (reserved s)" "(of_nat p :: u64) = of_nat q"
        "sequence (slotn (mb s) q) = of_nat q"
      by (rule holds_position [OF inv])
    then show ?thesis using small p(2) of_nat_u64_eq_iff [of p q] by simp
  qed
  show "held s p" if seq: "sequence (slotn (mb s) p) = of_nat p"
  proof -
    have "\<not> published s p"
      using seq mbx_bounds(1) [OF inv b] p(2) of_nat_u64_eq_iff [of p "p + 1"]
      by (auto simp: published_def)
    then show ?thesis
      using mbx_invD(7) [OF inv, unfolded used_ok_def cell_ok_def, rule_format, of p] p released_taken(1) [of s]
      by (simp add: held_def)
  qed
qed

lemma cells_cong:
  assumes "reserved s' = reserved s" "taken s' = taken s"
    and "\<And>p. p < length (reserved s) \<Longrightarrow> held s' p = held s p"
  shows "cells s' = cells s"
  using assms by (simp add: cells_def)

lemma cells_producer:
  assumes "reserved s' = reserved s" "taken s' = taken s" and "producers s' = (producers s)(i := pc)"
    and "\<And>w. holds pc w = holds (producers s i) w"
  shows "cells s' = cells s"
proof -
  have "holds (producers s' j) w = holds (producers s j) w" for j w
    using assms(3,4) by simp
  then show ?thesis using assms(1,2) by (intro cells_cong) (simp_all add: held_def)
qed

lemma cells_reserve:
  assumes inv: "mbx_inv cap s" and b: "length (reserved s) + 1 < 2 ^ 63"
    and pc: "producers s i = PCompareExchange w v" and w: "w = of_nat (length (reserved s))"
  shows "cells (s\<lparr>mb := m, producers := (producers s)(i := PConstruct w v), reserved := reserved s @ [v]\<rparr>)
    = cells s @ [(v, False)]" (is "cells ?s = _")
proof -
  let ?N = "length (reserved s)"
  have "held ?s p = held s p" if "p < ?N" for p
  proof -
    have "w \<noteq> of_nat p" using that b of_nat_u64_eq_iff [of ?N p] by (simp add: w)
    then have "holds (producers ?s j) (of_nat p) = holds (producers s j) (of_nat p)" for j
      by (simp add: pc)
    then show ?thesis by (simp add: held_def)
  qed
  moreover have "held ?s ?N" by (auto simp: held_def w intro!: exI [of _ i])
  ultimately show ?thesis
    using mbx_invD(3) [OF inv] by (simp add: cells_def nth_append)
qed

lemma cells_publish_at:
  assumes inv: "mbx_inv cap s" and b: "mbx_bounded cap s" and pc: "producers s i = PPublish w"
  obtains p where "p < length (reserved s)" "w = of_nat p" "length (taken s) \<le> p"
    and "cells s ! (p - length (taken s)) = (reserved s ! p, False)"
    and "cells (s\<lparr>mb := m, producers := (producers s)(i := PReturn True)\<rparr>) = (cells s)[p - length (taken s) := (reserved s ! p, True)]"
proof -
  let ?s = "s\<lparr>mb := m, producers := (producers s)(i := PReturn True)\<rparr>"
  let ?T = "length (taken s)" and ?N = "length (reserved s)"
  from mbx_invD(8) [OF inv, of i] pc obtain p where p: "p < ?N" "w = of_nat p" "?T \<le> p" by auto
  have small: "q < 2 ^ 63" if "q < ?N" for q using that mbx_bounds(1) [OF inv b] by simp
  have other: "held ?s q = held s q" if q: "q < ?N" "q \<noteq> p" for q
  proof -
    have "w \<noteq> of_nat q" using q small p of_nat_u64_eq_iff [of p q] by auto
    then have "holds (producers ?s j) (of_nat q) = holds (producers s j) (of_nat q)" for j
      by (simp add: pc)
    then show ?thesis by (simp add: held_def)
  qed
  have "\<not> held ?s p"
  proof
    assume "held ?s p"
    then obtain j where "j \<noteq> i" "holds (producers s j) (of_nat p)"
      by (auto simp: held_def split: if_splits)
    then show False using mbx_invD(9) [OF inv, of j "of_nat p" i] pc p by simp
  qed
  moreover have "held s p" using pc p by (auto simp: held_def intro!: exI [of _ i])
  ultimately have "cells s ! (p - ?T) = (reserved s ! p, False)"
    and "cells ?s = (cells s)[p - ?T := (reserved s ! p, True)]"
    using p other by (auto simp: cells_def nth_list_update intro!: nth_equalityI)
  then show thesis using that p by blast
qed

lemma cells_publish:
  assumes "mbx_inv cap s" and "mbx_bounded cap s" and "producers s i = PPublish w"
  shows "cell_step cap (cells s) (cells (s\<lparr>mb := m, producers := (producers s)(i := PReturn True)\<rparr>))"
  by (rule cells_publish_at [OF assms, of m]) (use cell_step.publish [of _ "cells s" _ cap] in auto)

lemma cells_take:
  assumes inv: "mbx_inv cap s" and b: "mbx_bounded cap s" and cap: "ValidMailboxCapacity cap"
    and pc: "consumer s = CMove w" and st: "TryPop_step (mb s) (consumer s) = (m', pc')"
  shows "cells s = (reserved s ! length (taken s), True) #
    cells (s\<lparr>mb := m', consumer := pc', taken := taken s @ newly_taken (consumer s) pc'\<rparr>)"
    (is "_ = _ # cells ?s")
proof -
  let ?T = "length (taken s)"
  have w: "w = of_nat ?T" "?T < length (reserved s)" and R: "released s = ?T"
    and seq: "sequence (slotn (mb s) ?T) = of_nat (?T + 1)"
    using mbx_invD(10) [OF inv] pc by (simp_all add: released_def)
  have T: "?T < 2 ^ 63" "?T + 1 < 2 ^ 63" using mbx_bounds(2) [OF inv b] by simp_all
  have nh: "\<not> held s ?T"
    using held_iff_sequence [OF inv b _ w(2)] seq T of_nat_u64_eq_iff [of "?T + 1" ?T] by simp
  have "storage (slot_at (mb s) w) = Some (reserved s ! ?T)"
    using published_head [OF inv b R w(2) seq] T cap mbx_invD(1) [OF inv] by (simp add: w slot_at_of_nat)
  then have "length (taken ?s) = ?T + 1" using st pc by auto
  moreover have "held ?s p = held s p" for p by (simp add: held_def)
  ultimately show ?thesis using w(2) nh by (simp add: cells_def upt_conv_Cons)
qed

lemma cells_emplace:
  assumes inv: "mbx_inv cap s" and b: "mbx_bounded cap s"
    and st: "TryEmplace_step sp (mb s) (producers s i) = (m', pc')"
    and b': "length (reserved s) + 1 < 2 ^ 63"
  shows "cell_step cap (cells s) (cells (s\<lparr>mb := m', producers := (producers s)(i := pc'),
      reserved := reserved s @ newly_reserved (producers s i) pc'\<rparr>))" (is "cell_step cap _ (cells ?s)")
proof -
  have same: "cells ?s = cells s"
    if "\<And>w. holds pc' w = holds (producers s i) w" "newly_reserved (producers s i) pc' = []"
    by (rule cells_producer [where i = i and pc = pc']) (simp_all add: that)
  show ?thesis
  proof (cases "producers s i")
    case (PCompareExchange w v)
    show ?thesis
    proof (cases "\<not> sp \<and> enqueue_position (mb s) = w")
      case True
      then have w: "w = of_nat (length (reserved s))" using mbx_invD(5) [OF inv] by simp
      have "length (reserved s) < released s + cap"
        using mbx_invD(8) [OF inv, of i] PCompareExchange mbx_invD(1,4) [OF inv] b'
        by (auto simp: w of_nat_u64_eq_iff)
      then have "length (cells s) < cap" using released_taken(1) [of s] mbx_invD(3) [OF inv] by simp
      then have "cell_step cap (cells s) (cells s @ [(v, False)])" by (rule cell_step.reserve)
      then show ?thesis
        using cells_reserve [OF inv b' PCompareExchange w] PCompareExchange True st by auto
    qed (use same PCompareExchange st in auto)
  next
    case (PPublish w)
    then show ?thesis using cells_publish [OF inv b PPublish, of m'] st by auto
  next
    case (PLoadSequence w v)
    then show ?thesis
      using same st by (auto simp: Let_def split: if_splits intro: cell_step.stutter)
  qed (use same st in auto)
qed

lemma cells_pop:
  assumes inv: "mbx_inv cap s" and b: "mbx_bounded cap s" and cap: "ValidMailboxCapacity cap"
    and st: "TryPop_step (mb s) (consumer s) = (m', pc')"
  shows "cell_step cap (cells s)
    (cells (s\<lparr>mb := m', consumer := pc', taken := taken s @ newly_taken (consumer s) pc'\<rparr>))"
    (is "cell_step cap _ (cells ?s)")
proof (cases "\<exists>w. consumer s = CMove w")
  case True
  then show ?thesis using cells_take [OF inv b cap _ st] by (auto intro: cell_step.take)
next
  case False
  then have "newly_taken (consumer s) pc' = []" by (cases "consumer s") auto
  then have "cells ?s = cells s" by (intro cells_cong) (simp_all add: held_def)
  then show ?thesis by (simp add: cell_step.stutter)
qed

lemma cells_step:
  assumes "mailbox_step s s'" and "mbx_inv cap s" and "mbx_bounded cap s" and "mbx_bounded cap s'"
    and cap: "ValidMailboxCapacity cap"
  shows "cell_step cap (cells s) (cells s')"
  using assms(1-4)
proof (induction rule: mailbox_step.induct)
  case (call_emplace s i v)
  then have "cells (s\<lparr>producers := (producers s)(i := PLoadSequence (enqueue_position (mb s)) v)\<rparr>) = cells s"
    by (intro cells_producer [where i = i and s = s and pc = "PLoadSequence (enqueue_position (mb s)) v"])
      simp_all
  then show ?case by (simp add: cell_step.stutter)
next
  case (emplace spurious s i m' pc')
  from mbx_bounds(1) [OF emplace(2,3)] show ?case
    by (rule cells_emplace [OF emplace(2,3,1)])
next
  case (return_emplace s i r)
  then have "cells (s\<lparr>producers := (producers s)(i := PIdle)\<rparr>) = cells s"
    by (intro cells_producer [where i = i and s = s and pc = PIdle]) simp_all
  then show ?case by (simp add: cell_step.stutter)
next
  case (pop s m' pc')
  show ?case by (rule cells_pop [OF pop(2,3) cap pop(1)])
next
  case (call_pop s)
  have "cells (s\<lparr>consumer := c\<rparr>) = cells s" for c by (intro cells_cong) (simp_all add: held_def)
  then show ?case by (simp add: cell_step.stutter)
next
  case (return_pop s r)
  have "cells (s\<lparr>consumer := c\<rparr>) = cells s" for c by (intro cells_cong) (simp_all add: held_def)
  then show ?case by (simp add: cell_step.stutter)
qed

text \<open>The contract clients rely on. Whatever implements it, its contents never exceed the capacity
  and evolve by cell steps.\<close>

locale mpsc_queue =
  fixes cap :: nat and view :: "'s \<Rightarrow> 'a cell list" and reach :: "'s \<Rightarrow> bool"
    and step :: "'s \<Rightarrow> 's \<Rightarrow> bool"
  assumes next_reach: "reach s \<Longrightarrow> step s s' \<Longrightarrow> reach s'"
    and step_view: "reach s \<Longrightarrow> step s s' \<Longrightarrow> cell_step cap (view s) (view s')"
begin

lemma cell_step_bound: "cell_step cap cs cs' \<Longrightarrow> length cs \<le> cap \<Longrightarrow> length cs' \<le> cap"
  by (induction rule: cell_step.induct) auto

end

sublocale mpsc_queue \<subseteq> simulation reach step view "cell_step cap"
  by unfold_locales (auto intro: next_reach step_view)

context mpsc_queue
begin

lemma run_bound: "step\<^sup>*\<^sup>* s s' \<Longrightarrow> reach s \<Longrightarrow> length (view s) \<le> cap \<Longrightarrow> length (view s') \<le> cap"
  by (rule run_invariant [where P = "\<lambda>cs. length cs \<le> cap"]) (auto intro: cell_step_bound)

end

interpretation mbq: mpsc_queue 1024 cells "mbx_reachable 1024"
  "\<lambda>s s'. mailbox_step s s' \<and> mbx_bounded 1024 s'"
proof
  have cap: "ValidMailboxCapacity 1024"
    by (auto simp: ValidMailboxCapacity_def intro: exI [of _ 10])
  show "mbx_reachable 1024 s'" if "mbx_reachable 1024 s" "mailbox_step s s' \<and> mbx_bounded 1024 s'"
    for s s' :: "'a mbx"
    using that by (auto intro: mbx_reachable.step)
  show "cell_step 1024 (cells s) (cells s')"
    if "mbx_reachable 1024 s" "mailbox_step s s' \<and> mbx_bounded 1024 s'" for s s' :: "'a mbx"
  proof -
    have "mbx_bounded 1024 s"
      using that mailbox_step_reserved [of s s'] by (auto simp: mbx_bounded_def)
    then show ?thesis using that cap by (auto intro!: cells_step mbx_reachable_inv)
  qed
qed

subsection \<open>Destruction\<close>

text \<open>The destructor's loop; the list collects the destroyed values. Destroying a slot without a
  value, or running out of fuel, is \<open>None\<close>.\<close>

fun DestroyRemaining :: "nat \<Rightarrow> 'a mailbox \<Rightarrow> ('a mailbox \<times> 'a list) option" where
  "DestroyRemaining 0 m = None"
| "DestroyRemaining (Suc n) m =
     (let position = dequeue_position m; slot = slot_at m position
      in if intptr_difference (sequence slot) (position + 1) \<noteq> 0 then Some (m, [])
         else case storage slot of
           None \<Rightarrow> None
         | Some v \<Rightarrow> map_option (apsnd ((#) v)) (DestroyRemaining n
             ((set_slot m position \<lparr>sequence = position + of_nat (Capacity m), storage = None\<rparr>)
                \<lparr>dequeue_position := position + 1\<rparr>)))"

lemma slot_index_less:
  assumes "ValidMailboxCapacity cap"
  shows "slot_index cap w < cap"
proof -
  have "unat w < 2 ^ 64" by (rule order_less_le_trans [OF unsigned_less]) simp
  then show ?thesis
    using slot_index_of_nat [OF assms, of "unat w"] ValidMailboxCapacity_pos [OF assms] by simp
qed

lemma slot_at_set_slot [simp]:
  "ValidMailboxCapacity (Capacity m) \<Longrightarrow> slot_at (set_slot m w x) w = x"
  by (simp add: slot_at_def set_slot_def slot_index_less)

lemma set_slot_set_slot [simp]: "set_slot (set_slot m w x) w y = set_slot m w y"
  by (simp add: set_slot_def)

text \<open>One iteration is one uninterrupted \<^verbatim>\<open>TryPop\<close>.\<close>

lemma head_published:
  assumes inv: "mbx_inv cap s" and b: "mbx_bounded cap s" and cap: "ValidMailboxCapacity cap"
    and idle: "consumer s = CIdle" and T: "length (taken s) < length (reserved s)"
    and nh: "\<not> held s (length (taken s))"
  shows "slot_at (mb s) (dequeue_position (mb s)) =
    \<lparr>sequence = dequeue_position (mb s) + 1, storage = Some (reserved s ! length (taken s))\<rparr>"
proof -
  let ?T = "length (taken s)"
  have R: "released s = ?T" and w: "dequeue_position (mb s) = of_nat ?T"
    using mbx_invD(10) [OF inv] idle by (simp_all add: released_def)
  have "sequence (slotn (mb s) ?T) \<noteq> of_nat ?T" using held_iff_sequence [OF inv b _ T] nh by simp
  then have "sequence (slotn (mb s) ?T) = of_nat (?T + 1)"
    using mbx_inv_seq_cases [OF inv, of ?T] R ValidMailboxCapacity_pos [OF cap] by auto
  then show ?thesis
    using published_head [OF inv b R T] mbx_bounds(2) [OF inv b] mbx_invD(1) [OF inv] cap
    by (simp add: w slot_at_of_nat add.commute)
qed

lemma pop_once:
  assumes inv: "mbx_inv cap s" and b: "mbx_bounded cap s" and cap: "ValidMailboxCapacity cap"
    and idle: "consumer s = CIdle"
    and at: "slot_at (mb s) (dequeue_position (mb s)) = \<lparr>sequence = dequeue_position (mb s) + 1, storage = Some v\<rparr>"
  defines "w \<equiv> dequeue_position (mb s)"
  defines "s' \<equiv> s\<lparr>mb := (set_slot (mb s) w \<lparr>sequence = w + of_nat cap, storage = None\<rparr>)
      \<lparr>dequeue_position := w + 1\<rparr>, taken := taken s @ [v]\<rparr>"
  shows "mbx_inv cap s'"
proof -
  note at' = at [folded w_def]
  define m1 where "m1 = set_slot (mb s) w ((slot_at (mb s) w)\<lparr>storage := None\<rparr>)"
  define m2 where "m2 = set_slot (mb s) w \<lparr>sequence = w + of_nat cap, storage = None\<rparr>"
  define s1 where "s1 = s\<lparr>consumer := CLoadSequence w\<rparr>"
  define s2 where "s2 = s\<lparr>consumer := CMove w\<rparr>"
  define s3 where "s3 = s\<lparr>mb := m1, consumer := CRelease w v, taken := taken s @ [v]\<rparr>"
  define s4 where "s4 = s\<lparr>mb := m2, consumer := CAdvance w v, taken := taken s @ [v]\<rparr>"
  define s5 where "s5 = s\<lparr>mb := m2\<lparr>dequeue_position := w + 1\<rparr>, consumer := CReturn (Some v), taken := taken s @ [v]\<rparr>"
  have "mailbox_step s s1"
    using mailbox_step.call_pop [of s] idle by (simp add: s1_def w_def)
  moreover have "mailbox_step s1 s2"
    using mailbox_step.pop [of s1 "mb s" "CMove w"] at' by (simp add: s1_def s2_def intptr_difference_def)
  moreover have "mailbox_step s2 s3"
    using mailbox_step.pop [of s2 m1 "CRelease w v"] at' by (simp add: s2_def s3_def m1_def)
  moreover have "mailbox_step s3 s4"
    using mailbox_step.pop [of s3 m2 "CAdvance w v"] mbx_invD(1) [OF inv] cap at' by (simp add: s3_def s4_def m1_def m2_def)
  moreover have "mailbox_step s4 s5"
    using mailbox_step.pop [of s4 "m2\<lparr>dequeue_position := w + 1\<rparr>" "CReturn (Some v)"] by (simp add: s4_def s5_def)
  moreover have "s5\<lparr>consumer := CIdle\<rparr> = s'" using idle by (cases s) (simp add: s5_def s'_def m2_def)
  then have "mailbox_step s5 s'" using mailbox_step.return_pop [of s5 "Some v"] by (simp add: s5_def)
  moreover have "mbx_bounded cap s1" "mbx_bounded cap s2" "mbx_bounded cap s3" "mbx_bounded cap s4"
      "mbx_bounded cap s5" "mbx_bounded cap s'"
    using b by (simp_all add: mbx_bounded_def s1_def s2_def s3_def s4_def s5_def s'_def)
  ultimately show "mbx_inv cap s'" using inv cap by (meson mbx_inv_step)
qed

text \<open>When everything reserved was taken and released, no slot holds a value.\<close>

lemma empty_slots:
  assumes inv: "mbx_inv cap s" and "released s = length (reserved s)" and i: "i < cap"
  shows "storage (slots (mb s) ! i) = None"
proof -
  have "0 < cap" using i by simp
  then obtain p where p: "released s \<le> p" "p < released s + cap" "p mod cap = i mod cap"
    by (rule window_representative [where R = "released s" and p = i]) blast
  then have "slotn (mb s) p = \<lparr>sequence = of_nat p, storage = None\<rparr>"
    using mbx_invD(1,6) [OF inv] assms(2) by (simp add: free_ok_def)
  then show ?thesis using p(3) i mbx_invD(1) [OF inv] by (simp add: slotn_def)
qed

lemma DestroyRemaining_run:
  assumes "mbx_inv cap s" and "mbx_bounded cap s" and cap: "ValidMailboxCapacity cap"
    and "consumer s = CIdle" and "\<And>p. \<not> held s p"
    and "length (reserved s) - length (taken s) < n"
  shows "\<exists>m'. DestroyRemaining n (mb s) = Some (m', drop (length (taken s)) (reserved s)) \<and>
    Capacity m' = cap \<and> (\<forall>i<cap. storage (slots m' ! i) = None)"
  using assms(1,2,4,5,6)
proof (induction n arbitrary: s)
  case (Suc n)
  note inv = Suc.prems(1)
  let ?T = "length (taken s)" and ?N = "length (reserved s)" and ?w = "dequeue_position (mb s)"
  have R: "released s = ?T" and w: "?w = of_nat ?T"
    using mbx_invD(10) [OF inv] by (simp_all add: released_def Suc.prems)
  have c: "Capacity (mb s) = cap" by (rule mbx_invD(1) [OF inv])
  show ?case
  proof (cases "?T < ?N")
    case True
    let ?s' = "s\<lparr>mb := (set_slot (mb s) ?w \<lparr>sequence = ?w + of_nat cap, storage = None\<rparr>)
      \<lparr>dequeue_position := ?w + 1\<rparr>, taken := taken s @ [reserved s ! length (taken s)]\<rparr>"
    note at = head_published [OF inv Suc.prems(2) cap Suc.prems(3) True Suc.prems(4)]
    note inv' = pop_once [OF inv Suc.prems(2) cap Suc.prems(3) at]
    have "\<exists>m'. DestroyRemaining n (mb ?s') = Some (m', drop (length (taken ?s')) (reserved ?s')) \<and>
      Capacity m' = cap \<and> (\<forall>i<cap. storage (slots m' ! i) = None)"
      by (rule Suc.IH [OF inv']) (use Suc.prems True in \<open>auto simp: mbx_bounded_def held_def\<close>)
    then show ?thesis
      using at True by (auto simp: Let_def c Cons_nth_drop_Suc intptr_difference_def)
  next
    case False
    then have N: "?N = ?T" using mbx_invD(3) [OF inv] by simp
    have "intptr_difference (sequence (slot_at (mb s) (of_nat ?T))) (of_nat ?T + 1) \<noteq> 0"
      using seq_published [OF inv Suc.prems(2) cap R] False mbx_bounds(2) [OF inv Suc.prems(2)] cap
      by (auto simp: slot_at_of_nat c)
    then have "DestroyRemaining (Suc n) (mb s) = Some (mb s, [])" by (simp add: Let_def w)
    then show ?thesis using N R c empty_slots [OF inv] by simp
  qed
qed simp

subsection \<open>Schedules\<close>

text \<open>An executable view of the interleaving, to build concrete executions.\<close>

datatype 'a event =
    CallEmplace nat 'a
  | Emplace bool nat
  | ReturnEmplace nat
  | CallPop
  | Pop
  | ReturnPop

fun run_event :: "'a event \<Rightarrow> 'a mbx \<Rightarrow> 'a mbx option" where
  "run_event (CallEmplace i v) s = (case producers s i of
     PIdle \<Rightarrow> Some (s\<lparr>producers := (producers s)(i := PLoadSequence (enqueue_position (mb s)) v)\<rparr>)
   | _ \<Rightarrow> None)"
| "run_event (Emplace spurious i) s =
     (let (m', pc') = TryEmplace_step spurious (mb s) (producers s i)
      in Some (s\<lparr>mb := m', producers := (producers s)(i := pc'),
           reserved := reserved s @ newly_reserved (producers s i) pc'\<rparr>))"
| "run_event (ReturnEmplace i) s = (case producers s i of
     PReturn r \<Rightarrow> Some (s\<lparr>producers := (producers s)(i := PIdle)\<rparr>) | _ \<Rightarrow> None)"
| "run_event CallPop s = (case consumer s of
     CIdle \<Rightarrow> Some (s\<lparr>consumer := CLoadSequence (dequeue_position (mb s))\<rparr>) | _ \<Rightarrow> None)"
| "run_event Pop s =
     (let (m', pc') = TryPop_step (mb s) (consumer s)
      in Some (s\<lparr>mb := m', consumer := pc', taken := taken s @ newly_taken (consumer s) pc'\<rparr>))"
| "run_event ReturnPop s = (case consumer s of
     CReturn r \<Rightarrow> Some (s\<lparr>consumer := CIdle\<rparr>) | _ \<Rightarrow> None)"

fun run_events :: "'a event list \<Rightarrow> 'a mbx \<Rightarrow> 'a mbx option" where
  "run_events [] s = Some s"
| "run_events (e # es) s = (case run_event e s of None \<Rightarrow> None | Some s' \<Rightarrow> run_events es s')"

lemma run_event_step: "run_event e s = Some s' \<Longrightarrow> mailbox_step s s'"
  by (cases e)
    (auto split: producer.splits consumer.splits prod.splits intro: mailbox_step.intros)

lemma run_events_reachable:
  "run_events es s = Some s' \<Longrightarrow> mbx_reachable cap s \<Longrightarrow> mbx_reachable cap s'"
  by (induction es s rule: run_events.induct)
    (auto split: option.splits dest: run_event_step intro: mbx_reachable.step)

lemmas run_init_reachable = run_events_reachable [OF _ mbx_reachable.start]

lemmas mailbox_eval = init_mbx_def BoundedMpscMailbox_def slot_at_def set_slot_def slot_index_def
  kIndexMask_def intptr_difference_def Let_def

text \<open>One producer emplaces a value without interference; the consumer pops one.\<close>

abbreviation emplace_events :: "nat \<Rightarrow> 'a \<Rightarrow> 'a event list" where
  "emplace_events i v \<equiv> CallEmplace i v # replicate 4 (Emplace False i) @ [ReturnEmplace i]"

abbreviation pop_events :: "'a event list" where
  "pop_events \<equiv> CallPop # replicate 4 Pop @ [ReturnPop]"

lemma ValidMailboxCapacity_2: "ValidMailboxCapacity 2"
  by (auto simp: ValidMailboxCapacity_def intro: exI [of _ 1])

subsection \<open>Properties\<close>

text \<open>C4: First in, first out, without loss or duplication: in every reachable state of any
  interleaving of producers and consumer, the values the consumer has taken are exactly the first
  of the values whose positions were reserved, in reservation order, and no more than the capacity
  are in the mailbox.\<close>

theorem mailbox_fifo:
  assumes "ValidMailboxCapacity cap" and "mbx_reachable cap s" and "mbx_bounded cap s"
  shows "taken s = take (length (taken s)) (reserved s) \<and>
    length (reserved s) \<le> length (taken s) + cap"
proof (rule conjI)
  have inv: "mbx_inv cap s" by (rule mbx_reachable_inv [OF assms(2,1,3)])
  show "taken s = take (length (taken s)) (reserved s)" using mbx_invD(2) [OF inv] by simp
  show "length (reserved s) \<le> length (taken s) + cap"
    using mbx_invD(4) [OF inv] released_taken(1) [of s] by simp
qed

lemma fifo_run:
  "\<exists>s. run_events (emplace_events 0 (7::nat) @ emplace_events 1 8 @ pop_events) (init_mbx 2) = Some s \<and>
    reserved s = [7, 8] \<and> taken s = [7]"
  by (simp add: mailbox_eval eval_nat_numeral)

theorem mailbox_fifo_witness:
  "\<exists>s. mbx_reachable 2 s \<and> reserved s = [7, 8 :: nat] \<and> taken s = take 1 [7, 8]"
proof -
  obtain s where s: "run_events (emplace_events 0 (7::nat) @ emplace_events 1 8 @ pop_events) (init_mbx 2)
      = Some s" "reserved s = [7, 8]" "taken s = [7]"
    using fifo_run by blast
  have r: "mbx_reachable 2 s" by (rule run_init_reachable [OF s(1)])
  have "mbx_bounded 2 s" using s by (simp add: mbx_bounded_def)
  from mailbox_fifo [OF ValidMailboxCapacity_2 r this] s r show ?thesis by auto
qed

text \<open>Refinement: seen as a queue of cells, every step of every interleaving reserves a cell at the
  end while there is room, publishes a reserved cell, takes the published head, or changes
  nothing.\<close>

theorem mailbox_refines_cells:
  assumes "ValidMailboxCapacity cap" and "mbx_reachable cap s" and "mbx_bounded cap s'"
    and "mailbox_step s s'"
  shows "cell_step cap (cells s) (cells s')"
proof -
  have "mbx_bounded cap s"
    using mailbox_step_reserved [OF assms(4)] assms(3) by (auto simp: mbx_bounded_def)
  with assms show ?thesis by (intro cells_step) (auto intro: mbx_reachable_inv)
qed

theorem mailbox_refines_cells_witness:
  "cell_step 2 (cells (init_mbx 2 :: nat mbx))
     (cells ((init_mbx 2 :: nat mbx)\<lparr>consumer := CLoadSequence 0\<rparr>))"
proof (rule mailbox_refines_cells [OF ValidMailboxCapacity_2 mbx_reachable.start])
  show "mbx_bounded 2 ((init_mbx 2 :: nat mbx)\<lparr>consumer := CLoadSequence 0\<rparr>)"
    by (simp add: mbx_bounded_def init_mbx_def)
  show "mailbox_step (init_mbx 2 :: nat mbx) ((init_mbx 2)\<lparr>consumer := CLoadSequence 0\<rparr>)"
    using mailbox_step.call_pop [of "init_mbx 2 :: nat mbx"] by (simp add: mailbox_eval)
qed

text \<open>\<^verbatim>\<open>TryEmplace\<close> gives up only when the mailbox is full: at the moment it decides to
  return false, all slots hold values that the consumer has not released.\<close>

theorem TryEmplace_fails_only_when_full:
  assumes "ValidMailboxCapacity cap" and "mbx_reachable cap s" and "mbx_bounded cap s"
    and "producers s i = PLoadSequence w v"
    and "TryEmplace_step sp (mb s) (producers s i) = (m', PReturn False)"
  shows "length (reserved s) = released s + cap"
proof -
  have inv: "mbx_inv cap s" by (rule mbx_reachable_inv [OF assms(2,1,3)])
  from mbx_invD(8) [OF inv, of i] assms(4) obtain p where p: "p \<le> length (reserved s)" "w = of_nat p"
    by auto
  obtain q where q: "q < 2 ^ 63" "sequence (slotn (mb s) p) = of_nat q"
      "q < p \<Longrightarrow> length (reserved s) = released s + cap"
    using mbx_inv_observe [OF inv assms(1,3) p(1)] by metis
  have "p < 2 ^ 63" using p mbx_bounds(1) [OF inv assms(3)] by simp
  then have "intptr_difference (sequence (slot_at (mb s) w)) w = int q - int p"
    using p q assms(1) mbx_invD(1) [OF inv] by (simp add: slot_at_of_nat intptr_difference_of_nat)
  with assms(4,5) have "q < p" by (auto simp: Let_def split: if_splits)
  then show ?thesis by (rule q(3))
qed

lemma full_run:
  "\<exists>s m'. run_events (emplace_events 0 (7::nat) @ emplace_events 1 8 @ [CallEmplace 0 9]) (init_mbx 2) = Some s \<and>
    producers s 0 = PLoadSequence 2 9 \<and> length (reserved s) = 2 \<and>
    TryEmplace_step False (mb s) (producers s 0) = (m', PReturn False)"
  by (simp add: mailbox_eval eval_nat_numeral)

theorem TryEmplace_fails_only_when_full_witness:
  "\<exists>s :: nat mbx. mbx_reachable 2 s \<and> producers s 0 = PLoadSequence 2 9 \<and> length (reserved s) = released s + 2"
proof -
  obtain s m' where s: "run_events (emplace_events 0 (7::nat) @ emplace_events 1 8 @ [CallEmplace 0 9]) (init_mbx 2) = Some s"
    "producers s 0 = PLoadSequence 2 9" "length (reserved s) = 2"
    "TryEmplace_step False (mb s) (producers s 0) = (m', PReturn False)"
    using full_run by blast
  have r: "mbx_reachable 2 s" by (rule run_init_reachable [OF s(1)])
  have "mbx_bounded 2 s" using s by (simp add: mbx_bounded_def)
  from TryEmplace_fails_only_when_full [OF ValidMailboxCapacity_2 r this s(2,4)] s(2) r
  show ?thesis by auto
qed

text \<open>\<^verbatim>\<open>TryPop\<close> returns no value exactly when no value is deliverable: the mailbox is empty, or
  its head has been reserved by a producer that has not published it yet. Otherwise it goes on to
  move the head out.\<close>

theorem TryPop_empty_iff:
  assumes "ValidMailboxCapacity cap" and "mbx_reachable cap s" and "mbx_bounded cap s"
    and "consumer s = CLoadSequence w"
  shows "snd (TryPop_step (mb s) (consumer s)) =
    (if cells s = [] \<or> \<not> snd (hd (cells s)) then CReturn None else CMove w)"
proof -
  let ?T = "length (taken s)" and ?N = "length (reserved s)"
  have inv: "mbx_inv cap s" by (rule mbx_reachable_inv [OF assms(2,1,3)])
  have w: "w = of_nat ?T" using mbx_invD(10) [OF inv] assms(4) by simp
  have R: "released s = ?T" by (simp add: released_def assms(4))
  have T: "?T < 2 ^ 63" "?T + 1 < 2 ^ 63" using mbx_bounds(2) [OF inv assms(3)] by simp_all
  have at: "slot_at (mb s) w = slotn (mb s) ?T"
    using T assms(1) mbx_invD(1) [OF inv] by (simp add: w slot_at_of_nat)
  have none: "cells s = [] \<longleftrightarrow> ?N \<le> ?T" by (auto simp: cells_def)
  have hd: "snd (hd (cells s)) \<longleftrightarrow> \<not> held s ?T" if "?T < ?N"
    using that by (simp add: cells_def upt_conv_Cons)
  have "intptr_difference (sequence (slotn (mb s) ?T)) (of_nat ?T + 1) = 0 \<longleftrightarrow> ?T < ?N \<and> \<not> held s ?T"
  proof
    assume "intptr_difference (sequence (slotn (mb s) ?T)) (of_nat ?T + 1) = 0"
    from seq_published [OF inv assms(3,1) R this]
    show "?T < ?N \<and> \<not> held s ?T"
      using held_iff_sequence [OF inv assms(3), of ?T] T of_nat_u64_eq_iff [of "?T + 1" ?T] by auto
  next
    assume h: "?T < ?N \<and> \<not> held s ?T"
    then have "sequence (slotn (mb s) ?T) \<noteq> of_nat ?T"
      using held_iff_sequence [OF inv assms(3), of ?T] by simp
    then have "sequence (slotn (mb s) ?T) = of_nat (?T + 1)"
      using mbx_inv_seq_cases [OF inv, of ?T] R ValidMailboxCapacity_pos [OF assms(1)] by auto
    then show "intptr_difference (sequence (slotn (mb s) ?T)) (of_nat ?T + 1) = 0"
      by (simp add: intptr_difference_def add.commute)
  qed
  then show ?thesis using assms(4) none hd at w by (auto simp: Let_def not_le)
qed

theorem TryPop_empty_iff_witness:
  "snd (TryPop_step (mb (init_mbx 2 :: nat mbx)) (CLoadSequence 0)) = CReturn None"
proof -
  define s where "s = (init_mbx 2 :: nat mbx)\<lparr>consumer := CLoadSequence 0\<rparr>"
  have "run_events [CallPop] (init_mbx 2 :: nat mbx) = Some s" by (simp add: s_def mailbox_eval)
  then have r: "mbx_reachable 2 s" by (rule run_init_reachable)
  have b: "mbx_bounded 2 s" by (simp add: mbx_bounded_def s_def init_mbx_def)
  have "cells s = []" by (simp add: cells_def s_def init_mbx_def)
  with TryPop_empty_iff [OF ValidMailboxCapacity_2 r b, of 0] show ?thesis by (simp add: s_def)
qed

lemma mailbox_safety_parts:
  assumes "ValidMailboxCapacity cap" and "mbx_reachable cap s" and "mbx_bounded cap s"
  shows "consumer s \<noteq> CFault"
    and "producers s i = PConstruct w v \<Longrightarrow> storage (slot_at (mb s) w) = None"
    and "holds (producers s i) w \<Longrightarrow> holds (producers s j) w \<Longrightarrow> i = j"
    and "producers s i = PLoadSequence w v \<Longrightarrow> difference_defined (sequence (slot_at (mb s) w)) w"
    and "consumer s = CLoadSequence w \<Longrightarrow> difference_defined (sequence (slot_at (mb s) w)) (w + 1)"
proof -
  have inv: "mbx_inv cap s" by (rule mbx_reachable_inv [OF assms(2,1,3)])
  have c: "ValidMailboxCapacity (Capacity (mb s))" using assms(1) mbx_invD(1) [OF inv] by simp
  have small: "p < 2 ^ 63" if "p \<le> length (reserved s)" for p
    using that mbx_bounds(1) [OF inv assms(3)] by simp
  have diff: "difference_defined (of_nat p) (of_nat q)" if "p < 2 ^ 63" "q < 2 ^ 63" for p q
    using that by (simp add: difference_defined_def intptr_difference_of_nat)
  show "consumer s \<noteq> CFault" using mbx_invD(10) [OF inv] by auto
  show "storage (slot_at (mb s) w) = None" if "producers s i = PConstruct w v"
    using mbx_invD(8) [OF inv, of i] that c small by (auto simp: slot_at_of_nat)
  show "i = j" if "holds (producers s i) w" "holds (producers s j) w"
    by (rule mbx_invD(9) [OF inv that])
  show "difference_defined (sequence (slot_at (mb s) w)) w" if "producers s i = PLoadSequence w v"
  proof -
    from mbx_invD(8) [OF inv, of i] that obtain p where p: "p \<le> length (reserved s)" "w = of_nat p"
      by auto
    obtain q where "q < 2 ^ 63" "sequence (slotn (mb s) p) = of_nat q"
      using mbx_inv_observe [OF inv assms(1,3) p(1)] by metis
    then show ?thesis using diff [of q p] small [OF p(1)] c p by (simp add: slot_at_of_nat)
  qed
  show "difference_defined (sequence (slot_at (mb s) w)) (w + 1)" if l: "consumer s = CLoadSequence w"
  proof -
    let ?T = "length (taken s)"
    have w: "w = of_nat ?T" using mbx_invD(10) [OF inv] l by simp
    have T: "?T < 2 ^ 63" "?T + 1 < 2 ^ 63" using mbx_bounds(2) [OF inv assms(3)] by simp_all
    have "released s = ?T" by (simp add: released_def l)
    then have "sequence (slotn (mb s) ?T) = of_nat ?T \<or> sequence (slotn (mb s) ?T) = of_nat (?T + 1)"
      using mbx_inv_seq_cases [OF inv, of ?T] ValidMailboxCapacity_pos [OF assms(1)] by auto
    then show ?thesis
      using diff [of ?T "?T + 1"] diff [of "?T + 1" "?T + 1"] T c
      by (auto simp: w slot_at_of_nat add.commute)
  qed
qed



text \<open>The destructor is complete: once every producer and the consumer have finished, it returns, it
  destroys exactly the values that were reserved and not taken, in order, and leaves no value in any
  slot. \<open>cap + 1\<close> iterations are enough.\<close>

theorem DestroyRemaining_complete:
  assumes "ValidMailboxCapacity cap" and "mbx_reachable cap s" and "mbx_bounded cap s"
    and "\<And>i. producers s i = PIdle" and "consumer s = CIdle"
  shows "\<exists>m'. DestroyRemaining (cap + 1) (mb s) = Some (m', drop (length (taken s)) (reserved s)) \<and>
    (\<forall>i<cap. storage (slots m' ! i) = None)"
proof -
  have inv: "mbx_inv cap s" by (rule mbx_reachable_inv [OF assms(2,1,3)])
  have "length (reserved s) - length (taken s) < cap + 1"
    using mbx_invD(4) [OF inv] released_taken(1) [of s] by simp
  from DestroyRemaining_run [OF inv assms(3,1,5) _ this] show ?thesis
    using assms(4) by (auto simp: held_def)
qed

lemma destroy_run:
  "\<exists>s. run_events (emplace_events 0 (7::nat) @ emplace_events 1 8) (init_mbx 2) = Some s \<and>
    reserved s = [7, 8] \<and> taken s = [] \<and> (\<forall>i. producers s i = PIdle) \<and> consumer s = CIdle"
  by (simp add: mailbox_eval eval_nat_numeral)

theorem DestroyRemaining_complete_witness:
  "\<exists>(s :: nat mbx) m'. DestroyRemaining 3 (mb s) = Some (m', [7, 8]) \<and> storage (slots m' ! 0) = None"
proof -
  obtain s where s: "run_events (emplace_events 0 (7::nat) @ emplace_events 1 8) (init_mbx 2) = Some s"
    "reserved s = [7, 8]" "taken s = []" "\<forall>i. producers s i = PIdle" "consumer s = CIdle"
    using destroy_run by blast
  have r: "mbx_reachable 2 s" by (rule run_init_reachable [OF s(1)])
  have b: "mbx_bounded 2 s" using s by (simp add: mbx_bounded_def)
  have "\<exists>m'. DestroyRemaining (2 + 1) (mb s) = Some (m', drop (length (taken s)) (reserved s)) \<and>
      (\<forall>i<2. storage (slots m' ! i) = None)"
    by (rule DestroyRemaining_complete [OF ValidMailboxCapacity_2 r b _ s(5)]) (use s(4) in blast)
  then show ?thesis using s(2,3) by (intro exI [of _ s]) auto
qed

end
