(* ===== verification/Scheduler.thy ===== *)
theory Scheduler
  imports Mailbox_Queue
begin

text \<open>
  The per-session command scheduler
  (\<^verbatim>\<open>source/session/SessionCommandScheduler.{h,cpp}\<close>).

  Any number of threads call \<^verbatim>\<open>TrySubmit\<close>, \<^verbatim>\<open>TrySubmitPriority\<close>, \<^verbatim>\<open>CloseAdmission\<close> and
  \<^verbatim>\<open>WaitIdle\<close> while executor threads run drain tasks. \<open>thread_step\<close> cuts these operations at their
  accesses to the atomics and the mailboxes, and \<open>scheduler_step\<close> interleaves the threads. The two
  mailboxes are the abstract queues of cells that \<^verbatim>\<open>BoundedMpscMailbox\<close> refines; as the ring may
  report full while the consumer is between taking a value and releasing its slot, a push may fail
  one cell below the capacity. Whether the executor still exists and accepts a task is an outcome
  of the step. Two history fields record the reserved and the handled commands.
\<close>

subsection \<open>State\<close>

definition kMailboxCapacity :: nat where "kMailboxCapacity = 1024"
definition kPriorityMailboxCapacity :: nat where "kPriorityMailboxCapacity = 128"
definition kMaxCommandsPerDrain :: nat where "kMaxCommandsPerDrain = 64"
definition kHeadPublicationRetries :: nat where "kHeadPublicationRetries = 16"

datatype CommandAdmissionStatus = Accepted | QueueFull | Stopping

datatype lane = Normal | Priority

record 'c cellq =
  base :: nat
  queue_cells :: "'c cell list"

record 'c SessionCommandScheduler =
  queues :: "lane \<Rightarrow> 'c cellq"
  pending_count :: int
  drain_scheduled :: bool
  accepting :: bool
  posted :: nat
  submitted :: "(lane \<times> 'c) list"
  handled :: "(lane \<times> 'c) list"

definition lane_capacity :: "lane \<Rightarrow> nat" where
  "lane_capacity l = (case l of Normal \<Rightarrow> kMailboxCapacity | Priority \<Rightarrow> kPriorityMailboxCapacity)"

definition SessionCommandScheduler_create :: "'c SessionCommandScheduler" where
  "SessionCommandScheduler_create =
     \<lparr>queues = (\<lambda>_. \<lparr>base = 0, queue_cells = []\<rparr>), pending_count = 0, drain_scheduled = False,
      accepting = True, posted = 0, submitted = [], handled = []\<rparr>"

subsection \<open>The mailboxes as queues of cells\<close>

text \<open>\<open>lossy\<close> chooses whether a push one below the capacity already fails.\<close>

definition TryPush_reserve :: "bool \<Rightarrow> nat \<Rightarrow> 'c \<Rightarrow> 'c cellq \<Rightarrow> (nat \<times> 'c cellq) option" where
  "TryPush_reserve lossy cap c q =
     (if length (queue_cells q) + (if lossy then 1 else 0) < cap
      then Some (base q + length (queue_cells q), q\<lparr>queue_cells := queue_cells q @ [(c, False)]\<rparr>)
      else None)"

definition TryPush_publish :: "nat \<Rightarrow> 'c cellq \<Rightarrow> 'c cellq" where
  "TryPush_publish p q =
     (let k = p - base q
      in q\<lparr>queue_cells := (queue_cells q)[k := (fst (queue_cells q ! k), True)]\<rparr>)"

definition TryPop_cell :: "'c cellq \<Rightarrow> ('c \<times> 'c cellq) option" where
  "TryPop_cell q =
     (case queue_cells q of
        (c, True) # cs \<Rightarrow> Some (c, q\<lparr>base := base q + 1, queue_cells := cs\<rparr>)
      | _ \<Rightarrow> None)"

subsection \<open>Threads\<close>

text \<open>The program counters of a thread. The flag of the drain states tells a drain run inline by a
  submission from the drain task of an executor thread: they differ in what they return to.\<close>

datatype 'c thread =
    Idle
  | SAdmit lane 'c
  | SPush lane 'c
  | SPublish lane nat
  | SRelease CommandAdmissionStatus
  | SReturn CommandAdmissionStatus
  | SExchange bool
  | SPost bool
  | DPop bool nat nat
  | DPopNormal bool nat nat
  | DPending bool nat nat
  | DHandle bool nat 'c
  | DRelease bool nat
  | DClear bool
  | DReload bool
  | WPending
  | WDrain
  | WReturn

definition finish_schedule :: "bool \<Rightarrow> 'c thread" where
  "finish_schedule submission = (if submission then SReturn Accepted else Idle)"

definition set_queue :: "lane \<Rightarrow> 'c cellq \<Rightarrow> 'c SessionCommandScheduler \<Rightarrow> 'c SessionCommandScheduler" where
  "set_queue l q s = s\<lparr>queues := (queues s)(l := q)\<rparr>"

definition ReleasePending :: "'c SessionCommandScheduler \<Rightarrow> 'c SessionCommandScheduler" where
  "ReleasePending s = s\<lparr>pending_count := pending_count s - 1\<rparr>"

fun thread_step :: "bool \<Rightarrow> 'c SessionCommandScheduler \<Rightarrow> 'c thread \<Rightarrow> 'c SessionCommandScheduler \<times> 'c thread" where
  "thread_step b s (SAdmit l c) = (s, if accepting s then SPush l c else SRelease Stopping)"
| "thread_step b s (SPush l c) =
     (case TryPush_reserve b (lane_capacity l) c (queues s l) of
        None \<Rightarrow> (s, SRelease QueueFull)
      | Some (p, q) \<Rightarrow> ((set_queue l q s)\<lparr>submitted := submitted s @ [(l, c)]\<rparr>, SPublish l p))"
| "thread_step b s (SPublish l p) = (set_queue l (TryPush_publish p (queues s l)) s, SExchange True)"
| "thread_step b s (SRelease r) = (ReleasePending s, SReturn r)"
| "thread_step b s (SExchange sub) =
     (if drain_scheduled s then (s, finish_schedule sub)
      else (s\<lparr>drain_scheduled := True\<rparr>, SPost sub))"
| "thread_step b s (SPost sub) =
     (if b then (s\<lparr>posted := posted s + 1\<rparr>, finish_schedule sub) else (s, DPop sub 0 0))"
| "thread_step b s (DPop sub processed retries) =
     (case TryPop_cell (queues s Priority) of
        None \<Rightarrow> (s, DPopNormal sub processed retries)
      | Some (c, q) \<Rightarrow>
          ((set_queue Priority q s)\<lparr>handled := handled s @ [(Priority, c)]\<rparr>, DHandle sub processed c))"
| "thread_step b s (DPopNormal sub processed retries) =
     (case TryPop_cell (queues s Normal) of
        None \<Rightarrow> (s, DPending sub processed retries)
      | Some (c, q) \<Rightarrow>
          ((set_queue Normal q s)\<lparr>handled := handled s @ [(Normal, c)]\<rparr>, DHandle sub processed c))"
| "thread_step b s (DPending sub processed retries) =
     (s, if pending_count s = 0 then DClear sub
         else if retries + 1 > kHeadPublicationRetries then DClear sub
         else DPop sub processed (retries + 1))"
| "thread_step b s (DHandle sub processed c) = (s, DRelease sub processed)"
| "thread_step b s (DRelease sub processed) =
     (ReleasePending s,
      if processed + 1 < kMaxCommandsPerDrain then DPop sub (processed + 1) 0 else DClear sub)"
| "thread_step b s (DClear sub) = (s\<lparr>drain_scheduled := False\<rparr>, DReload sub)"
| "thread_step b s (DReload sub) =
     (s, if pending_count s > 0 then SExchange sub else finish_schedule sub)"
| "thread_step b s WPending = (s, if pending_count s = 0 then WDrain else WPending)"
| "thread_step b s WDrain = (s, if drain_scheduled s then WDrain else WReturn)"
| "thread_step b s Idle = (s, Idle)"
| "thread_step b s (SReturn r) = (s, SReturn r)"
| "thread_step b s WReturn = (s, WReturn)"

definition CloseAdmission :: "'c SessionCommandScheduler \<Rightarrow> 'c SessionCommandScheduler" where
  "CloseAdmission s = s\<lparr>accepting := False\<rparr>"

definition IsAccepting :: "'c SessionCommandScheduler \<Rightarrow> bool" where
  "IsAccepting s = accepting s"

definition ApproximatePendingCount :: "'c SessionCommandScheduler \<Rightarrow> int" where
  "ApproximatePendingCount s = pending_count s"

subsection \<open>Interleaved executions\<close>

type_synonym 'c system = "'c SessionCommandScheduler \<times> 'c thread list"

inductive scheduler_step :: "'c system \<Rightarrow> 'c system \<Rightarrow> bool" where
  submit: "i < length ts \<Longrightarrow> ts ! i = Idle \<Longrightarrow>
    scheduler_step (s, ts) (s\<lparr>pending_count := pending_count s + 1\<rparr>, ts[i := SAdmit l c])"
| run: "i < length ts \<Longrightarrow> thread_step b s (ts ! i) = (s', pc') \<Longrightarrow>
    scheduler_step (s, ts) (s', ts[i := pc'])"
| start_task: "i < length ts \<Longrightarrow> ts ! i = Idle \<Longrightarrow> 0 < posted s \<Longrightarrow>
    scheduler_step (s, ts) (s\<lparr>posted := posted s - 1\<rparr>, ts[i := DPop False 0 0])"
| wait_idle: "i < length ts \<Longrightarrow> ts ! i = Idle \<Longrightarrow> scheduler_step (s, ts) (s, ts[i := WPending])"
| return: "i < length ts \<Longrightarrow> ts ! i = SReturn r \<or> ts ! i = WReturn \<Longrightarrow>
    scheduler_step (s, ts) (s, ts[i := Idle])"
| close: "scheduler_step (s, ts) (CloseAdmission s, ts)"

inductive scheduler_reachable :: "nat \<Rightarrow> 'c system \<Rightarrow> bool" for n :: nat where
  start: "scheduler_reachable n (SessionCommandScheduler_create, replicate n Idle)"
| step: "scheduler_reachable n x \<Longrightarrow> scheduler_step x y \<Longrightarrow> scheduler_reachable n y"

end
