(* ===== verification/Scheduler_Invariant.thy ===== *)
theory Scheduler_Invariant
  imports Scheduler
begin

text \<open>
  The scheduler invariant (pending count, drain flag, no lost wake-up, order, ownership of reserved
  cells), its preservation by every step, and the properties of the scheduler.
\<close>

subsection \<open>The invariant\<close>

abbreviation cells_of :: "'c SessionCommandScheduler \<Rightarrow> lane \<Rightarrow> 'c cell list" where
  "cells_of s l \<equiv> queue_cells (queues s l)"

fun counted :: "'c thread \<Rightarrow> bool" where
  "counted (SAdmit _ _) = True"
| "counted (SPush _ _) = True"
| "counted (SRelease _) = True"
| "counted (DHandle _ _ _) = True"
| "counted (DRelease _ _) = True"
| "counted _ = False"

fun drainer :: "'c thread \<Rightarrow> bool" where
  "drainer (SPost _) = True"
| "drainer (DPop _ _ _) = True"
| "drainer (DPopNormal _ _ _) = True"
| "drainer (DPending _ _ _) = True"
| "drainer (DHandle _ _ _) = True"
| "drainer (DRelease _ _) = True"
| "drainer (DClear _) = True"
| "drainer _ = False"

fun rescuer :: "'c thread \<Rightarrow> bool" where
  "rescuer (SPublish _ _) = True"
| "rescuer (SExchange _) = True"
| "rescuer (DReload _) = True"
| "rescuer _ = False"

definition total_cells :: "'c SessionCommandScheduler \<Rightarrow> nat" where
  "total_cells s = length (cells_of s Normal) + length (cells_of s Priority)"

text \<open>Every announced submission is counted exactly once, as a thread or as a cell.\<close>

definition inv_pending :: "'c system \<Rightarrow> bool" where
  "inv_pending x = (case x of (s, ts) \<Rightarrow>
     pending_count s = int (cnt counted ts + total_cells s))"

text \<open>The drain flag is set exactly while one drain is scheduled or running.\<close>

definition inv_drain :: "'c system \<Rightarrow> bool" where
  "inv_drain x = (case x of (s, ts) \<Rightarrow>
     (if drain_scheduled s then 1 else 0) = posted s + cnt drainer ts)"

text \<open>Whenever a cell is queued, a drain is scheduled or some thread is about to check for it.\<close>

definition inv_rescue :: "'c system \<Rightarrow> bool" where
  "inv_rescue x = (case x of (s, ts) \<Rightarrow>
     total_cells s \<noteq> 0 \<longrightarrow> drain_scheduled s \<or> (\<exists>t\<in>set ts. rescuer t))"

abbreviation in_lane :: "lane \<Rightarrow> (lane \<times> 'c) list \<Rightarrow> (lane \<times> 'c) list" where
  "in_lane l \<equiv> filter (\<lambda>x. fst x = l)"

definition inv_fifo :: "'c system \<Rightarrow> bool" where
  "inv_fifo x = (case x of (s, ts) \<Rightarrow>
     \<forall>l. in_lane l (submitted s) = in_lane l (handled s) @ map (\<lambda>y. (l, fst y)) (cells_of s l))"

definition publishing :: "'c SessionCommandScheduler \<Rightarrow> lane \<Rightarrow> nat \<Rightarrow> bool" where
  "publishing s l p \<longleftrightarrow> base (queues s l) \<le> p \<and> p < base (queues s l) + length (cells_of s l) \<and>
     \<not> snd (cells_of s l ! (p - base (queues s l)))"

text \<open>A thread that publishes has its own unpublished cell.\<close>

definition inv_hold :: "'c system \<Rightarrow> bool" where
  "inv_hold x = (case x of (s, ts) \<Rightarrow>
     (\<forall>l p. SPublish l p \<in> set ts \<longrightarrow> publishing s l p) \<and>
     (\<forall>l p. cnt (\<lambda>t. t = SPublish l p) ts \<le> 1))"

lemma reserve_Some_iff:
  "TryPush_reserve b cap c q = Some (p, q') \<longleftrightarrow>
     length (queue_cells q) + (if b then 1 else 0) < cap \<and> p = base q + length (queue_cells q) \<and>
     q' = q\<lparr>queue_cells := queue_cells q @ [(c, False)]\<rparr>"
  by (auto simp: TryPush_reserve_def)

lemma pop_Some_iff:
  "TryPop_cell q = Some (c, q') \<longleftrightarrow>
     (\<exists>cs. queue_cells q = (c, True) # cs \<and> q' = q\<lparr>base := base q + 1, queue_cells := cs\<rparr>)"
  by (auto simp: TryPop_cell_def split: list.splits prod.splits bool.splits)

lemma total_cells_set_queue:
  "total_cells (set_queue l q s) + length (cells_of s l) = total_cells s + length (queue_cells q)"
  by (cases l) (simp_all add: total_cells_def set_queue_def)

lemma total_cells_frame [simp]:
  "total_cells (s\<lparr>submitted := a\<rparr>) = total_cells s" "total_cells (s\<lparr>handled := a\<rparr>) = total_cells s"
  "total_cells (s\<lparr>pending_count := c\<rparr>) = total_cells s" "total_cells (s\<lparr>posted := d\<rparr>) = total_cells s"
  "total_cells (s\<lparr>drain_scheduled := e\<rparr>) = total_cells s" "total_cells (s\<lparr>accepting := e\<rparr>) = total_cells s"
  by (simp_all add: total_cells_def)

lemma set_queue_frame [simp]:
  "pending_count (set_queue l q s) = pending_count s" "posted (set_queue l q s) = posted s"
  "drain_scheduled (set_queue l q s) = drain_scheduled s" "accepting (set_queue l q s) = accepting s"
  "queues (set_queue l q s) = (queues s)(l := q)"
  "submitted (set_queue l q s) = submitted s" "handled (set_queue l q s) = handled s"
  by (simp_all add: set_queue_def)

lemma publish_simps [simp]:
  "base (TryPush_publish p q) = base q"
  "length (queue_cells (TryPush_publish p q)) = length (queue_cells q)"
  "map fst (queue_cells (TryPush_publish p q)) = map fst (queue_cells q)"
proof -
  show "map fst (queue_cells (TryPush_publish p q)) = map fst (queue_cells q)"
    by (cases "p - base q < length (queue_cells q)")
      (auto simp: TryPush_publish_def Let_def map_update list_update_same_conv list_update_beyond)
qed (auto simp: TryPush_publish_def Let_def)

lemmas scheduler_state_simps = ReleasePending_def CloseAdmission_def finish_schedule_def

lemma total_cells_push:
  "total_cells (set_queue l ((queues s l)\<lparr>queue_cells := cells_of s l @ [x]\<rparr>) s) = total_cells s + 1"
  using total_cells_set_queue [of l "(queues s l)\<lparr>queue_cells := cells_of s l @ [x]\<rparr>" s] by simp

lemma total_cells_publish: "total_cells (set_queue l (TryPush_publish p (queues s l)) s) = total_cells s"
  using total_cells_set_queue [of l "TryPush_publish p (queues s l)" s] by simp

lemma total_cells_pop:
  assumes "cells_of s l = x # cs"
  shows "total_cells (set_queue l ((queues s l)\<lparr>base := n, queue_cells := cs\<rparr>) s) = total_cells s - 1"
    and "0 < total_cells s"
  using assms total_cells_set_queue [of l "(queues s l)\<lparr>base := n, queue_cells := cs\<rparr>" s]
  by (cases l; simp add: total_cells_def)+

lemmas thread_step_simps = reserve_Some_iff pop_Some_iff scheduler_state_simps
  total_cells_push total_cells_publish

lemma pending_step:
  "thread_step b s pc = (s', pc') \<Longrightarrow>
   pending_count s' + (if counted pc then 1 else 0) + int (total_cells s) =
   pending_count s + (if counted pc' then 1 else 0) + int (total_cells s')"
  by (cases pc) (auto simp: thread_step_simps total_cells_pop of_nat_diff Suc_le_eq
      split: if_splits option.splits)

lemma drain_step:
  "thread_step b s pc = (s', pc') \<Longrightarrow> (drainer pc \<Longrightarrow> drain_scheduled s) \<Longrightarrow>
   (if drain_scheduled s' then 1 else 0) + posted s + (if drainer pc then 1 else 0) =
   (if drain_scheduled s then 1 else 0) + posted s' + (if drainer pc' then (1::nat) else 0)"
  by (cases pc) (auto simp: thread_step_simps split: if_splits option.splits)

lemma inv_pending_run:
  assumes "i < length ts" and "inv_pending (s, ts)" and "thread_step b s (ts ! i) = (s', pc')"
  shows "inv_pending (s', ts[i := pc'])"
  using assms(2) cnt_update [OF assms(1), of counted pc'] pending_step [OF assms(3)]
  by (simp add: inv_pending_def split: if_splits)

lemma inv_drain_run:
  assumes i: "i < length ts" and inv: "inv_drain (s, ts)" and "thread_step b s (ts ! i) = (s', pc')"
  shows "inv_drain (s', ts[i := pc'])"
proof -
  have "drain_scheduled s" if "drainer (ts ! i)"
    using that inv i cnt_pos_iff [of drainer ts] nth_mem [OF i]
    by (auto simp: inv_drain_def split: if_splits)
  from drain_step [OF assms(3) this] show ?thesis
    using inv cnt_update [OF i, of drainer pc'] by (simp add: inv_drain_def split: if_splits)
qed

lemma rescue_step:
  assumes "thread_step b s pc = (s', pc')" and "\<not> drain_scheduled s'" and "\<not> rescuer pc'"
    and "total_cells s' \<noteq> 0" and "int (total_cells s) \<le> pending_count s"
  shows "\<not> rescuer pc \<and> \<not> drain_scheduled s \<and> total_cells s \<noteq> 0"
  using assms by (cases pc) (auto simp: thread_step_simps total_cells_pop of_nat_diff Suc_le_eq
      split: if_splits option.splits)

lemma inv_rescue_run:
  assumes i: "i < length ts" and inv: "inv_rescue (s, ts)" "inv_pending (s, ts)"
    and st: "thread_step b s (ts ! i) = (s', pc')"
  shows "inv_rescue (s', ts[i := pc'])"
  unfolding inv_rescue_def prod.case
proof (intro impI)
  assume t: "total_cells s' \<noteq> 0"
  have le: "int (total_cells s) \<le> pending_count s" using inv(2) by (simp add: inv_pending_def)
  show "drain_scheduled s' \<or> (\<exists>t\<in>set (ts[i := pc']). rescuer t)"
  proof (cases "drain_scheduled s' \<or> rescuer pc'")
    case True
    then show ?thesis using i ex_set_update [OF i, of rescuer pc' ] by blast
  next
    case False
    with rescue_step [OF st _ _ t le] inv(1) show ?thesis
      using ex_set_update [OF i, of rescuer pc'] by (simp add: inv_rescue_def)
  qed
qed

lemma inv_fifo_run:
  assumes "inv_fifo (s, ts)" and "thread_step b s pc = (s', pc')"
  shows "inv_fifo (s', ts')"
proof -
  have m: "map (\<lambda>y. (l, fst y)) cs = map (Pair l) (map fst cs)" for l :: lane and cs :: "'c cell list" by simp
  from assms show ?thesis
    by (cases pc)
      (auto simp: inv_fifo_def thread_step_simps m simp del: map_map split: if_splits option.splits)
qed

lemma publishing_set_queue_other:
  "l \<noteq> l' \<Longrightarrow> publishing (set_queue l q s) l' p = publishing s l' p"
  by (simp add: publishing_def)

lemma publishing_frame [simp]:
  "publishing (s\<lparr>submitted := a\<rparr>) = publishing s" "publishing (s\<lparr>handled := a\<rparr>) = publishing s"
  "publishing (s\<lparr>pending_count := c\<rparr>) = publishing s" "publishing (s\<lparr>posted := d\<rparr>) = publishing s"
  "publishing (s\<lparr>drain_scheduled := e\<rparr>) = publishing s" "publishing (s\<lparr>accepting := e\<rparr>) = publishing s"
  by (simp_all add: publishing_def fun_eq_iff)

text \<open>A step keeps the unpublished cell of every other thread.\<close>

lemma publishing_step:
  assumes "thread_step b s pc = (s', pc')" and "publishing s l p" and "pc \<noteq> SPublish l p"
    and "\<And>l p. pc = SPublish l p \<Longrightarrow> publishing s l p"
  shows "publishing s' l p"
proof (cases pc)
  case (SPush l' c)
  with assms show ?thesis
    by (cases "l = l'") (auto simp: thread_step_simps publishing_def nth_append split: option.splits if_splits)
next
  case (SPublish l' p')
  then have own: "publishing s l' p'" by (rule assms(4))
  show ?thesis
  proof (cases "l = l'")
    case True
    with assms SPublish have "p - base (queues s l) \<noteq> p' - base (queues s l)"
      using own by (auto simp: publishing_def)
    with assms(1,2) SPublish True show ?thesis
      by (auto simp: thread_step_simps publishing_def TryPush_publish_def Let_def)
  qed (use assms SPublish in \<open>auto simp: publishing_set_queue_other\<close>)
next
  case (DPop x y z)
  with assms show ?thesis
    by (cases "l = Priority")
      (auto simp: thread_step_simps publishing_def nth_Cons' split: option.splits if_splits)
next
  case (DPopNormal x y z)
  with assms show ?thesis
    by (cases "l = Normal")
      (auto simp: thread_step_simps publishing_def nth_Cons' split: option.splits if_splits)
qed (use assms in \<open>auto simp: thread_step_simps split: if_splits\<close>)

lemma publishing_new:
  assumes "thread_step b s pc = (s', SPublish l p)"
  shows "publishing s' l p \<and> \<not> publishing s l p \<and> (\<exists>c. pc = SPush l c)"
  using assms by (cases pc) (auto simp: thread_step_simps publishing_def split: if_splits option.splits)

lemma inv_hold_run:
  assumes i: "i < length ts" and inv: "inv_hold (s, ts)" and st: "thread_step b s (ts ! i) = (s', pc')"
  shows "inv_hold (s', ts[i := pc'])"
proof -
  let ?own = "\<lambda>l p. cnt (\<lambda>t. t = SPublish l p)"
  have own: "publishing s l p" if "SPublish l p \<in> set ts" for l p
    using inv that by (simp add: inv_hold_def)
  have uniq: "?own l p ts \<le> 1" for l p using inv by (simp add: inv_hold_def)
  have keep: "publishing s' l p" if "SPublish l p \<in> set ts" "ts ! i \<noteq> SPublish l p" for l p
    using publishing_step [OF st own [OF that(1)] that(2)] own nth_mem [OF i] by metis
  have "publishing s' l p" if "SPublish l p \<in> set (ts[i := pc'])" for l p
  proof (cases "pc' = SPublish l p")
    case True
    with publishing_new st show ?thesis by blast
  next
    case False
    have "0 < ?own l p (ts[i := pc'])" using that cnt_pos_iff by blast
    with False cnt_update [OF i, of "\<lambda>t. t = SPublish l p" pc'] uniq [of l p]
    have "ts ! i \<noteq> SPublish l p" "0 < ?own l p ts" by (auto split: if_splits)
    with keep show ?thesis using cnt_pos_iff [of "\<lambda>t. t = SPublish l p" ts] by blast
  qed
  moreover have "?own l p (ts[i := pc']) \<le> 1" for l p
  proof (cases "pc' = SPublish l p")
    case True
    with publishing_new st have "\<not> publishing s l p" by blast
    with own have "?own l p ts = 0" using cnt_pos_iff [of "\<lambda>t. t = SPublish l p" ts] by blast
    with True cnt_update [OF i, of "\<lambda>t. t = SPublish l p" pc'] show ?thesis by (simp split: if_splits)
  next
    case False
    with cnt_update [OF i, of "\<lambda>t. t = SPublish l p" pc'] uniq [of l p] show ?thesis
      by (simp split: if_splits)
  qed
  ultimately show ?thesis by (simp add: inv_hold_def)
qed

definition scheduler_inv :: "'c system \<Rightarrow> bool" where
  "scheduler_inv x \<longleftrightarrow> inv_pending x \<and> inv_drain x \<and> inv_rescue x \<and> inv_fifo x \<and> inv_hold x"

text \<open>Moving a thread between states that no part of the invariant looks at.\<close>

definition neutral :: "'c thread \<Rightarrow> bool" where
  "neutral t \<longleftrightarrow> \<not> counted t \<and> \<not> drainer t \<and> \<not> rescuer t"

lemma cnt_publish_update:
  assumes "i < length ts" and "cnt (\<lambda>t. t = SPublish l p) ts \<le> 1" and "\<And>l p. pc \<noteq> SPublish l p"
  shows "cnt (\<lambda>t. t = SPublish l p) (ts[i := pc]) \<le> 1"
  using cnt_update [OF assms(1), of "\<lambda>t. t = SPublish l p" pc] assms(2,3) by (simp split: if_splits)

lemma inv_hold_other:
  assumes "i < length ts" and "inv_hold (s, ts)" and "\<And>l p. pc \<noteq> SPublish l p"
    and "publishing s' = publishing s"
  shows "inv_hold (s', ts[i := pc])"
  using assms cnt_publish_update [OF assms(1) _ assms(3)]
  by (auto simp: inv_hold_def dest!: set_update_subset_insert [THEN subsetD])

lemma inv_rescue_other:
  assumes "i < length ts" and "inv_rescue (s, ts)" and "\<not> rescuer (ts ! i)"
    and "total_cells s' = total_cells s" and "drain_scheduled s' = drain_scheduled s"
  shows "inv_rescue (s', ts[i := pc])"
  using assms ex_set_update [OF assms(1), of rescuer pc] by (auto simp: inv_rescue_def)

text \<open>A thread that begins or ends an operation: the counters move with it, the mailboxes stay.\<close>

lemma scheduler_inv_thread:
  assumes i: "i < length ts" and inv: "scheduler_inv (s, ts)"
    and pend: "pending_count s' = pending_count s + of_bool (counted pc) - of_bool (counted (ts ! i))"
    and post: "int (posted s') = int (posted s) - of_bool (drainer pc) + of_bool (drainer (ts ! i))"
    and "\<not> rescuer (ts ! i)" "\<And>l p. pc \<noteq> SPublish l p"
    and "total_cells s' = total_cells s" "drain_scheduled s' = drain_scheduled s" "publishing s' = publishing s"
      "inv_fifo (s', ts) = inv_fifo (s, ts)"
  shows "scheduler_inv (s', ts[i := pc])"
proof -
  have "inv_pending (s', ts[i := pc])" "inv_drain (s', ts[i := pc])"
    using inv pend post assms(7,8) cnt_update [OF i, of counted pc] cnt_update [OF i, of drainer pc]
    by (auto simp: scheduler_inv_def inv_pending_def inv_drain_def split: if_splits)
  moreover have "inv_fifo (s', ts[i := pc])" using inv assms(10) by (simp add: scheduler_inv_def inv_fifo_def)
  ultimately show ?thesis
    using inv inv_rescue_other [OF i _ assms(5,7,8)] inv_hold_other [OF i _ assms(6,9)] by (simp add: scheduler_inv_def)
qed

lemma scheduler_inv_step:
  assumes "scheduler_step x y" and "scheduler_inv x"
  shows "scheduler_inv y"
  using assms
proof (induction rule: scheduler_step.induct)
  case (submit i ts s l c)
  then show ?case by (intro scheduler_inv_thread [OF submit(1,3)]) (auto simp: inv_fifo_def)
next
  case (run i ts b s s' pc')
  then show ?case
    using inv_pending_run [OF run(1) _ run(2)] inv_drain_run [OF run(1) _ run(2)]
      inv_rescue_run [OF run(1) _ _ run(2)] inv_fifo_run [OF _ run(2)] inv_hold_run [OF run(1) _ run(2)]
    by (auto simp: scheduler_inv_def)
next
  case (start_task i ts s)
  then show ?case by (intro scheduler_inv_thread [OF start_task(1,4)]) (auto simp: inv_fifo_def)
next
  case (wait_idle i ts s)
  then show ?case by (intro scheduler_inv_thread [OF wait_idle(1,3)]) (auto simp: inv_fifo_def)
next
  case (return i ts r s)
  then show ?case by (intro scheduler_inv_thread [OF return(1,3)]) auto
next
  case (close s ts)
  then show ?case
    by (auto simp: scheduler_inv_def inv_pending_def inv_drain_def inv_rescue_def inv_fifo_def
        inv_hold_def CloseAdmission_def)
qed

lemma scheduler_reachable_inv: "scheduler_reachable n x \<Longrightarrow> scheduler_inv x"
proof (induction rule: scheduler_reachable.induct)
  case start
  show ?case
    by (auto simp: scheduler_inv_def inv_pending_def inv_drain_def inv_rescue_def inv_fifo_def
        inv_hold_def SessionCommandScheduler_create_def total_cells_def cnt_replicate_False)
qed (auto intro: scheduler_inv_step)

text \<open>Both mailboxes keep the contract of the ring buffer.\<close>

lemma scheduler_cells_step:
  assumes "scheduler_step x y" and "scheduler_inv x"
  shows "cell_step (lane_capacity l) (cells_of (fst x) l) (cells_of (fst y) l)"
  using assms
proof (induction rule: scheduler_step.induct)
  case (run i ts b s s' pc')
  have pub: "publishing s l' p" if "ts ! i = SPublish l' p" for l' p
    using run that nth_mem [OF run(1)] by (auto simp: scheduler_inv_def inv_hold_def)
  show ?case
  proof (cases "ts ! i")
    case (SPush l' c)
    with run(2) show ?thesis
      by (cases "l = l'")
        (auto simp: thread_step_simps cell_step.reserve split: option.splits if_splits)
  next
    case (SPublish l' p)
    with run(2) pub [OF this] show ?thesis
      by (cases "l = l'")
        (auto simp: thread_step_simps publishing_def TryPush_publish_def Let_def
          intro!: cell_step.publish simp: prod_eq_iff)
  next
    case (DPop a m r)
    with run(2) show ?thesis
      by (cases l) (auto simp: thread_step_simps cell_step.take split: option.splits)
  next
    case (DPopNormal a m r)
    with run(2) show ?thesis
      by (cases l) (auto simp: thread_step_simps cell_step.take split: option.splits)
  qed (use run(2) in \<open>auto simp: thread_step_simps split: if_splits\<close>)
qed (simp_all add: CloseAdmission_def)

interpretation sq: mpsc_queue "lane_capacity l" "\<lambda>x. cells_of (fst x) l" "scheduler_reachable n" scheduler_step
  by unfold_locales
    (auto intro: scheduler_reachable.step scheduler_cells_step scheduler_reachable_inv)

lemma lane_bound: "scheduler_reachable n x \<Longrightarrow> length (cells_of (fst x) l) \<le> lane_capacity l"
proof (induction rule: scheduler_reachable.induct)
  case (step x y)
  then show ?case by (meson sq.cell_step_bound scheduler_cells_step scheduler_reachable_inv)
qed (simp add: SessionCommandScheduler_create_def)

text \<open>After the gate has closed and the pending count was seen at zero, no command is left and none
  can enter.\<close>

fun carries :: "'c thread \<Rightarrow> bool" where
  "carries (SPush _ _) = True"
| "carries (SPublish _ _) = True"
| "carries (DHandle _ _ _) = True"
| "carries _ = False"

definition quiet :: "'c system \<Rightarrow> bool" where
  "quiet x = (case x of (s, ts) \<Rightarrow> \<not> accepting s \<and> total_cells s = 0 \<and> (\<forall>t\<in>set ts. \<not> carries t))"

lemma quiet_thread_step:
  assumes "\<not> accepting s" "total_cells s = 0" "\<not> carries pc" "thread_step b s pc = (s', pc')"
  shows "\<not> accepting s' \<and> total_cells s' = 0 \<and> \<not> carries pc' \<and> handled s' = handled s"
proof -
  have "cells_of s l = []" for l using assms(2) by (cases l) (simp_all add: total_cells_def)
  with assms show ?thesis
    by (cases pc) (auto simp: thread_step_simps split: if_splits option.splits)
qed

lemma quiet_step: "scheduler_step x y \<Longrightarrow> quiet x \<Longrightarrow> quiet y \<and> handled (fst y) = handled (fst x)"
proof (induction rule: scheduler_step.induct)
  case (run i ts b s s' pc')
  then show ?case
    using quiet_thread_step [of s "ts ! i" b s' pc'] nth_mem [OF run(1)]
    by (auto simp: quiet_def dest!: set_update_subset_insert [THEN subsetD])
qed (auto simp: quiet_def CloseAdmission_def dest!: set_update_subset_insert [THEN subsetD])

lemma quiet_run: "scheduler_step\<^sup>*\<^sup>* x y \<Longrightarrow> quiet x \<Longrightarrow> quiet y \<and> handled (fst y) = handled (fst x)"
  by (induction rule: rtranclp_induct) (auto dest: quiet_step)

lemma idle_closed_quiet:
  assumes "scheduler_inv (s, ts)" and "\<not> accepting s" and "pending_count s = 0"
  shows "quiet (s, ts)"
proof -
  have z: "cnt counted ts = 0" "total_cells s = 0"
    using assms by (auto simp: scheduler_inv_def inv_pending_def)
  have "\<not> carries t" if "t \<in> set ts" for t
  proof
    assume c: "carries t"
    have "\<not> counted t" using z(1) that cnt_pos_iff [of counted ts] by auto
    with c obtain l p where "t = SPublish l p" by (cases t) auto
    then have "publishing s l p" using assms(1) that by (auto simp: scheduler_inv_def inv_hold_def)
    then have "cells_of s l \<noteq> []" by (auto simp: publishing_def)
    with z(2) show False by (cases l) (auto simp: total_cells_def)
  qed
  with z assms(2) show ?thesis by (auto simp: quiet_def)
qed

text \<open>One drain batch, whatever the other threads do to the shared state between its steps.\<close>

fun in_batch :: "'c thread \<Rightarrow> bool" where
  "in_batch (DPop _ n r) = (n < kMaxCommandsPerDrain \<and> r \<le> kHeadPublicationRetries)"
| "in_batch (DPopNormal _ n r) = (n < kMaxCommandsPerDrain \<and> r \<le> kHeadPublicationRetries)"
| "in_batch (DPending _ n r) = (n < kMaxCommandsPerDrain \<and> r \<le> kHeadPublicationRetries)"
| "in_batch (DHandle _ n _) = (n < kMaxCommandsPerDrain)"
| "in_batch (DRelease _ n) = (n < kMaxCommandsPerDrain)"
| "in_batch (DClear _) = True"
| "in_batch _ = False"

fun batch_measure :: "'c thread \<Rightarrow> nat" where
  "batch_measure (DPop _ n r) = (64 - n) * 60 + 3 * (17 - r) + 2"
| "batch_measure (DPopNormal _ n r) = (64 - n) * 60 + 3 * (17 - r) + 1"
| "batch_measure (DPending _ n r) = (64 - n) * 60 + 3 * (17 - r)"
| "batch_measure (DHandle _ n _) = (64 - n) * 60 + 1"
| "batch_measure (DRelease _ n) = (64 - n) * 60"
| "batch_measure _ = 0"

definition batch_move :: "'c thread \<Rightarrow> 'c thread \<Rightarrow> bool" where
  "batch_move pc pc' \<longleftrightarrow> in_batch pc \<and> (\<exists>b s. snd (thread_step b s pc) = pc')"

lemma batch_move_measure:
  assumes "batch_move pc pc'"
  shows "batch_measure pc' < batch_measure pc \<and> (in_batch pc' \<or> (\<exists>sub. pc' = DReload sub)) \<or>
    (\<exists>sub. pc = DClear sub \<and> pc' = DReload sub)"
proof -
  from assms obtain b s where "in_batch pc" "snd (thread_step b s pc) = pc'"
    by (auto simp: batch_move_def)
  then show ?thesis
    by (cases pc) (auto simp: kMaxCommandsPerDrain_def kHeadPublicationRetries_def
        split: option.splits if_splits)
qed

lemma batch_moves_bound: "(batch_move ^^ k) pc pc' \<Longrightarrow> k \<le> batch_measure pc + 1"
proof (induction k arbitrary: pc)
  case (Suc k)
  then obtain pc1 where s: "batch_move pc pc1" "(batch_move ^^ k) pc1 pc'"
    by (meson relpowp_Suc_E2)
  from batch_move_measure [OF s(1)] show ?case
  proof
    assume "\<exists>sub. pc = DClear sub \<and> pc1 = DReload sub"
    then have "\<not> batch_move pc1 x" for x by (auto simp: batch_move_def)
    then have "k = 0" using s(2) relpowp_Suc_E2 [of _ batch_move pc1 pc'] by (cases k) blast+
    then show ?thesis by simp
  qed (use Suc.IH [OF s(2)] in simp)
qed simp

subsection \<open>Schedules\<close>

text \<open>An executable view of the interleaving, to build concrete executions.\<close>

datatype 'c sevent = Submit nat lane 'c | Run nat bool | StartTask nat | WaitCall nat | Return nat | Close

fun run_sevent :: "'c sevent \<Rightarrow> 'c system \<Rightarrow> 'c system option" where
  "run_sevent (Submit i l c) (s, ts) = (if i < length ts
     then (case ts ! i of
       Idle \<Rightarrow> Some (s\<lparr>pending_count := pending_count s + 1\<rparr>, ts[i := SAdmit l c]) | _ \<Rightarrow> None) else None)"
| "run_sevent (Run i b) (s, ts) = (if i < length ts
     then (let (s', pc') = thread_step b s (ts ! i) in Some (s', ts[i := pc'])) else None)"
| "run_sevent (StartTask i) (s, ts) = (if i < length ts \<and> 0 < posted s
     then (case ts ! i of
       Idle \<Rightarrow> Some (s\<lparr>posted := posted s - 1\<rparr>, ts[i := DPop False 0 0]) | _ \<Rightarrow> None) else None)"
| "run_sevent (WaitCall i) (s, ts) = (if i < length ts
     then (case ts ! i of Idle \<Rightarrow> Some (s, ts[i := WPending]) | _ \<Rightarrow> None) else None)"
| "run_sevent (Return i) (s, ts) = (if i < length ts
     then (case ts ! i of SReturn r \<Rightarrow> Some (s, ts[i := Idle]) | WReturn \<Rightarrow> Some (s, ts[i := Idle])
       | _ \<Rightarrow> None) else None)"
| "run_sevent Close (s, ts) = Some (CloseAdmission s, ts)"

fun run_sevents :: "'c sevent list \<Rightarrow> 'c system \<Rightarrow> 'c system option" where
  "run_sevents [] x = Some x"
| "run_sevents (e # es) x = (case run_sevent e x of None \<Rightarrow> None | Some y \<Rightarrow> run_sevents es y)"

lemma run_sevent_step: "run_sevent e x = Some y \<Longrightarrow> scheduler_step x y"
  by (cases "(e, x)" rule: run_sevent.cases)
    (auto split: if_splits thread.splits prod.splits
      intro: scheduler_step.intros scheduler_step.start_task [simplified])

lemma run_sevents_reachable:
  "run_sevents es x = Some y \<Longrightarrow> scheduler_reachable n x \<Longrightarrow> scheduler_reachable n y"
  by (induction es x rule: run_sevents.induct)
    (auto split: option.splits dest: run_sevent_step intro: scheduler_reachable.step)

text \<open>One thread submits a command, the executor drains it, admission closes.\<close>

definition demo_schedule :: "nat sevent list" where
  "demo_schedule = Submit 0 Normal 7 # replicate 5 (Run 0 True) @ [Return 0, StartTask 0] @
     replicate 10 (Run 0 True) @ [Close]"

lemma sched_demo_run:
  "\<exists>s. run_sevents demo_schedule (SessionCommandScheduler_create, [Idle]) = Some (s, [Idle]) \<and>
     submitted s = [(Normal, 7)] \<and> handled s = [(Normal, 7)] \<and> pending_count s = 0 \<and>
     \<not> accepting s \<and> posted s = 0"
  by (simp add: demo_schedule_def eval_nat_numeral SessionCommandScheduler_create_def
      TryPush_reserve_def TryPush_publish_def TryPop_cell_def lane_capacity_def kMailboxCapacity_def
      kMaxCommandsPerDrain_def kHeadPublicationRetries_def scheduler_state_simps set_queue_def)

lemma sched_demo_reachable:
  obtains s where "scheduler_reachable 1 (s, [Idle])" "submitted s = [(Normal, 7 :: nat)]"
    "handled s = [(Normal, 7)]" "pending_count s = 0" "\<not> accepting s" "posted s = 0"
proof -
  obtain s where s: "run_sevents demo_schedule (SessionCommandScheduler_create, [Idle]) = Some (s, [Idle])"
    "submitted s = [(Normal, 7)]" "handled s = [(Normal, 7)]" "pending_count s = 0"
    "\<not> accepting s" "posted s = 0"
    using sched_demo_run by blast
  have "scheduler_reachable 1 (SessionCommandScheduler_create, [Idle :: nat thread])"
    using scheduler_reachable.start [of 1] by simp
  from that [OF run_sevents_reachable [OF s(1) this]] s show ?thesis by simp
qed

text \<open>With nothing posted and every thread outside the counted sections, the mailboxes are empty.\<close>

lemma quiescent_empty:
  assumes "scheduler_reachable n (s, ts)" and "posted s = 0" and "\<And>t. t \<in> set ts \<Longrightarrow> neutral t"
  shows "in_lane l (submitted s) = in_lane l (handled s) \<and> pending_count s = 0 \<and> \<not> drain_scheduled s"
proof -
  have inv: "scheduler_inv (s, ts)" by (rule scheduler_reachable_inv [OF assms(1)])
  have none: "cnt P ts = 0" if "\<And>t. neutral t \<Longrightarrow> \<not> P t" for P
    using that assms(3) cnt_pos_iff [of P ts] by auto
  have c: "cnt counted ts = 0" "cnt drainer ts = 0" by (auto intro: none simp: neutral_def)
  with inv assms(2) have d: "\<not> drain_scheduled s"
    by (auto simp: scheduler_inv_def inv_drain_def split: if_splits)
  moreover have "\<not> (\<exists>t\<in>set ts. rescuer t)" using assms(3) by (auto simp: neutral_def)
  ultimately have z: "total_cells s = 0" using inv by (auto simp: scheduler_inv_def inv_rescue_def)
  then have "cells_of s l = []" by (cases l) (simp_all add: total_cells_def)
  with inv c z d show ?thesis
    by (auto simp: scheduler_inv_def inv_pending_def inv_fifo_def)
qed

subsection \<open>Properties\<close>

text \<open>The session has a single logical consumer: at any moment at most one drain is queued on
  the executor or running on some thread, and the drain flag says exactly whether there is one.\<close>

theorem scheduler_single_drain:
  assumes "scheduler_reachable n (s, ts)"
  shows "posted s + cnt drainer ts = (if drain_scheduled s then 1 else 0)"
  using scheduler_reachable_inv [OF assms] by (simp add: scheduler_inv_def inv_drain_def)

theorem scheduler_single_drain_witness:
  "posted (SessionCommandScheduler_create :: nat SessionCommandScheduler) +
     cnt drainer [Idle, Idle :: nat thread] = 0"
  using scheduler_single_drain [OF scheduler_reachable.start [of 2]]
  by (simp add: SessionCommandScheduler_create_def numeral_2_eq_2)

text \<open>Commands of each mailbox reach the handler in the order their positions were reserved,
  none lost and none handled twice; what has not been handled is still queued, within the
  capacity.\<close>

theorem scheduler_fifo:
  assumes "scheduler_reachable n (s, ts)"
  shows "in_lane l (submitted s) = in_lane l (handled s) @ map (\<lambda>y. (l, fst y)) (cells_of s l) \<and>
    length (cells_of s l) \<le> lane_capacity l"
  using scheduler_reachable_inv [OF assms] lane_bound [OF assms, of l]
  by (simp add: scheduler_inv_def inv_fifo_def)

theorem scheduler_fifo_witness:
  "\<exists>s :: nat SessionCommandScheduler. handled s = [(Normal, 7)] \<and>
     in_lane Normal (submitted s) = in_lane Normal (handled s) @ map (\<lambda>y. (Normal, fst y)) (cells_of s Normal)"
proof -
  obtain s where s: "scheduler_reachable 1 (s, [Idle])" "handled s = [(Normal, 7 :: nat)]"
    by (rule sched_demo_reachable)
  with scheduler_fifo [OF s(1), of Normal] show ?thesis by blast
qed

text \<open>C9: No command is stranded: whenever no drain task is queued and no thread is inside a
  submission or a drain, every command that entered a mailbox has been handled, the pending count
  is zero and the drain flag is clear, so that a \<^verbatim>\<open>WaitIdle\<close> in progress returns.\<close>

theorem scheduler_no_stranded_command:
  assumes "scheduler_reachable n (s, ts)" and "posted s = 0" and "\<And>t. t \<in> set ts \<Longrightarrow> neutral t"
  shows "in_lane l (submitted s) = in_lane l (handled s) \<and> pending_count s = 0 \<and> \<not> drain_scheduled s"
  using quiescent_empty [OF assms(1,2)] assms(3) by blast

theorem scheduler_no_stranded_command_witness:
  "\<exists>s :: nat SessionCommandScheduler. submitted s = [(Normal, 7)] \<and>
     in_lane Normal (submitted s) = in_lane Normal (handled s) \<and> \<not> drain_scheduled s"
proof -
  obtain s where s: "scheduler_reachable 1 (s, [Idle])" "submitted s = [(Normal, 7 :: nat)]" "posted s = 0"
    by (rule sched_demo_reachable)
  have "neutral t" if "t \<in> set [Idle :: nat thread]" for t using that by (simp add: neutral_def)
  from scheduler_no_stranded_command [OF s(1,3) this] s(2) show ?thesis by blast
qed

text \<open>Closing is final: once admission is closed and the pending count has been seen at zero, as
  \<^verbatim>\<open>WaitIdle\<close> does, no execution from there on calls the command handler again, whatever
  submissions and drains are still under way.\<close>

theorem scheduler_close_is_final:
  assumes "scheduler_reachable n (s, ts)" and "\<not> accepting s" and "pending_count s = 0"
    and "scheduler_step\<^sup>*\<^sup>* (s, ts) (s', ts')"
  shows "handled s' = handled s \<and> (\<forall>sub k c. DHandle sub k c \<notin> set ts') \<and> cells_of s' l = []"
proof -
  have "quiet (s, ts)" by (rule idle_closed_quiet [OF scheduler_reachable_inv [OF assms(1)] assms(2,3)])
  from quiet_run [OF assms(4) this] have q: "quiet (s', ts')" and "handled s' = handled s" by simp_all
  moreover from q have "cells_of s' l = []" by (cases l) (simp_all add: quiet_def total_cells_def)
  ultimately show ?thesis by (auto simp: quiet_def)
qed

theorem scheduler_close_is_final_witness:
  "\<exists>(s :: nat SessionCommandScheduler) (s' :: nat SessionCommandScheduler). handled s = [(Normal, 7)] \<and> handled s' = handled s \<and>
     pending_count s' = 1"
proof -
  obtain s where s: "scheduler_reachable 1 (s, [Idle])" "handled s = [(Normal, 7 :: nat)]"
    "\<not> accepting s" "pending_count s = 0"
    by (rule sched_demo_reachable)
  let ?s' = "s\<lparr>pending_count := pending_count s + 1\<rparr>"
  have "scheduler_step (s, [Idle]) (?s', [SAdmit Priority 9])"
    using scheduler_step.submit [of 0 "[Idle]" s Priority 9] by simp
  then have "scheduler_step\<^sup>*\<^sup>* (s, [Idle]) (?s', [SAdmit Priority 9])" by (rule r_into_rtranclp)
  from scheduler_close_is_final [OF s(1,3,4) this] s show ?thesis
    by (intro exI [of _ s] exI [of _ ?s']) simp
qed

text \<open>A drain batch ends: whatever other threads do between its steps, a batch makes at most
  3894 steps of its own before it has cleared the drain flag.\<close>

theorem drain_batch_bounded:
  assumes "(batch_move ^^ k) (DPop sub 0 0) pc"
  shows "k \<le> 3894"
  using batch_moves_bound [OF assms] by simp

theorem drain_batch_bounded_witness: "(1 :: nat) \<le> 3894"
proof (rule drain_batch_bounded)
  have "snd (thread_step True SessionCommandScheduler_create (DPop True 0 0 :: nat thread)) = DPopNormal True 0 0"
    by (simp add: SessionCommandScheduler_create_def TryPop_cell_def)
  then have "batch_move (DPop True 0 0 :: nat thread) (DPopNormal True 0 0)"
    unfolding batch_move_def by (auto simp: kMaxCommandsPerDrain_def)
  then show "(batch_move ^^ 1) (DPop True 0 0 :: nat thread) (DPopNormal True 0 0)"
    by (simp add: eq_OO)
qed

end
