(* ===== verification/Worker_Pool.thy ===== *)
theory Worker_Pool
  imports Executor Scheduler_Invariant
begin

text \<open>
  The schedulers of all sessions on the pool of worker threads they share: \<^verbatim>\<open>SessionCommandScheduler\<close> posts
  its drain task to \<^verbatim>\<open>WorkerExecutor\<close>, a worker takes it and runs the drain.

  A task is the number of the session whose drain it runs. The threads of a session's scheduler are the
  \<open>W\<close> workers, in the order of the executor, and after them the callers. A command handler that submits
  to another session does so as a caller there. What \<^verbatim>\<open>Post\<close> answers is the executor's answer.
\<close>

record 'c pool =
  pool_executor :: "nat WorkerExecutor"
  sessions :: "nat \<Rightarrow> 'c system"

definition put_session :: "nat \<Rightarrow> 'c SessionCommandScheduler \<Rightarrow> 'c thread list \<Rightarrow> 'c pool \<Rightarrow> 'c pool" where
  "put_session r s ts p = p\<lparr>sessions := (sessions p)(r := (s, ts))\<rparr>"

definition on_executor :: "nat WorkerExecutor \<Rightarrow> 'c pool \<Rightarrow> 'c pool" where
  "on_executor e p = p\<lparr>pool_executor := e\<rparr>"

text \<open>A step of a thread of session \<open>r\<close>: only the posting of a drain touches the executor.\<close>

fun run_thread ::
  "bool \<Rightarrow> nat \<Rightarrow> nat WorkerExecutor \<Rightarrow> 'c SessionCommandScheduler \<Rightarrow> 'c thread \<Rightarrow> nat WorkerExecutor \<times> 'c SessionCommandScheduler \<times> 'c thread" where
  "run_thread b r e s (SPost sub) = (case Post (Some r) e of (e', posted_ok) \<Rightarrow> (e', thread_step posted_ok s (SPost sub)))"
| "run_thread b r e s pc = (e, thread_step b s pc)"

inductive pool_step :: "nat \<Rightarrow> 'c pool \<Rightarrow> 'c pool \<Rightarrow> bool" for W :: nat where
  submit: "sessions p r = (s, ts) \<Longrightarrow> W \<le> i \<Longrightarrow> i < length ts \<Longrightarrow> ts ! i = Idle \<Longrightarrow>
    pool_step W p (put_session r (s\<lparr>pending_count := pending_count s + 1\<rparr>) (ts[i := SAdmit l c]) p)"
| wait_idle: "sessions p r = (s, ts) \<Longrightarrow> W \<le> i \<Longrightarrow> i < length ts \<Longrightarrow> ts ! i = Idle \<Longrightarrow>
    pool_step W p (put_session r s (ts[i := WPending]) p)"
| return: "sessions p r = (s, ts) \<Longrightarrow> W \<le> i \<Longrightarrow> i < length ts \<Longrightarrow> ts ! i = SReturn a \<or> ts ! i = WReturn \<Longrightarrow>
    pool_step W p (put_session r s (ts[i := Idle]) p)"
| close: "sessions p r = (s, ts) \<Longrightarrow> pool_step W p (put_session r (CloseAdmission s) ts p)"
| run: "sessions p r = (s, ts) \<Longrightarrow> i < length ts \<Longrightarrow> i < W \<longrightarrow> workers (pool_executor p) ! i = Running r \<Longrightarrow>
    run_thread b r (pool_executor p) s (ts ! i) = (e, s', pc) \<Longrightarrow>
    pool_step W p (put_session r s' (ts[i := pc]) (on_executor e p))"
| take: "i < W \<Longrightarrow> workers (pool_executor p) ! i = Waiting \<Longrightarrow> tasks (pool_executor p) = r # rs \<Longrightarrow> sessions p r = (s, ts) \<Longrightarrow>
    pool_step W p (put_session r (s\<lparr>posted := posted s - 1\<rparr>) (ts[i := DPop False 0 0])
      (on_executor (WorkerLoop_take i (pool_executor p)) p))"
| leave: "i < W \<Longrightarrow> workers (pool_executor p) ! i = Waiting \<Longrightarrow> tasks (pool_executor p) = [] \<Longrightarrow> stopping (pool_executor p) \<Longrightarrow>
    pool_step W p (on_executor (WorkerLoop_take i (pool_executor p)) p)"
| finish: "i < W \<Longrightarrow> workers (pool_executor p) ! i = Running r \<Longrightarrow> snd (sessions p r) ! i = Idle \<Longrightarrow>
    pool_step W p (on_executor (WorkerLoop_finish i (pool_executor p)) p)"
| stop: "pool_step W p (on_executor (fst (Stop_request (pool_executor p))) p)"

inductive pool_reachable :: "nat \<Rightarrow> nat \<Rightarrow> 'c pool \<Rightarrow> bool" for W K :: nat where
  start: "WorkerExecutor_create True W = Inr e \<Longrightarrow>
    pool_reachable W K \<lparr>pool_executor = e, sessions = (\<lambda>_. (SessionCommandScheduler_create, replicate (W + K) Idle))\<rparr>"
| step: "pool_reachable W K p \<Longrightarrow> pool_step W p q \<Longrightarrow> pool_reachable W K q"

subsection \<open>The executor and each scheduler within the pool\<close>

definition pool_inv :: "nat \<Rightarrow> nat \<Rightarrow> 'c pool \<Rightarrow> bool" where
  "pool_inv W K p \<longleftrightarrow> executor_reachable W (pool_executor p) \<and>
     (\<forall>r. scheduler_reachable (W + K) (sessions p r) \<and> length (snd (sessions p r)) = W + K \<and>
        posted (fst (sessions p r)) = count_list (tasks (pool_executor p)) r \<and>
        (\<forall>i<W. workers (pool_executor p) ! i \<noteq> Running r \<longrightarrow> snd (sessions p r) ! i = Idle))"

lemma pool_simps [simp]:
  "sessions (put_session r s ts p) = (sessions p)(r := (s, ts))" "pool_executor (put_session r s ts p) = pool_executor p"
  "sessions (on_executor e p) = sessions p" "pool_executor (on_executor e p) = e"
  by (simp_all add: put_session_def on_executor_def)

lemma pool_invD:
  assumes "pool_inv W K p" and "sessions p r = (s, ts)"
  shows "scheduler_reachable (W + K) (s, ts)" "length ts = W + K" "posted s = count_list (tasks (pool_executor p)) r"
    and "i < W \<Longrightarrow> workers (pool_executor p) ! i \<noteq> Running r \<Longrightarrow> ts ! i = Idle"
  using assms unfolding pool_inv_def by (metis fst_conv snd_conv)+

text \<open>One step changes the executor and one session. \<open>e\<close> is the new executor, \<open>(s', ts')\<close> the session after it.\<close>

lemma pool_inv_update:
  assumes inv: "pool_inv W K p" and "executor_reachable W e"
    and "scheduler_reachable (W + K) (s', ts')" "length ts' = W + K" "posted s' = count_list (tasks e) r"
    and "\<And>j. j < W \<Longrightarrow> workers e ! j \<noteq> Running r \<Longrightarrow> ts' ! j = Idle"
    and "\<And>q. q \<noteq> r \<Longrightarrow> count_list (tasks e) q = count_list (tasks (pool_executor p)) q"
    and "\<And>j q. j < W \<Longrightarrow> q \<noteq> r \<Longrightarrow> workers (pool_executor p) ! j = Running q \<Longrightarrow> workers e ! j = Running q"
  shows "pool_inv W K (put_session r s' ts' (on_executor e p))"
proof -
  have "posted (fst (sessions p q)) = count_list (tasks e) q"
    and "\<forall>i<W. workers e ! i \<noteq> Running q \<longrightarrow> snd (sessions p q) ! i = Idle"
    if "q \<noteq> r" for q
    using inv assms(7) [OF that] assms(8) [OF _ that] unfolding pool_inv_def by metis+
  then show ?thesis using inv assms(2-6) unfolding pool_inv_def by simp
qed

text \<open>A step of the scheduler of one session, while the executor stays as it is.\<close>

lemma pool_inv_session:
  assumes inv: "pool_inv W K p" and s: "sessions p r = (s, ts)" and st: "scheduler_step (s, ts) (s', ts[i := pc])"
    and "posted s' = posted s" and "i < W \<longrightarrow> workers (pool_executor p) ! i = Running r"
  shows "pool_inv W K (put_session r s' (ts[i := pc]) p)"
proof -
  note d = pool_invD [OF inv s]
  have "scheduler_reachable (W + K) (s', ts[i := pc])" using d(1) st by (rule scheduler_reachable.step)
  moreover have "ts[i := pc] ! j = Idle" if "j < W" "workers (pool_executor p) ! j \<noteq> Running r" for j
    using that assms(5) d(4) by (cases "j = i") auto
  ultimately have "pool_inv W K (put_session r s' (ts[i := pc]) (on_executor (pool_executor p) p))"
    using inv d(2,3) assms(4) by (intro pool_inv_update) (auto simp: pool_inv_def)
  then show ?thesis by (simp add: on_executor_def)
qed

text \<open>A step of the executor that leaves the queue alone.\<close>

lemma pool_inv_executor:
  assumes inv: "pool_inv W K p" and st: "executor_step (pool_executor p) e" and "tasks e = tasks (pool_executor p)"
    and "\<And>i r. i < W \<Longrightarrow> workers (pool_executor p) ! i = Running r \<Longrightarrow> workers e ! i = Running r \<or> snd (sessions p r) ! i = Idle"
  shows "pool_inv W K (on_executor e p)"
proof -
  have "executor_reachable W e" using inv st unfolding pool_inv_def by (blast intro: executor_reachable.step)
  then show ?thesis using inv assms(3,4) unfolding pool_inv_def by simp metis
qed

lemma executor_lengths: "pool_inv W K p \<Longrightarrow> length (workers (pool_executor p)) = W"
  by (auto simp: pool_inv_def executor_inv_def dest!: executor_reachable_inv)

lemma posted_thread_step: "thread_step b s pc = (s', pc') \<Longrightarrow> \<not> (\<exists>sub. pc = SPost sub) \<Longrightarrow> posted s' = posted s"
  by (cases "(b, s, pc)" rule: thread_step.cases) (auto simp: thread_step_simps split: option.splits if_splits prod.splits)

lemma run_thread_other:
  "run_thread b r e s pc = (e', s', pc') \<Longrightarrow> \<not> (\<exists>sub. pc = SPost sub) \<Longrightarrow> e' = e \<and> thread_step b s pc = (s', pc')"
  by (cases pc) auto

text \<open>The posting of a drain: accepted, it is one more task of the executor; refused, the thread drains itself.\<close>

lemma pool_inv_post:
  assumes inv: "pool_inv W K p" and s: "sessions p r = (s, ts)" and i: "i < length ts" "ts ! i = SPost sub"
    and w: "i < W \<longrightarrow> workers (pool_executor p) ! i = Running r"
    and st: "run_thread b r (pool_executor p) s (SPost sub) = (e, s', pc)"
  shows "pool_inv W K (put_session r s' (ts[i := pc]) (on_executor e p))"
proof -
  note d = pool_invD [OF inv s]
  obtain ok where post: "Post (Some r) (pool_executor p) = (e, ok)" and th: "thread_step ok s (SPost sub) = (s', pc)"
    using st by (auto split: prod.splits)
  have "scheduler_reachable (W + K) (s', ts[i := pc])"
    using d(1) by (rule scheduler_reachable.step) (use i th in \<open>auto intro: scheduler_step.run\<close>)
  moreover have "executor_reachable W e"
    using inv post executor_step.post [of "pool_executor p" "Some r"] unfolding pool_inv_def
    by (metis executor_reachable.step fst_conv)
  moreover have "ts[i := pc] ! j = Idle" if "j < W" "workers e ! j \<noteq> Running r" for j
    using that w d(4) post by (cases "j = i") (auto simp: Post_def split: if_splits)
  ultimately show ?thesis using inv d(2,3) post th
    by (intro pool_inv_update) (auto simp: Post_def split: if_splits)
qed

text \<open>A worker takes the oldest task: it becomes the drainer of that session.\<close>

lemma pool_inv_take:
  assumes inv: "pool_inv W K p" and i: "i < W" "workers (pool_executor p) ! i = Waiting"
    and t: "tasks (pool_executor p) = r # rs" and s: "sessions p r = (s, ts)"
  shows "pool_inv W K (put_session r (s\<lparr>posted := posted s - 1\<rparr>) (ts[i := DPop False 0 0])
    (on_executor (WorkerLoop_take i (pool_executor p)) p))"
proof -
  note d = pool_invD [OF inv s] and len = executor_lengths [OF inv]
  have "ts ! i = Idle" "i < length ts" "0 < posted s" using d(2,3,4) i t by simp_all
  then have "scheduler_reachable (W + K) (s\<lparr>posted := posted s - 1\<rparr>, ts[i := DPop False 0 0])"
    using d(1) by (blast intro: scheduler_reachable.step scheduler_step.start_task)
  moreover have "executor_step (pool_executor p) (WorkerLoop_take i (pool_executor p))"
    using i t len by (intro executor_step.take) (auto simp: WorkerLoop_ready_def)
  then have "executor_reachable W (WorkerLoop_take i (pool_executor p))"
    using inv unfolding pool_inv_def by (blast intro: executor_reachable.step)
  ultimately show ?thesis using inv d(2,3,4) i t len
    by (intro pool_inv_update) (auto simp: WorkerLoop_take_def nth_list_update)
qed

theorem pool_inv_step: "pool_step W p q \<Longrightarrow> pool_inv W K p \<Longrightarrow> pool_inv W K q"
proof (induction rule: pool_step.induct)
  case (run p r s ts i b e s' pc)
  show ?case
  proof (cases "\<exists>sub. ts ! i = SPost sub")
    case True
    then show ?thesis using run pool_inv_post by metis
  next
    case False
    then have "e = pool_executor p" "thread_step b s (ts ! i) = (s', pc)" "posted s' = posted s"
      using run_thread_other [OF run(4)] posted_thread_step by blast+
    then show ?thesis using run pool_inv_session [OF run(5,1) scheduler_step.run]
      by (simp add: on_executor_def)
  qed
next
  case (close p r s ts)
  note d = pool_invD [OF close(2,1)]
  have "scheduler_reachable (W + K) (CloseAdmission s, ts)" using d(1) scheduler_step.close by (rule scheduler_reachable.step)
  then show ?case using close d by (auto simp: pool_inv_def CloseAdmission_def)
next
  case (leave i p)
  then show ?case
    by (intro pool_inv_executor executor_step.take)
      (auto simp: executor_lengths WorkerLoop_ready_def WorkerLoop_take_def nth_list_update)
next
  case (finish i p r)
  then show ?case
    by (intro pool_inv_executor executor_step.finish)
      (auto simp: executor_lengths WorkerLoop_finish_def nth_list_update)
next
  case (stop p)
  then show ?case by (intro pool_inv_executor executor_step.stop) (auto simp: Stop_request_def)
next
  case (submit p r s ts i l c)
  then show ?case using pool_inv_session [OF submit(5,1) scheduler_step.submit [OF submit(3,4)]] by simp
next
  case (wait_idle p r s ts i)
  then show ?case using pool_inv_session [OF wait_idle(5,1) scheduler_step.wait_idle [OF wait_idle(3,4)]] by simp
next
  case (return p r s ts i a)
  then show ?case using pool_inv_session [OF return(5,1) scheduler_step.return [OF return(3,4)]] by simp
qed (rule pool_inv_take)

lemma pool_reachable_inv: "pool_reachable W K p \<Longrightarrow> pool_inv W K p"
proof (induction rule: pool_reachable.induct)
  case (start e)
  then show ?case using executor_reachable.start [OF start] scheduler_reachable.start [of "W + K"]
    by (auto simp: pool_inv_def WorkerExecutor_create_def SessionCommandScheduler_create_def split: if_splits)
qed (rule pool_inv_step)

subsection \<open>Schedules of the pool\<close>

text \<open>An executable view of the steps, to build concrete executions.\<close>

datatype 'c pevent = PSubmit nat nat lane 'c | PRun nat nat bool | PReturn nat nat | PTake nat | PFinish nat | PStop

fun run_pevent :: "nat \<Rightarrow> 'c pevent \<Rightarrow> 'c pool \<Rightarrow> 'c pool option" where
  "run_pevent W (PSubmit r i l c) p = (case sessions p r of (s, ts) \<Rightarrow>
     if W \<le> i \<and> i < length ts
     then (case ts ! i of
       Idle \<Rightarrow> Some (put_session r (s\<lparr>pending_count := pending_count s + 1\<rparr>) (ts[i := SAdmit l c]) p)
     | _ \<Rightarrow> None) else None)"
| "run_pevent W (PRun r i b) p = (case sessions p r of (s, ts) \<Rightarrow>
     if i < length ts \<and> (i < W \<longrightarrow> (case workers (pool_executor p) ! i of Running q \<Rightarrow> q = r | _ \<Rightarrow> False))
     then (case run_thread b r (pool_executor p) s (ts ! i) of
       (e, s', pc) \<Rightarrow> Some (put_session r s' (ts[i := pc]) (on_executor e p))) else None)"
| "run_pevent W (PReturn r i) p = (case sessions p r of (s, ts) \<Rightarrow>
     if W \<le> i \<and> i < length ts
     then (case ts ! i of SReturn a \<Rightarrow> Some (put_session r s (ts[i := Idle]) p) | _ \<Rightarrow> None) else None)"
| "run_pevent W (PTake i) p =
     (if i < W
      then (case workers (pool_executor p) ! i of
        Waiting \<Rightarrow> (case tasks (pool_executor p) of
            [] \<Rightarrow> if stopping (pool_executor p) then Some (on_executor (WorkerLoop_take i (pool_executor p)) p) else None
          | r # rs \<Rightarrow> (case sessions p r of (s, ts) \<Rightarrow>
              Some (put_session r (s\<lparr>posted := posted s - 1\<rparr>) (ts[i := DPop False 0 0])
                (on_executor (WorkerLoop_take i (pool_executor p)) p))))
      | _ \<Rightarrow> None) else None)"
| "run_pevent W (PFinish i) p =
     (if i < W
      then (case workers (pool_executor p) ! i of
        Running r \<Rightarrow> (case snd (sessions p r) ! i of
            Idle \<Rightarrow> Some (on_executor (WorkerLoop_finish i (pool_executor p)) p)
          | _ \<Rightarrow> None)
      | _ \<Rightarrow> None) else None)"
| "run_pevent W PStop p = Some (on_executor (fst (Stop_request (pool_executor p))) p)"

fun run_pevents :: "nat \<Rightarrow> 'c pevent list \<Rightarrow> 'c pool \<Rightarrow> 'c pool option" where
  "run_pevents W [] p = Some p"
| "run_pevents W (e # es) p = (case run_pevent W e p of None \<Rightarrow> None | Some q \<Rightarrow> run_pevents W es q)"

lemma run_pevent_step: "run_pevent W e p = Some q \<Longrightarrow> pool_step W p q"
  by (cases "(W, e, p)" rule: run_pevent.cases)
    (auto split: if_splits thread.splits prod.splits worker.splits list.splits
      intro: pool_step.intros pool_step.take [simplified])

lemma run_pevents_reachable:
  "run_pevents W es p = Some q \<Longrightarrow> pool_reachable W K p \<Longrightarrow> pool_reachable W K q"
  by (induction W es p rule: run_pevents.induct)
    (auto split: option.splits dest: run_pevent_step intro: pool_reachable.step)

text \<open>A caller submits a command to session 3, the one worker drains it, and the pool is stopped.\<close>

definition demo_pool :: "nat pool" where
  "demo_pool = \<lparr>pool_executor = \<lparr>tasks = [], workers = [Waiting], worker_count = 1, stopping = False,
      accepted_tasks = [], started_tasks = []\<rparr>,
    sessions = (\<lambda>_. (SessionCommandScheduler_create, [Idle, Idle]))\<rparr>"

definition demo_events :: "nat pevent list" where
  "demo_events = PSubmit 3 1 Normal 7 # replicate 5 (PRun 3 1 False) @ [PReturn 3 1, PTake 0] @
     replicate 10 (PRun 3 0 False) @ [PFinish 0, PStop, PTake 0]"

lemma demo_pool_run:
  "\<exists>q s. run_pevents 1 demo_events demo_pool = Some q \<and> joined (pool_executor q) \<and>
     sessions q 3 = (s, [Idle, Idle]) \<and> submitted s = [(Normal, 7)]"
  by (simp add: demo_events_def demo_pool_def eval_nat_numeral SessionCommandScheduler_create_def
      TryPush_reserve_def TryPush_publish_def TryPop_cell_def lane_capacity_def kMailboxCapacity_def
      kMaxCommandsPerDrain_def kHeadPublicationRetries_def scheduler_state_simps set_queue_def
      put_session_def on_executor_def Post_def WorkerLoop_take_def WorkerLoop_finish_def Stop_request_def joined_def)

lemma demo_pool_reachable: "pool_reachable 1 1 demo_pool"
  using pool_reachable.start [of 1 _ 1] by (simp add: WorkerExecutor_create_def demo_pool_def numeral_2_eq_2)

subsection \<open>Properties\<close>

text \<open>One drain per session over the whole pool: its queued tasks and the threads that run its drain,
  workers and callers, are together at most one, and the drain flag says whether there is one.\<close>

theorem pool_one_drain:
  assumes "pool_reachable W K p" and "sessions p r = (s, ts)"
  shows "count_list (tasks (pool_executor p)) r + cnt drainer ts = (if drain_scheduled s then 1 else 0)"
  using pool_invD [OF pool_reachable_inv [OF assms(1)] assms(2)] scheduler_reachable_inv
  by (fastforce simp: scheduler_inv_def inv_drain_def)

lemma joined_worker: "pool_inv W K p \<Longrightarrow> joined (pool_executor p) \<Longrightarrow> i < W \<Longrightarrow> workers (pool_executor p) ! i = Exited"
  using executor_lengths by (metis joined_def nth_mem)

text \<open>C15: Stopping the pool strands no session: when the workers are joined and no caller is within an
  operation, every command any session accepted has been handled, in the order of its lane, although
  drains that found the pool stopping ran on the threads that requested them.\<close>

theorem pool_stop_serves_sessions:
  assumes "pool_reachable W K p" and "joined (pool_executor p)" and s: "sessions p r = (s, ts)"
    and callers: "\<And>i. W \<le> i \<Longrightarrow> i < W + K \<Longrightarrow> neutral (ts ! i)"
  shows "in_lane l (submitted s) = in_lane l (handled s) \<and> pending_count s = 0 \<and> \<not> drain_scheduled s \<and>
    Post (Some r) (pool_executor p) = (pool_executor p, False)"
proof -
  have inv: "pool_inv W K p" by (rule pool_reachable_inv [OF assms(1)])
  note d = pool_invD [OF inv s]
  have ex: "executor_reachable W (pool_executor p)" using inv by (simp add: pool_inv_def)
  have "tasks (pool_executor p) = []" by (rule ex.finished_empty [OF ex assms(2)])
  then have "posted s = 0" using d(3) by simp
  moreover have "neutral (ts ! i)" if "i < W + K" for i
    using callers d(4) joined_worker [OF inv assms(2)] that by (cases "i < W") (auto simp: neutral_def)
  then have "neutral t" if "t \<in> set ts" for t using that d(2) by (metis in_set_conv_nth)
  ultimately have "in_lane l (submitted s) = in_lane l (handled s) \<and> pending_count s = 0 \<and> \<not> drain_scheduled s"
    using quiescent_empty [OF d(1)] by blast
  then show ?thesis using joined_refuses [OF ex assms(2)] by blast
qed

theorem pool_stop_serves_sessions_witness:
  "\<exists>(q :: nat pool) s ts. sessions q 3 = (s, ts) \<and> submitted s = [(Normal, 7)] \<and>
     in_lane Normal (submitted s) = in_lane Normal (handled s) \<and> \<not> drain_scheduled s"
proof -
  obtain q s where q: "run_pevents 1 demo_events demo_pool = Some q" "joined (pool_executor q)"
    "sessions q 3 = (s, [Idle, Idle])" "submitted s = [(Normal, 7)]"
    using demo_pool_run by blast
  have "neutral ([Idle, Idle] ! i)" if "1 \<le> i" "i < 1 + 1" for i
    using that by (auto simp: neutral_def less_Suc_eq)
  from pool_stop_serves_sessions [OF run_pevents_reachable [OF q(1) demo_pool_reachable] q(2,3) this] q(3,4)
  show ?thesis by blast
qed

end
