(* ===== verification/Ring_Scheduler.thy ===== *)
theory Ring_Scheduler
  imports Scheduler_Invariant
begin

text \<open>
  The command scheduler on its two ring buffers: \<^verbatim>\<open>Submit\<close> and \<^verbatim>\<open>DrainBatch\<close> of
  \<^verbatim>\<open>source/session/SessionCommandScheduler.cpp\<close> with their calls of \<^verbatim>\<open>TryPush\<close> and \<^verbatim>\<open>TryPop\<close> of
  \<^verbatim>\<open>source/session/BoundedMpscMailbox.h\<close> executed access by access. Every access of a thread to an atomic of the
  scheduler or of a mailbox is a step of its own.

  Thread \<open>i\<close> is producer \<open>i\<close> of either mailbox. The consumer's side of a mailbox belongs to the thread that
  called \<^verbatim>\<open>TryPop\<close>; a second call while one is under way breaks the contract of the mailbox and is \<open>Misuse\<close>.
  The atomics of the scheduler and the histories are the fields of \<open>control\<close>, whose queues are not used.
\<close>

subsection \<open>State and steps\<close>

record 'c ring_scheduler =
  rings :: "lane \<Rightarrow> 'c mbx"
  control :: "'c SessionCommandScheduler"

datatype 'c ring_thread =
    Control "'c thread"
  | Pushing lane
  | Popping lane bool nat nat
  | Misuse

definition ring_scheduler_create :: "'c ring_scheduler" where
  "ring_scheduler_create = \<lparr>rings = (\<lambda>l. init_mbx (lane_capacity l)), control = SessionCommandScheduler_create\<rparr>"

definition set_ring :: "lane \<Rightarrow> 'c mbx \<Rightarrow> 'c ring_scheduler \<Rightarrow> 'c ring_scheduler" where
  "set_ring l m s = s\<lparr>rings := (rings s)(l := m)\<rparr>"

definition push_call :: "nat \<Rightarrow> 'c \<Rightarrow> 'c mbx \<Rightarrow> 'c mbx" where
  "push_call i c m = m\<lparr>producers := (producers m)(i := PLoadSequence (enqueue_position (mb m)) c)\<rparr>"

definition push_access :: "bool \<Rightarrow> nat \<Rightarrow> 'c mbx \<Rightarrow> 'c mbx" where
  "push_access spurious i m =
     (case TryEmplace_step spurious (mb m) (producers m i) of
        (b, pc) \<Rightarrow> m\<lparr>mb := b, producers := (producers m)(i := pc),
                    reserved := reserved m @ newly_reserved (producers m i) pc\<rparr>)"

definition push_return :: "nat \<Rightarrow> 'c mbx \<Rightarrow> 'c mbx" where
  "push_return i m = m\<lparr>producers := (producers m)(i := PIdle)\<rparr>"

definition pop_call :: "'c mbx \<Rightarrow> 'c mbx" where
  "pop_call m = m\<lparr>consumer := CLoadSequence (dequeue_position (mb m))\<rparr>"

definition pop_access :: "'c mbx \<Rightarrow> 'c mbx" where
  "pop_access m =
     (case TryPop_step (mb m) (consumer m) of
        (b, pc) \<Rightarrow> m\<lparr>mb := b, consumer := pc, taken := taken m @ newly_taken (consumer m) pc\<rparr>)"

definition pop_return :: "'c mbx \<Rightarrow> 'c mbx" where
  "pop_return m = m\<lparr>consumer := CIdle\<rparr>"

text \<open>The histories of the scheduler grow with those of the mailboxes.\<close>

definition record_push :: "lane \<Rightarrow> 'c mbx \<Rightarrow> 'c mbx \<Rightarrow> 'c ring_scheduler \<Rightarrow> 'c ring_scheduler" where
  "record_push l m m' s = s\<lparr>control := (control s)
     \<lparr>submitted := submitted (control s) @ map (Pair l) (drop (length (reserved m)) (reserved m'))\<rparr>\<rparr>"

definition record_pop :: "lane \<Rightarrow> 'c mbx \<Rightarrow> 'c mbx \<Rightarrow> 'c ring_scheduler \<Rightarrow> 'c ring_scheduler" where
  "record_pop l m m' s = s\<lparr>control := (control s)
     \<lparr>handled := handled (control s) @ map (Pair l) (drop (length (taken m)) (taken m'))\<rparr>\<rparr>"

definition pop_empty :: "lane \<Rightarrow> bool \<Rightarrow> nat \<Rightarrow> nat \<Rightarrow> 'c thread" where
  "pop_empty l sub processed retries =
     (case l of Priority \<Rightarrow> DPopNormal sub processed retries | Normal \<Rightarrow> DPending sub processed retries)"

definition begin_pop :: "lane \<Rightarrow> bool \<Rightarrow> nat \<Rightarrow> nat \<Rightarrow> 'c ring_scheduler \<Rightarrow> 'c ring_scheduler \<times> 'c ring_thread" where
  "begin_pop l sub processed retries s =
     (case consumer (rings s l) of
        CIdle \<Rightarrow> (set_ring l (pop_call (rings s l)) s, Popping l sub processed retries)
      | _ \<Rightarrow> (s, Misuse))"

fun ring_thread_step :: "nat \<Rightarrow> bool \<Rightarrow> 'c ring_scheduler \<Rightarrow> 'c ring_thread \<Rightarrow> 'c ring_scheduler \<times> 'c ring_thread" where
  "ring_thread_step i b s (Control (SPush l c)) = (set_ring l (push_call i c (rings s l)) s, Pushing l)"
| "ring_thread_step i b s (Control (DPop sub processed retries)) = begin_pop Priority sub processed retries s"
| "ring_thread_step i b s (Control (DPopNormal sub processed retries)) = begin_pop Normal sub processed retries s"
| "ring_thread_step i b s (Control pc) =
     (case thread_step b (control s) pc of (c, pc') \<Rightarrow> (s\<lparr>control := c\<rparr>, Control pc'))"
| "ring_thread_step i b s (Pushing l) =
     (case producers (rings s l) i of
        PReturn ok \<Rightarrow> (set_ring l (push_return i (rings s l)) s,
                      Control (if ok then SExchange True else SRelease QueueFull))
      | _ \<Rightarrow> (let m = push_access b i (rings s l)
              in (set_ring l m (record_push l (rings s l) m s), Pushing l)))"
| "ring_thread_step i b s (Popping l sub processed retries) =
     (case consumer (rings s l) of
        CReturn None \<Rightarrow> (set_ring l (pop_return (rings s l)) s, Control (pop_empty l sub processed retries))
      | CReturn (Some c) \<Rightarrow> (set_ring l (pop_return (rings s l)) s, Control (DHandle sub processed c))
      | CFault \<Rightarrow> (s, Misuse)
      | _ \<Rightarrow> (let m = pop_access (rings s l)
              in (set_ring l m (record_pop l (rings s l) m s), Popping l sub processed retries)))"
| "ring_thread_step i b s Misuse = (s, Misuse)"

text \<open>As everywhere for the mailboxes, fewer than \<^term>\<open>(2::nat) ^ 63\<close> positions are reserved.\<close>

definition ring_bounded :: "'c ring_scheduler \<Rightarrow> bool" where
  "ring_bounded s \<longleftrightarrow> (\<forall>l. mbx_bounded (lane_capacity l) (rings s l))"

type_synonym 'c ring_system = "'c ring_scheduler \<times> 'c ring_thread list"

inductive ring_step :: "'c ring_system \<Rightarrow> 'c ring_system \<Rightarrow> bool" where
  submit: "i < length ts \<Longrightarrow> ts ! i = Control Idle \<Longrightarrow>
    ring_step (s, ts) (s\<lparr>control := (control s)\<lparr>pending_count := pending_count (control s) + 1\<rparr>\<rparr>, ts[i := Control (SAdmit l c)])"
| run: "i < length ts \<Longrightarrow> ring_thread_step i b s (ts ! i) = (s', pc') \<Longrightarrow> ring_bounded s' \<Longrightarrow>
    ring_step (s, ts) (s', ts[i := pc'])"
| start_task: "i < length ts \<Longrightarrow> ts ! i = Control Idle \<Longrightarrow> 0 < posted (control s) \<Longrightarrow>
    ring_step (s, ts) (s\<lparr>control := (control s)\<lparr>posted := posted (control s) - 1\<rparr>\<rparr>, ts[i := Control (DPop False 0 0)])"
| wait_idle: "i < length ts \<Longrightarrow> ts ! i = Control Idle \<Longrightarrow> ring_step (s, ts) (s, ts[i := Control WPending])"
| return: "i < length ts \<Longrightarrow> ts ! i = Control (SReturn r) \<or> ts ! i = Control WReturn \<Longrightarrow>
    ring_step (s, ts) (s, ts[i := Control Idle])"
| close: "ring_step (s, ts) (s\<lparr>control := CloseAdmission (control s)\<rparr>, ts)"

inductive ring_reachable :: "nat \<Rightarrow> 'c ring_system \<Rightarrow> bool" for n :: nat where
  start: "ring_reachable n (ring_scheduler_create, replicate n (Control Idle))"
| step: "ring_reachable n x \<Longrightarrow> ring_step x y \<Longrightarrow> ring_reachable n y"

subsection \<open>The scheduler seen on the queues of cells\<close>

definition ring_queue :: "'c mbx \<Rightarrow> 'c cellq" where
  "ring_queue m = \<lparr>base = length (taken m), queue_cells = cells m\<rparr>"

definition ring_view :: "'c ring_scheduler \<Rightarrow> 'c SessionCommandScheduler" where
  "ring_view s = (control s)\<lparr>queues := (\<lambda>l. ring_queue (rings s l))\<rparr>"

fun push_pc :: "lane \<Rightarrow> 'c producer \<Rightarrow> 'c thread" where
  "push_pc l (PLoadSequence _ c) = SPush l c"
| "push_pc l (PCompareExchange _ c) = SPush l c"
| "push_pc l (PReload c) = SPush l c"
| "push_pc l (PConstruct position _) = SPublish l (unat position)"
| "push_pc l (PPublish position) = SPublish l (unat position)"
| "push_pc l (PReturn ok) = (if ok then SExchange True else SRelease QueueFull)"
| "push_pc l PIdle = Idle"

definition pop_begin :: "lane \<Rightarrow> bool \<Rightarrow> nat \<Rightarrow> nat \<Rightarrow> 'c thread" where
  "pop_begin l sub processed retries =
     (case l of Priority \<Rightarrow> DPop sub processed retries | Normal \<Rightarrow> DPopNormal sub processed retries)"

fun pop_pc :: "lane \<Rightarrow> bool \<Rightarrow> nat \<Rightarrow> nat \<Rightarrow> 'c consumer \<Rightarrow> 'c thread" where
  "pop_pc l sub processed retries (CRelease _ c) = DHandle sub processed c"
| "pop_pc l sub processed retries (CAdvance _ c) = DHandle sub processed c"
| "pop_pc l sub processed retries (CReturn (Some c)) = DHandle sub processed c"
| "pop_pc l sub processed retries (CReturn None) = pop_empty l sub processed retries"
| "pop_pc l sub processed retries _ = pop_begin l sub processed retries"

fun thread_view :: "'c ring_scheduler \<Rightarrow> nat \<Rightarrow> 'c ring_thread \<Rightarrow> 'c thread" where
  "thread_view s i (Control pc) = pc"
| "thread_view s i (Pushing l) = push_pc l (producers (rings s l) i)"
| "thread_view s i (Popping l sub processed retries) = pop_pc l sub processed retries (consumer (rings s l))"
| "thread_view s i Misuse = Idle"

definition system_view :: "'c ring_system \<Rightarrow> 'c system" where
  "system_view x = (case x of (s, ts) \<Rightarrow> (ring_view s, map (\<lambda>i. thread_view s i (ts ! i)) [0..<length ts]))"

subsection \<open>The mailbox operations on the queues of cells\<close>

lemma lane_capacity_valid: "ValidMailboxCapacity (lane_capacity l)"
  by (cases l) (auto simp: ValidMailboxCapacity_def lane_capacity_def kMailboxCapacity_def kPriorityMailboxCapacity_def
      intro: exI [of _ 10] exI [of _ 7])

lemma mailbox_calls:
  "producers m i = PIdle \<Longrightarrow> mailbox_step m (push_call i c m)"
  "mailbox_step m (push_access b i m)"
  "producers m i = PReturn r \<Longrightarrow> mailbox_step m (push_return i m)"
  "consumer m = CIdle \<Longrightarrow> mailbox_step m (pop_call m)"
  "mailbox_step m (pop_access m)"
  "consumer m = CReturn v \<Longrightarrow> mailbox_step m (pop_return m)"
  by (auto simp: push_call_def push_access_def push_return_def pop_call_def pop_access_def pop_return_def
      intro: mailbox_step.intros split: prod.split)

text \<open>A mailbox that stays within its bounds, as the scheduler uses it.\<close>

definition ring_ok :: "lane \<Rightarrow> 'c mbx \<Rightarrow> bool" where
  "ring_ok l m \<longleftrightarrow> mbx_reachable (lane_capacity l) m \<and> mbx_bounded (lane_capacity l) m"

lemma ring_okD:
  assumes "ring_ok l m"
  shows "mbx_inv (lane_capacity l) m" "mbx_bounded (lane_capacity l) m" "mbx_reachable (lane_capacity l) m"
  using assms mbx_reachable_inv lane_capacity_valid unfolding ring_ok_def by blast+

lemma ring_ok_step: "ring_ok l m \<Longrightarrow> mailbox_step m m' \<Longrightarrow> mbx_bounded (lane_capacity l) m' \<Longrightarrow> ring_ok l m'"
  unfolding ring_ok_def by (blast intro: mbx_reachable.step)

lemma unat_position: "p < 2 ^ 63 \<Longrightarrow> unat (of_nat p :: u64) = p"
  by (simp add: unat_of_nat)

lemma cells_published:
  assumes ok: "ring_ok l m" and pc: "producers m i = PPublish w"
  shows "TryPush_publish (unat w) (ring_queue m) =
      ring_queue (m\<lparr>mb := b, producers := (producers m)(i := PReturn True)\<rparr>)"
proof -
  note inv = ring_okD(1) [OF ok] and bd = ring_okD(2) [OF ok]
  obtain p where p: "p < length (reserved m)" "w = of_nat p" "length (taken m) \<le> p"
    and c: "cells m ! (p - length (taken m)) = (reserved m ! p, False)"
    and c': "cells (m\<lparr>mb := b, producers := (producers m)(i := PReturn True)\<rparr>) = (cells m)[p - length (taken m) := (reserved m ! p, True)]"
    by (rule cells_publish_at [OF inv bd pc, of b])
  have "unat w = p" using p mbx_bounds(1) [OF inv bd] by (simp add: unat_position)
  then show ?thesis by (simp add: TryPush_publish_def ring_queue_def Let_def c c')
qed

lemma push_full:
  assumes ok: "ring_ok l m" and pc: "producers m i = PLoadSequence w c" and f: "snd (TryEmplace_step b (mb m) (producers m i)) = PReturn False"
  shows "TryPush_reserve True (lane_capacity l) c (ring_queue m) = None"
proof -
  obtain m' where "TryEmplace_step b (mb m) (producers m i) = (m', PReturn False)" using f by (metis prod.collapse)
  then have "length (reserved m) = released m + lane_capacity l"
    using TryEmplace_fails_only_when_full [OF lane_capacity_valid ring_okD(3,2) [OF ok] pc] by blast
  then show ?thesis using released_taken(2) [of m] by (simp add: TryPush_reserve_def ring_queue_def)
qed

lemma push_reserved:
  assumes ok: "ring_ok l m" and pc: "producers m i = PCompareExchange w c" and w: "enqueue_position (mb m) = w"
  shows "TryPush_reserve False (lane_capacity l) c (ring_queue m) = Some (unat w,
    ring_queue (m\<lparr>mb := b, producers := (producers m)(i := PConstruct w c), reserved := reserved m @ [c]\<rparr>))"
proof -
  note inv = ring_okD(1) [OF ok] and bd = ring_okD(2) [OF ok]
  have N: "length (reserved m) + 1 < 2 ^ 63" by (rule mbx_bounds(1) [OF inv bd])
  have w': "w = of_nat (length (reserved m))" using w mbx_invD(5) [OF inv] by simp
  then obtain p where "p \<le> length (reserved m)" "w = of_nat p" "p < released m + lane_capacity l"
    using mbx_invD(8) [OF inv, of i] pc mbx_invD(1) [OF inv] by auto
  then have "length (reserved m) < released m + lane_capacity l"
    using w' N of_nat_u64_eq_iff [of p "length (reserved m)"] by simp
  then have "length (cells m) < lane_capacity l" using released_taken(1) [of m] mbx_invD(3) [OF inv] by simp
  then show ?thesis
    using cells_reserve [OF inv N pc w', of b] mbx_invD(3) [OF inv] N
    by (simp add: TryPush_reserve_def ring_queue_def w' unat_position)
qed

text \<open>An access of a push is invisible on the cells, or is the step of the scheduler that the access stands for.\<close>

definition after_push :: "lane \<Rightarrow> 'c mbx \<Rightarrow> 'c mbx \<Rightarrow> 'c SessionCommandScheduler \<Rightarrow> 'c SessionCommandScheduler" where
  "after_push l m m' s = (set_queue l (ring_queue m') s)
     \<lparr>submitted := submitted s @ map (Pair l) (drop (length (reserved m)) (reserved m'))\<rparr>"

definition after_pop :: "lane \<Rightarrow> 'c mbx \<Rightarrow> 'c mbx \<Rightarrow> 'c SessionCommandScheduler \<Rightarrow> 'c SessionCommandScheduler" where
  "after_pop l m m' s = (set_queue l (ring_queue m') s)
     \<lparr>handled := handled s @ map (Pair l) (drop (length (taken m)) (taken m'))\<rparr>"

lemma set_queue_same: "queues s l = q \<Longrightarrow> set_queue l q s = s"
  by (auto simp: set_queue_def)

lemma after_same:
  "queues s l = ring_queue m \<Longrightarrow> ring_queue m' = ring_queue m \<Longrightarrow> reserved m' = reserved m \<Longrightarrow> after_push l m m' s = s"
  "queues s l = ring_queue m \<Longrightarrow> ring_queue m' = ring_queue m \<Longrightarrow> taken m' = taken m \<Longrightarrow> after_pop l m m' s = s"
  by (simp_all add: after_push_def after_pop_def set_queue_same)

lemma ring_queue_cong:
  assumes "reserved m' = reserved m" "taken m' = taken m" "\<And>i w. holds (producers m' i) w = holds (producers m i) w"
  shows "ring_queue m' = ring_queue m"
proof -
  have "cells m' = cells m" using assms by (intro cells_cong) (simp_all add: held_def)
  then show ?thesis by (simp add: ring_queue_def assms(2))
qed

lemma ring_queue_frame [simp]: "ring_queue (m\<lparr>mb := b\<rparr>) = ring_queue m" "ring_queue (m\<lparr>consumer := c\<rparr>) = ring_queue m"
  by (rule ring_queue_cong; simp)+

lemma ring_queue_producer:
  assumes "\<And>w. holds pc w = holds (producers m i) w"
  shows "ring_queue (m\<lparr>mb := b, producers := (producers m)(i := pc)\<rparr>) = ring_queue m"
    and "ring_queue (m\<lparr>producers := (producers m)(i := pc)\<rparr>) = ring_queue m"
  by (rule ring_queue_cong; simp add: assms)+

lemma push_access_sim:
  assumes ok: "ring_ok l m" and q: "queues s l = ring_queue m" and m': "m' = push_access b i m"
  shows "after_push l m m' s = s \<and> push_pc l (producers m' i) = push_pc l (producers m i) \<or>
    (\<exists>b'. thread_step b' s (push_pc l (producers m i)) = (after_push l m m' s, push_pc l (producers m' i)))"
proof (cases "producers m i")
  case (PCompareExchange w c)
  show ?thesis
  proof (cases "\<not> b \<and> enqueue_position (mb m) = w")
    case True
    then show ?thesis using push_reserved [OF ok PCompareExchange, where b = "(mb m)\<lparr>enqueue_position := w + 1\<rparr>"] q
      by (intro disjI2 exI [of _ False]) (simp add: PCompareExchange m' push_access_def after_push_def)
  next
    case False
    then show ?thesis using q
      by (intro disjI1) (auto simp: PCompareExchange m' push_access_def after_same ring_queue_producer)
  qed
next
  case (PPublish w)
  then show ?thesis using cells_published [OF ok PPublish] q
    by (intro disjI2 exI) (simp add: PPublish m' push_access_def after_push_def)
next
  case (PLoadSequence w c)
  show ?thesis
  proof (cases "snd (TryEmplace_step b (mb m) (producers m i)) = PReturn False")
    case True
    then show ?thesis using push_full [OF ok PLoadSequence True] q
      by (intro disjI2 exI [of _ True]) (auto simp: PLoadSequence m' push_access_def after_same ring_queue_producer Let_def split: if_splits)
  next
    case False
    then show ?thesis using q
      by (intro disjI1) (auto simp: PLoadSequence m' push_access_def after_same ring_queue_producer Let_def split: if_splits)
  qed
next
  case (PConstruct w c)
  then show ?thesis using q
    by (intro disjI1) (auto simp: m' push_access_def after_same ring_queue_producer)
qed (use q in \<open>auto simp: m' push_access_def after_same ring_queue_producer\<close>)

lemma pop_taken:
  assumes ok: "ring_ok l m" and pc: "consumer m = CMove w" and m': "m' = pop_access m"
  shows "\<exists>w c. consumer m' = CRelease w c \<and> taken m' = taken m @ [c] \<and> TryPop_cell (ring_queue m) = Some (c, ring_queue m')"
proof -
  note inv = ring_okD(1) [OF ok] and bd = ring_okD(2) [OF ok]
  obtain b pc' where st: "TryPop_step (mb m) (consumer m) = (b, pc')" by (cases "TryPop_step (mb m) (consumer m)")
  then have m'_eq: "m' = m\<lparr>mb := b, consumer := pc', taken := taken m @ newly_taken (consumer m) pc'\<rparr>"
    by (simp add: m' pop_access_def)
  have "mbx_inv (lane_capacity l) m'" unfolding m'_eq by (rule mbx_inv_pop [OF inv lane_capacity_valid bd st])
  then have "consumer m' \<noteq> CFault" by (auto dest: mbx_invD(10))
  then obtain c where c: "pc' = CRelease w c" using st pc by (auto simp: m'_eq split: option.splits)
  have "take (length (taken m')) (reserved m') = taken m'" "length (taken m') \<le> length (reserved m')"
    using \<open>mbx_inv (lane_capacity l) m'\<close> by (auto dest: mbx_invD(2,3))
  then have "reserved m ! length (taken m) = c"
    by (simp add: m'_eq pc c take_Suc_conv_app_nth)
  moreover have "cells m = (reserved m ! length (taken m), True) # cells m'"
    unfolding m'_eq by (rule cells_take [OF inv bd lane_capacity_valid pc st])
  ultimately show ?thesis by (auto simp: m'_eq pc c TryPop_cell_def ring_queue_def)
qed

lemma pop_none:
  assumes ok: "ring_ok l m" and pc: "consumer m = CLoadSequence w"
  shows "snd (TryPop_step (mb m) (CLoadSequence w)) = CReturn None \<longleftrightarrow> TryPop_cell (ring_queue m) = None"
  using TryPop_empty_iff [OF lane_capacity_valid ring_okD(3,2) [OF ok] pc] pc
  by (cases "cells m") (auto simp: TryPop_cell_def ring_queue_def split: bool.splits)

lemma pop_access_sim:
  assumes ok: "ring_ok l m" and q: "queues s l = ring_queue m" and m': "m' = pop_access m"
  shows "after_pop l m m' s = s \<and> pop_pc l sub k r (consumer m') = pop_pc l sub k r (consumer m) \<or>
    (\<exists>b'. thread_step b' s (pop_pc l sub k r (consumer m)) = (after_pop l m m' s, pop_pc l sub k r (consumer m')))"
proof (cases "consumer m")
  case (CMove w)
  obtain v c where "consumer m' = CRelease v c" "taken m' = taken m @ [c]" "TryPop_cell (ring_queue m) = Some (c, ring_queue m')"
    using pop_taken [OF ok CMove m'] by blast
  then show ?thesis using q
    by (intro disjI2 exI) (cases l; simp add: CMove pop_begin_def after_pop_def)
next
  case (CLoadSequence w)
  show ?thesis
  proof (cases "snd (TryPop_step (mb m) (CLoadSequence w)) = CReturn None")
    case True
    then have "TryPop_cell (ring_queue m) = None" using pop_none [OF ok CLoadSequence] by simp
    moreover have "consumer m' = CReturn None" "after_pop l m m' s = s"
      using True q
      by (auto simp: m' pop_access_def CLoadSequence Let_def after_same split: if_splits)
    ultimately show ?thesis using q
      by (intro disjI2 exI) (cases l; simp add: CLoadSequence pop_begin_def pop_empty_def)
  next
    case False
    then show ?thesis using q
      by (intro disjI1) (auto simp: m' pop_access_def CLoadSequence Let_def after_same split: if_splits)
  qed
qed (use q in \<open>auto simp: m' pop_access_def after_same\<close>)

end
