(* ===== verification/Protocol.thy ===== *)
theory Protocol
  imports Idtx_Prelude
begin

text \<open>
  The messages of the websocket protocol (\<^verbatim>\<open>shared/proto_messages/{base,transform,prim}.proto\<close>)
  and the commands of a session's queue (\<^verbatim>\<open>source/session/SessionCommand.h\<close>).

  A message is a value of the record \<open>BaseMessage\<close>; the byte encoding is generated code and is not
  modelled. A \<^verbatim>\<open>double\<close> is its 64-bit pattern and a \<^verbatim>\<open>float\<close> its 32-bit pattern, with the conversions
  that \<^verbatim>\<open>static_cast<float>\<close> and the promotion to \<^verbatim>\<open>double\<close> make between them (IEEE 754, round to
  nearest, ties to even).
\<close>

unbundle bit_operations_syntax

subsection \<open>Floating point\<close>

type_synonym double = u64
type_synonym float32 = u32

definition round_shift :: "int \<Rightarrow> nat \<Rightarrow> int" where
  "round_shift m k =
     (let q = m div 2 ^ k; r = 2 * (m mod 2 ^ k)
      in if r > 2 ^ k \<or> (r = 2 ^ k \<and> odd q) then q + 1 else q)"

definition float_inf :: int where
  "float_inf = 255 * 2 ^ 23"

definition double_to_float :: "double \<Rightarrow> float32" where
  "double_to_float d =
     (let b = uint d; s = b div 2 ^ 63; e = b div 2 ^ 52 mod 2 ^ 11; f = b mod 2 ^ 52;
          mag = (if e = 2047 then float_inf + (if f = 0 then 0 else 2 ^ 22 + f div 2 ^ 29 mod 2 ^ 22)
                 else if e \<ge> 897 then min float_inf ((e - 897) * 2 ^ 23 + round_shift (2 ^ 52 + f) 29)
                 else if e = 0 then 0
                 else round_shift (2 ^ 52 + f) (29 + nat (897 - e)))
      in word_of_int (s * 2 ^ 31 + mag))"

fun normalise :: "nat \<Rightarrow> int \<Rightarrow> int \<Rightarrow> int \<times> int" where
  "normalise 0 e f = (e, f)"
| "normalise (Suc n) e f = (if f \<ge> 2 ^ 23 then (e, f) else normalise n (e - 1) (2 * f))"

definition float_to_double :: "float32 \<Rightarrow> double" where
  "float_to_double x =
     (let b = uint x; s = b div 2 ^ 31; e = b div 2 ^ 23 mod 2 ^ 8; f = b mod 2 ^ 23;
          mag = (if e = 255 then 2047 * 2 ^ 52 + f * 2 ^ 29
                 else if e > 0 then (e + 896) * 2 ^ 52 + f * 2 ^ 29
                 else if f = 0 then 0
                 else (case normalise 23 897 f of (e', f') \<Rightarrow> e' * 2 ^ 52 + (f' - 2 ^ 23) * 2 ^ 29))
      in word_of_int (s * 2 ^ 63 + mag))"

definition double_0 :: double where "double_0 = 0"
definition float_0 :: float32 where "float_0 = 0"
definition float_1 :: float32 where "float_1 = 0x3F800000"

subsection \<open>Messages\<close>

record Vector3 =
  v3x :: double
  v3y :: double
  v3z :: double

record SeparateTransform =
  translation :: Vector3
  rotation :: Vector3
  scale :: Vector3

record Matrix4dTransform =
  m00 :: double m01 :: double m02 :: double m03 :: double
  m10 :: double m11 :: double m12 :: double m13 :: double
  m20 :: double m21 :: double m22 :: double m23 :: double
  m30 :: double m31 :: double m32 :: double m33 :: double

datatype transform_case = kSeperate SeparateTransform | kMatrix Matrix4dTransform | TRANSFORM_NOT_SET

record TransformUpdate =
  upd_session_id :: string
  upd_usd_file :: string
  upd_prim_path :: string
  upd_transform :: transform_case
  upd_timestamp :: int

datatype PrimType =
    PRIM_TYPE_UNSPECIFIED | PRIM_TYPE_CUBE | PRIM_TYPE_SPHERE | PRIM_TYPE_CONE | PRIM_TYPE_CYLINDER
  | PRIM_TYPE_CAPSULE | PRIM_TYPE_XFORM

record Handshake =
  hs_session_id :: string
  hs_usd_path :: string
  hs_usd_uri :: string

record CreatePrimBroadcast =
  cb_parent_path :: string
  cb_prim_name :: string
  cb_type :: PrimType
  cb_size :: "double option"
  cb_height :: "double option"
  cb_radius :: "double option"
  cb_axis :: "string option"

datatype message_case =
    kHandshake Handshake
  | kXformUpdate TransformUpdate
  | kXformBroadcast string TransformUpdate
  | kAck bool string
  | kError string string
  | kSnapshotComplete
  | kCreatePrim string PrimType
  | kCreatePrimBroadcast CreatePrimBroadcast
  | kSetPrimActive string bool
  | kSetPrimActiveBroadcast string bool
  | MESSAGE_NOT_SET

record BaseMessage =
  msg_session_id :: string
  msg_request_id :: u64
  msg_server_seq :: server_seq
  message_case :: message_case

definition is_ack :: "BaseMessage \<Rightarrow> bool" where
  "is_ack m \<longleftrightarrow> (case message_case m of kAck _ _ \<Rightarrow> True | _ \<Rightarrow> False)"

subsection \<open>Commands\<close>

datatype CommitStatus = CommitOk | CommitUnknownSession | NothingToCommit | WriteFailed | Unavailable

record CommitResult =
  commit_status :: CommitStatus
  commit_error :: string

record TransformCommand =
  tc_update :: TransformUpdate
  tc_origin :: ConnectionId
  tc_request_id :: u64
  tc_base_seq :: server_seq

record CreatePrimCommand =
  cc_parent_path :: string
  cc_type :: PrimType
  cc_origin :: ConnectionId
  cc_request_id :: u64

record SetPrimActiveCommand =
  ac_prim_path :: string
  ac_active :: bool
  ac_origin :: ConnectionId
  ac_request_id :: u64

text \<open>The promise of a \<^verbatim>\<open>CommitCommand\<close> and the shared \<^verbatim>\<open>PendingCorrection\<close> of a
  \<^verbatim>\<open>CorrectionCommand\<close> are named by keys; \<^verbatim>\<open>None\<close> is the null \<^verbatim>\<open>shared_ptr\<close>.\<close>

datatype SessionCommand =
    Transform TransformCommand
  | Join ConnectionId
  | CreatePrim CreatePrimCommand
  | SetPrimActive SetPrimActiveCommand
  | Commit nat
  | ReloadRoot
  | Flush
  | Correction ConnectionId "(ConnectionId \<times> string) option"

subsection \<open>Floating point facts\<close>

lemma round_shift_exact: "round_shift (m * 2 ^ k) k = m"
  by (simp add: round_shift_def Let_def)

end
