(* ===== verification/Usd_Interface.thy ===== *)
theory Usd_Interface
  imports Protocol
begin

text \<open>
  What the sources use of the OpenUSD library, as a parameter of the model: the record \<open>Usd\<close> holds
  one function per library call, over an abstract type of stages. The values that the calls return
  (composed prims, layer specs, notices) are records of what the sources read of them.

  An authoring call yields its result or the text of the exception it throws, and the new stage;
  the notices that it delivers before it returns are part of the result. The laws that the
  development needs of the library are named hypotheses of the theorems that use them.
\<close>

type_synonym SdfPath = string
type_synonym GfMatrix4d = "double list list"

datatype VtValue =
    VtEmpty
  | VtMatrix4d GfMatrix4d
  | VtVec3d double double double
  | VtVec3f float32 float32 float32
  | VtOther

datatype SdfSpecifier = SdfSpecifierDef | SdfSpecifierOver | SdfSpecifierClass

text \<open>A prim spec: its authored \<^verbatim>\<open>active\<close> flag if it has one, and the attribute specs with their
  default values.\<close>

record SdfPrimSpec =
  spec_active :: "bool option"
  spec_specifier :: SdfSpecifier
  spec_type_name :: string
  spec_attributes :: "(string \<times> VtValue) list"

text \<open>A layer as \<^verbatim>\<open>Traverse\<close> (the paths, in order) and \<^verbatim>\<open>GetPrimAtPath\<close> show it.\<close>

record SdfLayer =
  layer_empty :: bool
  layer_paths :: "SdfPath list"
  layer_prims :: "SdfPath \<Rightarrow> SdfPrimSpec option"

datatype layer_handle = RootLayer | SessionLayer | OtherLayer nat

text \<open>A composed prim: what \<^verbatim>\<open>UsdPrim\<close> and the schema objects on it answer. The common transform is
  \<^verbatim>\<open>None\<close> when \<^verbatim>\<open>UsdGeomXformCommonAPI\<close> is not valid or reports failure.\<close>

record prim_info =
  prim_active :: bool
  prim_defined :: bool
  prim_pseudo_root :: bool
  prim_gprim :: bool
  prim_xformable :: bool
  prim_attr_type :: "string \<Rightarrow> string option"
  prim_double :: "string \<Rightarrow> double option"
  prim_token :: "string \<Rightarrow> string option"
  prim_stack :: "layer_handle option list"
  prim_common :: "((double \<times> double \<times> double) \<times> (float32 \<times> float32 \<times> float32) \<times> (float32 \<times> float32 \<times> float32)) option"
  prim_local :: "GfMatrix4d option"

datatype UsdPrim = UsdPrim (info: prim_info) (GetParent: "UsdPrim option")

record notice =
  resynced_paths :: "SdfPath list"
  changed_info_paths :: "SdfPath list"

datatype XformOpType = TypeTranslate | TypeRotateXYZ | TypeScale | TypeTransform
datatype XformOpPrecision = PrecisionDouble | PrecisionFloat

record 'st Usd =
  IsValidPathString :: "string \<Rightarrow> bool"
  IsAbsolutePath :: "SdfPath \<Rightarrow> bool"
  IsPrimPath :: "SdfPath \<Rightarrow> bool"
  IsPropertyPath :: "SdfPath \<Rightarrow> bool"
  GetPrimPath :: "SdfPath \<Rightarrow> SdfPath"
  GetName :: "SdfPath \<Rightarrow> string"
  GetParentPath :: "SdfPath \<Rightarrow> SdfPath"
  GetPathElementCount :: "SdfPath \<Rightarrow> nat"
  AppendChild :: "SdfPath \<Rightarrow> string \<Rightarrow> SdfPath"
  path_order :: "SdfPath list \<Rightarrow> SdfPath list"
  MakeValidIdentifier :: "string \<Rightarrow> string"
  GetSchemaTypeName :: "PrimType \<Rightarrow> string"
  IsAGprim :: "PrimType \<Rightarrow> bool"
  FindConcretePrimDefinition :: "string \<Rightarrow> bool"
  fallback_double :: "string \<Rightarrow> string \<Rightarrow> double option"
  fallback_token :: "string \<Rightarrow> string \<Rightarrow> string option"
  GetOpName :: "XformOpType \<Rightarrow> string"
  GetValueTypeName :: "XformOpType \<Rightarrow> XformOpPrecision \<Rightarrow> string"
  GetPrimAtPath :: "'st \<Rightarrow> SdfPath \<Rightarrow> UsdPrim option"
  GetSessionLayer :: "'st \<Rightarrow> SdfLayer option"
  HasRootLayer :: "'st \<Rightarrow> bool"
  SetXformOpOrder_empty :: "'st \<Rightarrow> SdfPath \<Rightarrow> unit throws \<times> 'st"
  AddXformOp :: "'st \<Rightarrow> SdfPath \<Rightarrow> XformOpType \<Rightarrow> XformOpPrecision \<Rightarrow> bool throws \<times> 'st"
  SetXformOp :: "'st \<Rightarrow> SdfPath \<Rightarrow> XformOpType \<Rightarrow> VtValue \<Rightarrow> unit throws \<times> 'st"
  CloseChangeBlock :: "'st \<Rightarrow> notice list \<times> 'st"
  DefinePrim :: "'st \<Rightarrow> SdfPath \<Rightarrow> string \<Rightarrow> bool throws \<times> notice list \<times> 'st"
  PrimSetActive :: "'st \<Rightarrow> SdfPath \<Rightarrow> bool \<Rightarrow> bool throws \<times> notice list \<times> 'st"
  ClearSessionLayer :: "'st \<Rightarrow> unit throws \<times> 'st"

text \<open>The sequencing of calls that may throw: the first exception ends the block.\<close>

definition usd_bind ::
  "('st \<Rightarrow> 'a throws \<times> 'st) \<Rightarrow> ('a \<Rightarrow> 'st \<Rightarrow> 'b throws \<times> 'st) \<Rightarrow> 'st \<Rightarrow> 'b throws \<times> 'st" where
  "usd_bind f g st = (case f st of (Inl e, st') \<Rightarrow> (Inl e, st') | (Inr x, st') \<Rightarrow> g x st')"

definition usd_return :: "'a \<Rightarrow> 'st \<Rightarrow> 'a throws \<times> 'st" where
  "usd_return x st = (Inr x, st)"

subsection \<open>Matrices\<close>

definition matrix_of_proto :: "Matrix4dTransform \<Rightarrow> GfMatrix4d" where
  "matrix_of_proto m =
     [[m00 m, m01 m, m02 m, m03 m],
      [m10 m, m11 m, m12 m, m13 m],
      [m20 m, m21 m, m22 m, m23 m],
      [m30 m, m31 m, m32 m, m33 m]]"

definition matrix_to_proto :: "GfMatrix4d \<Rightarrow> Matrix4dTransform" where
  "matrix_to_proto g =
     \<lparr>m00 = g!0!0, m01 = g!0!1, m02 = g!0!2, m03 = g!0!3,
      m10 = g!1!0, m11 = g!1!1, m12 = g!1!2, m13 = g!1!3,
      m20 = g!2!0, m21 = g!2!1, m22 = g!2!2, m23 = g!2!3,
      m30 = g!3!0, m31 = g!3!1, m32 = g!3!2, m33 = g!3!3\<rparr>"

lemma matrix_proto_inverse [simp]: "matrix_to_proto (matrix_of_proto m) = m"
  by (simp add: matrix_to_proto_def matrix_of_proto_def)

end
