(* ===== verification/Usd_Instance.thy ===== *)
theory Usd_Instance
  imports Usd_Interface
begin

text \<open>
  A small stage library that answers every call of \<^typ>\<open>'st Usd\<close>: prims in a root layer and in a session
  layer, both finite. It stands for no code; it shows that the hypotheses on the library can hold
  together, and theorems that have them are applied to it.
\<close>

record mini_stage =
  ms_root :: "SdfPath list"
  ms_session :: "(SdfPath \<times> SdfPrimSpec) list"
  ms_pending :: "SdfPath list"

definition empty_spec :: SdfPrimSpec where
  "empty_spec = \<lparr>spec_active = None, spec_specifier = SdfSpecifierOver, spec_type_name = [], spec_attributes = []\<rparr>"

definition ms_spec :: "mini_stage \<Rightarrow> SdfPath \<Rightarrow> SdfPrimSpec" where
  "ms_spec st p = (case map_of (ms_session st) p of None \<Rightarrow> empty_spec | Some s \<Rightarrow> s)"

definition ms_put :: "mini_stage \<Rightarrow> SdfPath \<Rightarrow> SdfPrimSpec \<Rightarrow> mini_stage" where
  "ms_put st p s = st\<lparr>ms_session := (p, s) # filter (\<lambda>e. fst e \<noteq> p) (ms_session st)\<rparr>"

definition ms_attr :: "mini_stage \<Rightarrow> SdfPath \<Rightarrow> string \<Rightarrow> VtValue \<Rightarrow> mini_stage" where
  "ms_attr st p a v =
     (let s = ms_spec st p
      in (ms_put st p (s\<lparr>spec_attributes := (a, v) # filter (\<lambda>e. fst e \<noteq> a) (spec_attributes s)\<rparr>))
         \<lparr>ms_pending := [p]\<rparr>)"

definition mini_op_name :: "XformOpType \<Rightarrow> string" where
  "mini_op_name t =
     (case t of TypeTranslate \<Rightarrow> ''xformOp:translate'' | TypeRotateXYZ \<Rightarrow> ''xformOp:rotateXYZ''
      | TypeScale \<Rightarrow> ''xformOp:scale'' | TypeTransform \<Rightarrow> ''xformOp:transform'')"

definition mini_type_name :: "PrimType \<Rightarrow> string" where
  "mini_type_name t =
     (case t of PRIM_TYPE_UNSPECIFIED \<Rightarrow> [] | PRIM_TYPE_CUBE \<Rightarrow> ''Cube'' | PRIM_TYPE_SPHERE \<Rightarrow> ''Sphere''
      | PRIM_TYPE_CONE \<Rightarrow> ''Cone'' | PRIM_TYPE_CYLINDER \<Rightarrow> ''Cylinder'' | PRIM_TYPE_CAPSULE \<Rightarrow> ''Capsule''
      | PRIM_TYPE_XFORM \<Rightarrow> ''Xform'')"

definition mini_prim :: "mini_stage \<Rightarrow> SdfPath \<Rightarrow> UsdPrim option" where
  "mini_prim st p =
     (if p = ''/'' \<or> p \<in> set (ms_root st) \<or> p \<in> fst ` set (ms_session st)
      then Some (UsdPrim
        \<lparr>prim_active = spec_active (ms_spec st p) \<noteq> Some False, prim_defined = True,
         prim_pseudo_root = (p = ''/''), prim_gprim = spec_type_name (ms_spec st p) \<in> {''Cube'', ''Sphere''},
         prim_xformable = (p \<noteq> ''/''), prim_attr_type = (\<lambda>_. None), prim_double = (\<lambda>_. Some double_0),
         prim_token = (\<lambda>_. Some ''Z''),
         prim_stack = [Some (if p \<in> set (ms_root st) then RootLayer else SessionLayer)],
         prim_common = Some ((0, 0, 0), (0, 0, 0), (float_1, float_1, float_1)), prim_local = None\<rparr> None)
      else None)"

definition mini_notices :: "SdfPath list \<Rightarrow> notice list" where
  "mini_notices ps = (if ps = [] then [] else [\<lparr>resynced_paths = ps, changed_info_paths = []\<rparr>])"

definition mini_usd :: "mini_stage Usd" where
  "mini_usd =
     \<lparr>IsValidPathString = (\<lambda>p. p \<noteq> []), IsAbsolutePath = (\<lambda>p. take 1 p = ''/''),
      IsPrimPath = (\<lambda>p. p \<noteq> [] \<and> p \<noteq> ''/'' \<and> CHR ''.'' \<notin> set p), IsPropertyPath = (\<lambda>p. CHR ''.'' \<in> set p),
      GetPrimPath = takeWhile (\<lambda>c. c \<noteq> CHR ''.''), GetName = (\<lambda>p. last (split_on CHR ''/'' p)),
      GetParentPath = (\<lambda>p. let q = butlast (split_on CHR ''/'' p)
         in if q = [[]] then ''/'' else concat (map (\<lambda>e. CHR ''/'' # e) (tl q))),
      GetPathElementCount = (\<lambda>p. length (split_on CHR ''/'' p) - 1),
      AppendChild = (\<lambda>p c. (if p = ''/'' then [] else p) @ ''/'' @ c), path_order = remdups,
      MakeValidIdentifier = id, GetSchemaTypeName = mini_type_name,
      IsAGprim = (\<lambda>t. t \<noteq> PRIM_TYPE_XFORM), FindConcretePrimDefinition = (\<lambda>_. True),
      fallback_double = (\<lambda>_ _. Some double_0), fallback_token = (\<lambda>_ _. Some ''Z''),
      GetOpName = mini_op_name, GetValueTypeName = (\<lambda>_ _. ''value''),
      GetPrimAtPath = mini_prim,
      GetSessionLayer = (\<lambda>st. Some \<lparr>layer_empty = (ms_session st = []), layer_paths = map fst (ms_session st),
         layer_prims = map_of (ms_session st)\<rparr>),
      HasRootLayer = (\<lambda>_. True),
      SetXformOpOrder_empty = (\<lambda>st p. (Inr (), st)),
      AddXformOp = (\<lambda>st p t pr. (Inr True, st)),
      SetXformOp = (\<lambda>st p t v. (Inr (), ms_attr st p (mini_op_name t) v)),
      CloseChangeBlock = (\<lambda>st. (mini_notices (ms_pending st), st\<lparr>ms_pending := []\<rparr>)),
      DefinePrim = (\<lambda>st p tn. (Inr True, mini_notices [p],
         ms_put st p ((ms_spec st p)\<lparr>spec_specifier := SdfSpecifierDef, spec_type_name := tn\<rparr>))),
      PrimSetActive = (\<lambda>st p a. (Inr True, mini_notices [p], ms_put st p ((ms_spec st p)\<lparr>spec_active := Some a\<rparr>))),
      ClearSessionLayer = (\<lambda>st. (Inr (), st\<lparr>ms_session := []\<rparr>))\<rparr>"

lemma mini_usd_simps [simp]:
  "IsValidPathString mini_usd = (\<lambda>p. p \<noteq> [])"
  "IsAbsolutePath mini_usd = (\<lambda>p. take 1 p = ''/'')"
  "IsPrimPath mini_usd = (\<lambda>p. p \<noteq> [] \<and> p \<noteq> ''/'' \<and> CHR ''.'' \<notin> set p)"
  "IsPropertyPath mini_usd = (\<lambda>p. CHR ''.'' \<in> set p)"
  "GetPrimPath mini_usd = takeWhile (\<lambda>c. c \<noteq> CHR ''.'')"
  "GetName mini_usd = (\<lambda>p. last (split_on CHR ''/'' p))"
  "GetParentPath mini_usd = (\<lambda>p. let q = butlast (split_on CHR ''/'' p) in if q = [[]] then ''/'' else concat (map (\<lambda>e. CHR ''/'' # e) (tl q)))"
  "GetPathElementCount mini_usd = (\<lambda>p. length (split_on CHR ''/'' p) - 1)"
  "AppendChild mini_usd = (\<lambda>p c. (if p = ''/'' then [] else p) @ ''/'' @ c)"
  "path_order mini_usd = remdups"
  "MakeValidIdentifier mini_usd = id"
  "GetSchemaTypeName mini_usd = mini_type_name"
  "IsAGprim mini_usd = (\<lambda>t. t \<noteq> PRIM_TYPE_XFORM)"
  "FindConcretePrimDefinition mini_usd = (\<lambda>_. True)"
  "fallback_double mini_usd = (\<lambda>_ _. Some double_0)"
  "fallback_token mini_usd = (\<lambda>_ _. Some ''Z'')"
  "GetOpName mini_usd = mini_op_name"
  "GetValueTypeName mini_usd = (\<lambda>_ _. ''value'')"
  "GetPrimAtPath mini_usd = mini_prim"
  "GetSessionLayer mini_usd = (\<lambda>st. Some \<lparr>layer_empty = (ms_session st = []), layer_paths = map fst (ms_session st), layer_prims = map_of (ms_session st)\<rparr>)"
  "HasRootLayer mini_usd = (\<lambda>_. True)"
  "SetXformOpOrder_empty mini_usd = (\<lambda>st p. (Inr (), st))"
  "AddXformOp mini_usd = (\<lambda>st p t pr. (Inr True, st))"
  "SetXformOp mini_usd = (\<lambda>st p t v. (Inr (), ms_attr st p (mini_op_name t) v))"
  "CloseChangeBlock mini_usd = (\<lambda>st. (mini_notices (ms_pending st), st\<lparr>ms_pending := []\<rparr>))"
  "DefinePrim mini_usd = (\<lambda>st p tn. (Inr True, mini_notices [p], ms_put st p ((ms_spec st p)\<lparr>spec_specifier := SdfSpecifierDef, spec_type_name := tn\<rparr>)))"
  "PrimSetActive mini_usd = (\<lambda>st p a. (Inr True, mini_notices [p], ms_put st p ((ms_spec st p)\<lparr>spec_active := Some a\<rparr>)))"
  "ClearSessionLayer mini_usd = (\<lambda>st. (Inr (), st\<lparr>ms_session := []\<rparr>))"
  by (simp_all add: mini_usd_def)

definition mini_root_stage :: mini_stage where
  "mini_root_stage = \<lparr>ms_root = [''/World''], ms_session = [], ms_pending = []\<rparr>"

lemma mini_prim_children:
  "{c. mini_prim st (AppendChild mini_usd p c) \<noteq> None} \<subseteq>
     {c. (if p = ''/'' then [] else p) @ ''/'' @ c \<in> {''/''} \<union> set (ms_root st) \<union> fst ` set (ms_session st)}"
  by (auto simp: mini_prim_def split: if_splits)

lemma mini_finite_children: "finite {c. mini_prim st (AppendChild mini_usd p c) \<noteq> None}"
proof (rule finite_subset [OF mini_prim_children])
  have "inj_on (\<lambda>c. (if p = ''/'' then [] else p) @ ''/'' @ c)
      {c. (if p = ''/'' then [] else p) @ ''/'' @ c \<in> {''/''} \<union> set (ms_root st) \<union> fst ` set (ms_session st)}"
    by (simp add: inj_on_def)
  then show "finite {c. (if p = ''/'' then [] else p) @ ''/'' @ c \<in> {''/''} \<union> set (ms_root st) \<union> fst ` set (ms_session st)}"
    by (rule inj_on_finite [of _ _ "{''/''} \<union> set (ms_root st) \<union> fst ` set (ms_session st)"]) auto
qed

end
