(* ===== verification/Environment.thy ===== *)
theory Environment
  imports Idtx_Prelude
begin

text \<open>
  Process environment (\<^verbatim>\<open>source/utils/Environment.h\<close>) and session identifiers
  (\<^verbatim>\<open>source/utils/Uuid.h\<close>).

  The environment is a partial function. \<^verbatim>\<open>load_dotenv\<close> takes the text of the file, or \<open>None\<close> when the
  file cannot be opened. The random numbers a UUID is made of are arguments; bytes are taken in
  little-endian order, as \<^verbatim>\<open>memcpy\<close> does on the platforms the server is built for.
\<close>

subsection \<open>Environment variables\<close>

type_synonym environment = "string \<rightharpoonup> string"

text \<open>The lines \<^verbatim>\<open>std::getline\<close> delivers: a final newline does not start another line.\<close>

definition getlines :: "string \<Rightarrow> string list" where
  "getlines s = (let ls = split_on (CHR 0x0A) s in if last ls = [] then butlast ls else ls)"

definition strip_cr :: "string \<Rightarrow> string" where
  "strip_cr line = (if line \<noteq> [] \<and> last line = CHR 0x0D then butlast line else line)"

text \<open>\<^verbatim>\<open>::setenv(key, value, 0)\<close> fails on an empty name.\<close>

definition setenv_if_absent :: "string \<Rightarrow> string \<Rightarrow> environment \<Rightarrow> environment" where
  "setenv_if_absent key value env =
     (if key = [] then env else case env key of None \<Rightarrow> env(key \<mapsto> value) | Some _ \<Rightarrow> env)"

definition dotenv_line :: "string \<Rightarrow> environment \<Rightarrow> environment" where
  "dotenv_line raw env =
     (let line = strip_cr raw
      in if line = [] \<or> hd line = CHR ''#'' then env
         else if CHR ''='' \<notin> set line then env
         else let key = takeWhile (\<lambda>c. c \<noteq> CHR ''='') line;
                  value = tl (dropWhile (\<lambda>c. c \<noteq> CHR ''='') line)
              in setenv_if_absent key value env)"

definition load_dotenv :: "string option \<Rightarrow> environment \<Rightarrow> environment" where
  "load_dotenv file env = (case file of None \<Rightarrow> env | Some text \<Rightarrow> fold dotenv_line (getlines text) env)"

definition get_env :: "environment \<Rightarrow> string \<Rightarrow> string option" where
  "get_env env name = (case env name of Some v \<Rightarrow> if v = [] then None else Some v | None \<Rightarrow> None)"

definition is_digit :: "char \<Rightarrow> bool" where
  "is_digit c \<longleftrightarrow> 48 \<le> (of_char c :: nat) \<and> of_char c \<le> (57 :: nat)"

definition digits_value :: "string \<Rightarrow> nat" where
  "digits_value s = foldl (\<lambda>n c. 10 * n + (of_char c - 48)) 0 s"

text \<open>\<^verbatim>\<open>std::from_chars\<close> into a \<^verbatim>\<open>uint64_t\<close>, with the check that the whole text was consumed.\<close>

definition from_chars_u64 :: "string \<Rightarrow> u64 option" where
  "from_chars_u64 s =
     (if s \<noteq> [] \<and> list_all is_digit s \<and> digits_value s < 2 ^ 64 then Some (of_nat (digits_value s)) else None)"

definition get_env_u64 :: "environment \<Rightarrow> string \<Rightarrow> u64 \<Rightarrow> u64" where
  "get_env_u64 env name fallback =
     (case get_env env name of
        None \<Rightarrow> fallback
      | Some v \<Rightarrow> (case from_chars_u64 v of Some out \<Rightarrow> out | None \<Rightarrow> fallback))"

lemma dotenv_line_keeps: "env k = Some v \<Longrightarrow> dotenv_line line env k = Some v"
  by (auto simp: dotenv_line_def setenv_if_absent_def Let_def split: option.split)

lemma fold_dotenv_keeps: "env k = Some v \<Longrightarrow> fold dotenv_line ls env k = Some v"
  by (induction ls arbitrary: env) (auto simp: dotenv_line_keeps)

text \<open>Printing and reading back a number.\<close>

lemma digit_char_props: "d < 10 \<Longrightarrow> is_digit (digit_char d) \<and> (of_char (digit_char d) :: nat) - 48 = d"
  by (simp add: is_digit_def digit_char_def of_char_of)

lemma nat_to_string_digits: "list_all is_digit (nat_to_string n)"
  by (induction n rule: nat_to_string.induct) (subst nat_to_string.simps, auto simp: digit_char_props)

lemma digits_value_snoc: "digits_value (s @ [c]) = 10 * digits_value s + (of_char c - 48)"
  by (simp add: digits_value_def)

lemma digits_value_nat_to_string: "digits_value (nat_to_string n) = n"
proof (induction n rule: nat_to_string.induct)
  case (1 n)
  show ?case
  proof (cases "n < 10")
    case True
    then show ?thesis
      using digit_char_props [of n] by (subst nat_to_string.simps) (simp add: digits_value_def)
  next
    case False
    with 1 show ?thesis
      using digit_char_props [of "n mod 10"] by (subst nat_to_string.simps) (simp add: digits_value_snoc)
  qed
qed

subsection \<open>UUIDs\<close>

definition le_bytes :: "u64 \<Rightarrow> u8 list" where
  "le_bytes a = map (\<lambda>i. ucast (drop_bit (8 * i) a)) [0..<8]"

definition uuid_bytes :: "u64 \<Rightarrow> u64 \<Rightarrow> u8 list" where
  "uuid_bytes a b =
     (let bytes = le_bytes a @ le_bytes b;
          bytes1 = bytes[6 := or (and (bytes ! 6) 0x0F) 0x40]
      in bytes1[8 := or (and (bytes1 ! 8) 0x3F) 0x80])"

definition hex :: string where
  "hex = ''0123456789abcdef''"

definition hex_byte :: "u8 \<Rightarrow> string" where
  "hex_byte x = [hex ! unat (and (drop_bit 4 x) 0x0F), hex ! unat (and x 0x0F)]"

definition GenerateUuidV4 :: "u64 \<Rightarrow> u64 \<Rightarrow> string" where
  "GenerateUuidV4 a b =
     concat (map (\<lambda>i. (if i \<in> {4, 6, 8, 10} then ''-'' else []) @ hex_byte (uuid_bytes a b ! i)) [0..<16])"

definition uuid_v4_shape :: "string \<Rightarrow> bool" where
  "uuid_v4_shape s \<longleftrightarrow> length s = 36 \<and>
     (\<forall>i<36. if i \<in> {8, 13, 18, 23} then s ! i = CHR ''-'' else s ! i \<in> set hex) \<and>
     s ! 14 = CHR ''4'' \<and> s ! 19 \<in> set ''89ab''"

lemma upt_16: "[0..<16] = [0,1,2,3,4,5,6,7,8,9,10,11,12,13,14,15 :: nat]"
  by (simp add: upt_conv_Cons)

lemma all_less_36: "(\<forall>i<36. P (i :: nat)) \<longleftrightarrow> (\<forall>i\<in>set [0..<36]. P i)"
  by auto

lemma hex_byte_chars: "length (hex_byte x) = 2" "set (hex_byte x) \<subseteq> set hex"
proof -
  have "unat (and y 0x0F) < length hex" for y :: u8
  proof -
    have "unat (and y 0x0F) \<le> unat (0x0F :: u8)"
      using word_and_le1 [of y "0x0F"] by (simp add: word_le_nat_alt)
    then show ?thesis by (simp add: hex_def)
  qed
  then show "set (hex_byte x) \<subseteq> set hex" by (simp add: hex_byte_def)
qed (simp add: hex_byte_def)

lemma version_nibble: "drop_bit 4 (or (and x 0x0F) 0x40) = (4 :: u8)"
  by (simp add: drop_bit_or drop_bit_and)

lemma variant_nibble: "hex ! unat (and (drop_bit 4 (or (and x 0x3F) 0x80)) 0x0F :: u8) \<in> set ''89ab''"
proof -
  define y where "y = and (drop_bit 4 x) (3 :: u8)"
  have "y \<le> 3" by (simp add: y_def word_and_le1)
  then have "unat y \<le> 3" by (simp add: word_le_nat_alt)
  then have "unat y = 0 \<or> unat y = 1 \<or> unat y = 2 \<or> unat y = 3" by arith
  then have "y = 0 \<or> y = 1 \<or> y = 2 \<or> y = 3"
    by (simp add: word_unat_eq_iff)
  moreover have "and (drop_bit 4 (or (and x 0x3F) 0x80)) 0x0F = and (or y 8) 0x0F"
    by (simp add: y_def drop_bit_or drop_bit_and)
  ultimately show ?thesis by (auto simp: hex_def)
qed

subsection \<open>Properties\<close>

text \<open>Loading a \<^verbatim>\<open>.env\<close> file never overrides a variable that is already set.\<close>

theorem load_dotenv_never_overrides:
  assumes "env k = Some v"
  shows "load_dotenv file env k = Some v"
  using assms by (simp add: load_dotenv_def fold_dotenv_keeps split: option.split)

theorem load_dotenv_never_overrides_witness:
  "load_dotenv (Some ''A=2'') [''A'' \<mapsto> ''1''] ''A'' = Some ''1''"
  by (rule load_dotenv_never_overrides) simp

text \<open>A number written in decimal is read back, and anything that is not a decimal number of 64
  bits gives the fallback.\<close>

theorem get_env_u64_roundtrip:
  "get_env_u64 (env(name \<mapsto> nat_to_string n)) name fallback = (if n < 2 ^ 64 then of_nat n else fallback)"
  by (simp add: get_env_u64_def get_env_def from_chars_u64_def nat_to_string_digits digits_value_nat_to_string)

text \<open>C40: Whatever the random numbers, a generated identifier has the canonical 8-4-4-4-12 shape with
  the version digit 4 and a variant digit of RFC 4122.\<close>

theorem GenerateUuidV4_shape: "uuid_v4_shape (GenerateUuidV4 a b)"
proof -
  define hi where "hi x = hex ! unat (and (drop_bit 4 x) (0x0F :: u8))" for x
  define lo where "lo x = hex ! unat (and x (0x0F :: u8))" for x
  have hb: "hex_byte x = [hi x, lo x]" for x by (simp add: hex_byte_def hi_def lo_def)
  have hex: "hi x \<in> set hex" "lo x \<in> set hex" for x
    using hex_byte_chars(2) [of x] by (simp_all add: hb)
  let ?B = "uuid_bytes a b"
  have ver: "hi (?B ! 6) = CHR ''4''"
    by (simp add: hi_def uuid_bytes_def Let_def le_bytes_def version_nibble hex_def)
  have var: "hi (?B ! 8) \<in> set ''89ab''"
  proof -
    have "?B ! 8 = or (and ((le_bytes a @ le_bytes b) ! 8) 0x3F) 0x80"
      by (simp add: uuid_bytes_def Let_def le_bytes_def)
    then show ?thesis unfolding hi_def by (simp only: variant_nibble)
  qed
  have "GenerateUuidV4 a b =
    [hi (?B!0), lo (?B!0), hi (?B!1), lo (?B!1), hi (?B!2), lo (?B!2), hi (?B!3), lo (?B!3), CHR ''-'',
     hi (?B!4), lo (?B!4), hi (?B!5), lo (?B!5), CHR ''-'', hi (?B!6), lo (?B!6), hi (?B!7), lo (?B!7), CHR ''-'',
     hi (?B!8), lo (?B!8), hi (?B!9), lo (?B!9), CHR ''-'', hi (?B!10), lo (?B!10), hi (?B!11), lo (?B!11),
     hi (?B!12), lo (?B!12), hi (?B!13), lo (?B!13), hi (?B!14), lo (?B!14), hi (?B!15), lo (?B!15)]"
    by (simp add: GenerateUuidV4_def upt_16 hb)
  then show ?thesis
    using ver var hex hex(1) [of "?B ! 6"] by (simp add: uuid_v4_shape_def all_less_36 upt_conv_Cons)
qed

end
