(* ===== verification/Dispatchers.thy ===== *)
theory Dispatchers
  imports Usd_Instance Environment
begin

text \<open>
  Authoring and reading the stage: \<^verbatim>\<open>source/session/TransformDispatcher.{h,cpp}\<close> and
  \<^verbatim>\<open>source/session/PrimDispatcher.{h,cpp}\<close>.

  An operation takes the stage (\<^verbatim>\<open>None\<close> for the null pointer) and yields its result, the notices
  delivered while it ran and the new stage. \<open>UniqueChildPath\<close> searches without bound; it and
  \<open>PrimDispatcher_Create\<close> are \<open>None\<close> where the search does not end.
\<close>

subsection \<open>TransformDispatcher\<close>

definition kTranslatePrecision :: XformOpPrecision where "kTranslatePrecision = PrecisionDouble"
definition kRotatePrecision :: XformOpPrecision where "kRotatePrecision = PrecisionFloat"
definition kScalePrecision :: XformOpPrecision where "kScalePrecision = PrecisionFloat"
definition kMatrixPrecision :: XformOpPrecision where "kMatrixPrecision = PrecisionDouble"

definition CanAddOp :: "'st Usd \<Rightarrow> UsdPrim \<Rightarrow> XformOpType \<Rightarrow> XformOpPrecision \<Rightarrow> bool" where
  "CanAddOp usd prim type precision \<longleftrightarrow>
     (case prim_attr_type (info prim) (GetOpName usd type) of
        None \<Rightarrow> True
      | Some tn \<Rightarrow> tn = GetValueTypeName usd type precision)"

definition CanAuthorOps :: "'st Usd \<Rightarrow> UsdPrim \<Rightarrow> TransformUpdate \<Rightarrow> bool" where
  "CanAuthorOps usd prim upd \<longleftrightarrow>
     (case upd_transform upd of
        kSeperate _ \<Rightarrow> CanAddOp usd prim TypeTranslate kTranslatePrecision \<and>
          CanAddOp usd prim TypeRotateXYZ kRotatePrecision \<and> CanAddOp usd prim TypeScale kScalePrecision
      | kMatrix _ \<Rightarrow> CanAddOp usd prim TypeTransform kMatrixPrecision
      | TRANSFORM_NOT_SET \<Rightarrow> True)"

definition vec3d :: "Vector3 \<Rightarrow> VtValue" where
  "vec3d v = VtVec3d (v3x v) (v3y v) (v3z v)"

definition vec3f :: "Vector3 \<Rightarrow> VtValue" where
  "vec3f v = VtVec3f (double_to_float (v3x v)) (double_to_float (v3y v)) (double_to_float (v3z v))"

definition author_separate :: "'st Usd \<Rightarrow> SdfPath \<Rightarrow> SeparateTransform \<Rightarrow> 'st \<Rightarrow> bool throws \<times> 'st" where
  "author_separate usd p sep =
     usd_bind (\<lambda>st. SetXformOpOrder_empty usd st p) (\<lambda>_.
     usd_bind (\<lambda>st. AddXformOp usd st p TypeTranslate kTranslatePrecision) (\<lambda>translateOp.
     usd_bind (\<lambda>st. AddXformOp usd st p TypeRotateXYZ kRotatePrecision) (\<lambda>rotateOp.
     usd_bind (\<lambda>st. AddXformOp usd st p TypeScale kScalePrecision) (\<lambda>scaleOp.
       if \<not> translateOp \<or> \<not> rotateOp \<or> \<not> scaleOp then usd_return False
       else
         usd_bind (\<lambda>st. SetXformOp usd st p TypeTranslate (vec3d (translation sep))) (\<lambda>_.
         usd_bind (\<lambda>st. SetXformOp usd st p TypeRotateXYZ (vec3f (rotation sep))) (\<lambda>_.
         usd_bind (\<lambda>st. SetXformOp usd st p TypeScale (vec3f (scale sep))) (\<lambda>_.
           usd_return True)))))))"

definition author_matrix :: "'st Usd \<Rightarrow> SdfPath \<Rightarrow> Matrix4dTransform \<Rightarrow> 'st \<Rightarrow> bool throws \<times> 'st" where
  "author_matrix usd p m =
     usd_bind (\<lambda>st. SetXformOpOrder_empty usd st p) (\<lambda>_.
     usd_bind (\<lambda>st. AddXformOp usd st p TypeTransform kMatrixPrecision) (\<lambda>op.
       if \<not> op then usd_return False
       else usd_bind (\<lambda>st. SetXformOp usd st p TypeTransform (VtMatrix4d (matrix_of_proto m))) (\<lambda>_.
         usd_return True)))"

text \<open>The \<^verbatim>\<open>SdfChangeBlock\<close> of both functions: the notices are delivered when the block closes, also
  after an exception.\<close>

definition in_change_block ::
  "'st Usd \<Rightarrow> ('st \<Rightarrow> bool throws \<times> 'st) \<Rightarrow> 'st \<Rightarrow> bool throws \<times> notice list \<times> 'st" where
  "in_change_block usd f st =
     (case f st of (r, st1) \<Rightarrow> case CloseChangeBlock usd st1 of (ns, st2) \<Rightarrow> (r, ns, st2))"

definition ApplySeparate :: "'st Usd \<Rightarrow> SdfPath \<Rightarrow> SeparateTransform \<Rightarrow> 'st \<Rightarrow> bool throws \<times> notice list \<times> 'st" where
  "ApplySeparate usd p sep = in_change_block usd (author_separate usd p sep)"

definition ApplyMatrix :: "'st Usd \<Rightarrow> SdfPath \<Rightarrow> Matrix4dTransform \<Rightarrow> 'st \<Rightarrow> bool throws \<times> notice list \<times> 'st" where
  "ApplyMatrix usd p m = in_change_block usd (author_matrix usd p m)"

definition or_false :: "bool throws \<Rightarrow> bool" where
  "or_false r = (case r of Inl _ \<Rightarrow> False | Inr b \<Rightarrow> b)"

definition TransformDispatcher_Apply ::
  "'st Usd \<Rightarrow> 'st option \<Rightarrow> TransformUpdate \<Rightarrow> bool \<times> notice list \<times> 'st option" where
  "TransformDispatcher_Apply usd stage upd =
     (case stage of
        None \<Rightarrow> (False, [], stage)
      | Some st \<Rightarrow>
          let p = upd_prim_path upd
          in if p = [] \<or> \<not> IsValidPathString usd p then (False, [], stage)
             else
               (case GetPrimAtPath usd st p of
                  None \<Rightarrow> (False, [], stage)
                | Some prim \<Rightarrow>
                    if \<not> prim_xformable (info prim) then (False, [], stage)
                    else if \<not> CanAuthorOps usd prim upd then (False, [], stage)
                    else
                      (case upd_transform upd of
                         kSeperate sep \<Rightarrow>
                           (case ApplySeparate usd p sep st of (r, ns, st') \<Rightarrow> (or_false r, ns, Some st'))
                       | kMatrix m \<Rightarrow>
                           (case ApplyMatrix usd p m st of (r, ns, st') \<Rightarrow> (or_false r, ns, Some st'))
                       | TRANSFORM_NOT_SET \<Rightarrow> (False, [], stage))))"

definition attr_default :: "SdfPrimSpec \<Rightarrow> string \<Rightarrow> VtValue" where
  "attr_default spec op_name =
     (case map_of (spec_attributes spec) op_name of None \<Rightarrow> VtEmpty | Some v \<Rightarrow> v)"

definition vector3 :: "double \<times> double \<times> double \<Rightarrow> Vector3" where
  "vector3 v = (case v of (a, b, c) \<Rightarrow> \<lparr>v3x = a, v3y = b, v3z = c\<rparr>)"

definition widen3 :: "float32 \<times> float32 \<times> float32 \<Rightarrow> double \<times> double \<times> double" where
  "widen3 v = (case v of (a, b, c) \<Rightarrow> (float_to_double a, float_to_double b, float_to_double c))"

definition held_vec3d :: "double \<times> double \<times> double \<Rightarrow> VtValue \<Rightarrow> double \<times> double \<times> double" where
  "held_vec3d d v = (case v of VtVec3d a b c \<Rightarrow> (a, b, c) | _ \<Rightarrow> d)"

definition held_vec3f :: "float32 \<times> float32 \<times> float32 \<Rightarrow> VtValue \<Rightarrow> float32 \<times> float32 \<times> float32" where
  "held_vec3f d v = (case v of VtVec3f a b c \<Rightarrow> (a, b, c) | _ \<Rightarrow> d)"

definition ReadAuthoredLocalTransform :: "SdfPrimSpec \<Rightarrow> transform_case option" where
  "ReadAuthoredLocalTransform spec =
     (case attr_default spec ''xformOp:transform'' of
        VtMatrix4d m \<Rightarrow> Some (kMatrix (matrix_to_proto m))
      | _ \<Rightarrow>
          let t = attr_default spec ''xformOp:translate'';
              r = attr_default spec ''xformOp:rotateXYZ'';
              s = attr_default spec ''xformOp:scale''
          in if t = VtEmpty \<and> r = VtEmpty \<and> s = VtEmpty then None
             else Some (kSeperate
               \<lparr>translation = vector3 (held_vec3d (double_0, double_0, double_0) t),
                rotation = vector3 (widen3 (held_vec3f (float_0, float_0, float_0) r)),
                scale = vector3 (widen3 (held_vec3f (float_1, float_1, float_1) s))\<rparr>))"

subsection \<open>PrimDispatcher\<close>

record CreatedPrim =
  cp_name :: string
  cp_path :: string
  cp_size :: "double option"
  cp_height :: "double option"
  cp_radius :: "double option"
  cp_axis :: "string option"

definition empty_CreatedPrim :: CreatedPrim where
  "empty_CreatedPrim = \<lparr>cp_name = [], cp_path = [], cp_size = None, cp_height = None, cp_radius = None, cp_axis = None\<rparr>"

definition BaseNameFor :: "'st Usd \<Rightarrow> PrimType \<Rightarrow> string" where
  "BaseNameFor usd type = (case type of PRIM_TYPE_UNSPECIFIED \<Rightarrow> [] | _ \<Rightarrow> GetSchemaTypeName usd type)"

definition IsGprimType :: "'st Usd \<Rightarrow> PrimType \<Rightarrow> bool" where
  "IsGprimType usd type \<longleftrightarrow> (case type of PRIM_TYPE_UNSPECIFIED \<Rightarrow> False | _ \<Rightarrow> IsAGprim usd type)"

fun HasGprimAncestor :: "UsdPrim \<Rightarrow> bool" where
  "HasGprimAncestor (UsdPrim i parent) =
     (if prim_pseudo_root i then False
      else if prim_gprim i then True
      else (case parent of None \<Rightarrow> False | Some p \<Rightarrow> HasGprimAncestor p))"

partial_function (option) child_search ::
  "'st Usd \<Rightarrow> 'st \<Rightarrow> SdfPath \<Rightarrow> string \<Rightarrow> u64 \<Rightarrow> string \<Rightarrow> (string \<times> SdfPath) option" where
  "child_search usd st parent base n candidate =
     (let child = AppendChild usd parent candidate
      in if GetPrimAtPath usd st child = None then Some (candidate, child)
         else child_search usd st parent base (n + 1) (base @ ''_'' @ nat_to_string (unat n)))"

definition UniqueChildPath :: "'st Usd \<Rightarrow> 'st \<Rightarrow> SdfPath \<Rightarrow> string \<Rightarrow> (string \<times> SdfPath) option" where
  "UniqueChildPath usd st parent base_name =
     (let base = MakeValidIdentifier usd base_name in child_search usd st parent base 1 base)"

definition AuthorPrim :: "'st Usd \<Rightarrow> 'st \<Rightarrow> SdfPath \<Rightarrow> PrimType \<Rightarrow> bool throws \<times> notice list \<times> 'st" where
  "AuthorPrim usd st p type =
     (let type_name = BaseNameFor usd type
      in if type_name = [] then (Inr False, [], st) else DefinePrim usd st p type_name)"

definition IsLocallyDeletable :: "UsdPrim \<Rightarrow> bool" where
  "IsLocallyDeletable prim \<longleftrightarrow>
     prim_stack (info prim) \<noteq> [] \<and>
     list_all (\<lambda>spec. case spec of None \<Rightarrow> True | Some l \<Rightarrow> l = RootLayer \<or> l = SessionLayer) (prim_stack (info prim))"

definition TypeFromName :: "string \<Rightarrow> PrimType" where
  "TypeFromName type_name =
     (if type_name = ''Cube'' then PRIM_TYPE_CUBE
      else if type_name = ''Sphere'' then PRIM_TYPE_SPHERE
      else if type_name = ''Cone'' then PRIM_TYPE_CONE
      else if type_name = ''Cylinder'' then PRIM_TYPE_CYLINDER
      else if type_name = ''Capsule'' then PRIM_TYPE_CAPSULE
      else if type_name = ''Xform'' then PRIM_TYPE_XFORM
      else PRIM_TYPE_UNSPECIFIED)"

definition ReadAttributes :: "UsdPrim option \<Rightarrow> PrimType \<Rightarrow> CreatedPrim \<Rightarrow> CreatedPrim" where
  "ReadAttributes prim type out =
     (case prim of
        None \<Rightarrow> out
      | Some p \<Rightarrow>
          let d = prim_double (info p); tk = prim_token (info p);
              solid = out\<lparr>cp_height := d ''height'', cp_radius := d ''radius'', cp_axis := tk ''axis''\<rparr>
          in (case type of
                PRIM_TYPE_CUBE \<Rightarrow> out\<lparr>cp_size := d ''size''\<rparr>
              | PRIM_TYPE_SPHERE \<Rightarrow> out\<lparr>cp_radius := d ''radius''\<rparr>
              | PRIM_TYPE_CONE \<Rightarrow> solid
              | PRIM_TYPE_CYLINDER \<Rightarrow> solid
              | PRIM_TYPE_CAPSULE \<Rightarrow> solid
              | _ \<Rightarrow> out))"

definition ReadSchemaDefaults :: "'st Usd \<Rightarrow> PrimType \<Rightarrow> CreatedPrim \<Rightarrow> CreatedPrim" where
  "ReadSchemaDefaults usd type out =
     (let type_name = BaseNameFor usd type
      in if type = PRIM_TYPE_UNSPECIFIED \<or> \<not> FindConcretePrimDefinition usd type_name then out
         else
           let d = fallback_double usd type_name;
               solid = out\<lparr>cp_height := d ''height'', cp_radius := d ''radius'',
                           cp_axis := fallback_token usd type_name ''axis''\<rparr>
           in (case type of
                 PRIM_TYPE_CUBE \<Rightarrow> out\<lparr>cp_size := d ''size''\<rparr>
               | PRIM_TYPE_SPHERE \<Rightarrow> out\<lparr>cp_radius := d ''radius''\<rparr>
               | PRIM_TYPE_CONE \<Rightarrow> solid
               | PRIM_TYPE_CYLINDER \<Rightarrow> solid
               | PRIM_TYPE_CAPSULE \<Rightarrow> solid
               | _ \<Rightarrow> out))"

definition root_path :: SdfPath where "root_path = ''/''"

definition creation_refused :: "'st Usd \<Rightarrow> 'st \<Rightarrow> string \<Rightarrow> PrimType \<Rightarrow> bool" where
  "creation_refused usd st parent_path type \<longleftrightarrow>
     BaseNameFor usd type = [] \<or>
     parent_path = [] \<or> \<not> IsValidPathString usd parent_path \<or>
     \<not> IsAbsolutePath usd parent_path \<or> \<not> (IsPrimPath usd parent_path \<or> parent_path = root_path) \<or>
     (case GetPrimAtPath usd st parent_path of
        None \<Rightarrow> True
      | Some parent_prim \<Rightarrow>
          \<not> prim_active (info parent_prim) \<or> IsGprimType usd type \<and> HasGprimAncestor parent_prim)"

definition PrimDispatcher_Create ::
  "'st Usd \<Rightarrow> 'st option \<Rightarrow> string \<Rightarrow> PrimType \<Rightarrow> (CreatedPrim option \<times> notice list \<times> 'st option) option" where
  "PrimDispatcher_Create usd stage parent_path type =
     (case stage of
        None \<Rightarrow> Some (None, [], stage)
      | Some st \<Rightarrow>
          if creation_refused usd st parent_path type then Some (None, [], stage)
          else
            (case UniqueChildPath usd st parent_path (BaseNameFor usd type) of
               None \<Rightarrow> None
             | Some (n, child) \<Rightarrow>
                 (case AuthorPrim usd st child type of
                    (r, ns, st') \<Rightarrow>
                      if \<not> or_false r then Some (None, ns, Some st')
                      else Some (Some (ReadAttributes (GetPrimAtPath usd st' child) type
                             (empty_CreatedPrim\<lparr>cp_name := n, cp_path := child\<rparr>)), ns, Some st'))))"

datatype SetActiveStatus =
    SetActiveOk | AlreadyInState | SetActiveInvalidPath | SetActiveNotFound | NotDeletable | SetActiveFailed

definition PrimDispatcher_SetActive ::
  "'st Usd \<Rightarrow> 'st option \<Rightarrow> string \<Rightarrow> bool \<Rightarrow> SetActiveStatus \<times> notice list \<times> 'st option" where
  "PrimDispatcher_SetActive usd stage prim_path active =
     (case stage of
        None \<Rightarrow> (SetActiveFailed, [], stage)
      | Some st \<Rightarrow>
          if prim_path = [] \<or> \<not> IsValidPathString usd prim_path then (SetActiveInvalidPath, [], stage)
          else if \<not> IsAbsolutePath usd prim_path \<or> \<not> IsPrimPath usd prim_path
          then (SetActiveInvalidPath, [], stage)
          else
            (case GetPrimAtPath usd st prim_path of
               None \<Rightarrow> (SetActiveNotFound, [], stage)
             | Some prim \<Rightarrow>
                 if \<not> prim_defined (info prim) then (SetActiveNotFound, [], stage)
                 else if prim_pseudo_root (info prim) then (NotDeletable, [], stage)
                 else if prim_active (info prim) = active then (AlreadyInState, [], stage)
                 else if \<not> active \<and> \<not> IsLocallyDeletable prim then (NotDeletable, [], stage)
                 else
                   (case PrimSetActive usd st prim_path active of
                      (r, ns, st') \<Rightarrow> (if or_false r then SetActiveOk else SetActiveFailed, ns, Some st'))))"

subsection \<open>The search for a child name ends\<close>

lemma nat_to_string_inj: "nat_to_string m = nat_to_string n \<longleftrightarrow> m = n"
  by (metis digits_value_nat_to_string)

definition candidate_at :: "string \<Rightarrow> nat \<Rightarrow> string" where
  "candidate_at base k = (if k = 0 then base else base @ ''_'' @ nat_to_string k)"

lemma candidate_at_inj: "inj (candidate_at base)"
  by (rule injI) (auto simp: candidate_at_def nat_to_string_inj split: if_splits)

lemma child_search_finds:
  assumes "GetPrimAtPath usd st (AppendChild usd parent (candidate_at base m)) = None"
    and "\<forall>j<m. GetPrimAtPath usd st (AppendChild usd parent (candidate_at base j)) \<noteq> None"
    and "k \<le> m" and "m < 2 ^ 64 - 1"
  shows "child_search usd st parent base (of_nat (Suc k)) (candidate_at base k) =
    Some (candidate_at base m, AppendChild usd parent (candidate_at base m))"
  using assms(3)
proof (induction "m - k" arbitrary: k)
  case 0
  then have "k = m" by simp
  then show ?case using assms(1) by (subst child_search.simps) (simp add: Let_def)
next
  case (Suc d)
  then have k: "k < m" by simp
  have taken: "GetPrimAtPath usd st (AppendChild usd parent (candidate_at base k)) \<noteq> None"
    using assms(2) k by simp
  have "unat (of_nat (Suc k) :: u64) = Suc k"
    using k assms(4) by (simp add: unat_of_nat del: of_nat_Suc)
  then have "base @ ''_'' @ nat_to_string (unat (of_nat (Suc k) :: u64)) = candidate_at base (Suc k)"
    by (simp add: candidate_at_def)
  then have "child_search usd st parent base (of_nat (Suc k)) (candidate_at base k) =
      child_search usd st parent base (of_nat (Suc (Suc k))) (candidate_at base (Suc k))"
    using taken by (subst child_search.simps) (auto simp: Let_def algebra_simps)
  moreover have "d = m - Suc k" "Suc k \<le> m" using Suc.hyps(2) k by simp_all
  ultimately show ?case using Suc.hyps(1) [of "Suc k"] by simp
qed

lemma free_candidate:
  assumes "finite {c. taken c}" and "inj (f :: nat \<Rightarrow> 'a)"
  obtains m where "\<not> taken (f m)" "\<forall>j<m. taken (f j)" "m \<le> card {c. taken c}"
proof -
  have "\<exists>m\<le>card {c. taken c}. \<not> taken (f m)"
  proof (rule ccontr)
    assume "\<not> ?thesis"
    then have "f ` {..card {c. taken c}} \<subseteq> {c. taken c}" by auto
    then have "card (f ` {..card {c. taken c}}) \<le> card {c. taken c}" by (rule card_mono [OF assms(1)])
    then show False using card_image [OF inj_on_subset [OF assms(2)], of "{..card {c. taken c}}"] by simp
  qed
  then obtain m where m: "m \<le> card {c. taken c}" "\<not> taken (f m)" by blast
  let ?m = "LEAST m. \<not> taken (f m)"
  show ?thesis
  proof (rule that [of ?m])
    show "\<not> taken (f ?m)" using m(2) by (rule LeastI)
    show "\<forall>j<?m. taken (f j)" using not_less_Least [of _ "\<lambda>m. \<not> taken (f m)"] by blast
    show "?m \<le> card {c. taken c}" using Least_le [of "\<lambda>m. \<not> taken (f m)", OF m(2)] m(1) by (rule le_trans)
  qed
qed

text \<open>C39: The search for a free child name ends, and its result is free: when fewer than 2^64 - 1 names are
  taken under the parent, the server picks the base name or the base name with the least free
  counter, no prim exists at the chosen path, and at most as many candidates as there are children
  were tried before it.\<close>

theorem UniqueChildPath_terminates:
  assumes "finite {c. GetPrimAtPath usd st (AppendChild usd parent c) \<noteq> None}"
    and "card {c. GetPrimAtPath usd st (AppendChild usd parent c) \<noteq> None} < 2 ^ 64 - 1"
  shows "\<exists>k\<le>card {c. GetPrimAtPath usd st (AppendChild usd parent c) \<noteq> None}.
    UniqueChildPath usd st parent base_name =
      Some (candidate_at (MakeValidIdentifier usd base_name) k,
            AppendChild usd parent (candidate_at (MakeValidIdentifier usd base_name) k)) \<and>
    GetPrimAtPath usd st (AppendChild usd parent (candidate_at (MakeValidIdentifier usd base_name) k)) = None \<and>
    (\<forall>j<k. GetPrimAtPath usd st (AppendChild usd parent (candidate_at (MakeValidIdentifier usd base_name) j)) \<noteq> None)"
proof -
  let ?base = "MakeValidIdentifier usd base_name"
  obtain m where m: "GetPrimAtPath usd st (AppendChild usd parent (candidate_at ?base m)) = None"
      "\<forall>j<m. GetPrimAtPath usd st (AppendChild usd parent (candidate_at ?base j)) \<noteq> None"
      "m \<le> card {c. GetPrimAtPath usd st (AppendChild usd parent c) \<noteq> None}"
    by (rule free_candidate [OF assms(1) candidate_at_inj [of ?base]]) blast
  have "m < 2 ^ 64 - 1" using m(3) assms(2) by linarith
  from child_search_finds [OF m(1,2) _ this, of 0]
  have "UniqueChildPath usd st parent base_name =
      Some (candidate_at ?base m, AppendChild usd parent (candidate_at ?base m))"
    by (simp add: UniqueChildPath_def Let_def candidate_at_def)
  with m show ?thesis by blast
qed

theorem UniqueChildPath_terminates_witness:
  "UniqueChildPath mini_usd mini_root_stage ''/'' ''World'' = Some (''World_1'', ''/World_1'')"
proof -
  let ?taken = "{c. GetPrimAtPath mini_usd mini_root_stage (AppendChild mini_usd ''/'' c) \<noteq> None}"
  have taken: "?taken = {[], ''World''}"
    by (auto simp: mini_prim_def mini_root_stage_def split: if_splits)
  then have "finite ?taken" "card ?taken < 2 ^ 64 - 1" by simp_all
  from UniqueChildPath_terminates [OF this, of "''World''"] obtain k where
    k: "UniqueChildPath mini_usd mini_root_stage ''/'' ''World'' =
          Some (candidate_at ''World'' k, AppendChild mini_usd ''/'' (candidate_at ''World'' k))"
      "candidate_at ''World'' k \<notin> ?taken" "\<forall>j<k. candidate_at ''World'' j \<in> ?taken"
    by auto
  have "k = 1"
  proof (rule ccontr)
    assume "k \<noteq> 1"
    then have "k = 0 \<or> 1 < k" by linarith
    then show False using k(2,3) unfolding taken by (auto simp: candidate_at_def)
  qed
  moreover have "char_of (49 :: nat) = CHR ''1''" by code_simp
  ultimately show ?thesis using k(1) by (simp add: candidate_at_def nat_to_string.simps digit_char_def)
qed

subsection \<open>What the join snapshot reads back\<close>

text \<open>The value a prim spec of the session layer holds for an attribute, and the documented behaviour
  of the transform ops: the names of the four ops, that setting an op writes the default of its
  attribute and no other, and that the remaining calls leave every default but \<^verbatim>\<open>xformOpOrder\<close> alone.\<close>

definition authored :: "'st Usd \<Rightarrow> 'st \<Rightarrow> SdfPath \<Rightarrow> string \<Rightarrow> VtValue" where
  "authored usd st p a =
     (case GetSessionLayer usd st of
        None \<Rightarrow> VtEmpty
      | Some l \<Rightarrow> (case layer_prims l p of None \<Rightarrow> VtEmpty | Some spec \<Rightarrow> attr_default spec a))"

definition xform_authoring_laws :: "'st Usd \<Rightarrow> bool" where
  "xform_authoring_laws usd \<longleftrightarrow>
     GetOpName usd TypeTranslate = ''xformOp:translate'' \<and> GetOpName usd TypeRotateXYZ = ''xformOp:rotateXYZ'' \<and>
     GetOpName usd TypeScale = ''xformOp:scale'' \<and> GetOpName usd TypeTransform = ''xformOp:transform'' \<and>
     (\<forall>st p t v st'. SetXformOp usd st p t v = (Inr (), st') \<longrightarrow>
        authored usd st' p = (authored usd st p)(GetOpName usd t := v)) \<and>
     (\<forall>st p r st' a. SetXformOpOrder_empty usd st p = (r, st') \<longrightarrow> a \<noteq> ''xformOpOrder'' \<longrightarrow>
        authored usd st' p a = authored usd st p a) \<and>
     (\<forall>st p t pr r st' a. AddXformOp usd st p t pr = (r, st') \<longrightarrow> a \<noteq> ''xformOpOrder'' \<longrightarrow>
        authored usd st' p a = authored usd st p a) \<and>
     (\<forall>st ns st'. CloseChangeBlock usd st = (ns, st') \<longrightarrow> authored usd st' = authored usd st)"

definition as_authored :: "SeparateTransform \<Rightarrow> SeparateTransform" where
  "as_authored sep =
     (let f = (\<lambda>v. vector3 (widen3 (double_to_float (v3x v), double_to_float (v3y v), double_to_float (v3z v))))
      in \<lparr>translation = translation sep, rotation = f (rotation sep), scale = f (scale sep)\<rparr>)"

lemma usd_bind_ok:
  assumes "usd_bind f g st = (Inr y, st'')"
  obtains x st' where "f st = (Inr x, st')" "g x st' = (Inr y, st'')"
  using assms by (auto simp: usd_bind_def split: prod.splits sum.splits)

lemma or_false_True: "or_false r \<longleftrightarrow> r = Inr True"
  by (auto simp: or_false_def split: sum.splits)

lemma author_separate_values:
  assumes "xform_authoring_laws usd" and "author_separate usd p sep st = (Inr True, st')"
  shows "authored usd st' p ''xformOp:translate'' = vec3d (translation sep) \<and>
    authored usd st' p ''xformOp:rotateXYZ'' = vec3f (rotation sep) \<and>
    authored usd st' p ''xformOp:scale'' = vec3f (scale sep) \<and>
    authored usd st' p ''xformOp:transform'' = authored usd st p ''xformOp:transform''"
  using assms(2) unfolding author_separate_def
  by (elim usd_bind_ok) (use assms(1) in \<open>auto simp: xform_authoring_laws_def usd_return_def
      split: if_splits elim!: usd_bind_ok\<close>)

lemma author_matrix_values:
  assumes "xform_authoring_laws usd" and "author_matrix usd p m st = (Inr True, st')"
  shows "authored usd st' p ''xformOp:transform'' = VtMatrix4d (matrix_of_proto m)"
  using assms(2) unfolding author_matrix_def
  by (elim usd_bind_ok) (use assms(1) in \<open>auto simp: xform_authoring_laws_def usd_return_def
      split: if_splits elim!: usd_bind_ok\<close>)

lemma in_change_block_ok:
  assumes "in_change_block usd f st = (r, ns, st')"
  obtains st1 where "f st = (r, st1)" "CloseChangeBlock usd st1 = (ns, st')"
  using assms by (auto simp: in_change_block_def split: prod.splits)

text \<open>The read of a spec, in terms of the values it holds.\<close>

definition read_back :: "(string \<Rightarrow> VtValue) \<Rightarrow> transform_case option" where
  "read_back at =
     (case at ''xformOp:transform'' of
        VtMatrix4d m \<Rightarrow> Some (kMatrix (matrix_to_proto m))
      | _ \<Rightarrow> (if at ''xformOp:translate'' = VtEmpty \<and> at ''xformOp:rotateXYZ'' = VtEmpty \<and> at ''xformOp:scale'' = VtEmpty
              then None
              else Some (kSeperate
               \<lparr>translation = vector3 (held_vec3d (double_0, double_0, double_0) (at ''xformOp:translate'')),
                rotation = vector3 (widen3 (held_vec3f (float_0, float_0, float_0) (at ''xformOp:rotateXYZ''))),
                scale = vector3 (widen3 (held_vec3f (float_1, float_1, float_1) (at ''xformOp:scale'')))\<rparr>)))"

lemma read_authored:
  assumes "GetSessionLayer usd st = Some l" and "layer_prims l p = Some spec"
  shows "ReadAuthoredLocalTransform spec = read_back (authored usd st p)"
  using assms by (simp add: ReadAuthoredLocalTransform_def read_back_def authored_def Let_def cong: VtValue.case_cong)

lemma vector3_of [simp]: "vector3 (v3x v, v3y v, v3z v) = v"
  by (simp add: vector3_def)

lemma read_back_separate:
  assumes "at ''xformOp:translate'' = vec3d (translation sep)" and "at ''xformOp:rotateXYZ'' = vec3f (rotation sep)"
    and "at ''xformOp:scale'' = vec3f (scale sep)"
  shows "read_back at = (case at ''xformOp:transform'' of VtMatrix4d m \<Rightarrow> Some (kMatrix (matrix_to_proto m))
    | _ \<Rightarrow> Some (kSeperate (as_authored sep)))"
  using assms
  by (simp add: read_back_def as_authored_def Let_def vec3d_def vec3f_def held_vec3d_def held_vec3f_def
      cong: VtValue.case_cong)


lemma mini_authored:
  "authored mini_usd st p a =
     (case map_of (ms_session st) p of None \<Rightarrow> VtEmpty | Some spec \<Rightarrow> attr_default spec a)"
  by (simp add: authored_def)

lemma map_of_filter_other: "x \<noteq> a \<Longrightarrow> map_of (filter (\<lambda>e. fst e \<noteq> a) xs) x = map_of xs x"
  by (induction xs) auto

lemma mini_xform_laws: "xform_authoring_laws mini_usd"
  by (auto simp: xform_authoring_laws_def mini_op_name_def mini_authored ms_attr_def ms_put_def ms_spec_def Let_def
      attr_default_def empty_spec_def fun_eq_iff map_of_filter_other split: option.splits)


end
