(* ===== verification/File_Locator.thy ===== *)
theory File_Locator
  imports Idtx_Prelude
begin

text \<open>
  Validation of client-supplied file paths (\<^verbatim>\<open>source/utils/UsdFileLocator.h\<close>).

  A \<^verbatim>\<open>std::filesystem::path\<close> is its POSIX text; \<open>path_elems\<close> is its iteration (root directory, names, an
  empty last element after a trailing separator), \<open>path_join\<close> is \<open>operator/\<close> and \<open>lexically_normal\<close> the
  normal form of the C++ standard. What the file system answers (existence, canonicalisation through
  symbolic links, directory creation, a write probe) is the record \<open>filesystem_view\<close>, an argument.
\<close>

subsection \<open>Paths\<close>

type_synonym fspath = string

definition slash :: char where "slash = CHR 0x2F"
definition backslash :: char where "backslash = CHR 0x5C"

definition is_absolute :: "fspath \<Rightarrow> bool" where
  "is_absolute p \<longleftrightarrow> p \<noteq> [] \<and> hd p = slash"

definition path_names :: "fspath \<Rightarrow> string list" where
  "path_names p = filter (\<lambda>n. n \<noteq> []) (split_on slash p)"

definition has_trailing_slash :: "fspath \<Rightarrow> bool" where
  "has_trailing_slash p \<longleftrightarrow> path_names p \<noteq> [] \<and> last p = slash"

definition path_elems :: "fspath \<Rightarrow> string list" where
  "path_elems p = (if is_absolute p then [[slash]] else []) @ path_names p @
     (if has_trailing_slash p then [[]] else [])"

definition path_join :: "fspath \<Rightarrow> fspath \<Rightarrow> fspath" where
  "path_join p q =
     (if is_absolute q then q
      else if p = [] \<or> last p = slash then p @ q
      else p @ [slash] @ q)"

definition path_filename :: "fspath \<Rightarrow> string" where
  "path_filename p = last (split_on slash p)"

text \<open>\<^verbatim>\<open>stem()\<close> and \<^verbatim>\<open>extension()\<close> split the file name at its last period, unless that is its first
  character or the name is \<^verbatim>\<open>..\<close>.\<close>

definition name_split :: "string \<Rightarrow> string \<times> string" where
  "name_split n =
     (let ext = CHR ''.'' # rev (takeWhile (\<lambda>c. c \<noteq> CHR ''.'') (rev n));
          k = length n - length ext
      in if CHR ''.'' \<notin> set n \<or> n = ''..'' \<or> k = 0 then (n, []) else (take k n, ext))"

definition path_stem :: "fspath \<Rightarrow> string" where
  "path_stem p = fst (name_split (path_filename p))"

definition path_extension :: "fspath \<Rightarrow> string" where
  "path_extension p = snd (name_split (path_filename p))"

text \<open>\<^verbatim>\<open>parent_path()\<close> drops the file name and the separators before it.\<close>

definition path_parent :: "fspath \<Rightarrow> fspath" where
  "path_parent p =
     (let q = take (length p - length (path_filename p)) p;
          t = rev (dropWhile (\<lambda>c. c = slash) (rev q))
      in if t = [] \<and> is_absolute p then [slash] else t)"

text \<open>Cancel \<^verbatim>\<open>.\<close> and \<^verbatim>\<open>..\<close>; the names so far are kept in reverse.\<close>

definition norm_name :: "bool \<Rightarrow> string list \<Rightarrow> string \<Rightarrow> string list" where
  "norm_name absolute acc n =
     (if n = ''.'' then acc
      else if n = ''..'' then
        (case acc of
           [] \<Rightarrow> if absolute then [] else [n]
         | x # xs \<Rightarrow> if x = ''..'' then n # acc else xs)
      else n # acc)"

definition norm_names :: "bool \<Rightarrow> string list \<Rightarrow> string list" where
  "norm_names absolute ns = rev (foldl (norm_name absolute) [] ns)"

text \<open>The elements of \<^verbatim>\<open>p.lexically_normal()\<close>.\<close>

definition lexically_normal :: "fspath \<Rightarrow> string list" where
  "lexically_normal p =
     (if p = [] then []
      else
        let absolute = is_absolute p; ns = path_names p; ms = norm_names absolute ns;
            trailing = (ns \<noteq> [] \<and> (has_trailing_slash p \<or> last ns = ''.'' \<or> last ns = ''..'') \<and>
                        ms \<noteq> [] \<and> last ms \<noteq> ''..'')
        in if ms = [] then (if absolute then [[slash]] else [''.''])
           else (if absolute then [[slash]] else []) @ ms @ (if trailing then [[]] else []))"

subsection \<open>The locator\<close>

datatype Status =
    Ok
  | InvalidEncoding
  | InvalidPath
  | NotFound
  | NotAUsdFile
  | OutsideRoot
  | PermissionDenied

record UsdFileLocator =
  root :: fspath
  session_root :: fspath

fun StatusToString :: "Status \<Rightarrow> string" where
  "StatusToString Ok = ''Ok''"
| "StatusToString InvalidEncoding = ''InvalidEncoding''"
| "StatusToString InvalidPath = ''InvalidPath''"
| "StatusToString NotFound = ''NotFound''"
| "StatusToString NotAUsdFile = ''NotAUsdFile''"
| "StatusToString OutsideRoot = ''OutsideRoot''"
| "StatusToString PermissionDenied = ''PermissionDenied''"

definition IsUsdFilename :: "string \<Rightarrow> bool" where
  "IsUsdFilename f \<longleftrightarrow> ends_with f ''.usd'' \<or> ends_with f ''.usda'' \<or> ends_with f ''.usdc'' \<or> ends_with f ''.usdz''"

definition hex_value :: "char \<Rightarrow> nat option" where
  "hex_value c =
     (let n = (of_char c :: nat)
      in if 48 \<le> n \<and> n \<le> 57 then Some (n - 48)
         else if 65 \<le> n \<and> n \<le> 70 then Some (10 + (n - 65))
         else if 97 \<le> n \<and> n \<le> 102 then Some (10 + (n - 97))
         else None)"

fun PercentDecode :: "string \<Rightarrow> bool \<Rightarrow> bool \<Rightarrow> string option" where
  "PercentDecode [] as_space reject_slash = Some []"
| "PercentDecode (c # cs) as_space reject_slash =
     (if c = CHR ''%'' then
        (case cs of
           h # l # rest \<Rightarrow>
             (case (hex_value h, hex_value l) of
                (Some hi, Some lo) \<Rightarrow>
                  (let byte = char_of (16 * hi + lo)
                   in if reject_slash \<and> byte = slash then None
                      else map_option ((#) byte) (PercentDecode rest as_space reject_slash))
              | _ \<Rightarrow> None)
         | _ \<Rightarrow> None)
      else if c = CHR ''+'' \<and> as_space then map_option ((#) (CHR '' '')) (PercentDecode cs as_space reject_slash)
      else map_option ((#) c) (PercentDecode cs as_space reject_slash))"

definition name_char :: "char \<Rightarrow> bool" where
  "name_char c \<longleftrightarrow> (let n = (of_char c :: nat) in
     c = CHR '' '' \<or> 97 \<le> n \<and> n \<le> 122 \<or> 65 \<le> n \<and> n \<le> 90 \<or> 48 \<le> n \<and> n \<le> 57 \<or>
     c = CHR ''.'' \<or> c = CHR ''_'' \<or> c = CHR ''-'')"

definition path_char :: "char \<Rightarrow> bool" where
  "path_char c \<longleftrightarrow> name_char c \<or> c = slash"

definition ValidatePath :: "string \<Rightarrow> Status \<times> string" where
  "ValidatePath filepath =
     (case PercentDecode filepath False False of
        None \<Rightarrow> (InvalidEncoding, [])
      | Some decoded \<Rightarrow>
          if contains decoded ''..'' then (InvalidPath, decoded)
          else if decoded = [] \<or> \<not> list_all path_char decoded then (InvalidPath, decoded)
          else (Ok, decoded))"

text \<open>What the file system answers. \<open>fs_canonical\<close> gives the elements of the canonical absolute path.\<close>

datatype fs_error = Permission_denied | Operation_not_permitted | Read_only_file_system | Other_fs_error

record filesystem_view =
  fs_canonical :: "fspath \<Rightarrow> fs_error + string list"
  fs_exists :: "fspath \<Rightarrow> bool"
  fs_create_directories :: "fspath \<Rightarrow> fs_error option"
  fs_probe_write :: "fspath \<Rightarrow> bool"

definition ClassifyFilesystemError :: "fs_error \<Rightarrow> Status" where
  "ClassifyFilesystemError e =
     (if e = Permission_denied \<or> e = Operation_not_permitted \<or> e = Read_only_file_system
      then PermissionDenied else NotFound)"

text \<open>\<^verbatim>\<open>std::mismatch(a.begin(), a.end(), b.begin(), b.end()).first == a.end()\<close>.\<close>

definition elems_within :: "string list \<Rightarrow> string list \<Rightarrow> bool" where
  "elems_within a b \<longleftrightarrow> take (length a) b = a"

definition Resolve :: "filesystem_view \<Rightarrow> UsdFileLocator \<Rightarrow> string \<Rightarrow> Status \<times> fspath" where
  "Resolve fs loc filepath =
     (case ValidatePath filepath of
        (Ok, decoded) \<Rightarrow>
          let candidate = path_join (root loc) decoded
          in (case fs_canonical fs (root loc) of
                Inl _ \<Rightarrow> (NotFound, [])
              | Inr canonical_root \<Rightarrow>
                  (case fs_canonical fs candidate of
                     Inl _ \<Rightarrow> (NotFound, [])
                   | Inr canonical_file \<Rightarrow>
                       if \<not> elems_within canonical_root canonical_file then (OutsideRoot, [])
                       else if \<not> fs_exists fs candidate then (NotFound, [])
                       else if \<not> IsUsdFilename (path_filename candidate) then (NotAUsdFile, [])
                       else (Ok, candidate)))
      | (s, _) \<Rightarrow> (s, []))"

definition IsValid :: "filesystem_view \<Rightarrow> UsdFileLocator \<Rightarrow> string \<Rightarrow> bool" where
  "IsValid fs loc filepath \<longleftrightarrow> fst (Resolve fs loc filepath) = Ok"

definition is_separator :: "char \<Rightarrow> bool" where
  "is_separator c \<longleftrightarrow> c = slash \<or> c = backslash"

definition trim_separators :: "string \<Rightarrow> string" where
  "trim_separators s = rev (dropWhile is_separator (rev (dropWhile is_separator s)))"

text \<open>Validation of the file name and of the directory of an upload.\<close>

definition validate_filename :: "string \<Rightarrow> Status \<times> string" where
  "validate_filename raw =
     (case PercentDecode raw False True of
        None \<Rightarrow> (InvalidEncoding, [])
      | Some f \<Rightarrow>
          if f = [] \<or> contains f ''..'' \<or> contains raw ''..'' \<or> slash \<in> set f \<or> backslash \<in> set f
          then (InvalidPath, [])
          else if \<not> list_all name_char f then (InvalidPath, [])
          else if \<not> IsUsdFilename f then (NotAUsdFile, [])
          else (Ok, f))"

definition validate_directory :: "string \<Rightarrow> Status \<times> string" where
  "validate_directory raw =
     (case PercentDecode raw False False of
        None \<Rightarrow> (InvalidEncoding, [])
      | Some d0 \<Rightarrow>
          let d = trim_separators d0
          in if contains d ''..'' \<or> contains raw ''..'' \<or> backslash \<in> set d then (InvalidPath, [])
             else if d \<noteq> [] \<and> \<not> list_all path_char d then (InvalidPath, [])
             else (Ok, d))"

text \<open>The full path is given by its elements.\<close>

definition ValidateUploadTarget :: "UsdFileLocator \<Rightarrow> string \<Rightarrow> string \<Rightarrow> Status \<times> string list \<times> fspath" where
  "ValidateUploadTarget loc raw_dir raw_filename =
     (case validate_filename raw_filename of
        (Ok, f) \<Rightarrow>
          (case validate_directory raw_dir of
             (Ok, d) \<Rightarrow>
               let relative = (if d = [] then f else path_join d f);
                   candidate = lexically_normal (path_join (root loc) relative);
                   normalised_root = lexically_normal (root loc)
               in if \<not> elems_within normalised_root candidate then (OutsideRoot, [], [])
                  else if ''..'' \<in> set (path_elems relative) then (OutsideRoot, [], [])
                  else (Ok, candidate, relative)
           | (s, _) \<Rightarrow> (s, [], []))
      | (s, _) \<Rightarrow> (s, [], []))"

definition EnsureRootExists :: "filesystem_view \<Rightarrow> UsdFileLocator \<Rightarrow> Status" where
  "EnsureRootExists fs loc =
     (case fs_create_directories fs (root loc) of
        Some e \<Rightarrow> ClassifyFilesystemError e
      | None \<Rightarrow> if fs_probe_write fs (path_join (root loc) ''.idtx-write-test'') then Ok else PermissionDenied)"

definition EnsureDirectoryInsideRoot :: "filesystem_view \<Rightarrow> UsdFileLocator \<Rightarrow> fspath \<Rightarrow> Status" where
  "EnsureDirectoryInsideRoot fs loc dir =
     (case fs_create_directories fs dir of
        Some e \<Rightarrow> ClassifyFilesystemError e
      | None \<Rightarrow>
          (case fs_canonical fs (root loc) of
             Inl e \<Rightarrow> ClassifyFilesystemError e
           | Inr canonical_root \<Rightarrow>
               (case fs_canonical fs dir of
                  Inl e \<Rightarrow> ClassifyFilesystemError e
                | Inr canonical_dir \<Rightarrow>
                    if \<not> elems_within canonical_root canonical_dir then OutsideRoot else Ok)))"

subsection \<open>Path arithmetic\<close>

lemma split_on_append: "split_on c (xs @ c # ys) = split_on c xs @ split_on c ys"
  by (induction xs) (auto split: list.split)

lemma split_on_no_sep: "c \<notin> set s \<Longrightarrow> split_on c s = [s]"
  by (induction s) auto

lemma path_names_append [simp]: "path_names (p @ slash # q) = path_names p @ path_names q"
  by (simp add: path_names_def split_on_append)

lemma path_names_empty [simp]: "path_names [] = []"
  by (simp add: path_names_def)

lemma path_names_name: "slash \<notin> set n \<Longrightarrow> n \<noteq> [] \<Longrightarrow> path_names n = [n]"
  by (simp add: path_names_def split_on_no_sep)

lemma path_names_join:
  assumes "\<not> is_absolute q"
  shows "path_names (path_join p q) = path_names p @ path_names q"
proof (cases "p = [] \<or> last p \<noteq> slash")
  case True
  with assms show ?thesis by (auto simp: path_join_def)
next
  case False
  then obtain p' where p: "p = p' @ [slash]" by (metis append_butlast_last_id)
  then show ?thesis using assms path_names_append [of p' q] path_names_append [of p' "[]"]
    by (simp add: path_join_def)
qed

lemma is_absolute_join: "\<not> is_absolute q \<Longrightarrow> p \<noteq> [] \<Longrightarrow> is_absolute (path_join p q) = is_absolute p"
  by (auto simp: path_join_def is_absolute_def)

lemma foldl_norm_name:
  "''..'' \<notin> set ns \<Longrightarrow> foldl (norm_name a) acc ns = rev (filter (\<lambda>n. n \<noteq> ''.'') ns) @ acc"
  by (induction ns arbitrary: acc) (auto simp: norm_name_def)

lemma norm_names_append:
  "''..'' \<notin> set ns \<Longrightarrow> norm_names a (rs @ ns) = norm_names a rs @ filter (\<lambda>n. n \<noteq> ''.'') ns"
  by (simp add: norm_names_def foldl_norm_name)

lemma contains_sublist_mono: "contains n p \<Longrightarrow> sublist n s \<Longrightarrow> contains s p"
  by (auto simp: contains_sublist intro: sublist_order.order.trans)

lemma split_on_sublist: "n \<in> set (split_on c s) \<Longrightarrow> sublist n s"
proof (induction c s arbitrary: n rule: split_on.induct)
  case (2 c x xs)
  have front: "prefix (hd (split_on c s)) s" for s
    by (induction c s rule: split_on.induct) (auto split: list.splits if_splits)
  show ?case
  proof (cases "x = c")
    case True
    with 2 show ?thesis by (auto intro: sublist_Cons_right [THEN iffD2])
  next
    case False
    obtain l ls where l: "split_on c xs = l # ls" by (cases "split_on c xs") auto
    with False 2(3) have "n = x # l \<or> n \<in> set ls" by auto
    then show ?thesis
    proof
      assume "n = x # l"
      then show ?thesis using front [of xs] l by (auto intro!: prefix_imp_sublist)
    next
      assume "n \<in> set ls"
      with 2(2) False l have "sublist n xs" by auto
      then show ?thesis by (simp add: sublist_Cons_right)
    qed
  qed
qed simp

lemma no_dotdot_names: "\<not> contains s ''..'' \<Longrightarrow> ''..'' \<notin> set (path_names s)"
  using contains_sublist_mono [OF _ split_on_sublist, of "''..''" "''..''" slash s]
  by (auto simp: path_names_def contains_sublist)

subsection \<open>Validated upload targets\<close>

lemma validate_filename_ok:
  assumes "validate_filename raw = (Ok, f)"
  shows "f \<noteq> [] \<and> slash \<notin> set f \<and> list_all name_char f \<and> IsUsdFilename f \<and> f \<noteq> ''.'' \<and> f \<noteq> ''..''"
  using assms
  by (auto simp: validate_filename_def IsUsdFilename_def ends_with_def split: option.splits if_splits)

lemma validate_directory_ok:
  assumes "validate_directory raw = (Ok, d)"
  shows "\<not> contains d ''..'' \<and> \<not> is_absolute d \<and> list_all path_char d \<and> (d \<noteq> [] \<longrightarrow> last d \<noteq> slash)"
proof -
  obtain d0 where "PercentDecode raw False False = Some d0"
    using assms by (auto simp: validate_directory_def split: option.splits)
  then have d: "d = trim_separators d0" and n: "\<not> contains d ''..''" and c: "list_all path_char d"
    using assms by (auto simp: validate_directory_def Let_def split: if_splits)
  let ?t = "dropWhile is_separator d0"
  have r: "rev d = dropWhile is_separator (rev ?t)" by (simp add: d trim_separators_def)
  have "last d \<noteq> slash" if "d \<noteq> []"
  proof -
    have "\<not> is_separator (hd (rev d))"
      using that hd_dropWhile [of is_separator "rev ?t"] unfolding r [symmetric] by simp
    then show ?thesis using that by (simp add: hd_rev is_separator_def)
  qed
  moreover have "\<not> is_absolute d"
  proof
    assume a: "is_absolute d"
    then have "d \<noteq> []" "hd d = slash" by (auto simp: is_absolute_def)
    have "prefix d ?t"
      using suffix_dropWhile [of is_separator "rev ?t"] r by (metis rev_rev_ident suffix_to_prefix)
    then obtain zs where zs: "?t = d @ zs" by (auto simp: prefix_def)
    then have "?t \<noteq> []" "hd ?t = slash" unfolding zs using \<open>d \<noteq> []\<close> \<open>hd d = slash\<close> by simp_all
    then show False using hd_dropWhile [of is_separator d0] by (simp add: is_separator_def)
  qed
  ultimately show ?thesis using n c by blast
qed

text \<open>The names of the relative path of an accepted upload.\<close>

lemma upload_relative:
  assumes f: "validate_filename rf = (Ok, f)" and d: "validate_directory rd = (Ok, d)"
  defines "relative \<equiv> if d = [] then f else path_join d f"
  shows "path_names relative = path_names d @ [f]" "\<not> is_absolute relative" "relative \<noteq> []"
    "last relative \<noteq> slash" "''..'' \<notin> set (path_names relative)"
proof -
  note F = validate_filename_ok [OF f] and D = validate_directory_ok [OF d]
  have nf: "\<not> is_absolute f" using F by (auto simp: is_absolute_def dest: hd_in_set)
  show n: "path_names relative = path_names d @ [f]"
    using F nf by (auto simp: relative_def path_names_join path_names_name)
  show "relative \<noteq> []" using F by (auto simp: relative_def path_join_def)
  show "\<not> is_absolute relative" using nf D is_absolute_join [OF nf, of d] by (simp add: relative_def)
  have "last relative = last f" using F nf by (auto simp: relative_def path_join_def)
  then show "last relative \<noteq> slash" using F by (metis last_in_set)
  show "''..'' \<notin> set (path_names relative)" using n F no_dotdot_names D by auto
qed

lemma lexically_normal_join:
  assumes rel: "\<not> is_absolute q" "q \<noteq> []" "last q \<noteq> slash" "''..'' \<notin> set (path_names q)"
    and f: "path_names q = ds @ [f]" "f \<noteq> ''.''"
  shows "lexically_normal (path_join p q) =
    (if p \<noteq> [] \<and> is_absolute p then [[slash]] else []) @ norm_names (p \<noteq> [] \<and> is_absolute p) (path_names p) @
    filter (\<lambda>n. n \<noteq> ''.'') (path_names q)"
proof -
  have abs: "is_absolute (path_join p q) \<longleftrightarrow> p \<noteq> [] \<and> is_absolute p"
    using is_absolute_join [OF rel(1), of p] rel(1) by (cases "p = []") (auto simp: path_join_def)
  have "path_join p q \<noteq> []" "last (path_join p q) = last q" using rel by (auto simp: path_join_def)
  moreover have "last (path_names (path_join p q)) = f" using f by (simp add: path_names_join [OF rel(1)])
  moreover have "f \<noteq> ''..''" using f rel(4) by auto
  ultimately show ?thesis
    using rel f(2) by (simp add: lexically_normal_def abs path_names_join [OF rel(1)] norm_names_append
        has_trailing_slash_def f(1))
qed

lemma path_names_nonempty: "n \<in> set (path_names p) \<Longrightarrow> n \<noteq> [] \<and> slash \<notin> set n"
  by (auto simp: path_names_def dest: split_on_pieces)

subsection \<open>Percent encoding\<close>

definition hex_digits :: string where
  "hex_digits = ''0123456789ABCDEF''"

definition percent_encode :: "string \<Rightarrow> string" where
  "percent_encode s =
     concat (map (\<lambda>c. [CHR ''%'', hex_digits ! (of_char c div 16), hex_digits ! (of_char c mod 16)]) s)"

lemma hex_value_digit:
  assumes "d < 16"
  shows "hex_value (hex_digits ! d) = Some d"
proof -
  have "\<forall>d\<in>set [0..<16]. hex_value (hex_digits ! d) = Some d"
    by (simp add: upt_conv_Cons hex_digits_def hex_value_def)
  with assms show ?thesis by simp
qed

lemma decode_encode:
  "\<not> (reject \<and> slash \<in> set s) \<Longrightarrow> PercentDecode (percent_encode s) as_space reject = Some s"
proof (induction s)
  case (Cons c s)
  have "hex_value (hex_digits ! (of_char c div 16)) = Some (of_char c div 16)"
    using nat_of_char_less_256 [of c] by (intro hex_value_digit) (simp add: less_mult_imp_div_less)
  moreover have "hex_value (hex_digits ! (of_char c mod 16)) = Some (of_char c mod 16)"
    by (intro hex_value_digit) simp
  moreover have "char_of (16 * (of_char c div 16) + of_char c mod 16 :: nat) = c" by simp
  ultimately show ?case
    using Cons by (auto simp: percent_encode_def Let_def)
qed (simp add: percent_encode_def)

text \<open>A normalised path inside a normalised root is that root followed by the rest, whatever shape the
  root has (\<^verbatim>\<open>.\<close>, empty, or with a trailing separator).\<close>

lemma within_normal_append:
  assumes norm: "full = (if p \<noteq> [] \<and> is_absolute p then [[slash]] else []) @
      norm_names (p \<noteq> [] \<and> is_absolute p) (path_names p) @ rest"
    and within: "elems_within (lexically_normal p) full"
    and rest: "rest \<noteq> []" and hd: "hd rest \<noteq> []" "hd rest \<noteq> ''.''"
  shows "full = lexically_normal p @ rest"
proof (cases "norm_names (p \<noteq> [] \<and> is_absolute p) (path_names p) = []")
  case True
  show ?thesis
  proof (cases "p = [] \<or> is_absolute p")
    case True': True
    with True norm show ?thesis by (cases "p = []") (simp_all add: lexically_normal_def Let_def)
  next
    case False
    with True have "lexically_normal p = [''.'']" by (simp add: lexically_normal_def Let_def)
    with within norm True False have "hd rest = ''.''"
      using rest by (cases rest) (auto simp: elems_within_def)
    with hd show ?thesis by simp
  qed
next
  case False
  let ?a = "p \<noteq> [] \<and> is_absolute p"
  show ?thesis
  proof (cases "lexically_normal p = (if ?a then [[slash]] else []) @ norm_names ?a (path_names p)")
    case True
    with norm show ?thesis by simp
  next
    case False': False
    with False have "lexically_normal p = (if ?a then [[slash]] else []) @ norm_names ?a (path_names p) @ [[]]"
      by (cases "p = []") (auto simp: lexically_normal_def Let_def norm_names_def split: if_splits)
    with within norm rest have "hd rest = []"
      by (cases rest) (auto simp: elems_within_def split: if_splits)
    with hd show ?thesis by simp
  qed
qed

text \<open>What an accepted upload target looks like.\<close>

lemma upload_target_shape:
  assumes "ValidateUploadTarget loc raw_dir raw_filename = (Ok, full, relative)"
  shows "\<exists>f d. validate_filename raw_filename = (Ok, f) \<and> validate_directory raw_dir = (Ok, d) \<and>
    relative = (if d = [] then f else path_join d f) \<and>
    full = lexically_normal (path_join (root loc) relative) \<and>
    full = lexically_normal (root loc) @ filter (\<lambda>n. n \<noteq> ''.'') (path_names relative)"
proof -
  obtain f d where f: "validate_filename raw_filename = (Ok, f)" and d: "validate_directory raw_dir = (Ok, d)"
    and rel: "relative = (if d = [] then f else path_join d f)"
    and full: "full = lexically_normal (path_join (root loc) relative)"
    and within: "elems_within (lexically_normal (root loc)) full"
    using assms by (auto simp: ValidateUploadTarget_def Let_def split: prod.splits Status.splits if_splits)
  note R = upload_relative [OF f d, folded rel] and F = validate_filename_ok [OF f]
  let ?p = "root loc" and ?rest = "filter (\<lambda>n. n \<noteq> ''.'') (path_names relative)"
  let ?a = "?p \<noteq> [] \<and> is_absolute ?p"
  have norm: "full = (if ?a then [[slash]] else []) @ norm_names ?a (path_names ?p) @ ?rest"
    unfolding full by (rule lexically_normal_join [OF R(2,3,4,5,1)]) (use F in simp)
  have rest: "?rest \<noteq> []" using R(1) F by auto
  have "hd ?rest \<in> set ?rest" using rest by (rule hd_in_set)
  then have "hd ?rest \<noteq> []" "hd ?rest \<noteq> ''.''" using path_names_nonempty [of "hd ?rest" relative] by auto
  then have "full = lexically_normal ?p @ ?rest"
    by (intro within_normal_append [OF norm within rest])
  with f d rel full show ?thesis by blast
qed

subsection \<open>Properties\<close>

text \<open>C18: An accepted upload stays under the uploads root: the path it will be written to consists of
  the elements of the normalised root followed by at least one name, none of them empty, \<^verbatim>\<open>.\<close>, \<^verbatim>\<open>..\<close>
  or containing a separator, and the last one is the decoded file name, made of harmless characters
  and with a USD extension.\<close>

theorem upload_target_under_root:
  assumes "ValidateUploadTarget loc raw_dir raw_filename = (Ok, full, relative)"
  shows "\<exists>rest f. full = lexically_normal (root loc) @ rest \<and> rest \<noteq> [] \<and>
    (\<forall>n\<in>set rest. n \<noteq> [] \<and> n \<noteq> ''.'' \<and> n \<noteq> ''..'' \<and> slash \<notin> set n) \<and>
    last rest = f \<and> PercentDecode raw_filename False True = Some f \<and> list_all name_char f \<and> IsUsdFilename f"
proof -
  obtain f d where f: "validate_filename raw_filename = (Ok, f)" and d: "validate_directory raw_dir = (Ok, d)"
    and rel: "relative = (if d = [] then f else path_join d f)"
    and full: "full = lexically_normal (root loc) @ filter (\<lambda>n. n \<noteq> ''.'') (path_names relative)"
    using upload_target_shape [OF assms] by metis
  note R = upload_relative [OF f d, folded rel] and F = validate_filename_ok [OF f]
  let ?rest = "filter (\<lambda>n. n \<noteq> ''.'') (path_names relative)"
  have "PercentDecode raw_filename False True = Some f"
    using f by (auto simp: validate_filename_def split: option.splits if_splits)
  moreover have "?rest \<noteq> []" "last ?rest = f" using R(1) F by auto
  moreover have "n \<noteq> [] \<and> n \<noteq> ''.'' \<and> n \<noteq> ''..'' \<and> slash \<notin> set n" if "n \<in> set ?rest" for n
    using that path_names_nonempty [of n relative] R(5) by auto
  ultimately show ?thesis using full F by blast
qed

theorem upload_target_under_root_witness:
  "\<exists>rest. fst (snd (ValidateUploadTarget \<lparr>root = ''/srv/up'', session_root = ''s''\<rparr> ''a%2Fb/'' ''my%20scene.usda''))
     = lexically_normal ''/srv/up'' @ rest \<and> last rest = ''my scene.usda''"
proof -
  let ?loc = "\<lparr>root = ''/srv/up'', session_root = ''s''\<rparr>"
  have v: "ValidateUploadTarget ?loc ''a%2Fb/'' ''my%20scene.usda'' =
      (Ok, [''/'', ''srv'', ''up'', ''a'', ''b'', ''my scene.usda''], ''a/b/my scene.usda'')"
    by code_simp
  have dec: "PercentDecode ''my%20scene.usda'' False True = Some ''my scene.usda''" by code_simp
  from upload_target_under_root [OF v] obtain rest f where
    "[''/'', ''srv'', ''up'', ''a'', ''b'', ''my scene.usda''] = lexically_normal ''/srv/up'' @ rest"
    "last rest = f" "PercentDecode ''my%20scene.usda'' False True = Some f"
    unfolding UsdFileLocator.simps by metis
  with dec show ?thesis unfolding v by (intro exI [of _ rest]) simp
qed

text \<open>Percent decoding inverts percent encoding: every byte string is recovered from its
  encoding, except that an encoded slash is refused when the caller asks for that.\<close>

theorem PercentDecode_encode:
  "PercentDecode (percent_encode s) as_space reject = (if reject \<and> slash \<in> set s then None else Some s)"
proof (cases "reject \<and> slash \<in> set s")
  case True
  then have "slash \<in> set s" reject by auto
  then have "PercentDecode (percent_encode s) as_space True = None"
  proof (induction s)
    case (Cons c s)
    have "hex_value (hex_digits ! (of_char c div 16)) = Some (of_char c div 16)"
      using nat_of_char_less_256 [of c] by (intro hex_value_digit) (simp add: less_mult_imp_div_less)
    moreover have "hex_value (hex_digits ! (of_char c mod 16)) = Some (of_char c mod 16)"
      by (intro hex_value_digit) simp
    moreover have "char_of (16 * (of_char c div 16) + of_char c mod 16 :: nat) = c" by simp
    ultimately show ?case using Cons by (auto simp: percent_encode_def Let_def)
  qed simp
  with True show ?thesis by simp
qed (simp add: decode_encode)

text \<open>A file is resolved only inside the uploads root, symbolic links included: when \<^verbatim>\<open>Resolve\<close>
  succeeds, the canonical path of the result begins with the canonical path of the root, the decoded
  request contains no \<^verbatim>\<open>..\<close>, and the file exists and has a USD extension.\<close>

theorem Resolve_inside_root:
  assumes "Resolve fs loc filepath = (Ok, p)"
  shows "\<exists>decoded cr rest. PercentDecode filepath False False = Some decoded \<and> \<not> contains decoded ''..'' \<and>
    p = path_join (root loc) decoded \<and> fs_canonical fs (root loc) = Inr cr \<and>
    fs_canonical fs p = Inr (cr @ rest) \<and> fs_exists fs p \<and> IsUsdFilename (path_filename p)"
proof -
  obtain decoded where v: "ValidatePath filepath = (Ok, decoded)"
    using assms by (cases "ValidatePath filepath"; cases "fst (ValidatePath filepath)") (auto simp: Resolve_def)
  obtain cr cf where c: "fs_canonical fs (root loc) = Inr cr" "fs_canonical fs p = Inr cf"
      "elems_within cr cf" "p = path_join (root loc) decoded" "fs_exists fs p" "IsUsdFilename (path_filename p)"
    using assms v by (auto simp: Resolve_def Let_def split: sum.splits if_splits)
  have "PercentDecode filepath False False = Some decoded" "\<not> contains decoded ''..''"
    using v by (auto simp: ValidatePath_def split: option.splits if_splits)
  moreover have "cf = cr @ drop (length cr) cf" using c(3) by (metis append_take_drop_id elems_within_def)
  ultimately show ?thesis using c by metis
qed

theorem Resolve_inside_root_witness:
  "\<exists>cr rest. (\<lambda>p. Inr ([''/'', ''data''] @ path_elems p) :: fs_error + string list) ''up/a.usd'' = Inr (cr @ rest) \<and>
     snd (Resolve \<lparr>fs_canonical = (\<lambda>p. Inr ([''/'', ''data''] @ path_elems p)), fs_exists = (\<lambda>_. True),
       fs_create_directories = (\<lambda>_. None), fs_probe_write = (\<lambda>_. True)\<rparr>
       \<lparr>root = ''up'', session_root = ''s''\<rparr> ''a%2Eusd'') = ''up/a.usd''"
proof -
  let ?fs = "\<lparr>fs_canonical = (\<lambda>p. Inr ([''/'', ''data''] @ path_elems p)), fs_exists = (\<lambda>_. True),
       fs_create_directories = (\<lambda>_. None), fs_probe_write = (\<lambda>_. True)\<rparr>"
  have v: "Resolve ?fs \<lparr>root = ''up'', session_root = ''s''\<rparr> ''a%2Eusd'' = (Ok, ''up/a.usd'')"
    by code_simp
  from Resolve_inside_root [OF v] obtain cr rest where "fs_canonical ?fs ''up/a.usd'' = Inr (cr @ rest)"
    by metis
  then show ?thesis unfolding v by (intro exI [of _ cr] exI [of _ rest]) simp
qed

text \<open>A root written with a trailing separator, or as \<^verbatim>\<open>.\<close>, makes the lexical check reject every
  upload.\<close>

lemma trailing_slash_root_rejects:
  "fst (ValidateUploadTarget \<lparr>root = ''uploads/'', session_root = ''s''\<rparr> [] ''a.usd'') = OutsideRoot"
  "fst (ValidateUploadTarget \<lparr>root = ''.'', session_root = ''s''\<rparr> [] ''a.usd'') = OutsideRoot"
  by code_simp+

text \<open>An encoded separator is accepted in the directory of an upload.\<close>

lemma encoded_slash_in_directory:
  "fst (ValidateUploadTarget \<lparr>root = ''uploads'', session_root = ''s''\<rparr> ''a%2Fb'' ''c.usd'') = Ok"
  by code_simp

end
