(* ===== verification/Stage_Committer.thy ===== *)
theory Stage_Committer
  imports Usd_Instance File_Locator
begin

text \<open>
  Folding a session's overrides into the original file
  (\<^verbatim>\<open>source/session/StageCommitter.{h,cpp}\<close>).

  The disk is a map from normalised paths to file contents. What the file system refuses and what the
  USD library produces (the flattened layer, its export, the entries of a package, a written
  package) are the fields of the record \<open>commit_env\<close>, an argument; an export or a package that fails
  may leave any bytes behind.
\<close>

subsection \<open>The disk\<close>

type_synonym disk = "string list \<rightharpoonup> string"

definition file_key :: "fspath \<Rightarrow> string list" where
  "file_key p = lexically_normal p"

record zip_entry =
  ze_name :: string
  ze_compression :: nat
  ze_data :: "string option"
  ze_size :: nat

record ('st, 'ly) commit_env =
  FlattenLayerStack :: "'st \<Rightarrow> 'ly option"
  MergedHasPrim :: "'ly \<Rightarrow> SdfPath \<Rightarrow> bool"
  RemoveNameChild :: "'ly \<Rightarrow> SdfPath \<Rightarrow> 'ly"
  ExportLayer :: "'ly \<Rightarrow> fspath \<Rightarrow> bool \<times> string option"
  remove_works :: "fspath \<Rightarrow> bool"
  rename_error :: "fspath \<Rightarrow> fspath \<Rightarrow> string option"
  mkdir_error :: "fspath \<Rightarrow> string option"
  dir_exists :: "disk \<Rightarrow> fspath \<Rightarrow> bool"
  open_works :: "fspath \<Rightarrow> bool"
  ZipOpen :: "string option \<Rightarrow> zip_entry list option"
  ZipCreate :: "fspath \<Rightarrow> bool"
  ZipAddFile :: "string option \<Rightarrow> string \<Rightarrow> bool"
  ZipSave :: "(string \<times> string option) list \<Rightarrow> bool \<times> string option"

definition fs_remove :: "('st, 'ly, 'z) commit_env_scheme \<Rightarrow> fspath \<Rightarrow> disk \<Rightarrow> disk" where
  "fs_remove env p d = (if remove_works env p then d(file_key p := None) else d)"

definition fs_remove_all :: "('st, 'ly, 'z) commit_env_scheme \<Rightarrow> fspath \<Rightarrow> disk \<Rightarrow> disk" where
  "fs_remove_all env p d =
     (if remove_works env p then (\<lambda>k. if prefix (file_key p) k then None else d k) else d)"

definition fs_rename :: "('st, 'ly, 'z) commit_env_scheme \<Rightarrow> fspath \<Rightarrow> fspath \<Rightarrow> disk \<Rightarrow> string option \<times> disk" where
  "fs_rename env src dst d =
     (case rename_error env src dst of
        Some e \<Rightarrow> (Some e, d)
      | None \<Rightarrow>
          (case d (file_key src) of
             None \<Rightarrow> (Some ''No such file or directory'', d)
           | Some b \<Rightarrow> (None, d(file_key dst \<mapsto> b, file_key src := None))))"

definition fs_export :: "('st, 'ly, 'z) commit_env_scheme \<Rightarrow> 'ly \<Rightarrow> fspath \<Rightarrow> disk \<Rightarrow> bool \<times> disk" where
  "fs_export env ly p d =
     (case ExportLayer env ly p of (ok, bytes) \<Rightarrow>
        (ok, case bytes of None \<Rightarrow> d | Some b \<Rightarrow> d(file_key p \<mapsto> b)))"

subsection \<open>The committer\<close>

definition quoted :: "string \<Rightarrow> string" where
  "quoted s = [CHR 0x27] @ s @ [CHR 0x27]"

definition HasExtension :: "string \<Rightarrow> string \<Rightarrow> bool" where
  "HasExtension p ext \<longleftrightarrow>
     ends_with (map (\<lambda>c. if 65 \<le> (of_char c :: nat) \<and> of_char c \<le> (90 :: nat) then char_of (of_char c + 32 :: nat) else c) p) ext"

definition soft_deleted :: "'st Usd \<Rightarrow> SdfLayer \<Rightarrow> SdfPath list" where
  "soft_deleted usd l =
     filter (\<lambda>p. IsPrimPath usd p \<and>
       (case layer_prims l p of None \<Rightarrow> False | Some spec \<Rightarrow> spec_active spec = Some False)) (layer_paths l)"

definition remove_prim :: "'st Usd \<Rightarrow> ('st, 'ly, 'z) commit_env_scheme \<Rightarrow> SdfPath \<Rightarrow> 'ly \<Rightarrow> 'ly" where
  "remove_prim usd env p ly =
     (if \<not> MergedHasPrim env ly p then ly
      else
        let parent_path = GetParentPath usd p
        in if parent_path = ''/'' \<or> MergedHasPrim env ly parent_path then RemoveNameChild env ly p else ly)"

definition RemoveSoftDeletedPrims :: "'st Usd \<Rightarrow> ('st, 'ly, 'z) commit_env_scheme \<Rightarrow> 'st \<Rightarrow> 'ly \<Rightarrow> 'ly" where
  "RemoveSoftDeletedPrims usd env st merged =
     (case GetSessionLayer usd st of
        None \<Rightarrow> merged
      | Some l \<Rightarrow> fold (remove_prim usd env) (soft_deleted usd l) merged)"

definition flat_tmp :: "fspath \<Rightarrow> fspath" where
  "flat_tmp dst = path_join (path_parent dst) (''.'' @ path_stem dst @ ''_idtx_commit'' @ path_extension dst)"

definition CommitFlat ::
  "'st Usd \<Rightarrow> ('st, 'ly, 'z) commit_env_scheme \<Rightarrow> 'st \<Rightarrow> fspath \<Rightarrow> disk \<Rightarrow> string option \<times> disk" where
  "CommitFlat usd env st dst d =
     (case FlattenLayerStack env st of
        None \<Rightarrow> (Some ''UsdUtilsFlattenLayerStack returned null'', d)
      | Some merged0 \<Rightarrow>
          let merged = RemoveSoftDeletedPrims usd env st merged0;
              tmp = flat_tmp dst;
              d1 = fs_remove env tmp d
          in (case fs_export env merged tmp d1 of (ok, d2) \<Rightarrow>
                if \<not> ok then (Some (''SdfLayer::Export failed for '' @ quoted tmp), fs_remove env tmp d2)
                else
                  (case fs_rename env tmp dst d2 of
                     (Some e, d3) \<Rightarrow>
                       (Some (''atomic rename '' @ quoted tmp @ '' -> '' @ quoted dst @ '' failed: '' @ e), fs_remove env tmp d3)
                   | (None, d3) \<Rightarrow> (None, d3))))"

definition usdz_dir :: "fspath \<Rightarrow> fspath" where
  "usdz_dir dst = path_join (path_parent dst) (''.'' @ path_stem dst @ ''_idtx_commit_tmp'')"

definition usdz_pkg :: "fspath \<Rightarrow> fspath" where
  "usdz_pkg dst = path_join (path_parent dst) (''.'' @ path_stem dst @ ''_idtx_commit.usdz'')"

fun extract_entries ::
  "('st, 'ly, 'z) commit_env_scheme \<Rightarrow> fspath \<Rightarrow> zip_entry list \<Rightarrow> disk \<Rightarrow> string list throws \<times> disk" where
  "extract_entries env tmpDir [] d = (Inr [], d)"
| "extract_entries env tmpDir (e # es) d =
     (if ze_compression e \<noteq> 0 then (Inl (''compressed entry '' @ quoted (ze_name e) @ '' in usdz; cannot re-package''), d)
      else if ze_data e = None \<and> ze_size e > 0 then (Inl (''could not read entry '' @ quoted (ze_name e) @ '' from usdz''), d)
      else
        let outFile = path_join tmpDir (ze_name e)
        in if \<not> open_works env outFile then (Inl (''could not open '' @ quoted outFile @ '' for writing''), d)
           else
             let bytes = (if ze_size e > 0 then take (ze_size e) (the (ze_data e)) else [])
             in (case extract_entries env tmpDir es (d(file_key outFile \<mapsto> bytes)) of
                   (Inl err, d') \<Rightarrow> (Inl err, d')
                 | (Inr names, d') \<Rightarrow> (Inr (ze_name e # names), d')))"

fun add_files ::
  "('st, 'ly, 'z) commit_env_scheme \<Rightarrow> fspath \<Rightarrow> disk \<Rightarrow> string list \<Rightarrow> (string \<times> string option) list throws" where
  "add_files env tmpDir d [] = Inr []"
| "add_files env tmpDir d (n # ns) =
     (let content = d (file_key (path_join tmpDir n))
      in if \<not> ZipAddFile env content n then Inl (''failed to add '' @ quoted n @ '' to usdz'')
         else (case add_files env tmpDir d ns of Inl e \<Rightarrow> Inl e | Inr fs \<Rightarrow> Inr ((n, content) # fs)))"

text \<open>The third part of the function: the new package, and its rename over the original.\<close>

definition repackage ::
  "('st, 'ly, 'z) commit_env_scheme \<Rightarrow> fspath \<Rightarrow> string list \<Rightarrow> disk \<Rightarrow> string option \<times> disk" where
  "repackage env dst names d =
     (let tmpPkg = usdz_pkg dst; d1 = fs_remove env tmpPkg d
      in if \<not> ZipCreate env tmpPkg then (Some (''could not create usdz '' @ quoted tmpPkg), d1)
         else
           (case add_files env (usdz_dir dst) d1 names of
              Inl e \<Rightarrow> (Some e, fs_remove env tmpPkg d1)
            | Inr fs \<Rightarrow>
                (case ZipSave env fs of (ok, bytes) \<Rightarrow>
                   let d2 = (case bytes of None \<Rightarrow> d1 | Some b \<Rightarrow> d1(file_key tmpPkg \<mapsto> b))
                   in if \<not> ok then (Some (''failed to save usdz '' @ quoted tmpPkg), fs_remove env tmpPkg d2)
                      else
                        (case fs_rename env tmpPkg dst d2 of
                           (Some e, d3) \<Rightarrow>
                             (Some (''atomic rename '' @ quoted tmpPkg @ '' -> '' @ quoted dst @ '' failed: '' @ e), fs_remove env tmpPkg d3)
                         | (None, d3) \<Rightarrow> (None, d3)))))"

text \<open>The extraction and the replacement of the root entry.\<close>

definition repack_usdz ::
  "('st, 'ly, 'z) commit_env_scheme \<Rightarrow> 'ly \<Rightarrow> fspath \<Rightarrow> disk \<Rightarrow> string option \<times> disk" where
  "repack_usdz env merged dst d =
     (case ZipOpen env (d (file_key dst)) of
        None \<Rightarrow> (Some (''cannot open usdz package '' @ quoted dst), d)
      | Some entries \<Rightarrow>
          (case extract_entries env (usdz_dir dst) entries d of
             (Inl e, d1) \<Rightarrow> (Some e, d1)
           | (Inr [], d1) \<Rightarrow> (Some (''usdz package '' @ quoted dst @ '' is empty''), d1)
           | (Inr (rootName # names), d1) \<Rightarrow>
               let rootPath = path_join (usdz_dir dst) rootName
               in (case fs_export env merged rootPath (fs_remove env rootPath d1) of (ok, d2) \<Rightarrow>
                     if \<not> ok then (Some (''failed to export merged root layer to '' @ quoted rootPath), d2)
                     else repackage env dst (rootName # names) d2)))"

definition CommitUsdz ::
  "'st Usd \<Rightarrow> ('st, 'ly, 'z) commit_env_scheme \<Rightarrow> 'st \<Rightarrow> fspath \<Rightarrow> disk \<Rightarrow> string option \<times> disk" where
  "CommitUsdz usd env st dst d =
     (case FlattenLayerStack env st of
        None \<Rightarrow> (Some ''UsdUtilsFlattenLayerStack returned null'', d)
      | Some merged0 \<Rightarrow>
          let merged = RemoveSoftDeletedPrims usd env st merged0;
              tmpDir = usdz_dir dst;
              d1 = fs_remove_all env tmpDir d
          in (case mkdir_error env tmpDir of
                Some e \<Rightarrow>
                  if \<not> dir_exists env d1 tmpDir
                  then (Some (''could not create temp dir '' @ quoted tmpDir @ '': '' @ e), d1)
                  else (case repack_usdz env merged dst d1 of (r, d2) \<Rightarrow> (r, fs_remove_all env tmpDir d2))
              | None \<Rightarrow> (case repack_usdz env merged dst d1 of (r, d2) \<Rightarrow> (r, fs_remove_all env tmpDir d2))))"

definition StageCommitter_Commit ::
  "'st Usd \<Rightarrow> ('st, 'ly, 'z) commit_env_scheme \<Rightarrow> 'st option \<Rightarrow> fspath \<Rightarrow> disk \<Rightarrow> string option \<times> disk" where
  "StageCommitter_Commit usd env stage original_path d =
     (case stage of
        None \<Rightarrow> (Some ''null stage'', d)
      | Some st \<Rightarrow>
          if HasExtension original_path ''.usdz'' then CommitUsdz usd env st original_path d
          else CommitFlat usd env st original_path d)"

subsection \<open>Where the temporary files are\<close>

definition plain_name :: "string \<Rightarrow> bool" where
  "plain_name n \<longleftrightarrow> n \<noteq> [] \<and> n \<noteq> ''.'' \<and> n \<noteq> ''..'' \<and> slash \<notin> set n"

definition dir_key :: "fspath \<Rightarrow> string list" where
  "dir_key p = (if p \<noteq> [] \<and> is_absolute p then [[slash]] else []) @ norm_names (p \<noteq> [] \<and> is_absolute p) (path_names p)"

lemma plain_relative: "plain_name n \<Longrightarrow> \<not> is_absolute n \<and> n \<noteq> [] \<and> last n \<noteq> slash"
  by (metis is_absolute_def last_in_set hd_in_set plain_name_def)

lemma file_key_join: "plain_name n \<Longrightarrow> file_key (path_join p n) = dir_key p @ [n]"
  using plain_relative [of n] unfolding file_key_def dir_key_def
  by (subst lexically_normal_join [where ds = "[]" and f = n]) (auto simp: plain_name_def path_names_name)

lemma last_split_slash: "p \<noteq> [] \<Longrightarrow> last p = slash \<Longrightarrow> last (split_on slash p) = []"
  using split_on_append [of slash "butlast p" "[]"] by (metis append_butlast_last_id last_snoc split_on.simps(1))

lemma file_key_last:
  assumes "plain_name (path_filename p)"
  shows "last (file_key p) = path_filename p \<and> file_key p \<noteq> []"
proof -
  let ?f = "path_filename p"
  have f: "?f \<noteq> []" "?f \<noteq> ''.''" "?f \<noteq> ''..''" using assms by (auto simp: plain_name_def)
  have "filter (\<lambda>n. n \<noteq> []) (butlast (split_on slash p) @ [?f]) = filter (\<lambda>n. n \<noteq> []) (butlast (split_on slash p)) @ [?f]"
    using f(1) by simp
  then have ns: "path_names p = filter (\<lambda>n. n \<noteq> []) (butlast (split_on slash p)) @ [?f]"
    by (simp add: path_names_def path_filename_def)
  have "p \<noteq> []" using f(1) by (auto simp: path_filename_def)
  moreover have "\<not> has_trailing_slash p"
    using f(1) last_split_slash [OF \<open>p \<noteq> []\<close>] by (auto simp: has_trailing_slash_def path_filename_def)
  moreover have "norm_names a (path_names p) = norm_names a (filter (\<lambda>n. n \<noteq> []) (butlast (split_on slash p))) @ [?f]" for a
    using f norm_names_append [of "[?f]"] by (simp add: ns)
  ultimately show ?thesis using f by (simp add: file_key_def lexically_normal_def Let_def ns)
qed

lemma name_split_append: "path_stem p @ path_extension p = path_filename p"
proof -
  let ?n = "path_filename p"
  have "take (length ?n - length e) ?n @ e = ?n" if "e = CHR ''.'' # rev (takeWhile (\<lambda>c. c \<noteq> CHR ''.'') (rev ?n))" "CHR ''.'' \<in> set ?n" for e
  proof -
    have "rev ?n = takeWhile (\<lambda>c. c \<noteq> CHR ''.'') (rev ?n) @ dropWhile (\<lambda>c. c \<noteq> CHR ''.'') (rev ?n)" by simp
    moreover have "dropWhile (\<lambda>c. c \<noteq> CHR ''.'') (rev ?n) \<noteq> []" using that(2) by (simp add: dropWhile_eq_Nil_conv)
    then obtain t where "dropWhile (\<lambda>c. c \<noteq> CHR ''.'') (rev ?n) = CHR ''.'' # t"
      using hd_dropWhile [of "\<lambda>c. c \<noteq> CHR ''.''" "rev ?n"] by (metis list.exhaust_sel)
    ultimately have "rev (rev ?n) = rev t @ e" using that(1) by (metis append.assoc append_Cons append_Nil rev.simps(2) rev_append rev_rev_ident)
    then have "?n = rev t @ e" by simp
    then show ?thesis by (metis append_eq_conv_conj diff_add_inverse2 length_append)
  qed
  then show ?thesis by (auto simp: path_stem_def path_extension_def name_split_def Let_def)
qed

lemma dotted_extension: "path_filename p = a @ CHR ''.'' # e \<Longrightarrow> CHR ''.'' \<notin> set e \<Longrightarrow> length (path_extension p) \<le> Suc (length e)"
proof -
  assume n: "path_filename p = a @ CHR ''.'' # e" and e: "CHR ''.'' \<notin> set e"
  have "takeWhile (\<lambda>c. c \<noteq> CHR ''.'') (rev (path_filename p)) = rev e"
    using e by (simp add: n takeWhile_append)
  then show ?thesis by (simp add: path_extension_def name_split_def Let_def)
qed

definition temporary :: "fspath \<Rightarrow> string list \<Rightarrow> bool" where
  "temporary dst k \<longleftrightarrow>
     k = file_key (flat_tmp dst) \<or> prefix (file_key (usdz_dir dst)) k \<or> k = file_key (usdz_pkg dst)"

lemma usd_name_plain: "IsUsdFilename (path_filename p) \<Longrightarrow> plain_name (path_filename p)"
proof -
  assume u: "IsUsdFilename (path_filename p)"
  have "path_filename p \<in> set (split_on slash p)" by (simp add: path_filename_def)
  then have "slash \<notin> set (path_filename p)" by (rule split_on_pieces)
  then show ?thesis using u by (auto simp: plain_name_def IsUsdFilename_def ends_with_def)
qed

lemma stem_no_slash: "plain_name (path_filename p) \<Longrightarrow> slash \<notin> set (path_stem p) \<and> slash \<notin> set (path_extension p)"
  by (metis Un_iff name_split_append plain_name_def set_append)

lemma temp_names_plain:
  assumes "plain_name (path_filename p)"
  shows "plain_name (''.'' @ path_stem p @ ''_idtx_commit'' @ path_extension p)"
    "plain_name (''.'' @ path_stem p @ ''_idtx_commit_tmp'')" "plain_name (''.'' @ path_stem p @ ''_idtx_commit.usdz'')"
  using stem_no_slash [OF assms] by (auto simp: plain_name_def slash_def append_eq_Cons_conv)

lemma temporary_keys:
  assumes "plain_name (path_filename p)"
  shows "file_key (flat_tmp p) = dir_key (path_parent p) @ [''.'' @ path_stem p @ ''_idtx_commit'' @ path_extension p]"
    "file_key (usdz_dir p) = dir_key (path_parent p) @ [''.'' @ path_stem p @ ''_idtx_commit_tmp'']"
    "file_key (usdz_pkg p) = dir_key (path_parent p) @ [''.'' @ path_stem p @ ''_idtx_commit.usdz'']"
  unfolding flat_tmp_def usdz_dir_def usdz_pkg_def by (intro file_key_join temp_names_plain [OF assms])+

lemma not_own_temp_names:
  assumes "IsUsdFilename (path_filename p)"
  shows "path_filename p \<noteq> ''.'' @ path_stem p @ ''_idtx_commit'' @ path_extension p"
    "path_filename p \<noteq> ''.'' @ path_stem p @ ''_idtx_commit_tmp''"
    "path_filename p \<noteq> ''.'' @ path_stem p @ ''_idtx_commit.usdz''"
proof -
  have len: "length (path_filename p) = length (path_stem p) + length (path_extension p)"
    by (metis length_append name_split_append)
  show "path_filename p \<noteq> ''.'' @ path_stem p @ ''_idtx_commit'' @ path_extension p"
  proof
    assume "path_filename p = ''.'' @ path_stem p @ ''_idtx_commit'' @ path_extension p"
    from arg_cong [OF this, of length] show False using len by simp
  qed
  show "path_filename p \<noteq> ''.'' @ path_stem p @ ''_idtx_commit_tmp''"
    using assms by (auto simp: IsUsdFilename_def ends_with_suffix suffix_def)
  show "path_filename p \<noteq> ''.'' @ path_stem p @ ''_idtx_commit.usdz''"
  proof
    assume e: "path_filename p = ''.'' @ path_stem p @ ''_idtx_commit.usdz''"
    then have "path_filename p = (''.'' @ path_stem p @ ''_idtx_commit'') @ CHR ''.'' # ''usdz''" by simp
    from dotted_extension [OF this] have "length (path_extension p) \<le> 5" by simp
    moreover have "length (path_filename p) = length (path_stem p) + 18" by (simp add: e)
    ultimately show False using len by simp
  qed
qed

lemma split_on_single: "split_on c s = [l] \<Longrightarrow> l = s"
  by (induction c s arbitrary: l rule: split_on.induct) (auto split: list.splits if_splits)

lemma split_on_last: "\<exists>q. s = q @ last (split_on c s) \<and> (q = [] \<or> last q = c)"
proof (induction c s rule: split_on.induct)
  case (2 c x xs)
  obtain l ls where sp: "split_on c xs = l # ls" by (cases "split_on c xs") auto
  show ?case
  proof (cases "x = c \<or> ls \<noteq> []")
    case True
    from 2 obtain q where q: "xs = q @ last (split_on c xs)" "q = [] \<or> last q = c" by blast
    have "last (split_on c (x # xs)) = last (split_on c xs)" using True sp by auto
    moreover have "x = c \<or> q \<noteq> []"
    proof (rule ccontr)
      assume "\<not> (x = c \<or> q \<noteq> [])"
      then have "xs = last (split_on c xs)" using q by simp
      then have "c \<notin> set xs" by (metis last_in_set split_on_nonempty split_on_pieces)
      then show False using True \<open>\<not> (x = c \<or> q \<noteq> [])\<close> sp split_on_no_sep by auto
    qed
    ultimately show ?thesis using q by (intro exI [of _ "x # q"]) auto
  next
    case False
    then show ?thesis using sp split_on_single [of c xs l] by (intro exI [of _ "[]"]) simp
  qed
qed simp

lemma path_names_slashes: "path_names (t @ replicate n slash) = path_names t"
proof (induction n)
  case (Suc n)
  have "t @ replicate (Suc n) slash = (t @ replicate n slash) @ slash # []" by (simp add: replicate_append_same)
  then show ?case using Suc by (metis append_Nil2 path_names_append path_names_empty)
qed simp

text \<open>The parent of a path has the same names but the last one.\<close>

lemma path_parent_split:
  assumes "plain_name (path_filename p)"
  shows "\<exists>t n. p = t @ replicate n slash @ path_filename p \<and> path_names p = path_names t @ [path_filename p] \<and>
    path_parent p = (if t = [] \<and> is_absolute p then [slash] else t)"
proof -
  let ?f = "path_filename p"
  obtain q where q: "p = q @ ?f" "q = [] \<or> last q = slash"
    using split_on_last [of p slash] by (auto simp: path_filename_def)
  let ?t = "rev (dropWhile (\<lambda>c. c = slash) (rev q))"
  have "take (length p - length ?f) p = q" using q(1) by (metis append_eq_conv_conj diff_add_inverse2 length_append)
  then have parent: "path_parent p = (if ?t = [] \<and> is_absolute p then [slash] else ?t)" by (simp add: path_parent_def Let_def)
  let ?w = "takeWhile (\<lambda>c. c = slash) (rev q)"
  have "rev q = ?w @ dropWhile (\<lambda>c. c = slash) (rev q)" by simp
  then have "rev (rev q) = ?t @ rev ?w" by (metis rev_append)
  moreover have "?w = replicate (length ?w) slash"
    by (rule replicate_eqI) (auto dest: set_takeWhileD)
  then have "rev ?w = replicate (length ?w) slash" by (metis rev_replicate)
  ultimately obtain n where n: "q = ?t @ replicate n slash" by auto
  have names: "path_names p = path_names ?t @ [?f]"
  proof (cases "q = []")
    case True
    then show ?thesis using q(1) assms by (simp add: path_names_name plain_name_def)
  next
    case False
    then have "q = butlast q @ [slash]" using q(2) by (metis append_butlast_last_id)
    then have "p = butlast q @ slash # ?f" "path_names q = path_names (butlast q)"
      using q(1) path_names_append [of "butlast q" "[]"] by (metis append.assoc append_Cons append_Nil, metis append_Nil2 path_names_empty)
    moreover have "path_names q = path_names ?t" using n path_names_slashes by metis
    ultimately show ?thesis
      using path_names_append [of "butlast q" ?f] assms by (simp add: path_names_name plain_name_def)
  qed
  moreover have "p = ?t @ replicate n slash @ ?f" using n q(1) by (metis append.assoc)
  ultimately show ?thesis using parent by blast
qed

lemma path_parent_shape:
  assumes "plain_name (path_filename p)"
  shows "path_names p = path_names (path_parent p) @ [path_filename p]"
    and "is_absolute p \<longleftrightarrow> path_parent p \<noteq> [] \<and> is_absolute (path_parent p)"
proof -
  obtain t n where p: "p = t @ replicate n slash @ path_filename p" and names: "path_names p = path_names t @ [path_filename p]"
    and parent: "path_parent p = (if t = [] \<and> is_absolute p then [slash] else t)"
    using path_parent_split [OF assms] by blast
  have "p \<noteq> []" using assms by (auto simp: plain_name_def path_filename_def)
  show "is_absolute p \<longleftrightarrow> path_parent p \<noteq> [] \<and> is_absolute (path_parent p)"
  proof (cases "t = []")
    case True
    then show ?thesis unfolding parent by (auto simp: is_absolute_def)
  next
    case False
    then have "hd p = hd t" using p hd_append2 [OF False, of "replicate n slash @ path_filename p"] by argo
    then show ?thesis using False \<open>p \<noteq> []\<close> unfolding parent is_absolute_def by argo
  qed
  have "path_names [slash] = []" using path_names_append [of "[]" "[]"] by simp
  then show "path_names p = path_names (path_parent p) @ [path_filename p]" using names parent by auto
qed

lemma file_key_parent:
  assumes "plain_name (path_filename p)"
  shows "file_key p = dir_key (path_parent p) @ [path_filename p]"
proof -
  have "p \<noteq> []" using assms by (auto simp: plain_name_def path_filename_def)
  moreover have "\<not> has_trailing_slash p"
    using assms last_split_slash [OF \<open>p \<noteq> []\<close>] by (auto simp: plain_name_def has_trailing_slash_def path_filename_def)
  moreover have "norm_names a (ns @ [path_filename p]) = norm_names a ns @ [path_filename p]" for a ns
    using assms norm_names_append [of "[path_filename p]"] by (auto simp: plain_name_def)
  ultimately show ?thesis
    using assms by (simp add: file_key_def dir_key_def lexically_normal_def Let_def path_parent_shape [OF assms] plain_name_def)
qed

lemma target_not_temporary:
  assumes "IsUsdFilename (path_filename dst)"
  shows "\<not> temporary dst (file_key dst)"
  using temporary_keys [OF usd_name_plain [OF assms]] not_own_temp_names [OF assms]
    file_key_parent [OF usd_name_plain [OF assms]]
  by (simp add: temporary_def)

subsection \<open>What a commit touches\<close>

definition agree_off :: "(string list \<Rightarrow> bool) \<Rightarrow> disk \<Rightarrow> disk \<Rightarrow> bool" where
  "agree_off T d d' \<longleftrightarrow> (\<forall>k. \<not> T k \<longrightarrow> d' k = d k)"

lemma agree_refl [simp]: "agree_off T d d"
  by (simp add: agree_off_def)

lemma agree_trans [trans]: "agree_off T d d1 \<Longrightarrow> agree_off T d1 d2 \<Longrightarrow> agree_off T d d2"
  by (simp add: agree_off_def)

lemma agree_update: "T k \<Longrightarrow> agree_off T d (d(k := v))"
  by (auto simp: agree_off_def)

lemma agree_remove: "T (file_key p) \<Longrightarrow> agree_off T d (fs_remove env p d)"
  by (simp add: fs_remove_def agree_update)

lemma agree_remove_all: "(\<And>k. prefix (file_key p) k \<Longrightarrow> T k) \<Longrightarrow> agree_off T d (fs_remove_all env p d)"
  by (auto simp: fs_remove_all_def agree_off_def)

lemma agree_export: "fs_export env ly p d = (ok, d') \<Longrightarrow> T (file_key p) \<Longrightarrow> agree_off T d d'"
  by (auto simp: fs_export_def agree_update split: prod.splits option.splits)

lemma rename_result:
  assumes "fs_rename env src dst d = (r, d')"
  shows "(r = None \<longrightarrow> d (file_key src) \<noteq> None \<and> d' = d(file_key dst := d (file_key src), file_key src := None)) \<and>
    (r \<noteq> None \<longrightarrow> d' = d)"
  using assms by (auto simp: fs_rename_def split: option.splits)

text \<open>A result is all or nothing: an error leaves everything but the temporary files alone, success also
  replaces the target.\<close>

definition all_or_nothing :: "fspath \<Rightarrow> disk \<Rightarrow> string option \<times> disk \<Rightarrow> bool" where
  "all_or_nothing dst d r \<longleftrightarrow>
     agree_off (if fst r = None then \<lambda>k. temporary dst k \<or> k = file_key dst else temporary dst) d (snd r)"

lemma all_or_nothing_after:
  "agree_off (temporary dst) d d1 \<Longrightarrow> all_or_nothing dst d1 r \<Longrightarrow> all_or_nothing dst d r"
  by (auto simp: all_or_nothing_def agree_off_def)

lemma all_or_nothing_then:
  "all_or_nothing dst d (r, d1) \<Longrightarrow> agree_off (temporary dst) d1 d2 \<Longrightarrow> all_or_nothing dst d (r, d2)"
  by (auto simp: all_or_nothing_def agree_off_def)

lemma failed_agree: "agree_off (temporary dst) d d' \<Longrightarrow> all_or_nothing dst d (Some e, d')"
  by (simp add: all_or_nothing_def)

lemma rename_step:
  assumes "temporary dst (file_key src)"
  shows "all_or_nothing dst d
    (case fs_rename env src dst d of (Some e, d3) \<Rightarrow> (Some (f e), fs_remove env src d3) | (None, d3) \<Rightarrow> (None, d3))"
proof (cases "fs_rename env src dst d")
  case (Pair r d3)
  show ?thesis
  proof (cases r)
    case None
    then show ?thesis
      using rename_result [OF Pair] assms Pair by (auto simp: all_or_nothing_def agree_off_def)
  next
    case (Some e)
    then have "d3 = d" using rename_result [OF Pair] by simp
    then show ?thesis
      using Pair Some agree_remove [of "temporary dst" src d env, OF assms] by (simp add: failed_agree)
  qed
qed

lemma CommitFlat_all_or_nothing: "all_or_nothing dst d (CommitFlat usd env st dst d)"
proof (cases "FlattenLayerStack env st")
  case None
  then show ?thesis by (simp add: CommitFlat_def failed_agree)
next
  case (Some merged0)
  let ?tmp = "flat_tmp dst" and ?d1 = "fs_remove env (flat_tmp dst) d"
  have tmp: "temporary dst (file_key ?tmp)" by (simp add: temporary_def)
  obtain ok d2 where x: "fs_export env (RemoveSoftDeletedPrims usd env st merged0) ?tmp ?d1 = (ok, d2)" by fastforce
  have d2: "agree_off (temporary dst) d d2"
    using agree_remove [of "temporary dst", OF tmp] agree_export [of _ _ _ _ _ _ "temporary dst", OF x tmp]
    by (rule agree_trans)
  show ?thesis
  proof (cases ok)
    case True
    then show ?thesis
      using all_or_nothing_after [OF d2 rename_step [OF tmp]] by (simp add: CommitFlat_def Some x Let_def)
  next
    case False
    then show ?thesis
      using failed_agree [OF agree_trans [OF d2 agree_remove [of "temporary dst", OF tmp]]]
      by (simp add: CommitFlat_def Some x Let_def)
  qed
qed

text \<open>An entry name that stays inside the directory it is extracted to.\<close>

definition safe_entry :: "string \<Rightarrow> bool" where
  "safe_entry n \<longleftrightarrow>
     \<not> is_absolute n \<and> n \<noteq> [] \<and> last n \<noteq> slash \<and> ''..'' \<notin> set (path_names n) \<and> last (path_names n) \<noteq> ''.''"

lemma safe_entry_names: "safe_entry n \<Longrightarrow> path_names n \<noteq> []"
proof -
  assume s: "safe_entry n"
  obtain q where q: "n = q @ last (split_on slash n)" "q = [] \<or> last q = slash" using split_on_last by blast
  have "last (split_on slash n) \<noteq> []"
  proof
    assume "last (split_on slash n) = []"
    then show False using q s by (auto simp: safe_entry_def)
  qed
  moreover have "last (split_on slash n) \<in> set (split_on slash n)" by simp
  ultimately show ?thesis unfolding path_names_def by (metis (mono_tags, lifting) filter_empty_conv)
qed

lemma dir_key_join: "plain_name n \<Longrightarrow> dir_key (path_join p n) = file_key (path_join p n)"
proof -
  assume n: "plain_name n"
  have rel: "\<not> is_absolute n" "path_join p n \<noteq> []" using plain_relative [OF n] by (auto simp: path_join_def)
  have "is_absolute (path_join p n) \<longleftrightarrow> p \<noteq> [] \<and> is_absolute p"
    using is_absolute_join [OF rel(1), of p] rel(1) by (cases "p = []") (auto simp: path_join_def)
  moreover have "''..'' \<notin> set [n]" "n \<noteq> ''.''" using n by (auto simp: plain_name_def)
  ultimately show ?thesis
    using rel n norm_names_append [of "[n]" "p \<noteq> [] \<and> is_absolute p" "path_names p"]
    by (simp add: file_key_join [OF n]) (simp add: dir_key_def path_names_join path_names_name plain_name_def)
qed

lemma entry_key:
  assumes "plain_name (path_filename dst)" and "safe_entry n"
  shows "temporary dst (file_key (path_join (usdz_dir dst) n))"
proof -
  have dir: "dir_key (usdz_dir dst) = file_key (usdz_dir dst)"
    unfolding usdz_dir_def by (rule dir_key_join [OF temp_names_plain(2) [OF assms(1)]])
  have "path_names n = butlast (path_names n) @ [last (path_names n)]" using safe_entry_names [OF assms(2)] by simp
  then have "file_key (path_join (usdz_dir dst) n) = dir_key (usdz_dir dst) @ filter (\<lambda>m. m \<noteq> ''.'') (path_names n)"
    using assms(2) lexically_normal_join [of n "butlast (path_names n)" "last (path_names n)" "usdz_dir dst"]
    by (simp add: file_key_def dir_key_def safe_entry_def)
  then show ?thesis by (simp add: temporary_def dir)
qed

lemma extract_entries_agree:
  assumes "plain_name (path_filename dst)" and "\<forall>e\<in>set entries. safe_entry (ze_name e)"
    and "extract_entries env (usdz_dir dst) entries d = (r, d')"
  shows "agree_off (temporary dst) d d' \<and> (\<forall>names. r = Inr names \<longrightarrow> names = map ze_name entries)"
  using assms(2,3)
proof (induction entries arbitrary: d r)
  case (Cons e es)
  let ?out = "path_join (usdz_dir dst) (ze_name e)"
  have "temporary dst (file_key ?out)" using entry_key [OF assms(1)] Cons.prems(1) by simp
  then have upd: "agree_off (temporary dst) d (d(file_key ?out \<mapsto> b))" for b by (rule agree_update)
  have IH: "agree_off (temporary dst) d d' \<and> (\<forall>names. r1 = Inr names \<longrightarrow> names = map ze_name es)"
    if "extract_entries env (usdz_dir dst) es (d(file_key ?out \<mapsto> b)) = (r1, d')" for b r1
    using Cons.IH [OF _ that] Cons.prems(1) agree_trans [OF upd [of b]] by (metis list.set_intros(2))
  show ?case
    using Cons.prems by (auto simp: Let_def split: if_splits prod.splits sum.splits dest: IH)
qed simp

lemma repackage_all_or_nothing: "all_or_nothing dst d (repackage env dst names d)"
proof -
  let ?pkg = "usdz_pkg dst" and ?d1 = "fs_remove env (usdz_pkg dst) d"
  have pkg: "temporary dst (file_key ?pkg)" by (simp add: temporary_def)
  have rm: "agree_off (temporary dst) d' (fs_remove env ?pkg d')" for d'
    using agree_remove [of "temporary dst", OF pkg] .
  have upd: "agree_off (temporary dst) ?d1 (case bytes of None \<Rightarrow> ?d1 | Some b \<Rightarrow> ?d1(file_key ?pkg \<mapsto> b))" for bytes
    using agree_update [of "temporary dst", OF pkg] by (cases bytes) auto
  show ?thesis
  proof (cases "ZipCreate env ?pkg")
    case False
    then show ?thesis using rm by (simp add: repackage_def Let_def failed_agree)
  next
    case True
    show ?thesis
    proof (cases "add_files env (usdz_dir dst) ?d1 names")
      case (Inl e)
      then show ?thesis
        using True agree_trans [OF rm rm] by (simp add: repackage_def Let_def failed_agree)
    next
      case (Inr fs)
      obtain ok bytes where z: "ZipSave env fs = (ok, bytes)" by fastforce
      note d2 = agree_trans [OF rm upd [of bytes]]
      let ?f = "\<lambda>e. ''atomic rename '' @ quoted ?pkg @ '' -> '' @ quoted dst @ '' failed: '' @ e"
      show ?thesis
        using True Inr z all_or_nothing_after [OF d2 rename_step [OF pkg, where f = ?f and env = env]]
          failed_agree [OF agree_trans [OF d2 rm]]
        by (simp add: repackage_def Let_def)
    qed
  qed
qed

lemma repack_usdz_all_or_nothing:
  assumes "plain_name (path_filename dst)"
    and "\<forall>entries e. ZipOpen env (d (file_key dst)) = Some entries \<longrightarrow> e \<in> set entries \<longrightarrow> safe_entry (ze_name e)"
  shows "all_or_nothing dst d (repack_usdz env merged dst d)"
proof (cases "ZipOpen env (d (file_key dst))")
  case None
  then show ?thesis by (simp add: repack_usdz_def failed_agree)
next
  case (Some entries)
  obtain r d1 where x: "extract_entries env (usdz_dir dst) entries d = (r, d1)" by fastforce
  have safe: "\<forall>e\<in>set entries. safe_entry (ze_name e)" using assms(2) Some by simp
  note ag = extract_entries_agree [OF assms(1) safe x]
  show ?thesis
  proof (cases "\<exists>rootName names. r = Inr (rootName # names)")
    case False
    then show ?thesis
      using ag Some x by (auto simp: repack_usdz_def failed_agree split: sum.splits list.splits)
  next
    case True
    then obtain rootName names where r: "r = Inr (rootName # names)" by blast
    then have "safe_entry rootName" using ag safe by (metis image_iff list.set_intros(1) list.set_map)
    then have key: "temporary dst (file_key (path_join (usdz_dir dst) rootName))" by (rule entry_key [OF assms(1)])
    let ?root = "path_join (usdz_dir dst) rootName"
    obtain ok d2 where e: "fs_export env merged ?root (fs_remove env ?root d1) = (ok, d2)" by fastforce
    have "agree_off (temporary dst) d d2"
      using ag agree_trans [OF agree_remove [of "temporary dst", OF key] agree_export [of _ _ _ _ _ _ "temporary dst", OF e key]]
      by (blast intro: agree_trans)
    then have "all_or_nothing dst d (repackage env dst (rootName # names) d2)" "all_or_nothing dst d (Some m, d2)" for m
      using all_or_nothing_after [OF _ repackage_all_or_nothing] failed_agree by blast+
    then show ?thesis using Some x r e by (simp add: repack_usdz_def Let_def)
  qed
qed

lemma CommitUsdz_all_or_nothing:
  assumes "IsUsdFilename (path_filename dst)"
    and "\<forall>entries e. ZipOpen env (d (file_key dst)) = Some entries \<longrightarrow> e \<in> set entries \<longrightarrow> safe_entry (ze_name e)"
  shows "all_or_nothing dst d (CommitUsdz usd env st dst d)"
proof (cases "FlattenLayerStack env st")
  case None
  then show ?thesis by (simp add: CommitUsdz_def failed_agree)
next
  case (Some merged0)
  let ?merged = "RemoveSoftDeletedPrims usd env st merged0" and ?d1 = "fs_remove_all env (usdz_dir dst) d"
  have rm: "agree_off (temporary dst) d' (fs_remove_all env (usdz_dir dst) d')" for d'
    by (rule agree_remove_all) (simp add: temporary_def)
  have "?d1 (file_key dst) = d (file_key dst)"
    using rm [of d] target_not_temporary [OF assms(1)] by (simp add: agree_off_def)
  then have "all_or_nothing dst ?d1 (repack_usdz env ?merged dst ?d1)"
    using assms(2) by (intro repack_usdz_all_or_nothing [OF usd_name_plain [OF assms(1)]]) simp
  from all_or_nothing_after [OF rm this]
  have "all_or_nothing dst d (case repack_usdz env ?merged dst ?d1 of (r, d2) \<Rightarrow> (r, fs_remove_all env (usdz_dir dst) d2))"
    using rm by (auto split: prod.split intro: all_or_nothing_then)
  moreover have "all_or_nothing dst d (Some m, ?d1)" for m using rm by (simp add: failed_agree)
  ultimately show ?thesis by (simp add: CommitUsdz_def Some Let_def split: option.split)
qed

subsection \<open>Properties\<close>

text \<open>What a successful commit of a layer file puts there.\<close>

lemma CommitFlat_content:
  assumes "IsUsdFilename (path_filename dst)" and "CommitFlat usd env st dst d = (None, d')"
  shows "\<exists>merged bytes. FlattenLayerStack env st = Some merged \<and> d' (file_key dst) = Some bytes \<and>
    (case ExportLayer env (RemoveSoftDeletedPrims usd env st merged) (flat_tmp dst) of
       (good, written) \<Rightarrow> good \<and> (written \<noteq> None \<longrightarrow> written = Some bytes))"
proof -
  obtain merged where m: "FlattenLayerStack env st = Some merged"
    using assms(2) by (auto simp: CommitFlat_def split: option.splits)
  let ?tmp = "flat_tmp dst" and ?x = "RemoveSoftDeletedPrims usd env st merged"
  obtain good written where x: "ExportLayer env ?x ?tmp = (good, written)" by fastforce
  let ?d2 = "snd (fs_export env ?x ?tmp (fs_remove env ?tmp d))"
  have good: "good" and r: "fs_rename env ?tmp dst ?d2 = (None, d')"
    using assms(2) by (auto simp: CommitFlat_def m x fs_export_def Let_def split: if_splits option.splits prod.splits)
  have "file_key ?tmp \<noteq> file_key dst" using target_not_temporary [OF assms(1)] by (auto simp: temporary_def)
  then have "d' (file_key dst) = ?d2 (file_key ?tmp)" "?d2 (file_key ?tmp) \<noteq> None"
    using rename_result [OF r] by auto
  moreover have "written \<noteq> None \<Longrightarrow> ?d2 (file_key ?tmp) = written" by (auto simp: fs_export_def x)
  ultimately show ?thesis using m good x by auto
qed

text \<open>C17: A commit is all or nothing. For a target with a USD file name, and a package (if it is one) whose
  entries have names inside the package, a failed commit leaves the original file and every other
  file as they were, whatever bytes a failing export or package writer produced; a successful one
  changes the original file only, and a layer file then holds what the library exported of the
  flattened layer without the soft-deleted prims. The temporary files next to the target are
  excepted.\<close>

theorem commit_all_or_nothing:
  assumes "IsUsdFilename (path_filename dst)"
    and "\<forall>entries e. ZipOpen env (d (file_key dst)) = Some entries \<longrightarrow> e \<in> set entries \<longrightarrow> safe_entry (ze_name e)"
    and "StageCommitter_Commit usd env stage dst d = (r, d')"
  shows "(r \<noteq> None \<longrightarrow> d' (file_key dst) = d (file_key dst)) \<and>
    (\<forall>k. \<not> temporary dst k \<and> k \<noteq> file_key dst \<longrightarrow> d' k = d k) \<and>
    (r = None \<and> \<not> HasExtension dst ''.usdz'' \<longrightarrow>
      (\<exists>st merged bytes. stage = Some st \<and> FlattenLayerStack env st = Some merged \<and> d' (file_key dst) = Some bytes \<and>
        (case ExportLayer env (RemoveSoftDeletedPrims usd env st merged) (flat_tmp dst) of
           (good, written) \<Rightarrow> good \<and> (written \<noteq> None \<longrightarrow> written = Some bytes))))"
proof -
  have "all_or_nothing dst d (StageCommitter_Commit usd env stage dst d)"
    using CommitUsdz_all_or_nothing [of dst env d, OF assms(1,2)]
    by (auto simp: StageCommitter_Commit_def failed_agree split: option.split intro: CommitFlat_all_or_nothing)
  then have "(r \<noteq> None \<longrightarrow> d' (file_key dst) = d (file_key dst)) \<and> (\<forall>k. \<not> temporary dst k \<and> k \<noteq> file_key dst \<longrightarrow> d' k = d k)"
    using assms(3) target_not_temporary [OF assms(1)] by (auto simp: all_or_nothing_def agree_off_def split: if_splits)
  moreover have "\<exists>st. stage = Some st \<and> CommitFlat usd env st dst d = (None, d')" if "r = None" "\<not> HasExtension dst ''.usdz''"
    using assms(3) that by (auto simp: StageCommitter_Commit_def split: option.splits)
  then have "\<exists>st merged bytes. stage = Some st \<and> FlattenLayerStack env st = Some merged \<and> d' (file_key dst) = Some bytes \<and>
        (case ExportLayer env (RemoveSoftDeletedPrims usd env st merged) (flat_tmp dst) of
           (good, written) \<Rightarrow> good \<and> (written \<noteq> None \<longrightarrow> written = Some bytes))"
    if "r = None" "\<not> HasExtension dst ''.usdz''"
    using CommitFlat_content [OF assms(1), of usd env _ d d'] that by meson
  ultimately show ?thesis by auto
qed

definition mini_env :: "(mini_stage, SdfPath list) commit_env" where
  "mini_env =
     \<lparr>FlattenLayerStack = (\<lambda>st. Some (ms_root st @ map fst (ms_session st))),
      MergedHasPrim = (\<lambda>ly p. p \<in> set ly),
      RemoveNameChild = (\<lambda>ly p. filter (\<lambda>q. \<not> (q = p \<or> prefix (p @ ''/'') q)) ly),
      ExportLayer = (\<lambda>ly p. (True, Some (concat ly))), remove_works = (\<lambda>_. True),
      rename_error = (\<lambda>_ _. Some ''denied''), mkdir_error = (\<lambda>_. None), dir_exists = (\<lambda>_ _. True),
      open_works = (\<lambda>_. True), ZipOpen = (\<lambda>_. None), ZipCreate = (\<lambda>_. True),
      ZipAddFile = (\<lambda>_ _. True), ZipSave = (\<lambda>fs. (True, Some []))\<rparr>"

theorem commit_all_or_nothing_witness:
  "snd (StageCommitter_Commit mini_usd mini_env (Some mini_root_stage) ''/up/a.usda'' [file_key ''/up/a.usda'' \<mapsto> ''old''])
     (file_key ''/up/a.usda'') = Some ''old''"
proof -
  have usd: "IsUsdFilename (path_filename ''/up/a.usda'')" by code_simp
  have "fst (StageCommitter_Commit mini_usd mini_env (Some mini_root_stage) ''/up/a.usda'' [file_key ''/up/a.usda'' \<mapsto> ''old'']) \<noteq> None"
    by (simp add: StageCommitter_Commit_def HasExtension_def ends_with_def CommitFlat_def mini_env_def Let_def fs_export_def fs_rename_def)
  then show ?thesis
    using commit_all_or_nothing [OF usd, of mini_env "[file_key ''/up/a.usda'' \<mapsto> ''old'']" mini_usd "Some mini_root_stage"]
    by (cases "StageCommitter_Commit mini_usd mini_env (Some mini_root_stage) ''/up/a.usda'' [file_key ''/up/a.usda'' \<mapsto> ''old'']")
      (simp add: mini_env_def)
qed

text \<open>The behaviour of the flattened layer that the removal relies on: a prim spec has its parent's spec in
  the layer, and removing a name child removes it and what is below it.\<close>

definition at_or_below :: "SdfPath \<Rightarrow> SdfPath \<Rightarrow> bool" where
  "at_or_below p q \<longleftrightarrow> q = p \<or> prefix (p @ ''/'') q"

definition layer_removal_laws :: "'st Usd \<Rightarrow> ('st, 'ly, 'z) commit_env_scheme \<Rightarrow> ('ly \<Rightarrow> bool) \<Rightarrow> bool" where
  "layer_removal_laws usd env valid \<longleftrightarrow>
     (\<forall>ly p. valid ly \<longrightarrow> MergedHasPrim env ly p \<longrightarrow> GetParentPath usd p = ''/'' \<or> MergedHasPrim env ly (GetParentPath usd p)) \<and>
     (\<forall>ly p q. valid ly \<longrightarrow> MergedHasPrim env ly p \<longrightarrow> valid (RemoveNameChild env ly p) \<and>
        MergedHasPrim env (RemoveNameChild env ly p) q = (MergedHasPrim env ly q \<and> \<not> at_or_below p q)) \<and>
     (\<forall>ly p q. valid ly \<longrightarrow> MergedHasPrim env ly q \<longrightarrow> IsPrimPath usd p \<longrightarrow> at_or_below p q \<longrightarrow> MergedHasPrim env ly p)"

lemma remove_prim_effect:
  assumes "layer_removal_laws usd env valid" and "valid ly" and "IsPrimPath usd p"
  shows "valid (remove_prim usd env p ly) \<and>
    MergedHasPrim env (remove_prim usd env p ly) q = (MergedHasPrim env ly q \<and> \<not> at_or_below p q)"
proof (cases "MergedHasPrim env ly p")
  case True
  then have "remove_prim usd env p ly = RemoveNameChild env ly p"
    using assms by (auto simp: remove_prim_def layer_removal_laws_def Let_def)
  then show ?thesis using assms True by (simp add: layer_removal_laws_def)
next
  case False
  then show ?thesis using assms by (auto simp: remove_prim_def layer_removal_laws_def)
qed

text \<open>A commit folds the soft deletes of the session in, and nothing else: of the prims of the
  flattened layer exactly those survive that are not at or below a path whose session spec says
  \<^verbatim>\<open>active = false\<close>. A prim that the source file itself ships inactive survives.\<close>

theorem soft_deletes_folded:
  assumes "layer_removal_laws usd env valid" and "valid merged" and "GetSessionLayer usd st = Some l"
  shows "MergedHasPrim env (RemoveSoftDeletedPrims usd env st merged) q \<longleftrightarrow>
    MergedHasPrim env merged q \<and>
    \<not> (\<exists>p\<in>set (layer_paths l). IsPrimPath usd p \<and>
         (\<exists>spec. layer_prims l p = Some spec \<and> spec_active spec = Some False) \<and> at_or_below p q)"
proof -
  have "valid (fold (remove_prim usd env) ps ly) \<and>
      MergedHasPrim env (fold (remove_prim usd env) ps ly) q = (MergedHasPrim env ly q \<and> \<not> (\<exists>p\<in>set ps. at_or_below p q))"
    if "valid ly" "\<forall>p\<in>set ps. IsPrimPath usd p" for ps ly
    using that
  proof (induction ps arbitrary: ly)
    case (Cons p ps)
    note r = remove_prim_effect [OF assms(1) Cons.prems(1), of p]
    show ?case using Cons.IH [of "remove_prim usd env p ly"] Cons.prems(2) r by auto
  qed simp
  from this [OF assms(2), of "soft_deleted usd l"] show ?thesis
    by (auto simp: RemoveSoftDeletedPrims_def assms(3) soft_deleted_def split: option.splits)
qed

lemma mini_merged:
  "MergedHasPrim mini_env = (\<lambda>ly p. p \<in> set ly)"
  "RemoveNameChild mini_env = (\<lambda>ly p. filter (\<lambda>q. \<not> at_or_below p q) ly)"
  by (simp_all add: mini_env_def at_or_below_def fun_eq_iff)

lemma mini_removal_laws: "layer_removal_laws mini_usd mini_env (\<lambda>ly. set ly \<subseteq> {''/World'', ''/Box''})"
proof -
  have parent: "GetParentPath mini_usd p = ''/''" if "p \<in> {''/World'', ''/Box''}" for p
    using that by auto
  have below: "p = q" if "at_or_below p q" "q \<in> {''/World'', ''/Box''}" "p \<noteq> []" for p q
  proof -
    have "CHR ''/'' \<notin> set (tl q)" using that(2) by auto
    then show ?thesis using that(1,3) by (cases p) (auto simp: at_or_below_def prefix_def)
  qed
  show ?thesis
    unfolding layer_removal_laws_def mini_merged
  proof (intro conjI allI impI)
    fix ly :: "SdfPath list" and p q :: SdfPath
    assume ly: "set ly \<subseteq> {''/World'', ''/Box''}"
    {
      assume "p \<in> set ly"
      then have "GetParentPath mini_usd p = ''/''" using ly by (intro parent) blast
      then show "GetParentPath mini_usd p = ''/'' \<or> GetParentPath mini_usd p \<in> set ly" by (rule disjI1)
    }
    show "set (filter (\<lambda>q. \<not> at_or_below p q) ly) \<subseteq> {''/World'', ''/Box''}" using ly by (simp only: set_filter) blast
    show "(q \<in> set (filter (\<lambda>q. \<not> at_or_below p q) ly)) = (q \<in> set ly \<and> \<not> at_or_below p q)" by (simp only: set_filter mem_Collect_eq)
    assume q: "q \<in> set ly" "IsPrimPath mini_usd p" "at_or_below p q"
    have "p = q" by (rule below [OF q(3)]) (use q ly in \<open>blast, simp\<close>)
    then show "p \<in> set ly" using q(1) by (simp only:)
  qed
qed

theorem soft_deletes_folded_witness:
  "MergedHasPrim mini_env (RemoveSoftDeletedPrims mini_usd mini_env
      (mini_root_stage\<lparr>ms_session := [(''/Box'', empty_spec\<lparr>spec_active := Some False\<rparr>)]\<rparr>) [''/World'', ''/Box'']) ''/World'' \<and>
   \<not> MergedHasPrim mini_env (RemoveSoftDeletedPrims mini_usd mini_env
      (mini_root_stage\<lparr>ms_session := [(''/Box'', empty_spec\<lparr>spec_active := Some False\<rparr>)]\<rparr>) [''/World'', ''/Box'']) ''/Box''"
  using soft_deletes_folded [OF mini_removal_laws, of "[''/World'', ''/Box'']"
      "mini_root_stage\<lparr>ms_session := [(''/Box'', empty_spec\<lparr>spec_active := Some False\<rparr>)]\<rparr>"]
  by (simp add: at_or_below_def) (simp add: mini_env_def)

text \<open>A package entry with an absolute name is written to that very path, outside the temporary
  directory: nothing in the extraction checks the names of the entries.\<close>

lemma extraction_escapes:
  "snd (extract_entries mini_env (usdz_dir ''/up/a.usdz'')
     [\<lparr>ze_name = ''/etc/x'', ze_compression = 0, ze_data = Some ''evil'', ze_size = 4\<rparr>] Map.empty) [''/'', ''etc'', ''x''] = Some ''evil''"
proof -
  have "file_key (path_join (usdz_dir ''/up/a.usdz'') ''/etc/x'') = [''/'', ''etc'', ''x'']" by code_simp
  then show ?thesis by (simp add: mini_env_def Let_def)
qed

end
