(* ===== verification/Session_Core.thy ===== *)
theory Session_Core
  imports Session_Versions Dispatchers Stage_Committer "HOL-Library.List_Lexorder" "HOL-Library.Char_ord"
begin

text \<open>
  A session and the handlers that its single consumer runs: \<^verbatim>\<open>Session.h\<close>, the command processing and
  sending half of \<^verbatim>\<open>SessionManager.cpp\<close> and \<^verbatim>\<open>StageNoticeListener.cpp\<close>.

  The state is the record \<open>Session\<close>. A connection pointer is represented by the id under which it is
  registered; \<open>sent\<close> is the sequence of frames handed to \<^verbatim>\<open>send_binary\<close>, in order, each with its
  connection. A message that a handler builds always has a member of its \<^verbatim>\<open>oneof\<close> set, so its encoding
  neither fails nor is empty. A notice is delivered inside the authoring call that caused it, as USD
  does; the handler's flags decide what the listener makes of it.

  A handler is one atomic step. Notices that arrive from another session's consumer (a shared root
  layer) and the client registry's changes are steps of their own, between handlers.
\<close>

subsection \<open>The session\<close>

datatype SessionMode = SingleEdit | SingleRuntime | CollaborativeEdit | CollaborativeRuntime

record 'st Session =
  s_id :: string
  usd_file :: string
  usd_file_absolute :: fspath
  stage :: "'st option"
  created_at :: int
  mode :: SessionMode
  clients :: "ConnectionId list"
  empty_since :: "int option"
  current_origin :: ConnectionId
  listener_registered :: bool
  reload_in_progress :: bool
  create_in_progress :: bool
  set_active_in_progress :: bool
  server_seq :: server_seq
  versions :: SessionVersions
  sidecar_path :: fspath
  dirty :: bool
  auto_commit :: bool
  correction_queued :: "ConnectionId \<times> string \<Rightarrow> bool"
  sent :: "(ConnectionId \<times> BaseMessage) list"
  commit_results :: "(nat \<times> CommitResult) list"
  reload_requests :: "string list"

text \<open>The libraries a session calls: USD, the committer's environment, the wall clock, saving the
  session layer to its file and reloading the root layer from disk.\<close>

record ('st, 'ly) Library =
  usd :: "'st Usd"
  cenv :: "('st, 'ly) commit_env"
  now_ms :: int
  SaveSessionLayer :: "'st \<Rightarrow> fspath \<Rightarrow> disk \<Rightarrow> bool throws \<times> disk"
  ReloadRootLayerFile :: "'st \<Rightarrow> disk \<Rightarrow> bool throws \<times> notice list \<times> 'st"

subsection \<open>Messages\<close>

definition ReadResolvedTransform :: "'st Usd \<Rightarrow> 'st option \<Rightarrow> string \<Rightarrow> transform_case option" where
  "ReadResolvedTransform u stg prim_path =
     (case stg of
        None \<Rightarrow> None
      | Some st \<Rightarrow>
          if \<not> IsValidPathString u prim_path then None
          else
            (case GetPrimAtPath u st prim_path of
               None \<Rightarrow> None
             | Some prim \<Rightarrow>
                 if \<not> prim_xformable (info prim) then None
                 else
                   (case prim_common (info prim) of
                      Some (t, r, s) \<Rightarrow>
                        Some (kSeperate \<lparr>translation = vector3 t, rotation = vector3 (widen3 r), scale = vector3 (widen3 s)\<rparr>)
                    | None \<Rightarrow> map_option (\<lambda>m. kMatrix (matrix_to_proto m)) (prim_local (info prim)))))"

definition AssembleXformBroadcast ::
  "('st, 'ly) Library \<Rightarrow> 'st Session \<Rightarrow> string \<Rightarrow> transform_case \<Rightarrow> server_seq \<Rightarrow> BaseMessage" where
  "AssembleXformBroadcast lib s prim_path t seq =
     \<lparr>msg_session_id = s_id s, msg_request_id = 0, msg_server_seq = seq,
      message_case = kXformBroadcast []
        \<lparr>upd_session_id = s_id s, upd_usd_file = usd_file s, upd_prim_path = prim_path,
         upd_transform = t, upd_timestamp = now_ms lib\<rparr>\<rparr>"

definition BuildBroadcastMessage ::
  "('st, 'ly) Library \<Rightarrow> 'st Session \<Rightarrow> string \<Rightarrow> server_seq \<Rightarrow> BaseMessage option" where
  "BuildBroadcastMessage lib s prim_path seq =
     map_option (\<lambda>t. AssembleXformBroadcast lib s prim_path t seq)
       (ReadResolvedTransform (usd lib) (stage s) prim_path)"

definition SerializeCreatePrimBroadcast ::
  "'st Session \<Rightarrow> string \<Rightarrow> PrimType \<Rightarrow> CreatedPrim \<Rightarrow> server_seq \<Rightarrow> BaseMessage" where
  "SerializeCreatePrimBroadcast s parent_path type prim seq =
     \<lparr>msg_session_id = s_id s, msg_request_id = 0, msg_server_seq = seq,
      message_case = kCreatePrimBroadcast
        \<lparr>cb_parent_path = parent_path, cb_prim_name = cp_name prim, cb_type = type, cb_size = cp_size prim,
         cb_height = cp_height prim, cb_radius = cp_radius prim, cb_axis = cp_axis prim\<rparr>\<rparr>"

definition SerializeSetPrimActiveBroadcast :: "'st Session \<Rightarrow> string \<Rightarrow> bool \<Rightarrow> server_seq \<Rightarrow> BaseMessage" where
  "SerializeSetPrimActiveBroadcast s prim_path active seq =
     \<lparr>msg_session_id = s_id s, msg_request_id = 0, msg_server_seq = seq,
      message_case = kSetPrimActiveBroadcast prim_path active\<rparr>"

definition SerializeAck :: "'st Session \<Rightarrow> u64 \<Rightarrow> server_seq \<Rightarrow> bool \<Rightarrow> string \<Rightarrow> BaseMessage" where
  "SerializeAck s request_id seq ok error =
     \<lparr>msg_session_id = s_id s, msg_request_id = request_id, msg_server_seq = seq,
      message_case = kAck ok (if ok then [] else error)\<rparr>"

definition SnapshotCompleteMessage :: "'st Session \<Rightarrow> server_seq \<Rightarrow> BaseMessage" where
  "SnapshotCompleteMessage s seq =
     \<lparr>msg_session_id = s_id s, msg_request_id = 0, msg_server_seq = seq, message_case = kSnapshotComplete\<rparr>"

subsection \<open>Sending\<close>

definition send_binary :: "ConnectionId \<Rightarrow> BaseMessage \<Rightarrow> 'st Session \<Rightarrow> 'st Session" where
  "send_binary c m s = s\<lparr>sent := sent s @ [(c, m)]\<rparr>"

definition record_sent :: "ConnectionId \<Rightarrow> server_seq \<Rightarrow> 'st Session \<Rightarrow> 'st Session" where
  "record_sent c seq s = s\<lparr>versions := RecordSent (versions s) c seq\<rparr>"

definition next_seq :: "'st Session \<Rightarrow> server_seq \<times> 'st Session" where
  "next_seq s = (server_seq s + 1, s\<lparr>server_seq := server_seq s + 1\<rparr>)"

definition SendToConnection :: "'st Session \<Rightarrow> ConnectionId \<Rightarrow> BaseMessage \<Rightarrow> bool \<times> 'st Session" where
  "SendToConnection s connection_id payload =
     (if connection_id = 0 \<or> connection_id \<notin> set (clients s) then (False, s)
      else (True, send_binary connection_id payload s))"

definition SendAck :: "'st Session \<Rightarrow> ConnectionId \<Rightarrow> u64 \<Rightarrow> bool \<Rightarrow> string \<Rightarrow> 'st Session" where
  "SendAck s connection_id request_id ok error =
     (let seq = server_seq s
      in case SendToConnection s connection_id (SerializeAck s request_id seq ok error) of
           (True, s') \<Rightarrow> record_sent connection_id seq s'
         | (False, s') \<Rightarrow> s')"

definition record_correction :: "ConnectionId \<Rightarrow> string \<Rightarrow> server_seq \<Rightarrow> 'st Session \<Rightarrow> 'st Session" where
  "record_correction c prim_path seq s = s\<lparr>versions := RecordCorrection (versions s) c prim_path seq\<rparr>"

definition is_inactive :: "'st Usd \<Rightarrow> 'st \<Rightarrow> string \<Rightarrow> bool" where
  "is_inactive u st prim_path \<longleftrightarrow>
     IsValidPathString u prim_path \<and>
     (case GetPrimAtPath u st prim_path of None \<Rightarrow> False | Some prim \<Rightarrow> \<not> prim_active (info prim))"

definition SendCorrection :: "('st, 'ly) Library \<Rightarrow> 'st Session \<Rightarrow> ConnectionId \<Rightarrow> string \<Rightarrow> 'st Session" where
  "SendCorrection lib s connection_id prim_path =
     (case stage s of
        None \<Rightarrow> s
      | Some st \<Rightarrow>
          if connection_id = 0 then s
          else if is_inactive (usd lib) st prim_path then
            (if connection_id \<notin> set (clients s) then s
             else
               (case next_seq s of (seq, s') \<Rightarrow>
                  record_correction connection_id prim_path seq
                    (send_binary connection_id (SerializeSetPrimActiveBroadcast s' prim_path False seq) s')))
          else
            (case BuildBroadcastMessage lib s prim_path 0 of
               None \<Rightarrow> s
             | Some msg \<Rightarrow>
                 if connection_id \<notin> set (clients s) then s
                 else
                   (case next_seq s of (seq, s') \<Rightarrow>
                      record_correction connection_id prim_path seq
                        (send_binary connection_id (msg\<lparr>msg_server_seq := seq\<rparr>) s'))))"

definition send_to_all :: "ConnectionId list \<Rightarrow> BaseMessage \<Rightarrow> server_seq \<Rightarrow> 'st Session \<Rightarrow> 'st Session" where
  "send_to_all cs m seq s = foldl (\<lambda>s c. record_sent c seq (send_binary c m s)) s cs"

definition BroadcastResolvedTransform ::
  "('st, 'ly) Library \<Rightarrow> 'st Session \<Rightarrow> string \<Rightarrow> ConnectionId \<Rightarrow> server_seq \<Rightarrow> 'st Session" where
  "BroadcastResolvedTransform lib s prim_path origin seq =
     (case stage s of
        None \<Rightarrow> s
      | Some _ \<Rightarrow>
          (case BuildBroadcastMessage lib s prim_path seq of
             None \<Rightarrow> s
           | Some m \<Rightarrow> send_to_all (filter (\<lambda>c. c \<noteq> origin) (clients s)) m seq s))"

definition BroadcastToAll :: "'st Session \<Rightarrow> BaseMessage \<Rightarrow> server_seq \<Rightarrow> 'st Session" where
  "BroadcastToAll s payload seq = send_to_all (clients s) payload seq s"

subsection \<open>The notice listener\<close>

definition xform_name :: "string \<Rightarrow> bool" where
  "xform_name n \<longleftrightarrow> n = ''xformOpOrder'' \<or> starts_with n ''xformOp:''"

definition IsXformAttribute :: "'st Usd \<Rightarrow> SdfPath \<Rightarrow> bool" where
  "IsXformAttribute u p \<longleftrightarrow> IsPropertyPath u p \<and> xform_name (GetName u p)"

definition SessionLayerHasXformOverride :: "SdfPrimSpec option \<Rightarrow> bool" where
  "SessionLayerHasXformOverride spec \<longleftrightarrow>
     (case spec of None \<Rightarrow> False | Some sp \<Rightarrow> list_ex (\<lambda>a. xform_name (fst a)) (spec_attributes sp))"

text \<open>\<^verbatim>\<open>std::set<std::string>\<close>: sorted, without duplicates.\<close>

definition string_set :: "string list \<Rightarrow> string list" where
  "string_set xs = sort (remdups xs)"

definition reload_prims :: "'st Usd \<Rightarrow> notice \<Rightarrow> string list" where
  "reload_prims u n =
     string_set (concat (map (\<lambda>p. if IsPrimPath u p then [p] else if IsPropertyPath u p then [GetPrimPath u p] else [])
       (resynced_paths n @ changed_info_paths n)))"

definition affected_prims :: "'st Usd \<Rightarrow> notice \<Rightarrow> string list" where
  "affected_prims u n =
     string_set (map (GetPrimPath u) (filter (IsXformAttribute u) (changed_info_paths n)) @
       concat (map (\<lambda>p. if IsPrimPath u p then [p] else if IsXformAttribute u p then [GetPrimPath u p] else [])
         (resynced_paths n)))"

definition masked :: "'st Usd \<Rightarrow> 'st Session \<Rightarrow> string \<Rightarrow> bool" where
  "masked u s p \<longleftrightarrow>
     (case stage s of
        None \<Rightarrow> False
      | Some st \<Rightarrow>
          (case GetSessionLayer u st of
             None \<Rightarrow> False
           | Some l \<Rightarrow> IsValidPathString u p \<and> SessionLayerHasXformOverride (layer_prims l p)))"

definition record_change :: "string \<Rightarrow> server_seq \<Rightarrow> ConnectionId \<Rightarrow> 'st Session \<Rightarrow> 'st Session" where
  "record_change p seq writer s = s\<lparr>versions := RecordChange (versions s) p seq writer\<rparr>"

definition announce ::
  "('st, 'ly) Library \<Rightarrow> ConnectionId \<Rightarrow> server_seq \<Rightarrow> string \<Rightarrow> 'st Session \<Rightarrow> 'st Session" where
  "announce lib origin seq p s = BroadcastResolvedTransform lib (record_change p seq origin s) p origin seq"

definition OnObjectsChanged :: "('st, 'ly) Library \<Rightarrow> notice \<Rightarrow> 'st Session \<Rightarrow> 'st Session" where
  "OnObjectsChanged lib n s =
     (let origin = current_origin s
      in if create_in_progress s then s
         else if set_active_in_progress s then s
         else if reload_in_progress s then
           (let ps = reload_prims (usd lib) n
            in if ps = [] then s
               else
                 (case next_seq s of (seq, s') \<Rightarrow>
                    fold (\<lambda>p s. if masked (usd lib) s p then s else announce lib 0 seq p s) ps s'))
         else
           (let ps = affected_prims (usd lib) n
            in if ps = [] then s
               else (case next_seq s of (seq, s') \<Rightarrow> fold (announce lib origin seq) ps s')))"

definition deliver :: "('st, 'ly) Library \<Rightarrow> notice list \<Rightarrow> 'st Session \<Rightarrow> 'st Session" where
  "deliver lib ns s = (if listener_registered s then fold (OnObjectsChanged lib) ns s else s)"

definition Register :: "'st Session \<Rightarrow> 'st Session" where
  "Register s =
     (if listener_registered s then s
      else if stage s = None then s
      else s\<lparr>listener_registered := True\<rparr>)"

definition Revoke :: "'st Session \<Rightarrow> 'st Session" where
  "Revoke s = (if \<not> listener_registered s then s else s\<lparr>listener_registered := False\<rparr>)"

subsection \<open>The command handlers\<close>

definition HandleTransform :: "('st, 'ly) Library \<Rightarrow> TransformCommand \<Rightarrow> 'st Session \<Rightarrow> 'st Session" where
  "HandleTransform lib c s =
     (let prim_path = upd_prim_path (tc_update c); origin = tc_origin c
      in case CheckUpdate (versions s) origin prim_path (tc_base_seq c) of
           Stale \<Rightarrow> SendAck s origin (tc_request_id c) False ''stale''
         | InvalidBase \<Rightarrow> SendAck s origin (tc_request_id c) False ''invalid_base''
         | Current \<Rightarrow>
             (case TransformDispatcher_Apply (usd lib) (stage s) (tc_update c) of (ok, ns, st') \<Rightarrow>
                let s1 = deliver lib ns (s\<lparr>current_origin := origin, stage := st'\<rparr>);
                    s2 = s1\<lparr>current_origin := 0\<rparr>;
                    s3 = (if ok then s2\<lparr>dirty := True\<rparr> else s2);
                    s4 = SendAck s3 origin (tc_request_id c) ok ''apply_failed''
                in if \<not> ok then SendCorrection lib s4 origin prim_path else s4))"

definition HandleCreatePrim :: "('st, 'ly) Library \<Rightarrow> CreatePrimCommand \<Rightarrow> 'st Session \<Rightarrow> 'st Session option" where
  "HandleCreatePrim lib c s =
     (if stage s = None then Some (SendAck s (cc_origin c) (cc_request_id c) False ''apply_failed'')
      else
        (case PrimDispatcher_Create (usd lib) (stage s) (cc_parent_path c) (cc_type c) of
           None \<Rightarrow> None
         | Some (created, ns, st') \<Rightarrow>
             let s1 = deliver lib ns (s\<lparr>current_origin := cc_origin c, create_in_progress := True, stage := st'\<rparr>);
                 s2 = s1\<lparr>create_in_progress := False, current_origin := 0\<rparr>
             in (case created of
                   None \<Rightarrow> Some (SendAck s2 (cc_origin c) (cc_request_id c) False ''invalid_parent'')
                 | Some prim \<Rightarrow>
                     (case next_seq (s2\<lparr>dirty := True\<rparr>) of (seq, s3) \<Rightarrow>
                        let s4 = record_change (cp_path prim) seq (cc_origin c) s3;
                            s5 = BroadcastToAll s4 (SerializeCreatePrimBroadcast s4 (cc_parent_path c) (cc_type c) prim seq) seq
                        in Some (SendAck s5 (cc_origin c) (cc_request_id c) True [])))))"

definition HandleSetPrimActive :: "('st, 'ly) Library \<Rightarrow> SetPrimActiveCommand \<Rightarrow> 'st Session \<Rightarrow> 'st Session" where
  "HandleSetPrimActive lib c s =
     (let ack = (\<lambda>s ok e. SendAck s (ac_origin c) (ac_request_id c) ok e)
      in if stage s = None then ack s False ''apply_failed''
         else
           (case PrimDispatcher_SetActive (usd lib) (stage s) (ac_prim_path c) (ac_active c) of (status, ns, st') \<Rightarrow>
              let s1 = deliver lib ns (s\<lparr>current_origin := ac_origin c, set_active_in_progress := True, stage := st'\<rparr>);
                  s2 = s1\<lparr>set_active_in_progress := False, current_origin := 0\<rparr>
              in (case status of
                    SetActiveInvalidPath \<Rightarrow> ack s2 False ''unknown_prim''
                  | SetActiveNotFound \<Rightarrow> ack s2 False ''unknown_prim''
                  | NotDeletable \<Rightarrow> ack s2 False ''not_deletable''
                  | SetActiveFailed \<Rightarrow> ack s2 False ''apply_failed''
                  | AlreadyInState \<Rightarrow> ack s2 True []
                  | SetActiveOk \<Rightarrow>
                      (case next_seq (s2\<lparr>dirty := True\<rparr>) of (seq, s3) \<Rightarrow>
                         let s4 = record_change (ac_prim_path c) seq (ac_origin c) s3;
                             s5 = BroadcastToAll s4 (SerializeSetPrimActiveBroadcast s4 (ac_prim_path c) (ac_active c) seq) seq
                         in ack s5 True []))))"

text \<open>The join snapshot: creations by increasing depth, transforms, deactivations, the end marker.\<close>

definition snapshot_paths :: "'st Usd \<Rightarrow> SdfLayer \<Rightarrow> SdfPath list" where
  "snapshot_paths u l =
     path_order u (concat (map (\<lambda>p. if IsPrimPath u p then [p] else if IsPropertyPath u p then [GetPrimPath u p] else [])
       (layer_paths l)))"

definition create_frames :: "'st Usd \<Rightarrow> 'st Session \<Rightarrow> SdfLayer \<Rightarrow> server_seq \<Rightarrow> (nat \<times> BaseMessage) list" where
  "create_frames u s l seq =
     concat (map (\<lambda>p.
       case layer_prims l p of
         None \<Rightarrow> []
       | Some spec \<Rightarrow>
           let type = TypeFromName (spec_type_name spec)
           in if spec_specifier spec \<noteq> SdfSpecifierDef \<or> type = PRIM_TYPE_UNSPECIFIED then []
              else [(GetPathElementCount u p,
                     SerializeCreatePrimBroadcast s (GetParentPath u p) type
                       (ReadSchemaDefaults u type (empty_CreatedPrim\<lparr>cp_name := GetName u p, cp_path := p\<rparr>)) seq)])
       (snapshot_paths u l))"

definition transform_frames :: "('st, 'ly) Library \<Rightarrow> 'st Session \<Rightarrow> SdfLayer \<Rightarrow> server_seq \<Rightarrow> BaseMessage list" where
  "transform_frames lib s l seq =
     concat (map (\<lambda>p.
       case layer_prims l p of
         None \<Rightarrow> []
       | Some spec \<Rightarrow>
           (case ReadAuthoredLocalTransform spec of
              None \<Rightarrow> [] | Some t \<Rightarrow> [AssembleXformBroadcast lib s p t seq]))
       (snapshot_paths (usd lib) l))"

definition delete_frames :: "'st Usd \<Rightarrow> 'st Session \<Rightarrow> SdfLayer \<Rightarrow> server_seq \<Rightarrow> BaseMessage list" where
  "delete_frames u s l seq =
     concat (map (\<lambda>p.
       case layer_prims l p of
         None \<Rightarrow> []
       | Some spec \<Rightarrow> if spec_active spec = Some False then [SerializeSetPrimActiveBroadcast s p False seq] else [])
       (snapshot_paths u l))"

definition snapshot_frames :: "('st, 'ly) Library \<Rightarrow> 'st Session \<Rightarrow> 'st \<Rightarrow> server_seq \<Rightarrow> BaseMessage list" where
  "snapshot_frames lib s st seq =
     (case GetSessionLayer (usd lib) st of
        None \<Rightarrow> []
      | Some l \<Rightarrow> map snd (sort_key fst (create_frames (usd lib) s l seq)) @
                  transform_frames lib s l seq @ delete_frames (usd lib) s l seq) @
     [SnapshotCompleteMessage s seq]"

definition HandleJoin :: "('st, 'ly) Library \<Rightarrow> ConnectionId \<Rightarrow> 'st Session \<Rightarrow> 'st Session" where
  "HandleJoin lib c s =
     (case stage s of
        None \<Rightarrow> s
      | Some st \<Rightarrow>
          let seq = server_seq s; frames = snapshot_frames lib s st seq
          in if c \<notin> set (clients s) then s
             else record_sent c seq (fold (send_binary c) frames s))"

definition ReloadRootLayer :: "('st, 'ly) Library \<Rightarrow> disk \<Rightarrow> 'st Session \<Rightarrow> 'st Session" where
  "ReloadRootLayer lib d s =
     (case stage s of
        None \<Rightarrow> s
      | Some st \<Rightarrow>
          if \<not> HasRootLayer (usd lib) st then s
          else
            (case ReloadRootLayerFile lib st d of (r, ns, st') \<Rightarrow>
               (deliver lib ns (s\<lparr>reload_in_progress := True, current_origin := 0, stage := Some st'\<rparr>))
                 \<lparr>reload_in_progress := False\<rparr>))"

definition CommitOverrides ::
  "('st, 'ly) Library \<Rightarrow> bool \<Rightarrow> 'st Session \<times> disk \<Rightarrow> CommitResult throws \<times> 'st Session \<times> disk" where
  "CommitOverrides lib reload_root sd =
     (case sd of (s, d) \<Rightarrow>
        case stage s of
          None \<Rightarrow> (Inr \<lparr>commit_status = CommitUnknownSession, commit_error = ''unknown session''\<rparr>, s, d)
        | Some st \<Rightarrow>
            (case GetSessionLayer (usd lib) st of
               None \<Rightarrow> (Inr \<lparr>commit_status = NothingToCommit, commit_error = ''no authored overrides to commit''\<rparr>, s, d)
             | Some l \<Rightarrow>
                 if layer_empty l
                 then (Inr \<lparr>commit_status = NothingToCommit, commit_error = ''no authored overrides to commit''\<rparr>, s, d)
                 else
                   (case SaveSessionLayer lib st (sidecar_path s) d of
                      (Inl e, d1) \<Rightarrow> (Inl e, s, d1)
                    | (Inr _, d1) \<Rightarrow>
                        (case StageCommitter_Commit (usd lib) (cenv lib) (Some st) (usd_file_absolute s) d1 of
                           (Some e, d2) \<Rightarrow> (Inr \<lparr>commit_status = WriteFailed, commit_error = e\<rparr>, s, d2)
                         | (None, d2) \<Rightarrow>
                             let s1 = s\<lparr>dirty := False\<rparr>;
                                 s2 = (if reload_root then ReloadRootLayer lib d2 s1 else s1)
                             in (Inr \<lparr>commit_status = CommitOk, commit_error = []\<rparr>, s2, d2)))))"

text \<open>When saving the sidecar throws, the handler ends with that exception, which the consumer catches:
  the promise is dropped without a result.\<close>

definition HandleCommit :: "('st, 'ly) Library \<Rightarrow> nat \<Rightarrow> 'st Session \<times> disk \<Rightarrow> 'st Session \<times> disk" where
  "HandleCommit lib promise sd =
     (case CommitOverrides lib True sd of
        (Inl _, s, d) \<Rightarrow> (s, d)
      | (Inr result, s, d) \<Rightarrow>
        let s1 = (if commit_status result = CommitOk then s\<lparr>reload_requests := reload_requests s @ [usd_file s]\<rparr> else s)
        in (s1\<lparr>commit_results := commit_results s1 @ [(promise, result)]\<rparr>, d))"

definition HandleFlush :: "('st, 'ly) Library \<Rightarrow> 'st Session \<times> disk \<Rightarrow> 'st Session \<times> disk" where
  "HandleFlush lib sd =
     (case sd of (s, d) \<Rightarrow>
        case stage s of
          None \<Rightarrow> (s, d)
        | Some st \<Rightarrow>
            if \<not> dirty s then (s, d)
            else
              let s1 = s\<lparr>dirty := False\<rparr>
              in (case GetSessionLayer (usd lib) st of
                    None \<Rightarrow> (s1, d)
                  | Some _ \<Rightarrow>
                      (case SaveSessionLayer lib st (sidecar_path s) d of
                         (Inr True, d') \<Rightarrow> (s1, d')
                       | (_, d') \<Rightarrow> (s1\<lparr>dirty := True\<rparr>, d'))))"

definition HandleCorrection ::
  "('st, 'ly) Library \<Rightarrow> ConnectionId \<Rightarrow> (ConnectionId \<times> string) option \<Rightarrow> 'st Session \<Rightarrow> 'st Session" where
  "HandleCorrection lib c request s =
     (case request of
        None \<Rightarrow> s
      | Some key \<Rightarrow>
          SendCorrection lib (s\<lparr>correction_queued := (correction_queued s)(key := False)\<rparr>) c (snd key))"

fun HandleCommand :: "('st, 'ly) Library \<Rightarrow> SessionCommand \<Rightarrow> 'st Session \<times> disk \<Rightarrow> ('st Session \<times> disk) option" where
  "HandleCommand lib (Transform c) (s, d) = Some (HandleTransform lib c s, d)"
| "HandleCommand lib (CreatePrim c) (s, d) = map_option (\<lambda>s'. (s', d)) (HandleCreatePrim lib c s)"
| "HandleCommand lib (SetPrimActive c) (s, d) = Some (HandleSetPrimActive lib c s, d)"
| "HandleCommand lib (Join c) (s, d) = Some (HandleJoin lib c s, d)"
| "HandleCommand lib (Commit k) (s, d) = Some (HandleCommit lib k (s, d))"
| "HandleCommand lib ReloadRoot (s, d) = Some (ReloadRootLayer lib d s, d)"
| "HandleCommand lib Flush (s, d) = Some (HandleFlush lib (s, d))"
| "HandleCommand lib (Correction c r) (s, d) = Some (HandleCorrection lib c r s, d)"

subsection \<open>The client registry\<close>

datatype AttachStatus = AttachOk | AttachUnknownSession | SingleEditBusy

definition attach_client :: "ConnectionId \<Rightarrow> 'st Session \<Rightarrow> AttachStatus \<times> 'st Session" where
  "attach_client c s =
     (if mode s = SingleEdit \<and> clients s \<noteq> [] then (SingleEditBusy, s)
      else (AttachOk, s\<lparr>clients := (if c \<in> set (clients s) then clients s else clients s @ [c]), empty_since := None\<rparr>))"

definition DetachClient :: "int \<Rightarrow> ConnectionId \<Rightarrow> 'st Session \<Rightarrow> 'st Session" where
  "DetachClient now c s =
     (let cs = removeAll c (clients s)
      in s\<lparr>clients := cs, empty_since := (if cs = [] then Some now else empty_since s)\<rparr>)"

end
