(* ===== verification/Session_Invariant.thy ===== *)
theory Session_Invariant
  imports Session_Core
begin

text \<open>
  What a session promises its clients about versions. \<open>evolves\<close> lists the elementary effects a handler is
  composed of, with the number of versions it issues; every handler is shown to be such a
  composition, and the invariant of the version numbers is proved once, by rule induction over it.
  Histories of a session are the inductive relation \<open>session_step\<close>: commands, attaching and
  detaching connections, and notices that another session's consumer delivers.
\<close>

subsection \<open>Elementary effects\<close>

inductive evolves :: "nat \<Rightarrow> 'st Session \<Rightarrow> 'st Session \<Rightarrow> bool" where
  start: "evolves 0 s s"
| emit: "evolves n s s' \<Longrightarrow> c \<in> set (clients s') \<Longrightarrow> ms \<noteq> [] \<Longrightarrow> \<forall>m\<in>set ms. msg_server_seq m = server_seq s' \<Longrightarrow>
    evolves n s (record_sent c (server_seq s') (fold (send_binary c) ms s'))"
| correct: "evolves n s s' \<Longrightarrow> c \<in> set (clients s') \<Longrightarrow> msg_server_seq m = server_seq s' \<Longrightarrow>
    evolves n s (record_correction c p (server_seq s') (send_binary c m s'))"
| bump: "evolves n s s' \<Longrightarrow> evolves (Suc n) s (s'\<lparr>server_seq := server_seq s' + 1\<rparr>)"
| change: "evolves n s s' \<Longrightarrow> evolves n s (record_change p (server_seq s') w s')"
| other: "evolves n s s' \<Longrightarrow> sent s'' = sent s' \<Longrightarrow> server_seq s'' = server_seq s' \<Longrightarrow>
    versions s'' = versions s' \<Longrightarrow> clients s'' = clients s' \<Longrightarrow> mode s'' = mode s' \<Longrightarrow> evolves n s s''"

lemma evolves_trans: "evolves m s' s'' \<Longrightarrow> evolves n s s' \<Longrightarrow> evolves (n + m) s s''"
  by (induction rule: evolves.induct) (auto intro: evolves.intros)

lemma evolves_emit1:
  "evolves n s s' \<Longrightarrow> c \<in> set (clients s') \<Longrightarrow> msg_server_seq m = server_seq s' \<Longrightarrow>
   evolves n s (record_sent c (server_seq s') (send_binary c m s'))"
  using evolves.emit [of n s s' c "[m]"] by simp

lemma send_frame [simp]:
  "clients (send_binary c m s) = clients s" "server_seq (send_binary c m s) = server_seq s"
  "stage (send_binary c m s) = stage s" "versions (send_binary c m s) = versions s"
  "current_origin (send_binary c m s) = current_origin s" "s_id (send_binary c m s) = s_id s"
  "usd_file (send_binary c m s) = usd_file s" "dirty (send_binary c m s) = dirty s"
  "sent (send_binary c m s) = sent s @ [(c, m)]"
  "create_in_progress (send_binary c m s) = create_in_progress s"
  "set_active_in_progress (send_binary c m s) = set_active_in_progress s"
  "reload_in_progress (send_binary c m s) = reload_in_progress s"
  "listener_registered (send_binary c m s) = listener_registered s" "mode (send_binary c m s) = mode s"
  by (simp_all add: send_binary_def)

lemma record_frame [simp]:
  "clients (record_sent c q s) = clients s" "server_seq (record_sent c q s) = server_seq s"
  "stage (record_sent c q s) = stage s" "current_origin (record_sent c q s) = current_origin s"
  "s_id (record_sent c q s) = s_id s" "usd_file (record_sent c q s) = usd_file s"
  "dirty (record_sent c q s) = dirty s" "sent (record_sent c q s) = sent s"
  "create_in_progress (record_sent c q s) = create_in_progress s"
  "set_active_in_progress (record_sent c q s) = set_active_in_progress s"
  "reload_in_progress (record_sent c q s) = reload_in_progress s"
  "listener_registered (record_sent c q s) = listener_registered s" "mode (record_sent c q s) = mode s"
  "versions (record_sent c q s) = RecordSent (versions s) c q"
  by (simp_all add: record_sent_def)

lemma correction_frame [simp]:
  "clients (record_correction c p q s) = clients s" "server_seq (record_correction c p q s) = server_seq s"
  "stage (record_correction c p q s) = stage s" "sent (record_correction c p q s) = sent s"
  "mode (record_correction c p q s) = mode s" "dirty (record_correction c p q s) = dirty s"
  "versions (record_correction c p q s) = RecordCorrection (versions s) c p q"
  by (simp_all add: record_correction_def)

lemma change_frame [simp]:
  "clients (record_change p q w s) = clients s" "server_seq (record_change p q w s) = server_seq s"
  "stage (record_change p q w s) = stage s" "current_origin (record_change p q w s) = current_origin s"
  "s_id (record_change p q w s) = s_id s" "usd_file (record_change p q w s) = usd_file s"
  "dirty (record_change p q w s) = dirty s" "sent (record_change p q w s) = sent s"
  "create_in_progress (record_change p q w s) = create_in_progress s"
  "set_active_in_progress (record_change p q w s) = set_active_in_progress s"
  "reload_in_progress (record_change p q w s) = reload_in_progress s"
  "listener_registered (record_change p q w s) = listener_registered s" "mode (record_change p q w s) = mode s"
  "versions (record_change p q w s) = RecordChange (versions s) p q w"
  by (simp_all add: record_change_def)

lemma message_seqs [simp]:
  "msg_server_seq (SerializeAck s r q ok e) = q" "msg_server_seq (SerializeSetPrimActiveBroadcast s p a q) = q"
  "msg_server_seq (SerializeCreatePrimBroadcast s par t prim q) = q" "msg_server_seq (AssembleXformBroadcast lib s p tr q) = q"
  "msg_server_seq (SnapshotCompleteMessage s q) = q"
  by (simp_all add: SerializeAck_def SerializeSetPrimActiveBroadcast_def SerializeCreatePrimBroadcast_def
      AssembleXformBroadcast_def SnapshotCompleteMessage_def)

lemma BuildBroadcastMessage_seq: "BuildBroadcastMessage lib s p q = Some m \<Longrightarrow> msg_server_seq m = q"
  by (auto simp: BuildBroadcastMessage_def)

lemma next_seq_evolves: "evolves n s s' \<Longrightarrow> next_seq s' = (q, s'') \<Longrightarrow> evolves (Suc n) s s'' \<and> q = server_seq s''"
  by (auto simp: next_seq_def intro: evolves.bump)

lemma send_to_all_evolves:
  assumes "evolves n s s'" and "set cs \<subseteq> set (clients s')" and "msg_server_seq m = server_seq s'"
  shows "evolves n s (send_to_all cs m (server_seq s') s') \<and>
    server_seq (send_to_all cs m (server_seq s') s') = server_seq s' \<and>
    clients (send_to_all cs m (server_seq s') s') = clients s'"
  using assms
proof (induction cs arbitrary: s')
  case (Cons c cs)
  let ?s1 = "record_sent c (server_seq s') (send_binary c m s')"
  have "evolves n s ?s1" using Cons.prems by (intro evolves_emit1) simp_all
  from Cons.IH [OF this] Cons.prems show ?case by (simp add: send_to_all_def)
qed (simp add: send_to_all_def)

lemma SendAck_evolves: "evolves n s s' \<Longrightarrow> evolves n s (SendAck s' c r ok e)"
  by (auto simp: SendAck_def SendToConnection_def Let_def intro: evolves_emit1)

lemma BroadcastToAll_evolves:
  "evolves n s s' \<Longrightarrow> msg_server_seq m = server_seq s' \<Longrightarrow> q = server_seq s' \<Longrightarrow>
   evolves n s (BroadcastToAll s' m q)"
  using send_to_all_evolves [of n s s' "clients s'" m] by (simp add: BroadcastToAll_def)

lemma announce_evolves:
  assumes "evolves n s s'" and "q = server_seq s'"
  shows "evolves n s (announce lib origin q p s') \<and> server_seq (announce lib origin q p s') = server_seq s' \<and>
    clients (announce lib origin q p s') = clients s'"
proof -
  let ?s1 = "record_change p q origin s'"
  have 1: "evolves n s ?s1" using assms by (simp add: evolves.change)
  show ?thesis
  proof (cases "BuildBroadcastMessage lib ?s1 p q")
    case (Some m)
    then show ?thesis
      using send_to_all_evolves [OF 1, of "filter (\<lambda>c. c \<noteq> origin) (clients ?s1)" m] BuildBroadcastMessage_seq [OF Some] assms(2) 1
      by (auto simp: announce_def BroadcastResolvedTransform_def split: option.split)
  qed (use 1 in \<open>auto simp: announce_def BroadcastResolvedTransform_def split: option.split\<close>)
qed

lemma fold_evolves:
  assumes "\<And>x s'. x \<in> set xs \<Longrightarrow> evolves n s s' \<Longrightarrow> server_seq s' = q \<Longrightarrow> evolves n s (f x s') \<and> server_seq (f x s') = q"
    and "evolves n s s'" and "server_seq s' = q"
  shows "evolves n s (fold f xs s')"
  using assms by (induction xs arbitrary: s') auto

lemma OnObjectsChanged_evolves:
  assumes "evolves n s s'"
  shows "\<exists>k\<le>1. evolves (n + k) s (OnObjectsChanged lib nt s')"
proof -
  obtain q s1 where q: "next_seq s' = (q, s1)" by fastforce
  note s1 = next_seq_evolves [OF assms q]
  have a: "evolves (Suc n) s (announce lib o' q x t) \<and> server_seq (announce lib o' q x t) = q"
    if "evolves (Suc n) s t" "server_seq t = q" for o' x t
    using announce_evolves [OF that(1), of q lib o' x] that(2) by simp
  have "evolves (Suc n) s (fold (announce lib (current_origin s') q) ps s1)" for ps
    by (rule fold_evolves [where q = q]) (use s1 a in \<open>auto split: if_splits\<close>)
  moreover have "evolves (Suc n) s (fold (\<lambda>p s. if masked (usd lib) s p then s else announce lib 0 q p s) ps s1)" for ps
    by (rule fold_evolves [where q = q]) (use s1 a in \<open>auto split: if_splits\<close>)
  ultimately have "evolves n s (OnObjectsChanged lib nt s') \<or> evolves (Suc n) s (OnObjectsChanged lib nt s')"
    using assms q by (simp add: OnObjectsChanged_def Let_def)
  then show ?thesis by (metis Suc_eq_plus1 add.right_neutral le_numeral_extra(4) zero_le_one)
qed

lemma deliver_evolves:
  assumes "evolves n s s'"
  shows "\<exists>k\<le>length ns. evolves (n + k) s (deliver lib ns s')"
proof (cases "listener_registered s'")
  case True
  have "\<exists>k\<le>length ns. evolves (n + k) s (fold (OnObjectsChanged lib) ns s')"
    using assms
  proof (induction ns arbitrary: n s')
    case (Cons nt ns)
    from OnObjectsChanged_evolves [OF Cons.prems, of lib nt] obtain k where
      k: "k \<le> 1" "evolves (n + k) s (OnObjectsChanged lib nt s')" by blast
    from Cons.IH [OF k(2)] obtain j where "j \<le> length ns" "evolves (n + k + j) s (fold (OnObjectsChanged lib) (nt # ns) s')"
      by auto
    then show ?case using k(1) by (intro exI [of _ "k + j"]) (simp add: add.assoc)
  qed (intro exI [of _ 0], simp)
  then show ?thesis using True by (simp add: deliver_def)
qed (use assms in \<open>auto simp: deliver_def intro: exI [of _ 0]\<close>)

lemma SendCorrection_evolves:
  assumes "evolves n s s'"
  shows "\<exists>k\<le>1. evolves (n + k) s (SendCorrection lib s' c p)"
proof -
  obtain q s1 where q: "next_seq s' = (q, s1)" by fastforce
  note s1 = next_seq_evolves [OF assms q]
  have cl: "clients s1 = clients s'" using q by (auto simp: next_seq_def)
  have "evolves (Suc n) s (record_correction c p q (send_binary c m s1))"
    if "c \<in> set (clients s')" "msg_server_seq m = q" for m
    using that s1 evolves.correct [of "Suc n" s s1 c m p] by (simp add: cl)
  then have "evolves n s (SendCorrection lib s' c p) \<or> evolves (Suc n) s (SendCorrection lib s' c p)"
    using assms q by (auto simp: SendCorrection_def split: option.split)
  then show ?thesis by (metis Suc_eq_plus1 add.right_neutral le_numeral_extra(4) zero_le_one)
qed

text \<open>USD delivers notices in rounds; that one call delivers fewer than 2^32 of them is all that is
  needed of it here.\<close>

definition library_bounded :: "('st, 'ly) Library \<Rightarrow> bool" where
  "library_bounded lib \<longleftrightarrow>
     (\<forall>st. length (fst (CloseChangeBlock (usd lib) st)) < 2 ^ 32) \<and>
     (\<forall>st p t. length (fst (snd (DefinePrim (usd lib) st p t))) < 2 ^ 32) \<and>
     (\<forall>st p a. length (fst (snd (PrimSetActive (usd lib) st p a))) < 2 ^ 32) \<and>
     (\<forall>st d. length (fst (snd (ReloadRootLayerFile lib st d))) < 2 ^ 32)"

lemma in_change_block_notices: "fst (snd (in_change_block u f st)) = fst (CloseChangeBlock u (snd (f st)))"
  by (simp add: in_change_block_def split: prod.splits)

lemma Apply_notices:
  assumes "library_bounded lib" and "TransformDispatcher_Apply (usd lib) stg upd = (ok, ns, stg')"
  shows "length ns < 2 ^ 32"
proof -
  have "length (fst (snd (in_change_block (usd lib) f st))) < 2 ^ 32" for f st
    using assms(1) by (simp only: in_change_block_notices library_bounded_def)
  from this [of "author_separate (usd lib) (upd_prim_path upd) _"] this [of "author_matrix (usd lib) (upd_prim_path upd) _"]
  show ?thesis
    using assms(2) unfolding TransformDispatcher_Apply_def Let_def ApplySeparate_def ApplyMatrix_def
    by (auto split: option.splits if_splits transform_case.splits prod.splits) (metis fst_conv snd_conv)+
qed

lemma Create_notices:
  assumes "library_bounded lib" and "PrimDispatcher_Create (usd lib) stg par t = Some (created, ns, stg')"
  shows "length ns < 2 ^ 32"
proof -
  have "length (fst (snd (AuthorPrim (usd lib) st p ty))) < 2 ^ 32" for st p ty
    using assms(1) by (simp add: AuthorPrim_def library_bounded_def Let_def)
  then show ?thesis
    using assms(2) by (auto simp: PrimDispatcher_Create_def split: option.splits if_splits prod.splits) (metis fst_conv snd_conv)+
qed

lemma SetActive_notices:
  assumes "library_bounded lib" and "PrimDispatcher_SetActive (usd lib) stg p a = (status, ns, stg')"
  shows "length ns < 2 ^ 32"
proof -
  have "length (fst (snd (PrimSetActive (usd lib) st p a))) < 2 ^ 32" for st
    using assms(1) by (simp add: library_bounded_def)
  then show ?thesis
    using assms(2) by (auto simp: PrimDispatcher_SetActive_def split: option.splits if_splits prod.splits) (metis fst_conv snd_conv)+
qed

lemma evolves_other:
  "evolves n s s' \<Longrightarrow> sent s'' = sent s' \<and> server_seq s'' = server_seq s' \<and> versions s'' = versions s' \<and>
   clients s'' = clients s' \<and> mode s'' = mode s' \<Longrightarrow> evolves n s s''"
  by (rule evolves.other) simp_all

lemma deliver_around_evolves:
  fixes s s1 :: "'st Session"
  assumes "length ns < 2 ^ 32" and "sent s1 = sent s \<and> server_seq s1 = server_seq s \<and> versions s1 = versions s \<and> clients s1 = clients s \<and> mode s1 = mode s"
    and "\<And>s2. sent (g s2) = sent s2 \<and> server_seq (g s2) = server_seq s2 \<and> versions (g s2) = versions s2 \<and> clients (g s2) = clients s2 \<and> mode (g s2) = mode s2"
  obtains k where "k < 2 ^ 32" "evolves k s (g (deliver lib ns s1))"
proof -
  have "evolves 0 s s1" by (rule evolves_other [OF evolves.start assms(2)])
  from deliver_evolves [OF this, of ns lib] obtain k where k: "k \<le> length ns" "evolves k s (deliver lib ns s1)" by auto
  show ?thesis by (rule that [of k]) (use k assms(1) evolves_other [OF k(2) assms(3)] in simp_all)
qed

lemma HandleTransform_evolves:
  assumes "library_bounded lib"
  shows "\<exists>k\<le>2 ^ 32. evolves k s (HandleTransform lib c s)"
proof -
  obtain ok ns st' where a: "TransformDispatcher_Apply (usd lib) (stage s) (tc_update c) = (ok, ns, st')"
    by (metis prod_cases3)
  let ?g = "\<lambda>s2 :: 'a Session. if ok then s2\<lparr>current_origin := 0, dirty := True\<rparr> else s2\<lparr>current_origin := 0\<rparr>"
  obtain k where k: "k < 2 ^ 32" "evolves k s (?g (deliver lib ns (s\<lparr>current_origin := tc_origin c, stage := st'\<rparr>)))"
    by (rule deliver_around_evolves [OF Apply_notices [OF assms a], of "s\<lparr>current_origin := tc_origin c, stage := st'\<rparr>" s ?g]) auto
  note ack = SendAck_evolves [OF k(2), of "tc_origin c" "tc_request_id c" ok "''apply_failed''"]
  obtain j where j: "j \<le> 1" "evolves (k + j) s (SendCorrection lib (SendAck (?g (deliver lib ns
      (s\<lparr>current_origin := tc_origin c, stage := st'\<rparr>))) (tc_origin c) (tc_request_id c) ok ''apply_failed'') (tc_origin c) (upd_prim_path (tc_update c)))"
    using SendCorrection_evolves [OF ack] by blast
  show ?thesis
  proof (cases "CheckUpdate (versions s) (tc_origin c) (upd_prim_path (tc_update c)) (tc_base_seq c)")
    case Current
    then show ?thesis
      using a ack j k(1) by (cases ok) (auto simp: HandleTransform_def Let_def intro: exI [of _ k] exI [of _ "k + j"])
  qed (auto simp: HandleTransform_def Let_def intro!: exI [of _ 0] SendAck_evolves evolves.start)
qed

text \<open>The tail of the two handlers that announce explicitly: a new version, recorded as a change, sent to
  everybody, acknowledged.\<close>

lemma announced_evolves:
  assumes "evolves n s s'" and "next_seq s' = (q, s3)" and "msg_server_seq m = q"
  shows "evolves (Suc n) s (SendAck (BroadcastToAll (record_change p q w s3) m q) c r ok e)"
proof -
  note s3 = next_seq_evolves [OF assms(1,2)]
  then have "evolves (Suc n) s (record_change p q w s3)" by (auto intro: evolves.change)
  then show ?thesis using s3 assms(3) by (intro SendAck_evolves BroadcastToAll_evolves) simp_all
qed

lemma HandleCreatePrim_evolves:
  assumes "library_bounded lib" and "HandleCreatePrim lib c s = Some s'"
  shows "\<exists>k\<le>2 ^ 32. evolves k s s'"
proof (cases "stage s = None")
  case True
  then show ?thesis
    using assms(2) by (auto simp: HandleCreatePrim_def intro!: exI [of _ 0] SendAck_evolves evolves.start)
next
  case False
  then obtain created ns st' where
    a: "PrimDispatcher_Create (usd lib) (stage s) (cc_parent_path c) (cc_type c) = Some (created, ns, st')"
    using assms(2) by (auto simp: HandleCreatePrim_def split: option.splits)
  let ?s1 = "s\<lparr>current_origin := cc_origin c, create_in_progress := True, stage := st'\<rparr>"
  let ?g = "\<lambda>s2 :: 'a Session. s2\<lparr>create_in_progress := False, current_origin := 0\<rparr>"
  obtain k where k: "k < 2 ^ 32" "evolves k s (?g (deliver lib ns ?s1))"
    by (rule deliver_around_evolves [OF Create_notices [OF assms(1) a], of ?s1 s ?g]) auto
  show ?thesis
  proof (cases created)
    case None
    then show ?thesis
      using assms(2) False a k SendAck_evolves [OF k(2)] by (auto simp: HandleCreatePrim_def Let_def intro!: exI [of _ k])
  next
    case (Some prim)
    obtain q s3 where q: "next_seq ((?g (deliver lib ns ?s1))\<lparr>dirty := True\<rparr>) = (q, s3)" by fastforce
    have "evolves k s ((?g (deliver lib ns ?s1))\<lparr>dirty := True\<rparr>)" by (rule evolves_other [OF k(2)]) simp
    from announced_evolves [OF this q] have "evolves (Suc k) s s'"
      using assms(2) False a Some q by (auto simp: HandleCreatePrim_def Let_def)
    then show ?thesis using k(1) by (intro exI [of _ "Suc k"]) simp
  qed
qed

lemma HandleSetPrimActive_evolves:
  assumes "library_bounded lib"
  shows "\<exists>k\<le>2 ^ 32. evolves k s (HandleSetPrimActive lib c s)"
proof (cases "stage s = None")
  case True
  then show ?thesis
    by (auto simp: HandleSetPrimActive_def Let_def intro!: exI [of _ 0] SendAck_evolves evolves.start)
next
  case False
  obtain status ns st' where
    a: "PrimDispatcher_SetActive (usd lib) (stage s) (ac_prim_path c) (ac_active c) = (status, ns, st')"
    by (metis prod_cases3)
  let ?s1 = "s\<lparr>current_origin := ac_origin c, set_active_in_progress := True, stage := st'\<rparr>"
  let ?g = "\<lambda>s2 :: 'a Session. s2\<lparr>set_active_in_progress := False, current_origin := 0\<rparr>"
  obtain k where k: "k < 2 ^ 32" "evolves k s (?g (deliver lib ns ?s1))"
    by (rule deliver_around_evolves [OF SetActive_notices [OF assms a], of ?s1 s ?g]) auto
  show ?thesis
  proof (cases "status = SetActiveOk")
    case False
    then have "evolves k s (HandleSetPrimActive lib c s)"
      using \<open>stage s \<noteq> None\<close> a SendAck_evolves [OF k(2)] by (cases status) (auto simp: HandleSetPrimActive_def Let_def)
    then show ?thesis using k(1) by (intro exI [of _ k]) simp
  next
    case True
    obtain q s3 where q: "next_seq ((?g (deliver lib ns ?s1))\<lparr>dirty := True\<rparr>) = (q, s3)" by fastforce
    have "evolves k s ((?g (deliver lib ns ?s1))\<lparr>dirty := True\<rparr>)" by (rule evolves_other [OF k(2)]) simp
    from announced_evolves [OF this q] have "evolves (Suc k) s (HandleSetPrimActive lib c s)"
      using False a True q by (auto simp: HandleSetPrimActive_def Let_def)
    then show ?thesis using k(1) by (intro exI [of _ "Suc k"]) simp
  qed
qed

lemma snapshot_frames_seq: "m \<in> set (snapshot_frames lib s st q) \<Longrightarrow> msg_server_seq m = q"
  by (auto simp: snapshot_frames_def create_frames_def transform_frames_def delete_frames_def Let_def
      split: option.splits if_splits)

lemma HandleJoin_evolves: "evolves 0 s (HandleJoin lib c s)"
proof (cases "stage s = None \<or> c \<notin> set (clients s)")
  case False
  then obtain st where st: "stage s = Some st" "c \<in> set (clients s)" by auto
  have "evolves 0 s (record_sent c (server_seq s) (fold (send_binary c) (snapshot_frames lib s st (server_seq s)) s))"
    using st by (intro evolves.emit evolves.start) (auto simp: snapshot_frames_seq, simp add: snapshot_frames_def)
  then show ?thesis using st by (simp add: HandleJoin_def Let_def)
qed (auto simp: HandleJoin_def Let_def evolves.start split: option.split)

lemma ReloadRootLayer_evolves:
  assumes "library_bounded lib" and "evolves 0 s0 s"
  shows "\<exists>k\<le>2 ^ 32. evolves k s0 (ReloadRootLayer lib d s)"
proof (cases "\<exists>st. stage s = Some st \<and> HasRootLayer (usd lib) st")
  case True
  then obtain st where st: "stage s = Some st" "HasRootLayer (usd lib) st" by blast
  obtain r ns st' where a: "ReloadRootLayerFile lib st d = (r, ns, st')" by (metis prod_cases3)
  have "length ns < 2 ^ 32" using assms(1) a unfolding library_bounded_def by (metis fst_conv snd_conv)
  then obtain k where k: "k < 2 ^ 32" "evolves k s ((deliver lib ns (s\<lparr>reload_in_progress := True, current_origin := 0, stage := Some st'\<rparr>))\<lparr>reload_in_progress := False\<rparr>)"
    by (rule deliver_around_evolves [of ns "s\<lparr>reload_in_progress := True, current_origin := 0, stage := Some st'\<rparr>" s
          "\<lambda>s2. s2\<lparr>reload_in_progress := False\<rparr>"]) auto
  from evolves_trans [OF k(2) assms(2)] show ?thesis
    using st a k(1) by (intro exI [of _ k]) (simp add: ReloadRootLayer_def)
qed (use assms(2) in \<open>auto simp: ReloadRootLayer_def intro!: exI [of _ 0] split: option.splits\<close>)

lemma CommitOverrides_evolves:
  assumes "library_bounded lib" and "CommitOverrides lib b (s, d) = (r, s', d')"
  shows "\<exists>k\<le>2 ^ 32. evolves k s s'"
proof -
  have "evolves 0 s (s\<lparr>dirty := False\<rparr>)" by (rule evolves_other [OF evolves.start]) simp
  from ReloadRootLayer_evolves [OF assms(1) this] this evolves.start [of s]
  show ?thesis
    using assms(2) by (auto simp: CommitOverrides_def Let_def split: option.splits if_splits prod.splits sum.splits intro: exI [of _ 0])
qed

lemma HandleCommit_evolves:
  assumes "library_bounded lib" and "HandleCommit lib p (s, d) = (s', d')"
  shows "\<exists>k\<le>2 ^ 32. evolves k s s'"
proof -
  obtain r s1 d1 where c: "CommitOverrides lib True (s, d) = (r, s1, d1)" by (metis prod_cases3)
  from CommitOverrides_evolves [OF assms(1) this] obtain k where k: "k \<le> 2 ^ 32" "evolves k s s1" by blast
  have "evolves k s s'"
    by (rule evolves_other [OF k(2)]) (use assms(2) c in \<open>auto simp: HandleCommit_def Let_def split: sum.splits\<close>)
  then show ?thesis using k(1) by blast
qed

lemma HandleFlush_evolves: "HandleFlush lib (s, d) = (s', d') \<Longrightarrow> evolves 0 s s'"
  by (rule evolves_other [OF evolves.start])
    (auto simp: HandleFlush_def Let_def split: option.splits if_splits prod.splits sum.splits bool.splits)

lemma HandleCorrection_evolves: "\<exists>k\<le>1. evolves k s (HandleCorrection lib c r s)"
proof (cases r)
  case (Some key)
  have "evolves 0 s (s\<lparr>correction_queued := (correction_queued s)(key := False)\<rparr>)"
    by (rule evolves_other [OF evolves.start]) simp
  from SendCorrection_evolves [OF this] Some show ?thesis by (simp add: HandleCorrection_def)
qed (auto simp: HandleCorrection_def intro!: exI [of _ 0] evolves.start)

lemma HandleCommand_evolves:
  assumes "library_bounded lib" and "HandleCommand lib c (s, d) = Some (s', d')"
  shows "\<exists>k\<le>2 ^ 32. evolves k s s'"
proof (cases c)
  case (Transform t)
  then show ?thesis using HandleTransform_evolves [OF assms(1), of s t] assms(2) by simp
next
  case (CreatePrim t)
  then show ?thesis using HandleCreatePrim_evolves [OF assms(1), of t s] assms(2) by auto
next
  case (SetPrimActive t)
  then show ?thesis using HandleSetPrimActive_evolves [OF assms(1), of s t] assms(2) by simp
next
  case (Join x)
  then show ?thesis using HandleJoin_evolves [of s lib x] assms(2) by (intro exI [of _ 0]) simp
next
  case (Commit k)
  then show ?thesis using HandleCommit_evolves [OF assms(1), of k s d] assms(2) by simp
next
  case ReloadRoot
  then show ?thesis using ReloadRootLayer_evolves [OF assms(1) evolves.start, of s d] assms(2) by auto
next
  case Flush
  then show ?thesis using HandleFlush_evolves [of lib s d] assms(2) by (intro exI [of _ 0]) simp
next
  case (Correction x r)
  then obtain k where "k \<le> 1" "evolves k s s'" using HandleCorrection_evolves [of s lib x r] assms(2) by auto
  then show ?thesis by (intro exI [of _ k]) simp
qed

subsection \<open>The invariant of the versions\<close>

definition frames_to :: "ConnectionId \<Rightarrow> 'st Session \<Rightarrow> BaseMessage list" where
  "frames_to c s = map snd (filter (\<lambda>f. fst f = c) (sent s))"

definition seqs_to :: "ConnectionId \<Rightarrow> 'st Session \<Rightarrow> server_seq list" where
  "seqs_to c s = map msg_server_seq (frames_to c s)"

definition seq_inv :: "'st Session \<Rightarrow> bool" where
  "seq_inv s \<longleftrightarrow>
     (\<forall>c. sorted (seqs_to c s) \<and> (\<forall>q\<in>set (seqs_to c s). q \<le> server_seq s) \<and>
          sent_to (versions s) c = fold max (seqs_to c s) 0)"

lemma sent_fold [simp]:
  "sent (fold (send_binary c) ms s) = sent s @ map (\<lambda>m. (c, m)) ms"
  "server_seq (fold (send_binary c) ms s) = server_seq s" "versions (fold (send_binary c) ms s) = versions s"
  "clients (fold (send_binary c) ms s) = clients s" "mode (fold (send_binary c) ms s) = mode s"
  by (induction ms arbitrary: s) simp_all

lemma seqs_to_send:
  "seqs_to x (record_sent c q s) = seqs_to x s" "seqs_to x (record_correction c p q s) = seqs_to x s"
  "seqs_to x (record_change p q w s) = seqs_to x s"
  "seqs_to x (send_binary c m s) = seqs_to x s @ (if x = c then [msg_server_seq m] else [])"
  "seqs_to x (fold (send_binary c) ms s) = seqs_to x s @ (if x = c then map msg_server_seq ms else [])"
  by (auto simp: seqs_to_def frames_to_def filter_map comp_def)

lemma fold_max_const: "\<forall>q\<in>set qs. q = b \<Longrightarrow> fold max qs (a :: server_seq) = (if qs = [] then a else max a b)"
  by (induction qs arbitrary: a) (auto simp: max.assoc max.commute)

lemma sorted_append_const:
  "sorted xs \<Longrightarrow> \<forall>q\<in>set xs. q \<le> b \<Longrightarrow> \<forall>q\<in>set qs. q = b \<Longrightarrow> sorted (xs @ qs :: server_seq list)"
  by (induction qs rule: rev_induct) (auto simp: sorted_append)

lemma evolves_inv:
  assumes "evolves n s s'" and "seq_inv s" and "unat (server_seq s) + n < 2 ^ 64"
  shows "seq_inv s' \<and> unat (server_seq s') = unat (server_seq s) + n"
  using assms
proof (induction rule: evolves.induct)
  case (emit n s s' c ms)
  then have "\<forall>q\<in>set (map msg_server_seq ms). q = server_seq s'" by auto
  then have "sorted (xs @ map msg_server_seq ms)" if "sorted xs" "\<forall>q\<in>set xs. q \<le> server_seq s'" for xs
    using that by (rule_tac sorted_append_const)
  moreover have "fold max (map msg_server_seq ms) a = max a (server_seq s')" for a
    using fold_max_const [OF \<open>\<forall>q\<in>set (map msg_server_seq ms). q = server_seq s'\<close>, of a] emit.hyps(3) by simp
  ultimately show ?case using emit by (auto simp: seq_inv_def seqs_to_send sv.sent_sent)
next
  case (correct n s s' c m p)
  then show ?case by (auto simp: seq_inv_def seqs_to_send sv.sent_correction sorted_append max.commute split: if_splits)
next
  case (bump n s s')
  have "server_seq s' < server_seq s' + 1" "unat (server_seq s' + 1) = unat (server_seq s') + 1"
    using bump by (auto simp: unat_inc word_less_inc)
  then show ?case
    using bump by (fastforce simp: seq_inv_def seqs_to_def frames_to_def)
next
  case (change n s s' p w)
  then show ?case by (simp add: seq_inv_def seqs_to_send sv.sent_change)
next
  case (other n s s' s'')
  then show ?case by (simp add: seq_inv_def seqs_to_def frames_to_def)
qed simp

subsection \<open>Histories of a session\<close>

text \<open>A session is created empty; connection ids are not 0 and are never reused, which \<open>used\<close> records. A
  foreign notice finds no handler of this session running, so none of its flags is set; it may
  leave the composed stage changed. Every step starts with fewer than 2^63 versions issued.\<close>

definition new_session :: "string \<Rightarrow> string \<Rightarrow> fspath \<Rightarrow> 'st \<Rightarrow> SessionMode \<Rightarrow> bool \<Rightarrow> fspath \<Rightarrow> int \<Rightarrow> int \<Rightarrow> 'st Session" where
  "new_session sid file file_abs st md auto sidecar created steady_now =
     Register \<lparr>s_id = sid, usd_file = file, usd_file_absolute = file_abs, stage = Some st, created_at = created,
      mode = md, clients = [], empty_since = Some steady_now, current_origin = 0, listener_registered = False,
      reload_in_progress = False, create_in_progress = False, set_active_in_progress = False,
      server_seq = 0, versions = empty_SessionVersions, sidecar_path = sidecar, dirty = False,
      auto_commit = auto, correction_queued = (\<lambda>_. False), sent = [], commit_results = [], reload_requests = []\<rparr>"

datatype session_event = Command SessionCommand | Attach ConnectionId | Detach int ConnectionId | Foreign notice

inductive session_step ::
  "('st, 'ly) Library \<Rightarrow> ConnectionId set \<times> 'st Session \<times> disk \<Rightarrow> session_event \<Rightarrow> ConnectionId set \<times> 'st Session \<times> disk \<Rightarrow> bool"
  for lib where
  command: "unat (server_seq s) < 2 ^ 63 \<Longrightarrow> HandleCommand lib c (s, d) = Some (s', d') \<Longrightarrow>
    session_step lib (used, s, d) (Command c) (used, s', d')"
| attach: "c \<noteq> 0 \<Longrightarrow> c \<notin> used \<Longrightarrow> attach_client c s = (AttachOk, s') \<Longrightarrow>
    session_step lib (used, s, d) (Attach c) (insert c used, s', d)"
| detach: "session_step lib (used, s, d) (Detach now c) (used, DetachClient now c s, d)"
| foreign: "unat (server_seq s) < 2 ^ 63 \<Longrightarrow>
    session_step lib (used, s, d) (Foreign n) (used, deliver lib [n] (s\<lparr>stage := Some st'\<rparr>), d)"

inductive session_run ::
  "('st, 'ly) Library \<Rightarrow> session_event list \<Rightarrow> ConnectionId set \<times> 'st Session \<times> disk \<Rightarrow> bool" for lib where
  init: "session_run lib [] ({}, new_session sid file file_abs st md auto sidecar created now, d)"
| step: "session_run lib es x \<Longrightarrow> session_step lib x e y \<Longrightarrow> session_run lib (es @ [e]) y"

inductive_cases session_step_Command: "session_step lib (used, s, d) (Command c) y"

definition run_inv :: "ConnectionId set \<Rightarrow> 'st Session \<Rightarrow> bool" where
  "run_inv used s \<longleftrightarrow>
     seq_inv s \<and> distinct (clients s) \<and> set (clients s) \<subseteq> used \<and> 0 \<notin> used \<and>
     (mode s = SingleEdit \<longrightarrow> length (clients s) \<le> 1) \<and> fst ` set (sent s) \<subseteq> used"

lemma evolves_frame:
  "evolves n s s' \<Longrightarrow> clients s' = clients s \<and> mode s' = mode s \<and> fst ` set (sent s') \<subseteq> fst ` set (sent s) \<union> set (clients s)"
  by (induction rule: evolves.induct) (auto simp: image_iff)

lemmas new_session_alt = new_session_def [unfolded Register_def, simplified]

lemma seq_inv_new: "seq_inv (new_session sid file file_abs st md auto sidecar created now)"
  by (simp add: seq_inv_def new_session_alt seqs_to_def frames_to_def sv.sent_init)

lemma evolves_run_inv:
  assumes "evolves n s s'" and "run_inv used s" and "unat (server_seq s) + n < 2 ^ 64"
  shows "run_inv used s'"
  using evolves_frame [OF assms(1)] evolves_inv [OF assms(1) _ assms(3)] assms(2) by (auto simp: run_inv_def)

lemma seq_inv_cong:
  "sent s' = sent s \<Longrightarrow> server_seq s' = server_seq s \<Longrightarrow> versions s' = versions s \<Longrightarrow> seq_inv s' \<longleftrightarrow> seq_inv s"
  by (simp add: seq_inv_def seqs_to_def frames_to_def)

lemma attach_run_inv:
  assumes "run_inv used s" and "c \<noteq> 0" and "c \<notin> used" and "attach_client c s = (AttachOk, s')"
  shows "run_inv (insert c used) s'"
proof -
  have "sent s' = sent s \<and> server_seq s' = server_seq s \<and> versions s' = versions s \<and> mode s' = mode s"
    using assms(4) by (auto simp: attach_client_def split: if_splits)
  then show ?thesis
    using assms seq_inv_cong [of s' s] by (auto simp: run_inv_def attach_client_def split: if_splits)
qed

lemma detach_run_inv:
  assumes "run_inv used s"
  shows "run_inv used (DetachClient now c s)"
proof -
  have "seq_inv (DetachClient now c s) = seq_inv s" by (rule seq_inv_cong) (simp_all add: DetachClient_def Let_def)
  moreover have "length (removeAll c (clients s)) \<le> length (clients s)" by (rule length_removeAll_less_eq)
  then have "length (clients s) \<le> 1 \<longrightarrow> length (removeAll c (clients s)) \<le> 1" by linarith
  ultimately show ?thesis
    using assms distinct_removeAll [of "clients s" c] by (auto simp: run_inv_def) (auto simp: DetachClient_def Let_def)
qed

lemma foreign_evolves: "\<exists>k\<le>1. evolves k s (deliver lib [n] (s\<lparr>stage := Some st'\<rparr>))"
  using deliver_evolves [OF evolves_other [OF evolves.start], of "s\<lparr>stage := Some st'\<rparr>" s "[n]" lib] by simp

lemma step_run_inv:
  assumes "library_bounded lib" and "session_step lib (used, s, d) e (used', s', d')" and "run_inv used s"
  shows "run_inv used' s'"
  using assms(2)
proof cases
  case (command c)
  from HandleCommand_evolves [OF assms(1) command(4)] obtain k where k: "k \<le> 2 ^ 32" "evolves k s s'" by blast
  have "unat (server_seq s) + k < 2 ^ 64" using k(1) command(3) by simp
  then show ?thesis using evolves_run_inv [OF k(2) assms(3)] command by simp
next
  case (attach c)
  then show ?thesis using attach_run_inv [OF assms(3)] by simp
next
  case (detach now c)
  then show ?thesis using detach_run_inv [OF assms(3)] by simp
next
  case (foreign n st')
  from foreign_evolves [of s lib n st'] obtain k where k: "k \<le> 1" "evolves k s s'" using foreign by auto
  have "unat (server_seq s) + k < 2 ^ 64" using k(1) foreign by simp
  then show ?thesis using evolves_run_inv [OF k(2) assms(3)] foreign by simp
qed

lemma session_run_inv:
  assumes "library_bounded lib" and "session_run lib es (used, s, d)"
  shows "run_inv used s"
  using assms(2)
proof (induction es "(used, s, d)" arbitrary: used s d rule: session_run.induct)
  case init
  then show ?case by (simp add: run_inv_def seq_inv_new) (simp add: new_session_alt)
next
  case (step es x e used s d)
  obtain used0 s0 d0 where x: "x = (used0, s0, d0)" by (metis prod_cases3)
  show ?case using step_run_inv [OF assms(1) step(3) [unfolded x]] step(2) [OF x] by blast
qed

subsection \<open>A concrete history\<close>

definition mini_lib :: "(mini_stage, SdfPath list) Library" where
  "mini_lib = \<lparr>usd = mini_usd, cenv = mini_env, now_ms = 0, SaveSessionLayer = (\<lambda>st p d. (Inr True, d)),
     ReloadRootLayerFile = (\<lambda>st d. (Inr True, [], st))\<rparr>"

lemma mini_lib_simps [simp]: "usd mini_lib = mini_usd" "cenv mini_lib = mini_env" "now_ms mini_lib = 0"
  "SaveSessionLayer mini_lib = (\<lambda>st p d. (Inr True, d))" "ReloadRootLayerFile mini_lib = (\<lambda>st d. (Inr True, [], st))"
  by (simp_all add: mini_lib_def)

lemma mini_bounded: "library_bounded mini_lib"
  by (simp add: library_bounded_def mini_notices_def)

definition demo_session :: "mini_stage Session" where
  "demo_session = new_session ''s1'' ''a.usda'' ''/up/a.usda'' mini_root_stage SingleEdit False ''/side/s1.usda'' 0 0"

definition demo_attached :: "mini_stage Session" where
  "demo_attached = snd (attach_client 1 demo_session)"

definition demo_joined :: "mini_stage Session" where
  "demo_joined = HandleJoin mini_lib 1 demo_attached"

lemma session_demo_run: "session_run mini_lib [Attach 1, Command (Join 1)] ({1}, demo_joined, Map.empty)"
proof -
  have "session_run mini_lib [] ({}, demo_session, Map.empty)" unfolding demo_session_def by (rule session_run.init)
  moreover have "session_step mini_lib ({}, demo_session, Map.empty) (Attach 1) (insert 1 {}, demo_attached, Map.empty)"
    by (rule session_step.attach) (simp_all add: demo_attached_def attach_client_def demo_session_def new_session_alt)
  ultimately have "session_run mini_lib ([] @ [Attach 1]) (insert 1 {}, demo_attached, Map.empty)" by (rule session_run.step)
  moreover have "session_step mini_lib (insert 1 {}, demo_attached, Map.empty) (Command (Join 1)) (insert 1 {}, demo_joined, Map.empty)"
    by (rule session_step.command) (simp_all add: demo_joined_def demo_attached_def attach_client_def demo_session_def new_session_alt)
  ultimately have "session_run mini_lib (([] @ [Attach 1]) @ [Command (Join 1)]) (insert 1 {}, demo_joined, Map.empty)"
    by (rule session_run.step)
  then show ?thesis by simp
qed

lemma demo_attached_fields [simp]:
  "clients demo_attached = [1]" "stage demo_attached = Some mini_root_stage" "server_seq demo_attached = 0" "sent demo_attached = []"
  "create_in_progress demo_attached = False" "set_active_in_progress demo_attached = False" "reload_in_progress demo_attached = False"
  "versions demo_attached = empty_SessionVersions"
  by (simp_all add: demo_attached_def attach_client_def demo_session_def new_session_alt)

lemma demo_frames: "frames_to 1 demo_joined = [SnapshotCompleteMessage demo_attached 0]"
  by (simp add: frames_to_def demo_joined_def HandleJoin_def Let_def snapshot_frames_def create_frames_def transform_frames_def
      delete_frames_def snapshot_paths_def mini_root_stage_def)

subsection \<open>Properties\<close>

text \<open>C5: Clients see the session's versions in order. In every history of a session the \<^verbatim>\<open>server_seq\<close>
  values of the frames sent to a connection never decrease and never exceed the session's current
  version, and the version that the update check takes for the newest one sent to that connection
  is exactly the one of the last frame.\<close>

theorem session_versions_in_order:
  assumes "library_bounded lib" and "session_run lib es (used, s, d)"
  shows "sorted (map msg_server_seq (frames_to c s)) \<and>
    (\<forall>m\<in>set (frames_to c s). msg_server_seq m \<le> server_seq s) \<and>
    sent_to (versions s) c = (if frames_to c s = [] then 0 else msg_server_seq (last (frames_to c s)))"
proof -
  have inv: "seq_inv s" using session_run_inv [OF assms] by (simp add: run_inv_def)
  have last: "fold max qs a = (if qs = [] then a else max a (last qs))" if "sorted (qs :: server_seq list)" for qs a
    using that
  proof (induction qs arbitrary: a)
    case (Cons q qs)
    show ?case
    proof (cases "qs = []")
      case False
      then have "q \<le> last qs" using Cons.prems by simp
      then have "max (max q a) (last qs) = max a (last qs)" by (metis max.absorb2 max.assoc max.commute)
      then show ?thesis using Cons False by simp
    qed (simp add: max.commute)
  qed simp
  show ?thesis
    using inv last [of "seqs_to c s" 0] by (auto simp: seq_inv_def seqs_to_def last_map)
qed

theorem session_versions_in_order_witness:
  "sent_to (versions demo_joined) 1 = msg_server_seq (last (frames_to 1 demo_joined)) \<and> frames_to 1 demo_joined \<noteq> []"
  using session_versions_in_order [OF mini_bounded session_demo_run, of 1] by (simp add: demo_frames)

text \<open>C7: The base check and the frames agree: in every history, an update is rejected as \<^verbatim>\<open>invalid_base\<close>
  exactly when its base is greater than every version sent to the client so far. A client that
  uses the version of any frame it received, or 0, is never rejected for that.\<close>

theorem base_check_matches_frames:
  assumes "library_bounded lib" and "session_run lib es (used, s, d)"
  shows "CheckUpdate (versions s) c p b = InvalidBase \<longleftrightarrow>
    b \<noteq> 0 \<and> (\<forall>m\<in>set (frames_to c s). msg_server_seq m < b)"
proof -
  have inv: "seq_inv s" using session_run_inv [OF assms] by (simp add: run_inv_def)
  have "fold max qs a < b \<longleftrightarrow> a < b \<and> (\<forall>q\<in>set qs. q < b)" for qs and a :: server_seq
    by (induction qs arbitrary: a) auto
  then have "sent_to (versions s) c < b \<longleftrightarrow> 0 < b \<and> (\<forall>q\<in>set (seqs_to c s). q < b)"
    using inv by (simp add: seq_inv_def)
  then show ?thesis
    by (auto simp: sv.check_obs seqs_to_def word_neq_0_conv [symmetric] split: if_splits)
qed

theorem base_check_matches_frames_witness:
  "CheckUpdate (versions demo_joined) 1 ''/World'' 0 \<noteq> InvalidBase \<and> CheckUpdate (versions demo_joined) 1 ''/World'' 1 = InvalidBase"
  using base_check_matches_frames [OF mini_bounded session_demo_run, of 1 "''/World''" 0]
    base_check_matches_frames [OF mini_bounded session_demo_run, of 1 "''/World''" 1] by (simp add: demo_frames)

text \<open>A \<^verbatim>\<open>single_edit\<close> session never has two editors: in every history it has at most one attached
  client; the registry holds no connection twice and never the reserved id 0.\<close>

theorem single_edit_exclusive:
  assumes "library_bounded lib" and "session_run lib es (used, s, d)"
  shows "(mode s = SingleEdit \<longrightarrow> length (clients s) \<le> 1) \<and> distinct (clients s) \<and> 0 \<notin> set (clients s)"
  using session_run_inv [OF assms] by (auto simp: run_inv_def)

theorem single_edit_exclusive_witness: "mode demo_joined = SingleEdit \<and> length (clients demo_joined) \<le> 1"
proof -
  have "mode demo_joined = SingleEdit"
    by (simp add: demo_joined_def HandleJoin_def Let_def) (simp add: demo_attached_def attach_client_def demo_session_def new_session_alt)
  then show ?thesis using single_edit_exclusive [OF mini_bounded session_demo_run] by simp
qed

end
