(* ===== verification/Session_Protocol.thy ===== *)
theory Session_Protocol
  imports Session_Invariant
begin

text \<open>
  What the handlers send, in which order: the broadcasts of a notice, the acknowledgement of every
  request, the join snapshot. The functional results are stated over the sequence of frames that a
  handler appends to \<^term>\<open>sent s\<close>.
\<close>

subsection \<open>What the sending operations keep\<close>

definition view :: "'st Session \<Rightarrow> _" where
  "view s = ((s_id s, usd_file s, stage s, clients s), (current_origin s, listener_registered s,
     create_in_progress s, set_active_in_progress s, reload_in_progress s))"

lemma view_ops [simp]:
  "view (send_binary c m s) = view s" "view (record_sent c q s) = view s"
  "view (record_change p q w s) = view s" "view (s\<lparr>server_seq := q\<rparr>) = view s"
  by (simp_all add: view_def send_binary_def record_sent_def record_change_def)

lemma viewD:
  assumes "view s' = view s"
  shows "s_id s' = s_id s" "usd_file s' = usd_file s" "stage s' = stage s" "clients s' = clients s"
    "current_origin s' = current_origin s" "listener_registered s' = listener_registered s"
    "create_in_progress s' = create_in_progress s" "set_active_in_progress s' = set_active_in_progress s"
    "reload_in_progress s' = reload_in_progress s"
  using assms by (simp_all add: view_def)

lemma Build_view:
  assumes "view s' = view s"
  shows "BuildBroadcastMessage lib s' p q = BuildBroadcastMessage lib s p q"
  by (simp add: BuildBroadcastMessage_def AssembleXformBroadcast_def viewD [OF assms])

lemma send_to_all_effect:
  "sent (send_to_all cs m q s) = sent s @ map (\<lambda>c. (c, m)) cs \<and> view (send_to_all cs m q s) = view s \<and>
   server_seq (send_to_all cs m q s) = server_seq s \<and> dirty (send_to_all cs m q s) = dirty s"
proof (induction cs arbitrary: s)
  case (Cons c cs)
  show ?case using Cons [of "record_sent c q (send_binary c m s)"] by (simp add: send_to_all_def)
qed (simp add: send_to_all_def)

subsection \<open>Broadcasts\<close>

text \<open>The frames of one prim: its resolved transform, to every client but the origin.\<close>

definition broadcast_frames ::
  "('st, 'ly) Library \<Rightarrow> 'st Session \<Rightarrow> ConnectionId \<Rightarrow> server_seq \<Rightarrow> string \<Rightarrow> (ConnectionId \<times> BaseMessage) list" where
  "broadcast_frames lib s origin q p =
     (case BuildBroadcastMessage lib s p q of
        None \<Rightarrow> []
      | Some m \<Rightarrow> map (\<lambda>c. (c, m)) (filter (\<lambda>c. c \<noteq> origin) (clients s)))"

lemma broadcast_frames_view:
  assumes "view s' = view s"
  shows "broadcast_frames lib s' o' q p = broadcast_frames lib s o' q p"
  by (simp add: broadcast_frames_def Build_view [OF assms] viewD [OF assms] split: option.split)

lemma announce_effect:
  "sent (announce lib o' q p s) = sent s @ broadcast_frames lib s o' q p \<and> view (announce lib o' q p s) = view s \<and>
   server_seq (announce lib o' q p s) = server_seq s \<and> dirty (announce lib o' q p s) = dirty s"
proof (cases "stage s")
  case None
  then show ?thesis
    by (simp add: announce_def BroadcastResolvedTransform_def broadcast_frames_def BuildBroadcastMessage_def
        ReadResolvedTransform_def)
next
  case (Some st)
  then show ?thesis
    using send_to_all_effect [of "filter (\<lambda>c. c \<noteq> o') (clients s)" _ q "record_change p q o' s"]
      Build_view [of "record_change p q o' s" s lib p q]
    by (auto simp: announce_def BroadcastResolvedTransform_def broadcast_frames_def split: option.split)
qed

lemma announce_all_effect:
  "sent (fold (announce lib o' q) ps s) = sent s @ concat (map (broadcast_frames lib s o' q) ps) \<and>
   view (fold (announce lib o' q) ps s) = view s \<and> server_seq (fold (announce lib o' q) ps s) = server_seq s \<and>
   dirty (fold (announce lib o' q) ps s) = dirty s"
proof (induction ps arbitrary: s)
  case (Cons p ps)
  note a = announce_effect [of lib o' q p s]
  then have "broadcast_frames lib (announce lib o' q p s) o' q = broadcast_frames lib s o' q"
    using broadcast_frames_view by blast
  then show ?case using Cons [of "announce lib o' q p s"] a by simp
qed simp

lemma masked_view:
  assumes "view s' = view s"
  shows "masked u s' p = masked u s p"
  by (simp add: masked_def viewD [OF assms])

lemma announce_unmasked_effect:
  "sent (fold (\<lambda>p s. if masked u s p then s else announce lib 0 q p s) ps s) =
     sent s @ concat (map (broadcast_frames lib s 0 q) (filter (\<lambda>p. \<not> masked u s p) ps)) \<and>
   view (fold (\<lambda>p s. if masked u s p then s else announce lib 0 q p s) ps s) = view s \<and>
   server_seq (fold (\<lambda>p s. if masked u s p then s else announce lib 0 q p s) ps s) = server_seq s \<and>
   dirty (fold (\<lambda>p s. if masked u s p then s else announce lib 0 q p s) ps s) = dirty s"
proof (induction ps arbitrary: s)
  case (Cons p ps)
  note a = announce_effect [of lib 0 q p s]
  then have "broadcast_frames lib (announce lib 0 q p s) 0 q = broadcast_frames lib s 0 q"
      "masked u (announce lib 0 q p s) = masked u s"
    using broadcast_frames_view masked_view by blast+
  then show ?case using Cons [of "announce lib 0 q p s"] Cons [of s] a by simp
qed simp

lemma next_seq_view: "next_seq s = (q, s') \<Longrightarrow> view s' = view s \<and> sent s' = sent s \<and> q = server_seq s + 1 \<and> server_seq s' = q \<and> dirty s' = dirty s"
  by (auto simp: next_seq_def)

text \<open>The affected prims of a notice and the origin the listener reports them under.\<close>

definition announced_prims :: "('st, 'ly) Library \<Rightarrow> 'st Session \<Rightarrow> notice \<Rightarrow> string list" where
  "announced_prims lib s n =
     (if create_in_progress s \<or> set_active_in_progress s then []
      else if reload_in_progress s then filter (\<lambda>p. \<not> masked (usd lib) s p) (reload_prims (usd lib) n)
      else affected_prims (usd lib) n)"

definition announced_origin :: "'st Session \<Rightarrow> ConnectionId" where
  "announced_origin s = (if reload_in_progress s then 0 else current_origin s)"

lemma OnObjectsChanged_effect:
  "sent (OnObjectsChanged lib n s) = sent s @
     concat (map (broadcast_frames lib s (announced_origin s) (server_seq s + 1)) (announced_prims lib s n)) \<and>
   view (OnObjectsChanged lib n s) = view s \<and> dirty (OnObjectsChanged lib n s) = dirty s"
proof -
  obtain q s1 where q: "next_seq s = (q, s1)" by fastforce
  note v = next_seq_view [OF q]
  have b: "broadcast_frames lib s1 = broadcast_frames lib s" "masked (usd lib) s1 = masked (usd lib) s"
    using v broadcast_frames_view masked_view by blast+
  show ?thesis
    using announce_all_effect [of lib "current_origin s" q "affected_prims (usd lib) n" s1]
      announce_unmasked_effect [of "usd lib" lib q "reload_prims (usd lib) n" s1] v
    by (auto simp: OnObjectsChanged_def Let_def q announced_prims_def announced_origin_def b)
qed

lemma announced_view:
  assumes "view s' = view s"
  shows "announced_prims lib s' n = announced_prims lib s n \<and> announced_origin s' = announced_origin s"
  by (simp add: announced_prims_def announced_origin_def masked_view [OF assms] viewD [OF assms])

lemma deliver_effect:
  assumes "\<not> create_in_progress s" "\<not> set_active_in_progress s"
  shows "\<exists>pre. sent (deliver lib ns s) = sent s @ pre \<and> view (deliver lib ns s) = view s \<and> dirty (deliver lib ns s) = dirty s \<and>
    (\<forall>f\<in>set pre. fst f \<noteq> announced_origin s \<and> \<not> is_ack (snd f))"
proof (cases "listener_registered s")
  case True
  have "\<exists>pre. sent (fold (OnObjectsChanged lib) ns s) = sent s @ pre \<and> view (fold (OnObjectsChanged lib) ns s) = view s \<and>
      dirty (fold (OnObjectsChanged lib) ns s) = dirty s \<and> (\<forall>f\<in>set pre. fst f \<noteq> announced_origin s \<and> \<not> is_ack (snd f))"
  proof (induction ns arbitrary: s)
    case (Cons n ns)
    note oc = OnObjectsChanged_effect [of lib n s]
    let ?f = "concat (map (broadcast_frames lib s (announced_origin s) (server_seq s + 1)) (announced_prims lib s n))"
    have f: "fst f \<noteq> announced_origin s \<and> \<not> is_ack (snd f)" if "f \<in> set ?f" for f
      using that by (auto simp: broadcast_frames_def BuildBroadcastMessage_def AssembleXformBroadcast_def is_ack_def
          split: option.splits)
    from Cons [of "OnObjectsChanged lib n s"] obtain pre where
      p: "sent (fold (OnObjectsChanged lib) (n # ns) s) = sent s @ ?f @ pre"
        "view (fold (OnObjectsChanged lib) (n # ns) s) = view s" "dirty (fold (OnObjectsChanged lib) (n # ns) s) = dirty s"
        "\<forall>f\<in>set pre. fst f \<noteq> announced_origin s \<and> \<not> is_ack (snd f)"
      using oc announced_view [of "OnObjectsChanged lib n s" s lib n] by auto
    then show ?case using f by (intro exI [of _ "?f @ pre"]) auto
  qed simp
  then show ?thesis using True by (simp add: deliver_def)
qed (simp add: deliver_def)

subsection \<open>Acknowledgements\<close>

lemma SendAck_effect:
  assumes "c \<noteq> 0" "c \<in> set (clients s)"
  shows "sent (SendAck s c r ok e) = sent s @ [(c, SerializeAck s r (server_seq s) ok e)] \<and>
    view (SendAck s c r ok e) = view s \<and> server_seq (SendAck s c r ok e) = server_seq s \<and>
    dirty (SendAck s c r ok e) = dirty s"
  using assms by (simp add: SendAck_def SendToConnection_def Let_def)

lemma SendCorrection_effect:
  "\<exists>post. sent (SendCorrection lib s c p) = sent s @ post \<and> length post \<le> 1 \<and> stage (SendCorrection lib s c p) = stage s \<and>
    dirty (SendCorrection lib s c p) = dirty s \<and>
    (\<forall>f\<in>set post. fst f = c \<and> \<not> is_ack (snd f) \<and> msg_server_seq (snd f) = server_seq s + 1)"
proof (cases "\<exists>st. stage s = Some st \<and> c \<noteq> 0 \<and> c \<in> set (clients s) \<and>
    (is_inactive (usd lib) st p \<or> BuildBroadcastMessage lib s p 0 \<noteq> None)")
  case True
  then show ?thesis
    by (auto simp: SendCorrection_def next_seq_def BuildBroadcastMessage_def AssembleXformBroadcast_def
        SerializeSetPrimActiveBroadcast_def is_ack_def)
next
  case False
  then have "SendCorrection lib s c p = s" by (auto simp: SendCorrection_def next_seq_def split: option.splits)
  then show ?thesis by simp
qed

lemma ack_not_other [simp]: "is_ack (SerializeAck s r q ok e)"
  by (simp add: is_ack_def SerializeAck_def)

text \<open>C1: Every transform update that reaches the consumer is answered by exactly one acknowledgement. For a
  connected sender the frames a handler appends are: the broadcasts of the change, to everybody
  but the sender; then the acknowledgement, with the sender's request id; then at most one
  correction, to the sender, and only when the update failed. A stale update or one with an
  invalid base is answered at once, with nothing broadcast, the stage untouched and no new version;
  otherwise the acknowledgement reports whether the update was applied.\<close>

theorem transform_acknowledged:
  assumes "tc_origin c \<noteq> 0" and "tc_origin c \<in> set (clients s)" and "\<not> create_in_progress s"
    and "\<not> set_active_in_progress s" and "\<not> reload_in_progress s"
  shows "\<exists>pre q ok err post.
    sent (HandleTransform lib c s) = sent s @ pre @ [(tc_origin c, SerializeAck s (tc_request_id c) q ok err)] @ post \<and>
    (\<forall>f\<in>set pre. fst f \<noteq> tc_origin c \<and> \<not> is_ack (snd f)) \<and>
    (\<forall>f\<in>set post. fst f = tc_origin c \<and> \<not> is_ack (snd f)) \<and> length post \<le> 1 \<and> (ok \<longrightarrow> post = []) \<and>
    (case CheckUpdate (versions s) (tc_origin c) (upd_prim_path (tc_update c)) (tc_base_seq c) of
       Current \<Rightarrow> ok = fst (TransformDispatcher_Apply (usd lib) (stage s) (tc_update c)) \<and> err = ''apply_failed'' \<and>
         (ok \<longrightarrow> dirty (HandleTransform lib c s))
     | Stale \<Rightarrow> \<not> ok \<and> err = ''stale'' \<and> pre = [] \<and> post = [] \<and> view (HandleTransform lib c s) = view s \<and>
         server_seq (HandleTransform lib c s) = server_seq s
     | InvalidBase \<Rightarrow> \<not> ok \<and> err = ''invalid_base'' \<and> pre = [] \<and> post = [] \<and> view (HandleTransform lib c s) = view s \<and>
         server_seq (HandleTransform lib c s) = server_seq s)"
proof (cases "CheckUpdate (versions s) (tc_origin c) (upd_prim_path (tc_update c)) (tc_base_seq c) = Current")
  case False
  then show ?thesis
    using SendAck_effect [OF assms(1,2), of "tc_request_id c" False]
    by (cases "CheckUpdate (versions s) (tc_origin c) (upd_prim_path (tc_update c)) (tc_base_seq c)")
      (auto simp: HandleTransform_def Let_def)
next
  case True
  obtain ok ns st' where a: "TransformDispatcher_Apply (usd lib) (stage s) (tc_update c) = (ok, ns, st')"
    by (metis prod_cases3)
  let ?s0 = "s\<lparr>current_origin := tc_origin c, stage := st'\<rparr>"
  obtain pre where pre: "sent (deliver lib ns ?s0) = sent s @ pre" "view (deliver lib ns ?s0) = view ?s0"
      "\<forall>f\<in>set pre. fst f \<noteq> tc_origin c \<and> \<not> is_ack (snd f)"
    using deliver_effect [of ?s0 lib ns] assms(3-5) by (auto simp: announced_origin_def)
  let ?s3 = "if ok then (deliver lib ns ?s0)\<lparr>current_origin := 0, dirty := True\<rparr> else (deliver lib ns ?s0)\<lparr>current_origin := 0\<rparr>"
  let ?s4 = "SendAck ?s3 (tc_origin c) (tc_request_id c) ok ''apply_failed''"
  have s3: "clients ?s3 = clients s" "s_id ?s3 = s_id s" "sent ?s3 = sent s @ pre"
    using viewD [OF pre(2)] pre(1) by simp_all
  have ack: "sent ?s4 = sent s @ pre @ [(tc_origin c, SerializeAck s (tc_request_id c) (server_seq ?s3) ok ''apply_failed'')]"
    "dirty ?s4 = dirty ?s3"
    using SendAck_effect [OF assms(1), of ?s3] assms(2) s3 by (simp_all add: SerializeAck_def)
  obtain post where post: "sent (SendCorrection lib ?s4 (tc_origin c) (upd_prim_path (tc_update c))) = sent ?s4 @ post"
      "length post \<le> 1" "\<forall>f\<in>set post. fst f = tc_origin c \<and> \<not> is_ack (snd f)"
    using SendCorrection_effect [of lib ?s4 "tc_origin c" "upd_prim_path (tc_update c)"] by blast
  have h: "HandleTransform lib c s = (if ok then ?s4 else SendCorrection lib ?s4 (tc_origin c) (upd_prim_path (tc_update c)))"
    using True a by (simp add: HandleTransform_def Let_def)
  show ?thesis
    by (rule exI [of _ pre], rule exI [of _ "server_seq ?s3"], rule exI [of _ ok], rule exI [of _ "''apply_failed''"],
        rule exI [of _ "if ok then [] else post"]) (use True a h ack post pre(3) in \<open>auto split: if_splits\<close>)
qed

definition demo_update :: TransformCommand where
  "demo_update = \<lparr>tc_update = \<lparr>upd_session_id = ''s1'', upd_usd_file = ''a.usda'', upd_prim_path = ''/World'',
       upd_transform = kMatrix (matrix_to_proto [[1,0,0,0],[0,1,0,0],[0,0,1,0],[0,0,0,1]]), upd_timestamp = 0\<rparr>,
     tc_origin = 1, tc_request_id = 7, tc_base_seq = 0\<rparr>"

theorem transform_acknowledged_witness:
  "\<exists>pre q ok err post. sent (HandleTransform mini_lib demo_update demo_attached) =
     pre @ [(1, SerializeAck demo_attached 7 q ok err)] @ post \<and> (\<forall>f\<in>set pre. fst f \<noteq> 1) \<and> length post \<le> 1"
proof -
  have pre: "tc_origin demo_update \<noteq> 0" "tc_origin demo_update \<in> set (clients demo_attached)"
    "\<not> create_in_progress demo_attached" "\<not> set_active_in_progress demo_attached" "\<not> reload_in_progress demo_attached"
    by (simp_all add: demo_update_def)
  have "tc_origin demo_update = 1" "tc_request_id demo_update = 7" by (simp_all add: demo_update_def)
  then show ?thesis using transform_acknowledged [OF pre, of mini_lib] by (metis append_Nil demo_attached_fields(4))
qed

lemma deliver_suppressed: "create_in_progress s \<or> set_active_in_progress s \<Longrightarrow> deliver lib ns s = s"
proof -
  assume "create_in_progress s \<or> set_active_in_progress s"
  then have "OnObjectsChanged lib n s = s" for n by (auto simp: OnObjectsChanged_def Let_def)
  then have "fold (OnObjectsChanged lib) ns s = s" by (induction ns) simp_all
  then show ?thesis by (simp add: deliver_def)
qed

lemma announced_then_acked:
  assumes "c \<noteq> 0" "c \<in> set (clients s)" "next_seq s = (q, s3)" "s4 = record_change p q w s3"
  shows "sent (SendAck (BroadcastToAll s4 m q) c r ok e) =
    sent s @ map (\<lambda>x. (x, m)) (clients s) @ [(c, SerializeAck s r (server_seq s + 1) ok e)] \<and>
    server_seq (SendAck (BroadcastToAll s4 m q) c r ok e) = server_seq s + 1 \<and>
    view (SendAck (BroadcastToAll s4 m q) c r ok e) = view s \<and>
    dirty (SendAck (BroadcastToAll s4 m q) c r ok e) = dirty s"
proof -
  note v = next_seq_view [OF assms(3)]
  have s4: "view s4 = view s" "sent s4 = sent s" "server_seq s4 = server_seq s + 1" "dirty s4 = dirty s"
    using v assms(4) by simp_all
  note b = send_to_all_effect [of "clients s4" m q s4, folded BroadcastToAll_def]
  have vb: "view (BroadcastToAll s4 m q) = view s" using b s4(1) by simp
  note ack = SendAck_effect [of c "BroadcastToAll s4 m q" r ok e]
  show ?thesis
    using ack assms(1,2) b s4 vb viewD [OF vb] viewD [OF s4(1)] by (simp add: SerializeAck_def)
qed

text \<open>A request to create a prim is answered by exactly one acknowledgement. On success the creation is
  one new version, broadcast once to every client, the sender included, and acknowledged after
  that under the same version; on failure nothing is broadcast and no version is issued, whatever
  notices the authoring caused.\<close>

theorem create_acknowledged:
  assumes "cc_origin c \<noteq> 0" and "cc_origin c \<in> set (clients s)" and "stage s \<noteq> None"
    and "HandleCreatePrim lib c s = Some s'"
  shows "\<exists>created ns st'. PrimDispatcher_Create (usd lib) (stage s) (cc_parent_path c) (cc_type c) = Some (created, ns, st') \<and>
    stage s' = st' \<and>
    (case created of
       None \<Rightarrow> sent s' = sent s @ [(cc_origin c, SerializeAck s (cc_request_id c) (server_seq s) False ''invalid_parent'')] \<and>
         server_seq s' = server_seq s \<and> dirty s' = dirty s
     | Some prim \<Rightarrow>
         sent s' = sent s @ map (\<lambda>x. (x, SerializeCreatePrimBroadcast s (cc_parent_path c) (cc_type c) prim (server_seq s + 1))) (clients s) @
           [(cc_origin c, SerializeAck s (cc_request_id c) (server_seq s + 1) True [])] \<and>
         server_seq s' = server_seq s + 1 \<and> dirty s')"
proof -
  obtain created ns st' where
    a: "PrimDispatcher_Create (usd lib) (stage s) (cc_parent_path c) (cc_type c) = Some (created, ns, st')"
    using assms(3,4) by (auto simp: HandleCreatePrim_def split: option.splits)
  let ?s1 = "s\<lparr>current_origin := cc_origin c, create_in_progress := True, stage := st'\<rparr>"
  let ?s2 = "?s1\<lparr>create_in_progress := False, current_origin := 0\<rparr>"
  have d: "deliver lib ns ?s1 = ?s1" by (rule deliver_suppressed) simp
  show ?thesis
  proof (cases created)
    case None
    then have "s' = SendAck ?s2 (cc_origin c) (cc_request_id c) False ''invalid_parent''"
      using assms(3,4) a d by (auto simp: HandleCreatePrim_def Let_def)
    then show ?thesis
      using SendAck_effect [of "cc_origin c" ?s2 "cc_request_id c" False "''invalid_parent''"] assms(1,2) a None
      by (auto simp: SerializeAck_def dest: viewD(3))
  next
    case (Some prim)
    obtain q s3 where q: "next_seq (?s2\<lparr>dirty := True\<rparr>) = (q, s3)" by fastforce
    let ?s4 = "record_change (cp_path prim) q (cc_origin c) s3"
    have s': "s' = SendAck (BroadcastToAll ?s4 (SerializeCreatePrimBroadcast ?s4 (cc_parent_path c) (cc_type c) prim q) q)
        (cc_origin c) (cc_request_id c) True []"
      using assms(3,4) a d q Some by (auto simp: HandleCreatePrim_def Let_def)
    have m: "SerializeCreatePrimBroadcast ?s4 (cc_parent_path c) (cc_type c) prim q =
        SerializeCreatePrimBroadcast s (cc_parent_path c) (cc_type c) prim (server_seq s + 1)"
      using next_seq_view [OF q] by (auto simp: SerializeCreatePrimBroadcast_def dest: viewD(1))
    note e = announced_then_acked [OF assms(1) _ q refl, of "cp_path prim" "cc_origin c"
        "SerializeCreatePrimBroadcast s (cc_parent_path c) (cc_type c) prim (server_seq s + 1)" "cc_request_id c" True "[]"]
    show ?thesis
      using e assms(2) a Some unfolding s' m by (auto simp: SerializeAck_def dest: viewD(3))
  qed
qed

theorem create_acknowledged_witness:
  "\<exists>s'. HandleCreatePrim mini_lib \<lparr>cc_parent_path = ''/'', cc_type = PRIM_TYPE_CUBE, cc_origin = 1, cc_request_id = 3\<rparr> demo_attached = Some s' \<and>
     server_seq s' = 1 \<and> length (sent s') = 2"
proof -
  let ?c = "\<lparr>cc_parent_path = ''/'', cc_type = PRIM_TYPE_CUBE, cc_origin = 1, cc_request_id = 3\<rparr>"
  have u: "UniqueChildPath mini_usd mini_root_stage ''/'' ''Cube'' = Some (''Cube'', ''/Cube'')"
    by (simp add: UniqueChildPath_def Let_def child_search.simps mini_prim_def mini_root_stage_def)
  have c: "\<exists>p ns st'. PrimDispatcher_Create mini_usd (Some mini_root_stage) ''/'' PRIM_TYPE_CUBE = Some (Some p, ns, st')"
    using u by (simp add: PrimDispatcher_Create_def creation_refused_def BaseNameFor_def mini_type_name_def root_path_def
        mini_prim_def mini_root_stage_def ms_spec_def empty_spec_def IsGprimType_def AuthorPrim_def or_false_def)
  then obtain s' where s': "HandleCreatePrim mini_lib ?c demo_attached = Some s'"
    by (auto simp: HandleCreatePrim_def Let_def next_seq_def)
  have "cc_origin ?c \<noteq> 0" "cc_origin ?c \<in> set (clients demo_attached)" "stage demo_attached \<noteq> None" by simp_all
  from create_acknowledged [OF this s'] c s' show ?thesis by auto
qed

text \<open>The answer to each outcome of a soft delete or its undo.\<close>

fun set_active_answer :: "SetActiveStatus \<Rightarrow> bool \<times> string" where
  "set_active_answer SetActiveOk = (True, [])"
| "set_active_answer AlreadyInState = (True, [])"
| "set_active_answer SetActiveInvalidPath = (False, ''unknown_prim'')"
| "set_active_answer SetActiveNotFound = (False, ''unknown_prim'')"
| "set_active_answer NotDeletable = (False, ''not_deletable'')"
| "set_active_answer SetActiveFailed = (False, ''apply_failed'')"

text \<open>A soft delete or undo is answered by exactly one acknowledgement, with the answer that belongs to
  its outcome. Only a change of the flag is announced: it is one new version, broadcast once to
  every client before the acknowledgement, and is marked for saving. A request that finds the prim
  already in the requested state is acknowledged without a broadcast or a version.\<close>

theorem set_active_acknowledged:
  assumes "ac_origin c \<noteq> 0" and "ac_origin c \<in> set (clients s)" and "stage s \<noteq> None"
    and "PrimDispatcher_SetActive (usd lib) (stage s) (ac_prim_path c) (ac_active c) = (status, ns, st')"
  shows "stage (HandleSetPrimActive lib c s) = st' \<and>
    (if status = SetActiveOk
     then sent (HandleSetPrimActive lib c s) = sent s @
            map (\<lambda>x. (x, SerializeSetPrimActiveBroadcast s (ac_prim_path c) (ac_active c) (server_seq s + 1))) (clients s) @
            [(ac_origin c, SerializeAck s (ac_request_id c) (server_seq s + 1) True [])] \<and>
          server_seq (HandleSetPrimActive lib c s) = server_seq s + 1 \<and> dirty (HandleSetPrimActive lib c s)
     else sent (HandleSetPrimActive lib c s) = sent s @
            [(ac_origin c, SerializeAck s (ac_request_id c) (server_seq s) (fst (set_active_answer status)) (snd (set_active_answer status)))] \<and>
          server_seq (HandleSetPrimActive lib c s) = server_seq s \<and> dirty (HandleSetPrimActive lib c s) = dirty s)"
proof -
  let ?s1 = "s\<lparr>current_origin := ac_origin c, set_active_in_progress := True, stage := st'\<rparr>"
  let ?s2 = "?s1\<lparr>set_active_in_progress := False, current_origin := 0\<rparr>"
  have d: "deliver lib ns ?s1 = ?s1" by (rule deliver_suppressed) simp
  show ?thesis
  proof (cases "status = SetActiveOk")
    case False
    then have "HandleSetPrimActive lib c s =
        SendAck ?s2 (ac_origin c) (ac_request_id c) (fst (set_active_answer status)) (snd (set_active_answer status))"
      using assms(3,4) d by (cases status) (auto simp: HandleSetPrimActive_def Let_def)
    then show ?thesis
      using SendAck_effect [of "ac_origin c" ?s2 "ac_request_id c" "fst (set_active_answer status)" "snd (set_active_answer status)"]
        assms(1,2) False
      by (auto simp: SerializeAck_def dest: viewD(3))
  next
    case True
    obtain q s3 where q: "next_seq (?s2\<lparr>dirty := True\<rparr>) = (q, s3)" by fastforce
    let ?s4 = "record_change (ac_prim_path c) q (ac_origin c) s3"
    have h: "HandleSetPrimActive lib c s = SendAck (BroadcastToAll ?s4 (SerializeSetPrimActiveBroadcast ?s4 (ac_prim_path c) (ac_active c) q) q)
        (ac_origin c) (ac_request_id c) True []"
      using assms(3,4) d q True by (auto simp: HandleSetPrimActive_def Let_def)
    have m: "SerializeSetPrimActiveBroadcast ?s4 (ac_prim_path c) (ac_active c) q =
        SerializeSetPrimActiveBroadcast s (ac_prim_path c) (ac_active c) (server_seq s + 1)"
      using next_seq_view [OF q] by (auto simp: SerializeSetPrimActiveBroadcast_def dest: viewD(1))
    note e = announced_then_acked [OF assms(1) _ q refl, of "ac_prim_path c" "ac_origin c"
        "SerializeSetPrimActiveBroadcast s (ac_prim_path c) (ac_active c) (server_seq s + 1)" "ac_request_id c" True "[]"]
    show ?thesis
      using e assms(2) True unfolding h m by (auto simp: SerializeAck_def dest: viewD(3))
  qed
qed

theorem set_active_acknowledged_witness:
  "length (sent (HandleSetPrimActive mini_lib \<lparr>ac_prim_path = ''/World'', ac_active = False, ac_origin = 1, ac_request_id = 4\<rparr> demo_attached)) = 2"
proof -
  let ?c = "\<lparr>ac_prim_path = ''/World'', ac_active = False, ac_origin = 1, ac_request_id = 4\<rparr>"
  obtain ns st' where "PrimDispatcher_SetActive (usd mini_lib) (stage demo_attached) (ac_prim_path ?c) (ac_active ?c) = (SetActiveOk, ns, st')"
    by (simp add: PrimDispatcher_SetActive_def mini_prim_def mini_root_stage_def ms_spec_def empty_spec_def IsLocallyDeletable_def or_false_def)
  from set_active_acknowledged [OF _ _ _ this] show ?thesis by simp
qed

subsection \<open>The join snapshot\<close>

text \<open>A late joiner: the prims it knows (at first those of the file it fetched), the transforms and the
  inactive prims it was told about. A frame about a parent or prim it does not know is an error.\<close>

record replica =
  known :: "string set"
  moved :: "string \<rightharpoonup> transform_case"
  inactive :: "string set"

definition replay :: "'st Usd \<Rightarrow> BaseMessage \<Rightarrow> replica \<Rightarrow> replica option" where
  "replay u m r =
     (case message_case m of
        kCreatePrimBroadcast b \<Rightarrow>
          if cb_parent_path b = ''/'' \<or> cb_parent_path b \<in> known r
          then Some (r\<lparr>known := insert (AppendChild u (cb_parent_path b) (cb_prim_name b)) (known r)\<rparr>) else None
      | kXformBroadcast _ t \<Rightarrow>
          if upd_prim_path t \<in> known r then Some (r\<lparr>moved := (moved r)(upd_prim_path t \<mapsto> upd_transform t)\<rparr>) else None
      | kSetPrimActiveBroadcast p a \<Rightarrow>
          if p \<in> known r then Some (r\<lparr>inactive := (if a then inactive r - {p} else insert p (inactive r))\<rparr>) else None
      | kSnapshotComplete \<Rightarrow> Some r
      | _ \<Rightarrow> None)"

fun replay_all :: "'st Usd \<Rightarrow> BaseMessage list \<Rightarrow> replica \<Rightarrow> replica option" where
  "replay_all u [] r = Some r"
| "replay_all u (m # ms) r = (case replay u m r of None \<Rightarrow> None | Some r' \<Rightarrow> replay_all u ms r')"

lemma replay_append: "replay_all u (xs @ ys) r = (case replay_all u xs r of None \<Rightarrow> None | Some r' \<Rightarrow> replay_all u ys r')"
  by (induction xs arbitrary: r) (auto split: option.split)

definition creates :: "SdfLayer \<Rightarrow> SdfPath \<Rightarrow> bool" where
  "creates l p \<longleftrightarrow> (\<exists>spec. layer_prims l p = Some spec \<and> spec_specifier spec = SdfSpecifierDef \<and>
     TypeFromName (spec_type_name spec) \<noteq> PRIM_TYPE_UNSPECIFIED)"

definition deletes :: "SdfLayer \<Rightarrow> SdfPath \<Rightarrow> bool" where
  "deletes l p \<longleftrightarrow> (\<exists>spec. layer_prims l p = Some spec \<and> spec_active spec = Some False)"

definition moves :: "SdfLayer \<Rightarrow> SdfPath \<Rightarrow> transform_case option" where
  "moves l p = (case layer_prims l p of None \<Rightarrow> None | Some spec \<Rightarrow> ReadAuthoredLocalTransform spec)"

text \<open>The documented behaviour of paths: a path is its parent with its name appended, the parent is one
  element shorter, and an ordered set of paths holds the paths inserted into it.\<close>

definition path_laws :: "'st Usd \<Rightarrow> (SdfPath \<Rightarrow> bool) \<Rightarrow> bool" where
  "path_laws u is_prim \<longleftrightarrow>
     (\<forall>p. is_prim p \<longrightarrow> AppendChild u (GetParentPath u p) (GetName u p) = p \<and>
        GetPathElementCount u (GetParentPath u p) < GetPathElementCount u p) \<and>
     (\<forall>ps. set (path_order u ps) = set ps)"

definition create_frame :: "'st Usd \<Rightarrow> 'st Session \<Rightarrow> SdfLayer \<Rightarrow> server_seq \<Rightarrow> SdfPath \<Rightarrow> nat \<times> BaseMessage" where
  "create_frame u s l q p =
     (let type = TypeFromName (spec_type_name (the (layer_prims l p)))
      in (GetPathElementCount u p, SerializeCreatePrimBroadcast s (GetParentPath u p) type
            (ReadSchemaDefaults u type (empty_CreatedPrim\<lparr>cp_name := GetName u p, cp_path := p\<rparr>)) q))"

lemma create_frames_alt: "create_frames u s l q = map (create_frame u s l q) (filter (creates l) (snapshot_paths u l))"
proof -
  have one: "(case layer_prims l p of None \<Rightarrow> [] | Some spec \<Rightarrow>
       let type = TypeFromName (spec_type_name spec)
       in if spec_specifier spec \<noteq> SdfSpecifierDef \<or> type = PRIM_TYPE_UNSPECIFIED then []
          else [(GetPathElementCount u p, SerializeCreatePrimBroadcast s (GetParentPath u p) type
                  (ReadSchemaDefaults u type (empty_CreatedPrim\<lparr>cp_name := GetName u p, cp_path := p\<rparr>)) q)]) =
      (if creates l p then [create_frame u s l q p] else [])" for p
    by (auto simp: creates_def create_frame_def Let_def split: option.split)
  have "concat (map (\<lambda>p. if creates l p then [create_frame u s l q p] else []) ps) =
      map (create_frame u s l q) (filter (creates l) ps)" for ps
    by (induction ps) simp_all
  then show ?thesis unfolding create_frames_def one .
qed

lemma name_kept: "cp_name (ReadSchemaDefaults u t (empty_CreatedPrim\<lparr>cp_name := n, cp_path := p\<rparr>)) = n"
  by (simp add: ReadSchemaDefaults_def Let_def empty_CreatedPrim_def split: PrimType.split)

lemma replay_create:
  assumes "AppendChild u (GetParentPath u p) (GetName u p) = p"
  shows "replay u (snd (create_frame u s l q p)) r =
    (if GetParentPath u p = ''/'' \<or> GetParentPath u p \<in> known r then Some (r\<lparr>known := insert p (known r)\<rparr>) else None)"
  using assms by (simp add: replay_def create_frame_def SerializeCreatePrimBroadcast_def name_kept Let_def)

text \<open>Creations in the order of their depth find their parents.\<close>

lemma replay_creations:
  fixes depth :: "SdfPath \<Rightarrow> nat"
  assumes "\<And>p r. p \<in> set ps \<Longrightarrow> replay u (frame p) r =
      (if par p = ''/'' \<or> par p \<in> known r then Some (r\<lparr>known := insert p (known r)\<rparr>) else None)"
    and "sorted (map depth ps)" and "\<And>p. p \<in> set ps \<Longrightarrow> depth (par p) < depth p"
    and "\<And>p. p \<in> set ps \<Longrightarrow> par p = ''/'' \<or> par p \<in> known r \<or> par p \<in> set ps"
  shows "replay_all u (map frame ps) r = Some (r\<lparr>known := known r \<union> set ps\<rparr>)"
  using assms
proof (induction ps rule: rev_induct)
  case (snoc p ps)
  have earlier: "par x = ''/'' \<or> par x \<in> known r \<or> par x \<in> set ps" if "x \<in> set (ps @ [p])" for x
  proof -
    have "depth x \<le> depth p" using snoc.prems(2) that by (auto simp: sorted_append)
    then have "par x \<noteq> p" using snoc.prems(3) [OF that] by auto
    then show ?thesis using snoc.prems(4) [OF that] by auto
  qed
  have "replay_all u (map frame ps) r = Some (r\<lparr>known := known r \<union> set ps\<rparr>)"
    using snoc.prems(2) by (intro snoc.IH) (use snoc.prems(1,3) earlier in \<open>auto simp: sorted_append\<close>)
  then show ?case
    using snoc.prems(1) [of p] earlier [of p] by (auto simp: replay_append split: option.split)
qed simp

lemma replay_transforms:
  assumes "\<And>p. p \<in> set ps \<Longrightarrow> moves l p \<noteq> None \<Longrightarrow> p \<in> known r"
  shows "replay_all u (concat (map (\<lambda>p. case layer_prims l p of None \<Rightarrow> [] | Some spec \<Rightarrow>
      (case ReadAuthoredLocalTransform spec of None \<Rightarrow> [] | Some t \<Rightarrow> [AssembleXformBroadcast lib s p t q])) ps)) r =
    Some (r\<lparr>moved := \<lambda>p. if p \<in> set ps \<and> moves l p \<noteq> None then moves l p else moved r p\<rparr>)"
  using assms
proof (induction ps arbitrary: r)
  case (Cons p ps)
  show ?case
  proof (cases "moves l p")
    case None
    then have "(case layer_prims l p of None \<Rightarrow> [] | Some spec \<Rightarrow>
        (case ReadAuthoredLocalTransform spec of None \<Rightarrow> [] | Some t \<Rightarrow> [AssembleXformBroadcast lib s p t q])) = []"
      by (auto simp: moves_def split: option.splits)
    moreover have "(\<lambda>x. if x \<in> set (p # ps) \<and> moves l x \<noteq> None then moves l x else moved r x) =
        (\<lambda>x. if x \<in> set ps \<and> moves l x \<noteq> None then moves l x else moved r x)"
      using None by (intro ext) auto
    ultimately show ?thesis using Cons.IH [of r] Cons.prems by (simp only: list.map concat.simps append_Nil) simp
  next
    case (Some t)
    then obtain spec where sp: "layer_prims l p = Some spec" "ReadAuthoredLocalTransform spec = Some t"
      by (auto simp: moves_def split: option.splits)
    have "p \<in> known r" using Cons.prems Some by simp
    then have step: "replay u (AssembleXformBroadcast lib s p t q) r = Some (r\<lparr>moved := (moved r)(p \<mapsto> t)\<rparr>)"
      by (simp add: replay_def AssembleXformBroadcast_def)
    show ?thesis
      using Cons.IH [of "r\<lparr>moved := (moved r)(p \<mapsto> t)\<rparr>"] Cons.prems Some
      by (auto simp: sp step fun_eq_iff intro!: arg_cong [of _ _ "\<lambda>f. r\<lparr>moved := f\<rparr>"])
  qed
qed simp

lemma replay_deletes:
  assumes "\<And>p. p \<in> set ps \<Longrightarrow> deletes l p \<Longrightarrow> p \<in> known r"
  shows "replay_all u (concat (map (\<lambda>p. case layer_prims l p of None \<Rightarrow> [] | Some spec \<Rightarrow>
      if spec_active spec = Some False then [SerializeSetPrimActiveBroadcast s p False q] else []) ps)) r =
    Some (r\<lparr>inactive := inactive r \<union> {p \<in> set ps. deletes l p}\<rparr>)"
  using assms
proof (induction ps arbitrary: r)
  case (Cons p ps)
  show ?case
  proof (cases "deletes l p")
    case False
    then show ?thesis
      using Cons.IH [of r] Cons.prems
      by (auto simp: deletes_def intro!: arg_cong [of _ _ "\<lambda>f. r\<lparr>inactive := f\<rparr>"] split: option.splits)
  next
    case True
    then obtain spec where sp: "layer_prims l p = Some spec" "spec_active spec = Some False" by (auto simp: deletes_def)
    have "p \<in> known r" using Cons.prems True by simp
    then have step: "replay u (SerializeSetPrimActiveBroadcast s p False q) r = Some (r\<lparr>inactive := insert p (inactive r)\<rparr>)"
      by (simp add: replay_def SerializeSetPrimActiveBroadcast_def)
    show ?thesis
      using Cons.IH [of "r\<lparr>inactive := insert p (inactive r)\<rparr>"] Cons.prems True
      by (auto simp: sp step intro!: arg_cong [of _ _ "\<lambda>f. r\<lparr>inactive := f\<rparr>"])
  qed
qed simp

lemma insort_key_map: "insort_key k (f x) (map f ys) = map f (insort_key (\<lambda>x. k (f x)) x ys)"
  by (induction ys) simp_all

lemma sort_key_map: "sort_key k (map f xs) = map f (sort_key (\<lambda>x. k (f x)) xs)"
  by (induction xs) (simp_all add: insort_key_map)

text \<open>The three phases of the snapshot, for the paths \<open>P\<close> of the session layer.\<close>

lemma snapshot_creations:
  assumes "path_laws u (creates l)" and "P = set (snapshot_paths u l)"
    and "\<forall>p\<in>P. creates l p \<longrightarrow> GetParentPath u p = ''/'' \<or> GetParentPath u p \<in> known r \<or>
           (GetParentPath u p \<in> P \<and> creates l (GetParentPath u p))"
  shows "replay_all u (map snd (sort_key fst (create_frames u s l q))) r =
    Some (r\<lparr>known := known r \<union> {p \<in> P. creates l p}\<rparr>)"
proof -
  let ?cps = "sort_key (GetPathElementCount u) (filter (creates l) (snapshot_paths u l))"
  have "fst (create_frame u s l q p) = GetPathElementCount u p" for p by (simp add: create_frame_def Let_def)
  then have sorted: "map snd (sort_key fst (create_frames u s l q)) = map (\<lambda>p. snd (create_frame u s l q p)) ?cps"
    by (simp add: create_frames_alt sort_key_map)
  have cset: "set ?cps = {p \<in> P. creates l p}" using assms(2) by auto
  have "replay_all u (map (\<lambda>p. snd (create_frame u s l q p)) ?cps) r = Some (r\<lparr>known := known r \<union> set ?cps\<rparr>)"
  proof (rule replay_creations [where par = "GetParentPath u" and depth = "GetPathElementCount u"])
    show "replay u (snd (create_frame u s l q p)) r' = (if GetParentPath u p = ''/'' \<or> GetParentPath u p \<in> known r'
        then Some (r'\<lparr>known := insert p (known r')\<rparr>) else None)" if "p \<in> set ?cps" for p r'
      using assms(1) that by (intro replay_create) (auto simp: path_laws_def)
    show "GetPathElementCount u (GetParentPath u p) < GetPathElementCount u p" if "p \<in> set ?cps" for p
      using assms(1) that by (auto simp: path_laws_def)
    show "GetParentPath u p = ''/'' \<or> GetParentPath u p \<in> known r \<or> GetParentPath u p \<in> set ?cps" if "p \<in> set ?cps" for p
    proof -
      have "p \<in> P" "creates l p" using that unfolding cset by simp_all
      then show ?thesis using assms(3) [rule_format, of p] unfolding cset by auto
    qed
  qed simp
  then show ?thesis unfolding sorted cset .
qed

lemma snapshot_transforms:
  assumes "P = set (snapshot_paths (usd lib) l)" and "\<And>p. p \<in> P \<Longrightarrow> moves l p \<noteq> None \<Longrightarrow> p \<in> known r"
    and "moved r = Map.empty"
  shows "replay_all u (transform_frames lib s l q) r = Some (r\<lparr>moved := \<lambda>p. if p \<in> P then moves l p else None\<rparr>)"
proof -
  have "(\<lambda>p. if p \<in> P \<and> moves l p \<noteq> None then moves l p else moved r p) = (\<lambda>p. if p \<in> P then moves l p else None)"
    using assms(3) by auto
  then show ?thesis
    unfolding transform_frames_def using replay_transforms [of "snapshot_paths (usd lib) l" l r u lib s q] assms(1,2) by simp
qed

lemma snapshot_deletes:
  assumes "P = set (snapshot_paths u l)" and "\<And>p. p \<in> P \<Longrightarrow> deletes l p \<Longrightarrow> p \<in> known r"
  shows "replay_all u (delete_frames u s l q) r = Some (r\<lparr>inactive := inactive r \<union> {p \<in> P. deletes l p}\<rparr>)"
  unfolding delete_frames_def using replay_deletes [of "snapshot_paths u l" l r u s q] assms by simp


text \<open>A session that has created a group with a cube in it and soft-deleted the group.\<close>

definition demo_edits :: "(SdfPath \<times> SdfPrimSpec) list" where
  "demo_edits =
     [(''/World/Group/Cube'', empty_spec\<lparr>spec_specifier := SdfSpecifierDef, spec_type_name := ''Cube''\<rparr>),
      (''/World/Group'', empty_spec\<lparr>spec_specifier := SdfSpecifierDef, spec_type_name := ''Xform'', spec_active := Some False\<rparr>)]"

definition demo_edited :: "mini_stage Session" where
  "demo_edited = demo_attached\<lparr>stage := Some (mini_root_stage\<lparr>ms_session := demo_edits\<rparr>)\<rparr>"


end
