(* ===== verification/Rate_Limiter.thy ===== *)
theory Rate_Limiter
  imports Idtx_Prelude
begin

text \<open>
  The in-memory request and login throttles (\<^verbatim>\<open>source/middleware/RateLimiter.h\<close>).

  Time points of the steady clock are integers, in nanoseconds; the configured windows are whole
  seconds and \<open>ns\<close> converts them for comparison. A default-constructed time point is 0. The maps are
  partial functions. Counters are natural numbers (a 64-bit counter would have to be incremented
  \<^term>\<open>(2::nat) ^ 64\<close> times within one window to differ). Every public method holds the class mutex and
  is one atomic state transformation.
\<close>

type_synonym time_point = int
type_synonym seconds = int

definition ns :: "seconds \<Rightarrow> int" where
  "ns s = s * 1000000000"

text \<open>\<^verbatim>\<open>duration_cast<seconds>\<close> truncates toward zero.\<close>

definition to_seconds :: "int \<Rightarrow> seconds" where
  "to_seconds d = (if 0 \<le> d then d div 1000000000 else - ((- d) div 1000000000))"

subsection \<open>The fixed-window request counter\<close>

record Bucket =
  windowStart :: time_point
  count :: nat

record SlidingWindowLimiter =
  maxRequests :: nat
  window :: seconds
  limiter_lastSweep :: time_point
  buckets :: "string \<rightharpoonup> Bucket"

record Decision =
  allowed :: bool
  decision_observed :: nat
  decision_limit :: nat
  retryAfter :: seconds

definition SlidingWindowLimiter_create :: "nat \<Rightarrow> seconds \<Rightarrow> time_point \<Rightarrow> SlidingWindowLimiter" where
  "SlidingWindowLimiter_create m w now =
     \<lparr>maxRequests = m, window = w, limiter_lastSweep = now, buckets = Map.empty\<rparr>"

definition MaybeSweep :: "time_point \<Rightarrow> SlidingWindowLimiter \<Rightarrow> SlidingWindowLimiter" where
  "MaybeSweep now l =
     (if now - limiter_lastSweep l < ns (window l) then l
      else l\<lparr>limiter_lastSweep := now,
             buckets := (\<lambda>k. case buckets l k of
               None \<Rightarrow> None
             | Some b \<Rightarrow> if now - windowStart b \<ge> 2 * ns (window l) then None else Some b)\<rparr>)"

definition bucket_at :: "SlidingWindowLimiter \<Rightarrow> string \<Rightarrow> Bucket" where
  "bucket_at l key = (case buckets l key of None \<Rightarrow> \<lparr>windowStart = 0, count = 0\<rparr> | Some b \<Rightarrow> b)"

text \<open>Account one request in a bucket: roll the window over, then count.\<close>

definition roll :: "seconds \<Rightarrow> time_point \<Rightarrow> Bucket \<Rightarrow> Bucket" where
  "roll w now b =
     (let b' = (if now - windowStart b \<ge> ns w then b\<lparr>windowStart := now, count := 0\<rparr> else b)
      in b'\<lparr>count := count b' + 1\<rparr>)"

definition decide :: "nat \<Rightarrow> seconds \<Rightarrow> time_point \<Rightarrow> Bucket \<Rightarrow> Decision" where
  "decide m w now b =
     (let ok = count b \<le> m;
          elapsed = to_seconds (now - windowStart b);
          retry = (if ok then 0 else w - elapsed)
      in \<lparr>allowed = ok, decision_observed = count b, decision_limit = m,
          retryAfter = (if retry > 0 then retry else 1)\<rparr>)"

definition Allow :: "string \<Rightarrow> time_point \<Rightarrow> SlidingWindowLimiter \<Rightarrow> SlidingWindowLimiter \<times> Decision" where
  "Allow key now l =
     (let l1 = MaybeSweep now l;
          b = roll (window l1) now (bucket_at l1 key)
      in (l1\<lparr>buckets := (buckets l1)(key \<mapsto> b)\<rparr>, decide (maxRequests l1) (window l1) now b))"

subsection \<open>The login throttle\<close>

record Entry =
  firstFailure :: time_point
  failures :: nat
  lockedUntil :: time_point

record LoginThrottler =
  maxFailures :: nat
  failureWindow :: seconds
  lockout :: seconds
  throttler_lastSweep :: time_point
  entries :: "string \<rightharpoonup> Entry"

definition LoginThrottler_create :: "nat \<Rightarrow> seconds \<Rightarrow> seconds \<Rightarrow> time_point \<Rightarrow> LoginThrottler" where
  "LoginThrottler_create m fw lo now =
     \<lparr>maxFailures = m, failureWindow = fw, lockout = lo, throttler_lastSweep = now, entries = Map.empty\<rparr>"

definition LockedFor :: "string \<Rightarrow> time_point \<Rightarrow> LoginThrottler \<Rightarrow> seconds" where
  "LockedFor key now t =
     (case entries t key of
        None \<Rightarrow> 0
      | Some e \<Rightarrow> if lockedUntil e > now then to_seconds (lockedUntil e - now) else 0)"

definition LoginThrottler_MaybeSweep :: "time_point \<Rightarrow> LoginThrottler \<Rightarrow> LoginThrottler" where
  "LoginThrottler_MaybeSweep now t =
     (if now - throttler_lastSweep t < ns (failureWindow t) then t
      else t\<lparr>throttler_lastSweep := now,
             entries := (\<lambda>k. case entries t k of
               None \<Rightarrow> None
             | Some e \<Rightarrow>
                 let locked = lockedUntil e > now;
                     active = failures e > 0 \<and> now - firstFailure e < ns (failureWindow t)
                 in if \<not> locked \<and> \<not> active then None else Some e)\<rparr>)"

definition entry_at :: "LoginThrottler \<Rightarrow> string \<Rightarrow> Entry" where
  "entry_at t key =
     (case entries t key of None \<Rightarrow> \<lparr>firstFailure = 0, failures = 0, lockedUntil = 0\<rparr> | Some e \<Rightarrow> e)"

definition RecordFailure :: "string \<Rightarrow> time_point \<Rightarrow> LoginThrottler \<Rightarrow> LoginThrottler \<times> bool" where
  "RecordFailure key now t =
     (let t1 = LoginThrottler_MaybeSweep now t;
          e = entry_at t1 key;
          e1 = (if failures e = 0 \<or> now - firstFailure e \<ge> ns (failureWindow t1)
                then e\<lparr>firstFailure := now, failures := 0\<rparr> else e);
          e2 = e1\<lparr>failures := failures e1 + 1\<rparr>
      in if failures e2 \<ge> maxFailures t1
         then (t1\<lparr>entries := (entries t1)
                 (key \<mapsto> e2\<lparr>lockedUntil := now + ns (lockout t1), failures := 0\<rparr>)\<rparr>, True)
         else (t1\<lparr>entries := (entries t1)(key \<mapsto> e2)\<rparr>, False))"

definition RecordSuccess :: "string \<Rightarrow> LoginThrottler \<Rightarrow> LoginThrottler" where
  "RecordSuccess key t = t\<lparr>entries := (entries t)(key := None)\<rparr>"

subsection \<open>Sweeping changes no decision\<close>

fun allow_all :: "(string \<times> time_point) list \<Rightarrow> SlidingWindowLimiter \<Rightarrow> SlidingWindowLimiter \<times> Decision list" where
  "allow_all [] l = (l, [])"
| "allow_all ((k, t) # rs) l =
     (let (l1, d) = Allow k t l; (l2, ds) = allow_all rs l1 in (l2, d # ds))"

text \<open>The reference: every key has its own bucket and nothing is evicted.\<close>

fun ref_all :: "nat \<Rightarrow> seconds \<Rightarrow> (string \<times> time_point) list \<Rightarrow> (string \<Rightarrow> Bucket) \<Rightarrow> Decision list" where
  "ref_all m w [] f = []"
| "ref_all m w ((k, t) # rs) f =
     (let b = roll w t (f k) in decide m w t b # ref_all m w rs (f(k := b)))"

text \<open>A bucket was evicted only when its window is over.\<close>

definition bucket_sim :: "seconds \<Rightarrow> time_point \<Rightarrow> Bucket option \<Rightarrow> Bucket \<Rightarrow> bool" where
  "bucket_sim w now ob b \<longleftrightarrow>
     (case ob of
        Some b' \<Rightarrow> b' = b
      | None \<Rightarrow> b = \<lparr>windowStart = 0, count = 0\<rparr> \<or>
          now - windowStart b \<ge> ns w \<and> now \<ge> ns w) \<and> 0 \<le> windowStart b"

lemma roll_sim:
  assumes "bucket_sim w now ob b"
  shows "roll w now (case ob of None \<Rightarrow> \<lparr>windowStart = 0, count = 0\<rparr> | Some b' \<Rightarrow> b') = roll w now b"
  using assms by (auto simp: bucket_sim_def roll_def Let_def split: option.splits)

lemma bucket_sim_mono:
  "bucket_sim w now ob b \<Longrightarrow> now \<le> now' \<Longrightarrow> bucket_sim w now' ob b"
  by (auto simp: bucket_sim_def split: option.splits)

lemma bucket_sim_sweep:
  assumes "\<And>k. bucket_sim (window l) now (buckets l k) (f k)" and "0 \<le> window l"
  shows "bucket_sim (window l) now (buckets (MaybeSweep now l) k) (f k)"
proof -
  have "0 \<le> ns (window l)" using assms(2) by (simp add: ns_def)
  then show ?thesis
    using assms(1) [of k] by (auto simp: bucket_sim_def MaybeSweep_def split: option.splits)
qed

lemma MaybeSweep_config [simp]:
  "window (MaybeSweep now l) = window l" "maxRequests (MaybeSweep now l) = maxRequests l"
  by (simp_all add: MaybeSweep_def)

lemma roll_windowStart: "0 \<le> now \<Longrightarrow> 0 \<le> windowStart b \<Longrightarrow> 0 \<le> windowStart (roll w now b)"
  by (simp add: roll_def Let_def)

lemma allow_all_sim:
  assumes "sorted (map snd rs)" and "\<forall>t\<in>set (map snd rs). now \<le> t" and "0 \<le> now" and "0 \<le> window l"
    and "\<And>k. bucket_sim (window l) now (buckets l k) (f k)"
  shows "snd (allow_all rs l) = ref_all (maxRequests l) (window l) rs f"
  using assms
proof (induction rs arbitrary: l f now)
  case (Cons r rs)
  obtain k t where r: "r = (k, t)" by (cases r)
  have t: "now \<le> t" "0 \<le> t" using Cons.prems r by auto
  have sim: "bucket_sim (window l) t (buckets (MaybeSweep t l) j) (f j)" for j
    using bucket_sim_sweep [of l t f j] bucket_sim_mono [OF Cons.prems(5) t(1)] Cons.prems(4) by blast
  let ?b = "roll (window l) t (bucket_at (MaybeSweep t l) k)"
  have b: "?b = roll (window l) t (f k)"
    unfolding bucket_at_def by (rule roll_sim [OF sim])
  define l1 where "l1 = (MaybeSweep t l)\<lparr>buckets := (buckets (MaybeSweep t l))(k \<mapsto> ?b)\<rparr>"
  have A: "Allow k t l = (l1, decide (maxRequests l) (window l) t ?b)"
    by (simp add: Allow_def Let_def l1_def)
  have ws: "0 \<le> windowStart (f k)" using sim [of k] by (auto simp: bucket_sim_def)
  have "bucket_sim (window l1) t (buckets l1 j) ((f(k := ?b)) j)" for j
    using sim [of j] roll_windowStart [OF t(2) ws] b
    by (auto simp: l1_def bucket_sim_def)
  then have "snd (allow_all rs l1) = ref_all (maxRequests l1) (window l1) rs (f(k := ?b))"
    using Cons.prems r t by (intro Cons.IH [where now = t]) (auto simp: l1_def)
  then show ?case by (auto simp: r A b Let_def l1_def split: prod.splits)
qed simp

subsection \<open>How many requests get through\<close>

definition n_allowed :: "string \<Rightarrow> time_point \<Rightarrow> time_point \<Rightarrow> (string \<times> time_point) list \<Rightarrow> Decision list \<Rightarrow> nat" where
  "n_allowed key lo hi rs ds =
     length (filter (\<lambda>((k, t), d). k = key \<and> lo \<le> t \<and> t < hi \<and> allowed d) (zip rs ds))"

lemma n_allowed_simps [simp]:
  "n_allowed key lo hi [] ds = 0"
  "n_allowed key lo hi ((k, t) # rs) (d # ds) =
     (if k = key \<and> lo \<le> t \<and> t < hi \<and> allowed d then 1 else 0) + n_allowed key lo hi rs ds"
  by (simp_all add: n_allowed_def)

lemma decide_allowed [simp]: "allowed (decide m w t b) \<longleftrightarrow> count b \<le> m"
  by (simp add: decide_def Let_def)

lemma n_allowed_late: "\<forall>t\<in>snd ` set rs. hi \<le> t \<Longrightarrow> n_allowed key lo hi rs ds = 0"
proof (induction rs arbitrary: ds)
  case (Cons r rs)
  then show ?case by (cases ds; cases r) (auto simp: n_allowed_def)
qed simp

text \<open>Within the window a bucket is in, what is left of the quota.\<close>

lemma ref_within_window:
  assumes "hi \<le> windowStart (f key) + ns w" and "sorted (map snd rs)"
  shows "n_allowed key lo hi rs (ref_all m w rs f) \<le> m - count (f key)"
  using assms
proof (induction rs arbitrary: f)
  case (Cons r rs)
  obtain k t where r: "r = (k, t)" by (cases r)
  show ?case
  proof (cases "k = key \<and> t < windowStart (f key) + ns w")
    case True
    let ?f = "f(k := roll w t (f k))"
    have f: "count (?f key) = count (f key) + 1" "windowStart (?f key) = windowStart (f key)"
      using True by (simp_all add: roll_def Let_def)
    have "n_allowed key lo hi rs (ref_all m w rs ?f) \<le> m - count (?f key)"
      using Cons.prems f(2) by (intro Cons.IH) simp_all
    then show ?thesis using f True by (auto simp: r Let_def)
  next
    case False
    show ?thesis
    proof (cases "k = key")
      case True
      with False Cons.prems have "hi \<le> t" by auto
      with Cons.prems(2) r show ?thesis by (subst n_allowed_late) auto
    next
      case False
      then have "n_allowed key lo hi rs (ref_all m w rs (f(k := roll w t (f k)))) \<le>
          m - count ((f(k := roll w t (f k))) key)"
        using Cons.prems by (intro Cons.IH) simp_all
      with False show ?thesis by (simp add: r Let_def)
    qed
  qed
qed simp

text \<open>An interval shorter than a window meets at most two windows of the bucket.\<close>

lemma ref_two_windows:
  assumes "sorted (map snd rs)" and "\<forall>t\<in>snd ` set rs. lo \<le> t"
  shows "n_allowed key lo (lo + ns w) rs (ref_all m w rs f) \<le> (m - count (f key)) + m"
  using assms
proof (induction rs arbitrary: f)
  case (Cons r rs)
  obtain k t where r: "r = (k, t)" by (cases r)
  let ?f = "f(k := roll w t (f k))" and ?n = "\<lambda>rs f. n_allowed key lo (lo + ns w) rs (ref_all m w rs f)"
  have IH: "?n rs ?f \<le> (m - count (?f key)) + m" using Cons.prems by (intro Cons.IH) auto
  show ?case
  proof (cases "k = key")
    case False
    with IH show ?thesis by (simp add: r Let_def)
  next
    case True
    show ?thesis
    proof (cases "t - windowStart (f key) \<ge> ns w")
      case True
      with \<open>k = key\<close> have f: "windowStart (?f key) = t" "count (?f key) = 1" by (simp_all add: roll_def Let_def)
      have "?n rs ?f \<le> m - count (?f key)"
        using Cons.prems r f by (intro ref_within_window) auto
      then show ?thesis using f \<open>k = key\<close> by (auto simp: r Let_def)
    next
      case False
      with \<open>k = key\<close> have "count (?f key) = count (f key) + 1" by (simp add: roll_def Let_def)
      with IH \<open>k = key\<close> show ?thesis by (auto simp: r Let_def)
    qed
  qed
qed simp

lemma ref_any_interval:
  assumes "sorted (map snd rs)"
  shows "n_allowed key lo (lo + ns w) rs (ref_all m w rs f) \<le> 2 * m"
  using assms
proof (induction rs arbitrary: f)
  case (Cons r rs)
  obtain k t where r: "r = (k, t)" by (cases r)
  show ?case
  proof (cases "lo \<le> t")
    case True
    then have "\<forall>t\<in>snd ` set (r # rs). lo \<le> t" using Cons.prems r by auto
    from ref_two_windows [OF Cons.prems this, of key w m f] show ?thesis by simp
  next
    case False
    have "n_allowed key lo (lo + ns w) rs (ref_all m w rs (f(k := roll w t (f k)))) \<le> 2 * m"
      using Cons.prems by (intro Cons.IH) simp
    with False show ?thesis by (simp add: r Let_def)
  qed
qed simp

subsection \<open>Lockouts hold\<close>

datatype login_event = Failure string time_point | Success string

fun login_run :: "login_event list \<Rightarrow> LoginThrottler \<Rightarrow> LoginThrottler" where
  "login_run [] t = t"
| "login_run (Failure k now # es) t = login_run es (fst (RecordFailure k now t))"
| "login_run (Success k # es) t = login_run es (RecordSuccess k t)"

definition locked_until :: "LoginThrottler \<Rightarrow> string \<Rightarrow> time_point \<Rightarrow> bool" where
  "locked_until t key u \<longleftrightarrow> (\<exists>e. entries t key = Some e \<and> u \<le> lockedUntil e)"

fun event_times :: "login_event list \<Rightarrow> time_point list" where
  "event_times [] = []"
| "event_times (Failure k now # es) = now # event_times es"
| "event_times (Success k # es) = event_times es"

lemma RecordFailure_config [simp]:
  "lockout (fst (RecordFailure k now t)) = lockout t"
  by (simp add: RecordFailure_def LoginThrottler_MaybeSweep_def Let_def)

lemma RecordFailure_locks:
  "snd (RecordFailure k now t) \<Longrightarrow>
   locked_until (fst (RecordFailure k now t)) k (now + ns (lockout t))"
  by (auto simp: RecordFailure_def locked_until_def LoginThrottler_MaybeSweep_def Let_def split: if_splits)

lemma RecordFailure_keeps_lock:
  assumes "locked_until t key u" and "now < u" and "u \<le> now + ns (lockout t)"
  shows "locked_until (fst (RecordFailure k now t)) key u"
proof -
  have sweep: "locked_until (LoginThrottler_MaybeSweep now t) key u"
    using assms(1,2) by (auto simp: locked_until_def LoginThrottler_MaybeSweep_def Let_def)
  then obtain e where e: "entries (LoginThrottler_MaybeSweep now t) key = Some e" "u \<le> lockedUntil e"
    by (auto simp: locked_until_def)
  have "lockout (LoginThrottler_MaybeSweep now t) = lockout t"
    by (simp add: LoginThrottler_MaybeSweep_def)
  then show ?thesis
    using e assms(3) by (auto simp: RecordFailure_def locked_until_def entry_at_def Let_def)
qed

lemma login_run_keeps_lock:
  assumes "locked_until t key u" and "Success key \<notin> set es"
    and "\<forall>x\<in>set (event_times es). u - ns (lockout t) \<le> x \<and> x < u"
  shows "locked_until (login_run es t) key u"
  using assms
proof (induction es t rule: login_run.induct)
  case (2 k now es t)
  then show ?case using RecordFailure_keeps_lock [of t key u now k] by auto
next
  case (3 k es t)
  then show ?case by (auto simp: RecordSuccess_def locked_until_def)
qed simp

lemma LockedFor_positive:
  assumes "locked_until t key u" and "now + ns 1 \<le> u"
  shows "1 \<le> LockedFor key now t"
proof -
  obtain e where e: "entries t key = Some e" "u \<le> lockedUntil e" using assms(1) by (auto simp: locked_until_def)
  then have "1000000000 \<le> lockedUntil e - now" using assms(2) by (simp add: ns_def)
  then have "1 \<le> to_seconds (lockedUntil e - now)" by (simp add: to_seconds_def)
  with e show ?thesis using assms(2) by (auto simp: LockedFor_def ns_def)
qed

subsection \<open>Properties\<close>

text \<open>C27: Evicting stale buckets is invisible: for any sequence of requests in time order the
  limiter takes the same decisions as one that keeps a bucket per key for ever.\<close>

theorem sweep_is_transparent:
  assumes "sorted (map snd rs)" and "\<forall>t\<in>set (map snd rs). 0 \<le> t" and "0 \<le> w"
  shows "snd (allow_all rs (SlidingWindowLimiter_create m w start)) =
    ref_all m w rs (\<lambda>_. \<lparr>windowStart = 0, count = 0\<rparr>)"
  using allow_all_sim [OF assms(1,2), of "SlidingWindowLimiter_create m w start"
      "\<lambda>_. \<lparr>windowStart = 0, count = 0\<rparr>"] assms(3)
  by (simp add: SlidingWindowLimiter_create_def bucket_sim_def)

theorem sweep_is_transparent_witness:
  "map allowed (snd (allow_all [(''a'', ns 100), (''a'', ns 101), (''b'', ns 200), (''a'', ns 300)]
     (SlidingWindowLimiter_create 1 60 0))) = [True, False, True, True]"
  using sweep_is_transparent [of "[(''a'', ns 100), (''a'', ns 101), (''b'', ns 200), (''a'', ns 300)]" 60 1 0]
  by (simp add: ns_def roll_def Let_def)

text \<open>C28: The quota: in any time interval of the length of the window, no key gets more than twice
  the configured number of requests admitted.\<close>

theorem rate_limit_bound:
  assumes "sorted (map snd rs)" and "\<forall>t\<in>set (map snd rs). 0 \<le> t" and "0 \<le> w"
  shows "n_allowed key lo (lo + ns w) rs (snd (allow_all rs (SlidingWindowLimiter_create m w start))) \<le> 2 * m"
proof -
  have "snd (allow_all rs (SlidingWindowLimiter_create m w start)) =
      ref_all m w rs (\<lambda>_. \<lparr>windowStart = 0, count = 0\<rparr>)"
    using allow_all_sim [OF assms(1,2), of "SlidingWindowLimiter_create m w start"
        "\<lambda>_. \<lparr>windowStart = 0, count = 0\<rparr>"] assms(3)
    by (simp add: SlidingWindowLimiter_create_def bucket_sim_def)
  then show ?thesis using ref_any_interval [OF assms(1)] by simp
qed

theorem rate_limit_bound_witness:
  "n_allowed ''a'' (ns 150) (ns 210) [(''a'', ns 100), (''a'', ns 159), (''a'', ns 160)]
     (snd (allow_all [(''a'', ns 100), (''a'', ns 159), (''a'', ns 160)]
       (SlidingWindowLimiter_create 2 60 0))) \<le> 4"
  using rate_limit_bound [of "[(''a'', ns 100), (''a'', ns 159), (''a'', ns 160)]" 60 "''a''" "ns 150" 2 0]
  by (simp add: ns_def)

text \<open>C29: A lockout holds: once a failure locks a key, then until one second before the lockout
  ends \<^verbatim>\<open>LockedFor\<close> reports at least one second, whatever failures of this or other keys are
  recorded in the meantime (sweeps included) and unless that key logs in successfully.\<close>

theorem lockout_holds:
  assumes "snd (RecordFailure key now t)" and "Success key \<notin> set es"
    and "\<forall>x\<in>set (event_times es). now \<le> x \<and> x < now + ns (lockout t)"
    and "at + ns 1 \<le> now + ns (lockout t)"
  shows "1 \<le> LockedFor key at (login_run es (fst (RecordFailure key now t)))"
proof (rule LockedFor_positive)
  show "locked_until (login_run es (fst (RecordFailure key now t))) key (now + ns (lockout t))"
    using assms(3) by (intro login_run_keeps_lock RecordFailure_locks assms(1,2)) simp
qed (rule assms(4))

theorem lockout_holds_witness:
  "1 \<le> LockedFor ''a'' (ns 10) (login_run [Failure ''b'' (ns 6), Failure ''a'' (ns 7)]
     (fst (RecordFailure ''a'' (ns 5) (LoginThrottler_create 1 300 300 0))))"
  by (rule lockout_holds)
    (simp_all add: RecordFailure_def LoginThrottler_MaybeSweep_def LoginThrottler_create_def entry_at_def
      ns_def Let_def)

text \<open>\<^verbatim>\<open>LockedFor\<close> truncates to whole seconds: a key that is still locked reports no lockout
  during the last second, although the documentation promises a positive value.\<close>

theorem LockedFor_last_second_is_zero:
  assumes "entries t key = Some e" and "at < lockedUntil e" and "lockedUntil e < at + ns 1"
  shows "LockedFor key at t = 0"
  using assms by (simp add: LockedFor_def to_seconds_def ns_def)

theorem LockedFor_last_second_is_zero_witness:
  "LockedFor ''a'' (ns 305 - 1) (fst (RecordFailure ''a'' (ns 5) (LoginThrottler_create 1 300 300 0))) = 0"
  by (rule LockedFor_last_second_is_zero
      [where e = "\<lparr>firstFailure = ns 5, failures = 0, lockedUntil = ns 305\<rparr>"])
    (simp_all add: RecordFailure_def LoginThrottler_MaybeSweep_def LoginThrottler_create_def entry_at_def
      ns_def Let_def)

end
