(* ===== verification/Http.thy ===== *)
theory Http
  imports Idtx_Prelude "HOL-Library.AList"
begin

text \<open>
  HTTP requests and responses, JSON values, the shared DTO helpers
  (\<^verbatim>\<open>source/dto/ErrorResponse.h\<close>, \<^verbatim>\<open>source/dto/JsonDto.h\<close>) and the security audit log
  (\<^verbatim>\<open>source/utils/SecurityAuditLog.h\<close>).

  Crow and nlohmann-json are libraries. A request is the data the sources read of a
  \<^verbatim>\<open>crow::request\<close>, its \<open>header\<close> field being \<^verbatim>\<open>get_header_value\<close>. A response body built from a JSON value
  is kept as that value: \<open>Json j\<close> stands for the text \<^verbatim>\<open>j.dump()\<close>. Parsing text into JSON and the
  texts of the library's exceptions are the argument \<open>lib\<close> of the operations that use them.
\<close>

subsection \<open>Requests, responses, JSON\<close>

datatype HTTPMethod = Delete | Get | Head | PostMethod | Put | Options | OtherMethod nat

datatype json =
    JNull
  | JBool bool
  | JInt int
  | JFloat string
  | JString string
  | JArray "json list"
  | JObject "(string \<times> json) list"

datatype body_text = Text string | Json json

record request =
  http_method :: HTTPMethod
  url :: string
  header :: "string \<Rightarrow> string"
  req_body :: string
  remote_ip_address :: string

record response =
  code :: int
  res_headers :: "(string \<times> string) list"
  res_body :: body_text
  ended :: bool

definition set_header :: "string \<Rightarrow> string \<Rightarrow> response \<Rightarrow> response" where
  "set_header k v r = r\<lparr>res_headers := AList.update k v (res_headers r)\<rparr>"

definition empty_response :: response where
  "empty_response = \<lparr>code = 200, res_headers = [], res_body = Text [], ended = False\<rparr>"

fun json_field :: "string \<Rightarrow> json \<Rightarrow> json option" where
  "json_field k (JObject fs) = map_of fs k"
| "json_field k _ = None"

fun is_object :: "json \<Rightarrow> bool" where
  "is_object (JObject _) = True"
| "is_object _ = False"

text \<open>\<^verbatim>\<open>j[k] = v\<close> on an object.\<close>

fun json_set :: "string \<Rightarrow> json \<Rightarrow> json \<Rightarrow> json" where
  "json_set k v (JObject fs) = JObject (AList.update k v fs)"
| "json_set k v j = JObject [(k, v)]"

lemma json_field_set: "is_object j \<Longrightarrow> json_field k (json_set k' v j) = (if k = k' then Some v else json_field k j)"
  by (cases j) (auto simp: AList.update_conv)

lemma is_object_set [simp]: "is_object (json_set k v j)"
  by (cases j) auto

subsection \<open>Uniform errors and typed bodies\<close>

definition make_error :: "int \<Rightarrow> string \<Rightarrow> string \<Rightarrow> response" where
  "make_error c error message =
     set_header ''Content-Type'' ''application/json''
       (empty_response\<lparr>code := c, res_body := Json (JObject [(''error'', JString error), (''message'', JString message)])\<rparr>)"

text \<open>What a \<^verbatim>\<open>from_json\<close> conversion may raise, with the library's text.\<close>

datatype json_error = Out_of_range string | Type_error string | Other_error string

record json_library =
  json_parse :: "string \<Rightarrow> string + json"
  missing_text :: "string \<Rightarrow> string"
  type_text :: "string \<Rightarrow> string"

definition parse_json_dto ::
  "json_library \<Rightarrow> (json \<Rightarrow> json_error + 'a) \<Rightarrow> request \<Rightarrow> response + 'a" where
  "parse_json_dto lib from_json req =
     (case json_parse lib (req_body req) of
        Inl what \<Rightarrow> Inl (make_error 400 ''invalid_request'' (''Request body is not valid JSON: '' @ what))
      | Inr parsed \<Rightarrow>
          if \<not> is_object parsed then Inl (make_error 400 ''invalid_request'' ''Request body must be a JSON object.'')
          else case from_json parsed of
            Inr v \<Rightarrow> Inr v
          | Inl (Out_of_range what) \<Rightarrow> Inl (make_error 400 ''invalid_request'' (''Missing required field: '' @ what))
          | Inl (Type_error what) \<Rightarrow> Inl (make_error 400 ''invalid_request'' (''Invalid field type: '' @ what))
          | Inl (Other_error what) \<Rightarrow> Inl (make_error 400 ''invalid_request'' (''Invalid request body: '' @ what)))"

text \<open>\<^verbatim>\<open>j.at(k).get_to(s)\<close> for a string field.\<close>

definition at_string :: "json_library \<Rightarrow> string \<Rightarrow> json \<Rightarrow> json_error + string" where
  "at_string lib k j =
     (case json_field k j of
        None \<Rightarrow> Inl (Out_of_range (missing_text lib k))
      | Some (JString s) \<Rightarrow> Inr s
      | Some _ \<Rightarrow> Inl (Type_error (type_text lib k)))"

lemma parse_json_dto_error:
  "parse_json_dto lib f req = Inl r \<Longrightarrow> code r = 400"
  by (auto simp: parse_json_dto_def make_error_def set_header_def
      split: sum.splits if_splits json_error.splits)

subsection \<open>Security audit log\<close>

datatype AuditEvent =
    RateLimitExceeded
  | LoginRateLimitExceeded
  | LoginFailed
  | LoginLockout
  | BodyTooLarge
  | ConcurrencyLimited
  | Unauthorized
  | AuthenticationDisabled

fun AuditEvent_to_string :: "AuditEvent \<Rightarrow> string" where
  "AuditEvent_to_string RateLimitExceeded = ''rate_limit_exceeded''"
| "AuditEvent_to_string LoginRateLimitExceeded = ''login_rate_limit_exceeded''"
| "AuditEvent_to_string LoginFailed = ''login_failed''"
| "AuditEvent_to_string LoginLockout = ''login_lockout''"
| "AuditEvent_to_string BodyTooLarge = ''body_too_large''"
| "AuditEvent_to_string ConcurrencyLimited = ''concurrency_limited''"
| "AuditEvent_to_string Unauthorized = ''unauthorized''"
| "AuditEvent_to_string AuthenticationDisabled = ''authentication_disabled''"

record AuditRecord =
  event :: AuditEvent
  clientIp :: string
  req_method :: string
  path :: string
  userAgent :: string
  username :: "string option"
  statusCode :: "int option"
  detail :: "string option"
  limit :: "nat option"
  observed :: "nat option"

definition set_nonempty :: "string \<Rightarrow> string \<Rightarrow> json \<Rightarrow> json" where
  "set_nonempty k v j = (if v = [] then j else json_set k (JString v) j)"

definition set_optional :: "string \<Rightarrow> ('a \<Rightarrow> json) \<Rightarrow> 'a option \<Rightarrow> json \<Rightarrow> json" where
  "set_optional k enc v j = (case v of None \<Rightarrow> j | Some x \<Rightarrow> json_set k (enc x) j)"

definition Record :: "AuditRecord \<Rightarrow> json" where
  "Record r =
     set_optional ''observed'' (JInt \<circ> int) (observed r) (
     set_optional ''limit'' (JInt \<circ> int) (limit r) (
     set_optional ''detail'' JString (detail r) (
     set_optional ''status'' JInt (statusCode r) (
     set_optional ''username'' JString (username r) (
     set_nonempty ''user_agent'' (userAgent r) (
     set_nonempty ''path'' (path r) (
     set_nonempty ''method'' (req_method r) (
     set_nonempty ''client_ip'' (clientIp r) (
       JObject [(''audit'', JInt 1), (''event'', JString (AuditEvent_to_string (event r)))])))))))))"

lemma AuditEvent_to_string_inj: "AuditEvent_to_string a = AuditEvent_to_string b \<Longrightarrow> a = b"
  by (cases a; cases b; simp)

end
