(* ===== verification/Session_Manager.thy ===== *)
theory Session_Manager
  imports Session_Protocol Scheduler Rate_Limiter Environment Http
begin

text \<open>
  The registry of sessions: the REST and websocket halves of \<^verbatim>\<open>SessionManager.{h,cpp}\<close> and the flush
  thread (\<^verbatim>\<open>SessionFlusher.{h,cpp}\<close>).

  A \<^verbatim>\<open>shared_ptr<Session>\<close> is a key of the map \<open>objects\<close>; \<open>m_sessions\<close> maps session ids to these keys,
  so a session that was taken out of the registry is still there for whoever holds it (a handler, a
  teardown, a connection). Sessions that nobody holds any more are not reclaimed. The command
  scheduler of a session appears with what it promises its callers, an admission decision and two
  queues (\<open>command_queue\<close>); its implementation is the subject of \<open>Scheduler\<close>, and
  \<open>Scheduler_Refinement\<close> shows that it keeps this promise. What the scheduler leaves to the timing of
  the threads is decided by an argument, a \<open>schedule\<close>: whether a push is refused one command below
  the capacity, and whether a command of the normal queue overtakes the priority queue.
\<close>

subsection \<open>What a session's scheduler promises\<close>

record command_queue =
  q_normal :: "SessionCommand list"
  q_priority :: "SessionCommand list"
  q_accepting :: bool

definition empty_queue :: command_queue where
  "empty_queue = \<lparr>q_normal = [], q_priority = [], q_accepting = True\<rparr>"

fun lane_of :: "command_queue \<Rightarrow> lane \<Rightarrow> SessionCommand list" where
  "lane_of q Normal = q_normal q"
| "lane_of q Priority = q_priority q"

fun enqueue :: "lane \<Rightarrow> SessionCommand \<Rightarrow> command_queue \<Rightarrow> command_queue" where
  "enqueue Normal c q = q\<lparr>q_normal := q_normal q @ [c]\<rparr>"
| "enqueue Priority c q = q\<lparr>q_priority := q_priority q @ [c]\<rparr>"

definition admit :: "bool \<Rightarrow> lane \<Rightarrow> SessionCommand \<Rightarrow> command_queue \<Rightarrow> CommandAdmissionStatus \<times> command_queue" where
  "admit lossy l c q =
     (if \<not> q_accepting q then (Stopping, q)
      else if length (lane_of q l) + (if lossy then 1 else 0) < lane_capacity l then (Accepted, enqueue l c q)
      else (QueueFull, q))"

text \<open>The consumer takes from the priority queue first, unless it looked there before the command at its
  head was published.\<close>

definition next_command :: "bool \<Rightarrow> command_queue \<Rightarrow> (SessionCommand \<times> command_queue) option" where
  "next_command overtake q =
     (if overtake \<and> q_normal q \<noteq> [] then Some (hd (q_normal q), q\<lparr>q_normal := tl (q_normal q)\<rparr>)
      else case q_priority q of
        c # cs \<Rightarrow> Some (c, q\<lparr>q_priority := cs\<rparr>)
      | [] \<Rightarrow> (case q_normal q of c # cs \<Rightarrow> Some (c, q\<lparr>q_normal := cs\<rparr>) | [] \<Rightarrow> None))"

text \<open>For each session: whether a push fails one below the capacity, and whether the consumer overtakes the
  priority queue when so many commands are queued.\<close>

record schedule =
  push_lossy :: "nat \<Rightarrow> bool"
  overtakes :: "nat \<Rightarrow> nat \<Rightarrow> bool"

definition in_turn :: schedule where
  "in_turn = \<lparr>push_lossy = (\<lambda>_. False), overtakes = (\<lambda>_ _. False)\<rparr>"

definition take_command :: "schedule \<Rightarrow> nat \<Rightarrow> command_queue \<Rightarrow> (SessionCommand \<times> command_queue) option" where
  "take_command sched r q = next_command (overtakes sched r (length (q_priority q) + length (q_normal q))) q"

subsection \<open>The manager\<close>

datatype teardown_warning =
    AutoCommitFailed string
  | UncommittedOverrides
  | UnflushedChanges

record 'st hosted =
  session :: "'st Session"
  commands :: "command_queue option"

record 'st SessionManager =
  m_locator :: UsdFileLocator
  m_sessions_dir :: fspath
  m_idle_timeout :: seconds
  m_sessions :: "(string \<times> nat) list"
  objects :: "nat \<rightharpoonup> 'st hosted"
  next_object :: nat
  next_promise :: nat
  files :: disk
  warnings :: "(string \<times> teardown_warning) list"

text \<open>What opening and closing a stage calls: the USD layer registry, the stage, the session layer's
  \<^verbatim>\<open>Clear\<close>.\<close>

record 'st stage_library =
  FindOrOpen :: "fspath \<Rightarrow> disk \<Rightarrow> bool"
  CreateNew :: "fspath \<Rightarrow> disk \<Rightarrow> bool \<times> disk"
  OpenStage :: "fspath \<Rightarrow> fspath \<Rightarrow> disk \<Rightarrow> 'st option"
  SetEditTarget :: "'st \<Rightarrow> 'st"
  ClearSessionLayer :: "'st \<Rightarrow> 'st throws"

definition SessionManager_create :: "UsdFileLocator \<Rightarrow> seconds \<Rightarrow> disk \<Rightarrow> 'st SessionManager" where
  "SessionManager_create loc idle_timeout d =
     \<lparr>m_locator = loc, m_sessions_dir = session_root loc, m_idle_timeout = idle_timeout, m_sessions = [],
      objects = Map.empty, next_object = 0, next_promise = 0, files = d, warnings = []\<rparr>"

definition put_object :: "nat \<Rightarrow> 'st hosted \<Rightarrow> 'st SessionManager \<Rightarrow> 'st SessionManager" where
  "put_object r h m = m\<lparr>objects := (objects m)(r \<mapsto> h)\<rparr>"

definition Get_session :: "'st SessionManager \<Rightarrow> string \<Rightarrow> nat option" where
  "Get_session m sid = map_of (m_sessions m) sid"

definition List_sessions :: "'st SessionManager \<Rightarrow> nat list" where
  "List_sessions m = map snd (m_sessions m)"

definition Exists_session :: "'st SessionManager \<Rightarrow> string \<Rightarrow> bool" where
  "Exists_session m sid \<longleftrightarrow> Get_session m sid \<noteq> None"

subsection \<open>Creation\<close>

datatype CreateStatus = CreateOk | FileNotFound | StageOpenFailed

text \<open>\<^verbatim>\<open>emplace\<close> keeps an entry that is already there.\<close>

definition emplace :: "string \<Rightarrow> nat \<Rightarrow> (string \<times> nat) list \<Rightarrow> (string \<times> nat) list" where
  "emplace sid r xs = (if map_of xs sid = None then xs @ [(sid, r)] else xs)"

definition Create_session ::
  "filesystem_view \<Rightarrow> 'st stage_library \<Rightarrow> u64 \<times> u64 \<Rightarrow> int \<Rightarrow> time_point \<Rightarrow> string \<Rightarrow> SessionMode \<Rightarrow> bool \<Rightarrow>
   'st SessionManager \<Rightarrow> (CreateStatus \<times> string \<times> nat option) \<times> 'st SessionManager" where
  "Create_session fs sl random system_now steady_now file md auto m =
     (case Resolve fs (m_locator m) file of
        (Ok, resolved) \<Rightarrow>
          let sid = GenerateUuidV4 (fst random) (snd random);
              sidecar = path_join (m_sessions_dir m) (sid @ ''.usda'')
          in if \<not> FindOrOpen sl resolved (files m)
             then ((StageOpenFailed, ''Failed to open USD root layer'', None), m)
             else
               let resuming = files m (file_key sidecar) \<noteq> None;
                   (opened, d) = (if resuming then (FindOrOpen sl sidecar (files m), files m) else CreateNew sl sidecar (files m));
                   m1 = m\<lparr>files := d\<rparr>
               in if \<not> opened then ((StageOpenFailed, ''Failed to open session sidecar layer'', None), m1)
                  else
                    (case OpenStage sl resolved sidecar d of
                       None \<Rightarrow> ((StageOpenFailed, ''Failed to open USD stage'', None), m1)
                     | Some st \<Rightarrow>
                         let s = new_session sid file resolved (SetEditTarget sl st) md auto sidecar system_now steady_now;
                             r = next_object m1
                         in ((CreateOk, [], Some r),
                             put_object r \<lparr>session = s, commands = Some empty_queue\<rparr>
                               (m1\<lparr>next_object := Suc r, m_sessions := emplace sid r (m_sessions m1)\<rparr>)))
      | (status, _) \<Rightarrow> ((FileNotFound, ''USD file not found or invalid: '' @ StatusToString status, None), m))"

subsection \<open>Submitting commands\<close>

datatype SubmitStatus = SubmitAccepted | UnknownSession | SubmitQueueFull | SessionClosing

fun ToSubmitStatus :: "CommandAdmissionStatus \<Rightarrow> SubmitStatus" where
  "ToSubmitStatus Accepted = SubmitAccepted"
| "ToSubmitStatus QueueFull = SubmitQueueFull"
| "ToSubmitStatus Stopping = SessionClosing"

text \<open>\<^verbatim>\<open>Submit\<close> and \<^verbatim>\<open>SubmitPriority\<close>.\<close>

definition Submit :: "schedule \<Rightarrow> lane \<Rightarrow> nat \<Rightarrow> SessionCommand \<Rightarrow> 'st SessionManager \<Rightarrow> SubmitStatus \<times> 'st SessionManager" where
  "Submit sched l r c m =
     (case objects m r of
        None \<Rightarrow> (SessionClosing, m)
      | Some h \<Rightarrow>
          (case commands h of
             None \<Rightarrow> (SessionClosing, m)
           | Some q \<Rightarrow>
               (case admit (push_lossy sched r) l c q of
                  (status, q') \<Rightarrow> (ToSubmitStatus status, put_object r (h\<lparr>commands := Some q'\<rparr>) m))))"

text \<open>The common shape of the submissions that look their session up by id.\<close>

definition submit_to :: "schedule \<Rightarrow> string \<Rightarrow> SessionCommand \<Rightarrow> 'st SessionManager \<Rightarrow> SubmitStatus \<times> 'st SessionManager" where
  "submit_to sched sid c m =
     (case Get_session m sid of None \<Rightarrow> (UnknownSession, m) | Some r \<Rightarrow> Submit sched Normal r c m)"

definition SubmitTransformCommand ::
  "schedule \<Rightarrow> string \<Rightarrow> TransformUpdate option \<Rightarrow> ConnectionId \<Rightarrow> u64 \<Rightarrow> server_seq \<Rightarrow> 'st SessionManager \<Rightarrow>
   SubmitStatus \<times> 'st SessionManager" where
  "SubmitTransformCommand sched sid upd origin request_id base_seq m =
     (case Get_session m sid of
        None \<Rightarrow> (UnknownSession, m)
      | Some r \<Rightarrow>
          (case upd of
             None \<Rightarrow> (SubmitAccepted, m)
           | Some u \<Rightarrow>
               Submit sched Normal r
                 (Transform \<lparr>tc_update = u, tc_origin = origin, tc_request_id = request_id, tc_base_seq = base_seq\<rparr>) m))"

definition SubmitJoinSnapshotCommand ::
  "schedule \<Rightarrow> string \<Rightarrow> ConnectionId \<Rightarrow> 'st SessionManager \<Rightarrow> SubmitStatus \<times> 'st SessionManager" where
  "SubmitJoinSnapshotCommand sched sid c = submit_to sched sid (Join c)"

definition SubmitCreatePrimCommand ::
  "schedule \<Rightarrow> string \<Rightarrow> string \<Rightarrow> PrimType \<Rightarrow> ConnectionId \<Rightarrow> u64 \<Rightarrow> 'st SessionManager \<Rightarrow> SubmitStatus \<times> 'st SessionManager" where
  "SubmitCreatePrimCommand sched sid parent_path type origin request_id =
     submit_to sched sid
       (CreatePrim \<lparr>cc_parent_path = parent_path, cc_type = type, cc_origin = origin, cc_request_id = request_id\<rparr>)"

definition SubmitSetPrimActiveCommand ::
  "schedule \<Rightarrow> string \<Rightarrow> string \<Rightarrow> bool \<Rightarrow> ConnectionId \<Rightarrow> u64 \<Rightarrow> 'st SessionManager \<Rightarrow> SubmitStatus \<times> 'st SessionManager" where
  "SubmitSetPrimActiveCommand sched sid prim_path active origin request_id =
     submit_to sched sid
       (SetPrimActive \<lparr>ac_prim_path = prim_path, ac_active = active, ac_origin = origin, ac_request_id = request_id\<rparr>)"

text \<open>The mark \<^verbatim>\<open>PendingCorrection::queued\<close> of a connection and prim is kept with the session.\<close>

definition mark_correction :: "ConnectionId \<times> string \<Rightarrow> bool \<Rightarrow> nat \<Rightarrow> 'st SessionManager \<Rightarrow> 'st SessionManager" where
  "mark_correction key b r m =
     (case objects m r of
        None \<Rightarrow> m
      | Some h \<Rightarrow>
          put_object r (h\<lparr>session := (session h)\<lparr>correction_queued := (correction_queued (session h))(key := b)\<rparr>\<rparr>) m)"

definition correction_marked :: "ConnectionId \<times> string \<Rightarrow> nat \<Rightarrow> 'st SessionManager \<Rightarrow> bool" where
  "correction_marked key r m = (case objects m r of None \<Rightarrow> False | Some h \<Rightarrow> correction_queued (session h) key)"

definition SubmitCorrectionCommand ::
  "schedule \<Rightarrow> string \<Rightarrow> ConnectionId \<Rightarrow> (ConnectionId \<times> string) option \<Rightarrow> 'st SessionManager \<Rightarrow> 'st SessionManager" where
  "SubmitCorrectionCommand sched sid c request m =
     (case request of
        None \<Rightarrow> m
      | Some key \<Rightarrow>
          (case Get_session m sid of
             None \<Rightarrow> m
           | Some r \<Rightarrow>
               if correction_marked key r m then m
               else
                 (case Submit sched Priority r (Correction c (Some key)) (mark_correction key True r m) of
                    (status, m') \<Rightarrow> if status = SubmitAccepted then m' else mark_correction key False r m')))"

definition FindByUsdFile :: "string \<Rightarrow> 'st SessionManager \<Rightarrow> nat list" where
  "FindByUsdFile file m =
     filter (\<lambda>r. case objects m r of None \<Rightarrow> False | Some h \<Rightarrow> usd_file (session h) = file) (List_sessions m)"

text \<open>Submit the same command to a list of sessions, counting the accepted ones.\<close>

fun submit_each :: "schedule \<Rightarrow> SessionCommand \<Rightarrow> nat list \<Rightarrow> 'st SessionManager \<Rightarrow> nat \<times> 'st SessionManager" where
  "submit_each sched c [] m = (0, m)"
| "submit_each sched c (r # rs) m =
     (case Submit sched Normal r c m of
        (status, m1) \<Rightarrow>
          (case submit_each sched c rs m1 of
             (n, m2) \<Rightarrow> (n + (if status = SubmitAccepted then 1 else 0), m2)))"

definition SubmitReloadSessionsCommand ::
  "schedule \<Rightarrow> string \<Rightarrow> nat option \<Rightarrow> 'st SessionManager \<Rightarrow> nat \<times> 'st SessionManager" where
  "SubmitReloadSessionsCommand sched file skip m =
     submit_each sched ReloadRoot (filter (\<lambda>r. Some r \<noteq> skip) (FindByUsdFile file m)) m"

definition is_dirty :: "'st SessionManager \<Rightarrow> nat \<Rightarrow> bool" where
  "is_dirty m r = (case objects m r of None \<Rightarrow> False | Some h \<Rightarrow> dirty (session h))"

definition SubmitFlushDirtySessionsCommand :: "schedule \<Rightarrow> 'st SessionManager \<Rightarrow> nat \<times> 'st SessionManager" where
  "SubmitFlushDirtySessionsCommand sched m = submit_each sched Flush (filter (is_dirty m) (List_sessions m)) m"

text \<open>A commit is submitted with the key of its promise; the caller then waits for the future.\<close>

definition SubmitCommit :: "schedule \<Rightarrow> string \<Rightarrow> 'st SessionManager \<Rightarrow> (CommitResult + nat) \<times> 'st SessionManager" where
  "SubmitCommit sched sid m =
     (case Get_session m sid of
        None \<Rightarrow> (Inl \<lparr>commit_status = CommitUnknownSession, commit_error = ''unknown session''\<rparr>, m)
      | Some r \<Rightarrow>
          if (case objects m r of None \<Rightarrow> True | Some h \<Rightarrow> stage (session h) = None)
          then (Inl \<lparr>commit_status = CommitUnknownSession, commit_error = ''unknown session''\<rparr>, m)
          else
            (case Submit sched Normal r (Commit (next_promise m)) (m\<lparr>next_promise := Suc (next_promise m)\<rparr>) of
               (SubmitAccepted, m') \<Rightarrow> (Inr (next_promise m), m')
             | (SubmitQueueFull, m') \<Rightarrow> (Inl \<lparr>commit_status = Unavailable, commit_error = ''session command queue is full''\<rparr>, m')
             | (_, m') \<Rightarrow> (Inl \<lparr>commit_status = Unavailable, commit_error = ''session is closing''\<rparr>, m')))"

datatype future_state = Ready CommitResult | Timed_out | Broken_promise

fun await_commit :: "future_state \<Rightarrow> CommitResult" where
  "await_commit Timed_out = \<lparr>commit_status = Unavailable, commit_error = ''commit did not complete in time''\<rparr>"
| "await_commit (Ready r) = r"
| "await_commit Broken_promise = \<lparr>commit_status = WriteFailed, commit_error = ''commit failed''\<rparr>"

definition SubmitCommitSessionCommand ::
  "schedule \<Rightarrow> (nat \<Rightarrow> future_state) \<Rightarrow> string \<Rightarrow> 'st SessionManager \<Rightarrow> CommitResult \<times> 'st SessionManager" where
  "SubmitCommitSessionCommand sched outcome sid m =
     (case SubmitCommit sched sid m of
        (Inl r, m') \<Rightarrow> (r, m')
      | (Inr k, m') \<Rightarrow> (await_commit (outcome k), m'))"

subsection \<open>Clients\<close>

definition attach_object :: "nat \<Rightarrow> ConnectionId \<Rightarrow> 'st SessionManager \<Rightarrow> AttachStatus \<times> 'st SessionManager" where
  "attach_object r c m =
     (case objects m r of
        None \<Rightarrow> (AttachUnknownSession, m)
      | Some h \<Rightarrow> (case attach_client c (session h) of (status, s') \<Rightarrow> (status, put_object r (h\<lparr>session := s'\<rparr>) m)))"

definition AttachClient :: "string \<Rightarrow> ConnectionId \<Rightarrow> 'st SessionManager \<Rightarrow> AttachStatus \<times> 'st SessionManager" where
  "AttachClient sid c m =
     (case Get_session m sid of None \<Rightarrow> (AttachUnknownSession, m) | Some r \<Rightarrow> attach_object r c m)"

definition IsSingleEditBusy :: "string \<Rightarrow> 'st SessionManager \<Rightarrow> bool" where
  "IsSingleEditBusy sid m =
     (case Get_session m sid of
        None \<Rightarrow> False
      | Some r \<Rightarrow>
          (case objects m r of
             None \<Rightarrow> False
           | Some h \<Rightarrow> mode (session h) = SingleEdit \<and> clients (session h) \<noteq> []))"

definition detach_object :: "time_point \<Rightarrow> nat \<Rightarrow> ConnectionId \<Rightarrow> 'st SessionManager \<Rightarrow> 'st SessionManager" where
  "detach_object now r c m =
     (case objects m r of
        None \<Rightarrow> m
      | Some h \<Rightarrow> put_object r (h\<lparr>session := DetachClient now c (session h)\<rparr>) m)"

subsection \<open>The consumer\<close>

text \<open>One command on a session's consumer. A successful commit asks the other sessions on the file to
  reload before it reports its result; \<open>None\<close> is a creation whose name search does not end.\<close>

definition ProcessCommand ::
  "('st, 'ly) Library \<Rightarrow> schedule \<Rightarrow> nat \<Rightarrow> SessionCommand \<Rightarrow> 'st SessionManager \<Rightarrow> 'st SessionManager option" where
  "ProcessCommand lib sched r c m =
     (case objects m r of
        None \<Rightarrow> Some m
      | Some h \<Rightarrow>
          (case HandleCommand lib c (session h, files m) of
             None \<Rightarrow> None
           | Some (s', d') \<Rightarrow>
               Some (fold (\<lambda>file m. snd (SubmitReloadSessionsCommand sched file (Some r) m)) (reload_requests s')
                 (put_object r (h\<lparr>session := s'\<lparr>reload_requests := []\<rparr>\<rparr>) (m\<lparr>files := d'\<rparr>)))))"

definition consume ::
  "('st, 'ly) Library \<Rightarrow> schedule \<Rightarrow> nat \<Rightarrow> 'st SessionManager \<Rightarrow> 'st SessionManager option" where
  "consume lib sched r m =
     (case objects m r of
        None \<Rightarrow> Some m
      | Some h \<Rightarrow>
          (case commands h of
             None \<Rightarrow> Some m
           | Some q \<Rightarrow>
               (case take_command sched r q of
                  None \<Rightarrow> Some m
                | Some (c, q') \<Rightarrow> ProcessCommand lib sched r c (put_object r (h\<lparr>commands := Some q'\<rparr>) m))))"

fun consume_n ::
  "('st, 'ly) Library \<Rightarrow> schedule \<Rightarrow> nat \<Rightarrow> nat \<Rightarrow> 'st SessionManager \<Rightarrow> 'st SessionManager option" where
  "consume_n lib sched r 0 m = Some m"
| "consume_n lib sched r (Suc n) m = Option.bind (consume lib sched r m) (consume_n lib sched r n)"

subsection \<open>Teardown\<close>

definition pending_commands :: "'st hosted \<Rightarrow> nat" where
  "pending_commands h = (case commands h of None \<Rightarrow> 0 | Some q \<Rightarrow> length (q_priority q) + length (q_normal q))"

text \<open>\<^verbatim>\<open>CloseAdmission\<close>, then \<^verbatim>\<open>WaitIdle\<close>: the consumer handles what was accepted.\<close>

definition close_and_drain ::
  "('st, 'ly) Library \<Rightarrow> schedule \<Rightarrow> nat \<Rightarrow> 'st SessionManager \<Rightarrow> 'st SessionManager option" where
  "close_and_drain lib sched r m =
     (case objects m r of
        None \<Rightarrow> Some m
      | Some h \<Rightarrow>
          (case commands h of
             None \<Rightarrow> Some m
           | Some q \<Rightarrow>
               consume_n lib sched r (pending_commands h)
                 (put_object r (h\<lparr>commands := Some (q\<lparr>q_accepting := False\<rparr>)\<rparr>) m)))"

definition has_overrides :: "'st Usd \<Rightarrow> 'st Session \<Rightarrow> bool" where
  "has_overrides u s \<longleftrightarrow>
     (case stage s of
        None \<Rightarrow> False
      | Some st \<Rightarrow> (case GetSessionLayer u st of None \<Rightarrow> False | Some l \<Rightarrow> \<not> layer_empty l))"

lemma Revoke_eq [simp]: "Revoke s = s\<lparr>listener_registered := False\<rparr>"
  by (simp add: Revoke_def)

text \<open>The end of the teardown, with exclusive access to the idle session. An exception while the sidecar
  is saved for the automatic commit leaves the teardown.\<close>

definition teardown_idle ::
  "('st, 'ly) Library \<Rightarrow> 'st stage_library \<Rightarrow> 'st Session \<times> disk \<Rightarrow> teardown_warning list throws \<times> 'st Session \<times> disk" where
  "teardown_idle lib sl sd =
     (case sd of (s, d) \<Rightarrow>
        let s0 = Revoke s;
            overrides = has_overrides (usd lib) s0;
            (committed, w1, s1, d1) =
              (if auto_commit s0 \<and> overrides
               then (case CommitOverrides lib False (s0, d) of
                       (Inl e, s1, d1) \<Rightarrow> (Inl e, [], s1, d1)
                     | (Inr result, s1, d1) \<Rightarrow>
                         if commit_status result = CommitOk then (Inr True, [], s1, d1)
                         else (Inr False, [AutoCommitFailed (commit_error result)], s1, d1))
               else (Inr False, [], s0, d));
            w2 = (if overrides \<and> committed = Inr False then [UncommittedOverrides] else []);
            w3 = (if dirty s1 then [UnflushedChanges] else []);
            s2 = (case stage s1 of
                    None \<Rightarrow> s1
                  | Some st \<Rightarrow>
                      if GetSessionLayer (usd lib) st = None then s1
                      else (case ClearSessionLayer sl st of Inl _ \<Rightarrow> s1 | Inr st' \<Rightarrow> s1\<lparr>stage := Some st'\<rparr>));
            d2 = (if sidecar_path s2 \<noteq> [] \<and> d1 (file_key (sidecar_path s2)) \<noteq> None
                  then fs_remove (cenv lib) (sidecar_path s2) d1 else d1)
        in (case committed of Inl e \<Rightarrow> (Inl e, s1, d1) | Inr _ \<Rightarrow> (Inr (w1 @ w2 @ w3), s2, d2)))"

text \<open>\<open>None\<close> is a teardown that does not return: the drain does not end, or the exception above left it. The
  callers pass \<open>None\<close> on: what follows such an exception (the reaper logs it and goes on with its next
  sweep, the destructor of the manager lets it terminate the process) is not followed further.\<close>

definition TeardownSession ::
  "('st, 'ly) Library \<Rightarrow> 'st stage_library \<Rightarrow> schedule \<Rightarrow> nat \<Rightarrow> 'st SessionManager \<Rightarrow> 'st SessionManager option" where
  "TeardownSession lib sl sched r m =
     Option.bind (close_and_drain lib sched r m) (\<lambda>m1.
       case objects m1 r of
         None \<Rightarrow> Some m1
       | Some h \<Rightarrow>
           (case teardown_idle lib sl (session h, files m1) of
              (Inl _, s', d') \<Rightarrow> None
            | (Inr ws, s', d') \<Rightarrow>
                Some (put_object r (h\<lparr>session := s'\<rparr>)
                  (m1\<lparr>files := d', warnings := warnings m1 @ map (Pair (s_id (session h))) ws\<rparr>))))"

fun teardown_all ::
  "('st, 'ly) Library \<Rightarrow> 'st stage_library \<Rightarrow> schedule \<Rightarrow> nat list \<Rightarrow> 'st SessionManager \<Rightarrow> 'st SessionManager option" where
  "teardown_all lib sl sched [] m = Some m"
| "teardown_all lib sl sched (r # rs) m =
     Option.bind (TeardownSession lib sl sched r m) (teardown_all lib sl sched rs)"

definition erase :: "string \<Rightarrow> 'st SessionManager \<Rightarrow> 'st SessionManager" where
  "erase sid m = m\<lparr>m_sessions := filter (\<lambda>e. fst e \<noteq> sid) (m_sessions m)\<rparr>"

definition Destroy ::
  "('st, 'ly) Library \<Rightarrow> 'st stage_library \<Rightarrow> schedule \<Rightarrow> string \<Rightarrow> 'st SessionManager \<Rightarrow> (bool \<times> 'st SessionManager) option" where
  "Destroy lib sl sched sid m =
     (case Get_session m sid of
        None \<Rightarrow> Some (False, m)
      | Some r \<Rightarrow> map_option (Pair True) (TeardownSession lib sl sched r (erase sid m)))"

definition SessionManager_destroy ::
  "('st, 'ly) Library \<Rightarrow> 'st stage_library \<Rightarrow> schedule \<Rightarrow> 'st SessionManager \<Rightarrow> 'st SessionManager option" where
  "SessionManager_destroy lib sl sched m = teardown_all lib sl sched (List_sessions m) (m\<lparr>m_sessions := []\<rparr>)"

subsection \<open>The idle-session reaper\<close>

definition is_idle :: "time_point \<Rightarrow> seconds \<Rightarrow> 'st Session \<Rightarrow> bool" where
  "is_idle now timeout s \<longleftrightarrow>
     clients s = [] \<and> (case empty_since s of None \<Rightarrow> False | Some t \<Rightarrow> now - t \<ge> ns timeout)"

definition idle_entry :: "time_point \<Rightarrow> 'st SessionManager \<Rightarrow> string \<times> nat \<Rightarrow> bool" where
  "idle_entry now m e = (case objects m (snd e) of None \<Rightarrow> False | Some h \<Rightarrow> is_idle now (m_idle_timeout m) (session h))"

definition ReapIdleSessions ::
  "('st, 'ly) Library \<Rightarrow> 'st stage_library \<Rightarrow> schedule \<Rightarrow> time_point \<Rightarrow> 'st SessionManager \<Rightarrow> (nat \<times> 'st SessionManager) option" where
  "ReapIdleSessions lib sl sched now m =
     (if m_idle_timeout m \<le> 0 then Some (0, m)
      else
        let reaped = map snd (filter (idle_entry now m) (m_sessions m));
            m1 = m\<lparr>m_sessions := filter (\<lambda>e. \<not> idle_entry now m e) (m_sessions m)\<rparr>
        in map_option (Pair (length reaped)) (teardown_all lib sl sched reaped m1))"

definition reaper_sweep :: "seconds \<Rightarrow> seconds" where
  "reaper_sweep timeout = max (min timeout 30) 1"

text \<open>The background loops: each wake-up is a tick of the interval, at a time, or the stop signal.\<close>

datatype wake_up = Tick time_point | StopSignal

fun ReaperRun ::
  "('st, 'ly) Library \<Rightarrow> 'st stage_library \<Rightarrow> schedule \<Rightarrow> wake_up list \<Rightarrow> 'st SessionManager \<Rightarrow> 'st SessionManager option" where
  "ReaperRun lib sl sched [] m = Some m"
| "ReaperRun lib sl sched (StopSignal # ws) m = Some m"
| "ReaperRun lib sl sched (Tick now # ws) m =
     Option.bind (ReapIdleSessions lib sl sched now m) (\<lambda>r. ReaperRun lib sl sched ws (snd r))"

fun Flusher_Run :: "schedule \<Rightarrow> wake_up list \<Rightarrow> 'st SessionManager \<Rightarrow> 'st SessionManager" where
  "Flusher_Run sched [] m = m"
| "Flusher_Run sched (StopSignal # ws) m = m"
| "Flusher_Run sched (Tick now # ws) m = Flusher_Run sched ws (snd (SubmitFlushDirtySessionsCommand sched m))"

text \<open>The destructor stops the thread and submits one more round of flushes.\<close>

definition SessionFlusher_destroy :: "schedule \<Rightarrow> 'st SessionManager \<Rightarrow> 'st SessionManager" where
  "SessionFlusher_destroy sched m = snd (SubmitFlushDirtySessionsCommand sched m)"

subsection \<open>Description of a session\<close>

fun mode_string :: "SessionMode \<Rightarrow> string" where
  "mode_string SingleEdit = ''single_edit''"
| "mode_string SingleRuntime = ''single_runtime''"
| "mode_string CollaborativeEdit = ''collaborative_edit''"
| "mode_string CollaborativeRuntime = ''collaborative_runtime''"

definition to_milliseconds :: "int \<Rightarrow> int" where
  "to_milliseconds t = (if 0 \<le> t then t div 1000000 else - ((- t) div 1000000))"

definition ToJson :: "'st Session \<Rightarrow> json" where
  "ToJson s =
     JObject [(''session_id'', JString (s_id s)), (''usd_file'', JString (usd_file s)),
       (''mode'', JString (mode_string (mode s))), (''client_count'', JInt (int (length (clients s)))),
       (''created_at'', JInt (to_milliseconds (created_at s))), (''ws_url'', JString (''/ws?sid='' @ s_id s)),
       (''protocol'', JString ''protobuf-binary'')]"

end
