(* ===== verification/Manager_Invariant.thy ===== *)
theory Manager_Invariant
  imports Session_Manager
begin

text \<open>
  The registry over every interleaving. The laws of a session's scheduler that the manager relies on
  are the locale \<open>command_admission\<close>. \<open>manager_step\<close> lists the atomic steps of the threads that use the
  manager: a thread that looked a session up may use it later, when the session is no longer
  registered, so steps on a session name the object and not its id.
\<close>

subsection \<open>The admission contract\<close>

locale command_admission =
  fixes lane_commands :: "'q \<Rightarrow> lane \<Rightarrow> 'c list"
    and is_accepting :: "'q \<Rightarrow> bool"
    and capacity :: "lane \<Rightarrow> nat"
    and submit :: "bool \<Rightarrow> lane \<Rightarrow> 'c \<Rightarrow> 'q \<Rightarrow> CommandAdmissionStatus \<times> 'q"
  assumes submit_stopping: "\<not> is_accepting q \<Longrightarrow> submit lossy l c q = (Stopping, q)"
    and submit_refused: "submit lossy l c q = (status, q') \<Longrightarrow> status \<noteq> Accepted \<Longrightarrow> q' = q"
    and submit_accepted: "submit lossy l c q = (Accepted, q') \<Longrightarrow>
      lane_commands q' l' = lane_commands q l' @ (if l' = l then [c] else []) \<and> is_accepting q' = is_accepting q"
    and submit_room: "submit lossy l c q = (Accepted, q') \<Longrightarrow> length (lane_commands q l) < capacity l"
    and submit_full: "submit lossy l c q = (QueueFull, q') \<Longrightarrow> capacity l \<le> Suc (length (lane_commands q l))"
begin

lemma submit_lane:
  assumes "submit lossy l c q = (status, q')"
  shows "lane_commands q' l' = lane_commands q l' @ (if status = Accepted \<and> l' = l then [c] else [])"
    and "is_accepting q' = is_accepting q"
  using submit_refused [OF assms] submit_accepted assms by (cases "status = Accepted"; auto)+

lemma submit_bounded:
  assumes "submit lossy l c q = (status, q')" and "length (lane_commands q l') \<le> capacity l'"
  shows "length (lane_commands q' l') \<le> capacity l'"
  using submit_lane(1) [OF assms(1), of l'] submit_room [of lossy l c q q'] assms by auto

lemma submit_cnt:
  assumes "submit lossy l c q = (status, q')"
  shows "cnt P (lane_commands q' l') = cnt P (lane_commands q l') + (if status = Accepted \<and> l' = l \<and> P c then 1 else 0)"
  using submit_lane(1) [OF assms, of l'] by (simp add: cnt_def)

end

interpretation cq: command_admission lane_of q_accepting lane_capacity admit
proof unfold_locales
  fix q q' :: command_queue and lossy l c status l'
  show "\<not> q_accepting q \<Longrightarrow> admit lossy l c q = (Stopping, q)" by (simp add: admit_def)
  show "admit lossy l c q = (status, q') \<Longrightarrow> status \<noteq> Accepted \<Longrightarrow> q' = q"
    by (auto simp: admit_def split: if_splits)
  show "admit lossy l c q = (Accepted, q') \<Longrightarrow>
      lane_of q' l' = lane_of q l' @ (if l' = l then [c] else []) \<and> q_accepting q' = q_accepting q"
    by (cases l; cases l') (auto simp: admit_def split: if_splits)
  show "admit lossy l c q = (Accepted, q') \<Longrightarrow> length (lane_of q l) < lane_capacity l"
    by (auto simp: admit_def split: if_splits)
  show "admit lossy l c q = (QueueFull, q') \<Longrightarrow> lane_capacity l \<le> Suc (length (lane_of q l))"
    by (auto simp: admit_def split: if_splits)
qed

subsection \<open>What a handler keeps of a session\<close>

text \<open>Everything that no handler changes, and the correction marks, which only a correction changes.\<close>

definition fixed_part :: "'st Session \<Rightarrow> _" where
  "fixed_part s = ((s_id s, usd_file s, usd_file_absolute s, created_at s, mode s, clients s, empty_since s),
     (sidecar_path s, auto_commit s, listener_registered s))"

definition kept :: "'st Session \<Rightarrow> _" where
  "kept s = (fixed_part s, correction_queued s)"

lemma kept_ops [simp]:
  "kept (send_binary c m s) = kept s" "kept (record_sent c q s) = kept s" "kept (record_change p q w s) = kept s"
  "kept (record_correction c p q s) = kept s" "kept (s\<lparr>server_seq := q\<rparr>) = kept s"
  "kept (s\<lparr>stage := st\<rparr>) = kept s" "kept (s\<lparr>current_origin := o'\<rparr>) = kept s" "kept (s\<lparr>dirty := b\<rparr>) = kept s"
  "kept (s\<lparr>create_in_progress := b\<rparr>) = kept s" "kept (s\<lparr>set_active_in_progress := b\<rparr>) = kept s"
  "kept (s\<lparr>reload_in_progress := b\<rparr>) = kept s" "kept (s\<lparr>reload_requests := fs\<rparr>) = kept s"
  "kept (s\<lparr>commit_results := rs\<rparr>) = kept s"
  by (simp_all add: kept_def fixed_part_def send_binary_def record_sent_def record_change_def record_correction_def)

lemma kept_fold:
  assumes "\<And>x s. kept (f x s) = kept s"
  shows "kept (fold f xs s) = kept s"
  by (induction xs arbitrary: s) (simp_all add: assms)

lemma kept_send_to_all [simp]: "kept (send_to_all cs m q s) = kept s"
  by (induction cs arbitrary: s) (simp_all add: send_to_all_def)

lemma kept_sending [simp]:
  "kept (BroadcastToAll s m q) = kept s" "kept (BroadcastResolvedTransform lib s p o' q) = kept s"
  "kept (SendAck s c r ok e) = kept s" "kept (SendCorrection lib s c p) = kept s"
  "kept (announce lib o' q p s) = kept s" "kept (snd (next_seq s)) = kept s"
  by (auto simp: BroadcastToAll_def BroadcastResolvedTransform_def SendAck_def SendToConnection_def SendCorrection_def
      announce_def next_seq_def Let_def split: option.splits)

lemma kept_next_seq: "next_seq s = (q, s') \<Longrightarrow> kept s' = kept s"
  using kept_sending(6) [of s] by simp

lemma kept_deliver [simp]: "kept (deliver lib nts s) = kept s"
proof -
  have "kept (OnObjectsChanged lib n s) = kept s" for n s
    by (auto simp: OnObjectsChanged_def Let_def next_seq_def kept_fold)
  then show ?thesis by (simp add: deliver_def kept_fold)
qed

lemma kept_HandleTransform [simp]: "kept (HandleTransform lib c s) = kept s"
  by (auto simp: HandleTransform_def Let_def split: UpdateBaseStatus.split prod.split)

lemma kept_HandleCreatePrim: "HandleCreatePrim lib c s = Some s' \<Longrightarrow> kept s' = kept s"
  by (auto simp: HandleCreatePrim_def Let_def next_seq_def split: option.splits if_splits)

lemma kept_HandleSetPrimActive [simp]: "kept (HandleSetPrimActive lib c s) = kept s"
  by (auto simp: HandleSetPrimActive_def Let_def next_seq_def split: prod.split SetActiveStatus.split)

lemma kept_HandleJoin [simp]: "kept (HandleJoin lib c s) = kept s"
  by (auto simp: HandleJoin_def Let_def kept_fold split: option.split)

lemma kept_ReloadRootLayer [simp]: "kept (ReloadRootLayer lib d s) = kept s"
  by (auto simp: ReloadRootLayer_def split: option.split prod.split)

lemma kept_CommitOverrides: "CommitOverrides lib b (s, d) = (r, s', d') \<Longrightarrow> kept s' = kept s"
  by (auto simp: CommitOverrides_def Let_def split: option.splits if_splits prod.splits sum.splits)

lemma kept_HandleCommit: "HandleCommit lib k (s, d) = (s', d') \<Longrightarrow> kept s' = kept s"
  by (auto simp: HandleCommit_def Let_def dest: kept_CommitOverrides split: prod.splits if_splits sum.splits)

lemma kept_HandleFlush: "HandleFlush lib (s, d) = (s', d') \<Longrightarrow> kept s' = kept s"
  by (auto simp: HandleFlush_def Let_def split: option.splits if_splits prod.splits sum.splits bool.splits)

fun is_correction :: "ConnectionId \<times> string \<Rightarrow> SessionCommand \<Rightarrow> bool" where
  "is_correction key (Correction _ (Some k)) \<longleftrightarrow> k = key"
| "is_correction key _ \<longleftrightarrow> False"

lemma HandleCommand_kept:
  assumes "HandleCommand lib c (s, d) = Some (s', d')"
  shows "fixed_part s' = fixed_part s"
    and "correction_queued s' key \<longleftrightarrow> correction_queued s key \<and> \<not> is_correction key c"
proof -
  have k: "kept s' = kept (case c of Correction _ (Some k) \<Rightarrow> s\<lparr>correction_queued := (correction_queued s)(k := False)\<rparr> | _ \<Rightarrow> s)"
    using assms
    by (cases c) (auto simp: HandleCorrection_def split: option.splits
        dest: kept_HandleCreatePrim kept_HandleCommit kept_HandleFlush)
  then show "fixed_part s' = fixed_part s"
    by (auto simp: kept_def fixed_part_def split: SessionCommand.splits option.splits)
  show "correction_queued s' key \<longleftrightarrow> correction_queued s key \<and> \<not> is_correction key c"
    using k by (cases "(key, c)" rule: is_correction.cases) (auto simp: kept_def)
qed

subsection \<open>The invariant\<close>

lemma lane_all: "(\<forall>l. P l) \<longleftrightarrow> P Normal \<and> P Priority"
  by (metis lane.exhaust)

text \<open>A session's queues are within their capacities. Corrections are only in the priority queue, and
  there is one for a connection and prim exactly when its mark is set.\<close>

definition hosted_ok :: "'st hosted \<Rightarrow> bool" where
  "hosted_ok h \<longleftrightarrow>
     (\<exists>q. commands h = Some q \<and> (\<forall>l. length (lane_of q l) \<le> lane_capacity l) \<and>
       (\<forall>key. cnt (is_correction key) (lane_of q Normal) = 0 \<and>
              cnt (is_correction key) (lane_of q Priority) = (if correction_queued (session h) key then 1 else 0)))"

definition accepts :: "'st hosted \<Rightarrow> bool" where
  "accepts h \<longleftrightarrow> (case commands h of None \<Rightarrow> False | Some q \<Rightarrow> q_accepting q)"

definition registered :: "'st SessionManager \<Rightarrow> nat set" where
  "registered m = snd ` set (m_sessions m)"

definition manager_inv :: "'st SessionManager \<Rightarrow> bool" where
  "manager_inv m \<longleftrightarrow>
     distinct (map fst (m_sessions m)) \<and> distinct (map snd (m_sessions m)) \<and>
     (\<forall>(sid, r)\<in>set (m_sessions m). \<exists>h. objects m r = Some h \<and> s_id (session h) = sid \<and> accepts h) \<and>
     (\<forall>r h. objects m r = Some h \<longrightarrow> r < next_object m \<and> hosted_ok h)"

lemma manager_invD:
  assumes "manager_inv m" "objects m r = Some h"
  shows "hosted_ok h" "r < next_object m"
  using assms by (auto simp: manager_inv_def)

lemma registered_object:
  assumes "manager_inv m" "r \<in> registered m"
  shows "\<exists>h sid. objects m r = Some h \<and> accepts h \<and> (sid, r) \<in> set (m_sessions m) \<and> s_id (session h) = sid"
  using assms by (fastforce simp: manager_inv_def registered_def)

lemma registered_unique:
  assumes "manager_inv m" "(sid, r) \<in> set (m_sessions m)" "(sid', r) \<in> set (m_sessions m)"
  shows "sid' = sid"
proof -
  have "\<exists>h. objects m r = Some h \<and> s_id (session h) = x" if "(x, r) \<in> set (m_sessions m)" for x
    using assms(1) that by (auto simp: manager_inv_def)
  from this [OF assms(2)] this [OF assms(3)] show ?thesis by auto
qed

text \<open>An object may be replaced by one with the same id that still accepts commands, or by any one with
  the same id when it is no longer registered.\<close>

lemma manager_inv_put:
  assumes "manager_inv m" and "objects m r = Some h" and "hosted_ok h'" and "s_id (session h') = s_id (session h)"
    and "accepts h' = accepts h \<or> r \<notin> registered m"
  shows "manager_inv (put_object r h' m)"
proof -
  have "r < next_object m" using assms(1,2) by (rule manager_invD)
  then show ?thesis
    using assms unfolding manager_inv_def put_object_def registered_def
    by (auto split: if_splits) (force simp: image_iff)+
qed

lemma manager_inv_files: "manager_inv (m\<lparr>files := d\<rparr>) = manager_inv m"
  by (simp add: manager_inv_def)

lemma put_object_frame [simp]:
  "m_sessions (put_object r h m) = m_sessions m" "next_object (put_object r h m) = next_object m"
  "files (put_object r h m) = files m" "m_idle_timeout (put_object r h m) = m_idle_timeout m"
  "warnings (put_object r h m) = warnings m" "registered (put_object r h m) = registered m"
  "objects (put_object r h m) = (objects m)(r \<mapsto> h)" "m_locator (put_object r h m) = m_locator m"
  "m_sessions_dir (put_object r h m) = m_sessions_dir m" "next_promise (put_object r h m) = next_promise m"
  by (simp_all add: put_object_def registered_def)

subsection \<open>Submissions keep it\<close>

lemma Submit_inv [manager_kept]:
  assumes "manager_inv m" and "Submit sched l r c m = (status, m')" and "\<And>key. \<not> is_correction key c"
  shows "manager_inv m' \<and> m_sessions m' = m_sessions m"
proof (cases "objects m r")
  case None
  then show ?thesis using assms by (simp add: Submit_def)
next
  case (Some h)
  obtain q where q: "commands h = Some q" using manager_invD(1) [OF assms(1) Some] by (auto simp: hosted_ok_def)
  obtain st q' where a: "admit (push_lossy sched r) l c q = (st, q')" by fastforce
  have m': "m' = put_object r (h\<lparr>commands := Some q'\<rparr>) m" using assms(2) Some q a by (simp add: Submit_def)
  have "hosted_ok (h\<lparr>commands := Some q'\<rparr>)"
    using manager_invD(1) [OF assms(1) Some] q assms(3) cq.submit_bounded [OF a] cq.submit_cnt [OF a]
    by (auto simp: hosted_ok_def simp del: lane_of.simps)
  then show ?thesis
    unfolding m' using assms(1) Some q cq.submit_lane(2) [OF a] by (auto intro!: manager_inv_put simp: accepts_def)
qed

lemma submit_each_inv:
  assumes "manager_inv m" and "submit_each sched c rs m = (n, m')" and "\<And>key. \<not> is_correction key c"
  shows "manager_inv m' \<and> m_sessions m' = m_sessions m"
  using assms(1,2)
proof (induction rs arbitrary: m n m')
  case (Cons r rs)
  obtain status m1 where s: "Submit sched Normal r c m = (status, m1)" by fastforce
  obtain k m2 where e: "submit_each sched c rs m1 = (k, m2)" by fastforce
  have "m' = m2" using Cons.prems(2) s e by simp
  then show ?case using Submit_inv [OF Cons.prems(1) s assms(3)] Cons.IH [OF _ e] by auto
qed simp

lemma mark_correction_objects:
  assumes "objects m r = Some h"
  shows "mark_correction key b r m =
    put_object r (h\<lparr>session := (session h)\<lparr>correction_queued := (correction_queued (session h))(key := b)\<rparr>\<rparr>) m"
  using assms by (simp add: mark_correction_def)

lemma SubmitCorrection_inv [manager_kept]:
  assumes "manager_inv m"
  shows "manager_inv (SubmitCorrectionCommand sched sid c (Some key) m) \<and>
    m_sessions (SubmitCorrectionCommand sched sid c (Some key) m) = m_sessions m"
proof (cases "\<exists>r. Get_session m sid = Some r \<and> \<not> correction_marked key r m")
  case False
  then show ?thesis using assms by (auto simp: SubmitCorrectionCommand_def split: option.split)
next
  case True
  then obtain r where r: "Get_session m sid = Some r" "\<not> correction_marked key r m" by blast
  then have "r \<in> registered m" by (force simp: Get_session_def registered_def dest: map_of_SomeD)
  then obtain h where h: "objects m r = Some h" using registered_object [OF assms] by blast
  obtain q where q: "commands h = Some q" using manager_invD(1) [OF assms h] by (auto simp: hosted_ok_def)
  let ?set = "\<lambda>b. h\<lparr>session := (session h)\<lparr>correction_queued := (correction_queued (session h))(key := b)\<rparr>\<rparr>"
  obtain st q' where a: "admit (push_lossy sched r) Priority (Correction c (Some key)) q = (st, q')" by fastforce
  have s: "Submit sched Priority r (Correction c (Some key)) (mark_correction key True r m) =
      (ToSubmitStatus st, put_object r ((?set True)\<lparr>commands := Some q'\<rparr>) m)"
    using h q a by (simp add: Submit_def mark_correction_objects [OF h] put_object_def)
  have unmarked: "\<not> correction_queued (session h) key" using r(2) h by (simp add: correction_marked_def)
  show ?thesis
  proof (cases "st = Accepted")
    case True
    have "hosted_ok ((?set True)\<lparr>commands := Some q'\<rparr>)"
      using manager_invD(1) [OF assms h] q unmarked cq.submit_bounded [OF a] cq.submit_cnt [OF a] True
      by (auto simp: hosted_ok_def simp del: lane_of.simps)
    then have "manager_inv (put_object r ((?set True)\<lparr>commands := Some q'\<rparr>) m)"
      using assms h q cq.submit_lane(2) [OF a] by (auto intro!: manager_inv_put simp: accepts_def)
    then show ?thesis using r s True by (simp add: SubmitCorrectionCommand_def)
  next
    case False
    have same: "(correction_queued (session h))(key := False) = correction_queued (session h)" by (rule fun_upd_idem) (use unmarked in simp)
    have "q' = q" using cq.submit_refused [OF a False] .
    then have "SubmitCorrectionCommand sched sid c (Some key) m = put_object r (h\<lparr>commands := Some q\<rparr>) m"
      using r s False same
      by (cases st) (simp_all add: SubmitCorrectionCommand_def mark_correction_def put_object_def)
    moreover have "h\<lparr>commands := Some q\<rparr> = h" using q by (cases h) simp
    ultimately show ?thesis
      using assms h by (simp add: put_object_def fun_upd_idem)
  qed
qed

subsection \<open>The consumer keeps it\<close>

lemma next_command_lanes:
  assumes "next_command b q = Some (c, q')"
  shows "q_accepting q' = q_accepting q \<and>
    (q_priority q = c # q_priority q' \<and> q_normal q' = q_normal q \<or>
     q_priority q' = q_priority q \<and> q_normal q = c # q_normal q')"
  using assms by (auto simp: next_command_def split: list.splits if_splits)

lemma take_command_lanes:
  assumes "take_command sched r q = Some (c, q')"
  shows "q_accepting q' = q_accepting q \<and>
    (q_priority q = c # q_priority q' \<and> q_normal q' = q_normal q \<or>
     q_priority q' = q_priority q \<and> q_normal q = c # q_normal q')"
  by (rule next_command_lanes [OF assms [unfolded take_command_def]])

lemma reloads_inv:
  assumes "manager_inv m"
  shows "manager_inv (fold (\<lambda>file m. snd (SubmitReloadSessionsCommand sched file skip m)) fs m) \<and>
    m_sessions (fold (\<lambda>file m. snd (SubmitReloadSessionsCommand sched file skip m)) fs m) = m_sessions m"
  using assms
proof (induction fs arbitrary: m)
  case (Cons f fs)
  obtain n m1 where e: "SubmitReloadSessionsCommand sched f skip m = (n, m1)" by fastforce
  then have "manager_inv m1 \<and> m_sessions m1 = m_sessions m"
    using submit_each_inv [OF Cons.prems] by (auto simp: SubmitReloadSessionsCommand_def)
  then show ?case using Cons.IH [of m1] e by simp
qed simp

lemma handled_ok:
  assumes "hosted_ok h" and "commands h = Some q" and "take_command sched r q = Some (c, q')"
    and "HandleCommand lib c (session h, d) = Some (s', d')"
  shows "hosted_ok (h\<lparr>commands := Some q', session := s'\<lparr>reload_requests := fs\<rparr>\<rparr>)"
proof -
  note k = HandleCommand_kept(2) [OF assms(4)]
  have "length (q_normal q) \<le> lane_capacity Normal" "length (q_priority q) \<le> lane_capacity Priority"
    using assms(1,2) by (auto simp: hosted_ok_def lane_all)
  then have len: "length (lane_of q' l) \<le> lane_capacity l" for l
    using take_command_lanes [OF assms(3)] by (cases l) auto
  have cnts: "cnt (is_correction key) (q_normal q') = 0 \<and>
      cnt (is_correction key) (q_priority q') = (if correction_queued s' key then 1 else 0)" for key
  proof -
    have b: "cnt (is_correction key) (q_normal q) = 0"
      "cnt (is_correction key) (q_priority q) = (if correction_queued (session h) key then 1 else 0)"
      using assms(1,2) by (cases key, simp add: hosted_ok_def)+
    show ?thesis using take_command_lanes [OF assms(3)] b k [of key] by (auto split: if_splits)
  qed
  show ?thesis using len cnts by (simp add: hosted_ok_def)
qed

lemma consume_inv [manager_kept]:
  assumes "manager_inv m" and "consume lib sched r m = Some m'"
  shows "manager_inv m' \<and> m_sessions m' = m_sessions m"
proof (cases "objects m r")
  case None
  then show ?thesis using assms by (simp add: consume_def)
next
  case (Some h)
  note ok = manager_invD(1) [OF assms(1) Some]
  then obtain q where q: "commands h = Some q" by (auto simp: hosted_ok_def)
  show ?thesis
  proof (cases "take_command sched r q")
    case None
    then show ?thesis using assms Some q by (simp add: consume_def)
  next
    case (Some cq)
    obtain c q' where n: "take_command sched r q = Some (c, q')" using Some by (metis prod.collapse)
    obtain s' d' where hc: "HandleCommand lib c (session h, files m) = Some (s', d')"
      using assms(2) \<open>objects m r = Some h\<close> q n by (auto simp: consume_def ProcessCommand_def split: option.splits)
    let ?h = "h\<lparr>commands := Some q', session := s'\<lparr>reload_requests := []\<rparr>\<rparr>"
    let ?m = "put_object r ?h (m\<lparr>files := d'\<rparr>)"
    have m': "m' = fold (\<lambda>file m. snd (SubmitReloadSessionsCommand sched file (Some r) m)) (reload_requests s') ?m"
      using assms(2) \<open>objects m r = Some h\<close> q n hc
      by (simp add: consume_def ProcessCommand_def put_object_def)
    have "manager_inv ?m"
    proof (rule manager_inv_put)
      show "manager_inv (m\<lparr>files := d'\<rparr>)" using assms(1) by (simp add: manager_inv_files)
      show "objects (m\<lparr>files := d'\<rparr>) r = Some h" using \<open>objects m r = Some h\<close> by simp
      show "hosted_ok ?h" by (rule handled_ok [OF ok q n hc])
      show "s_id (session ?h) = s_id (session h)" using HandleCommand_kept(1) [OF hc] by (simp add: fixed_part_def)
      show "accepts ?h = accepts h \<or> r \<notin> registered (m\<lparr>files := d'\<rparr>)"
        using q take_command_lanes [OF n] by (simp add: accepts_def)
    qed
    then show ?thesis unfolding m' using reloads_inv [of ?m sched "Some r" "reload_requests s'"] by simp
  qed
qed

lemma consume_n_inv:
  "manager_inv m \<Longrightarrow> consume_n lib sched r n m = Some m' \<Longrightarrow> manager_inv m' \<and> m_sessions m' = m_sessions m"
  by (induction n arbitrary: m) (auto simp: bind_eq_Some_conv dest: consume_inv)

subsection \<open>Creation, clients, teardown\<close>

lemma emplace_set: "set (emplace sid r xs) = (if map_of xs sid = None then insert (sid, r) (set xs) else set xs)"
  by (auto simp: emplace_def)

lemma hosted_ok_new: "hosted_ok \<lparr>session = new_session sid f fa st md auto sc t now, commands = Some empty_queue\<rparr>"
  by (simp add: hosted_ok_def empty_queue_def new_session_alt lane_all)

lemma Create_session_cases:
  assumes "Create_session fs sl rnd t now f md auto m = ((status, e, res), m')"
  shows "(res = None \<and> status \<noteq> CreateOk \<and> (\<exists>d. m' = m\<lparr>files := d\<rparr>)) \<or>
    (status = CreateOk \<and> res = Some (next_object m) \<and>
     (\<exists>st d sid resolved sc. sid = GenerateUuidV4 (fst rnd) (snd rnd) \<and> Resolve fs (m_locator m) f = (Ok, resolved) \<and>
        m' = put_object (next_object m)
          \<lparr>session = new_session sid f resolved st md auto sc t now, commands = Some empty_queue\<rparr>
          (m\<lparr>files := d, next_object := Suc (next_object m), m_sessions := emplace sid (next_object m) (m_sessions m)\<rparr>)))"
proof -
  obtain vs resolved where v: "Resolve fs (m_locator m) f = (vs, resolved)" by fastforce
  have same: "\<exists>d. m = m\<lparr>files := d\<rparr>" by (rule exI [of _ "files m"]) simp
  show ?thesis
  proof (cases "vs = Ok \<and> FindOrOpen sl resolved (files m)")
    case False
    then show ?thesis using assms v same by (cases vs) (auto simp: Create_session_def Let_def)
  next
    case True
    let ?sid = "GenerateUuidV4 (fst rnd) (snd rnd)"
    let ?sc = "path_join (m_sessions_dir m) (?sid @ ''.usda'')"
    obtain opened d where od: "(if files m (file_key ?sc) \<noteq> None then (FindOrOpen sl ?sc (files m), files m)
        else CreateNew sl ?sc (files m)) = (opened, d)" by (metis prod.exhaust)
    show ?thesis
    proof (cases "opened \<and> OpenStage sl resolved ?sc d \<noteq> None")
      case False
      then show ?thesis using assms v od True
        by (auto simp: Create_session_def Let_def od simp del: not_None_eq split: if_splits option.splits)
    next
      case opened: True
      then obtain st where st: "OpenStage sl resolved ?sc d = Some st" by blast
      have "status = CreateOk \<and> res = Some (next_object m) \<and> m' = put_object (next_object m)
          \<lparr>session = new_session ?sid f resolved (SetEditTarget sl st) md auto ?sc t now, commands = Some empty_queue\<rparr>
          (m\<lparr>files := d, next_object := Suc (next_object m), m_sessions := emplace ?sid (next_object m) (m_sessions m)\<rparr>)"
        using assms v True opened st by (simp add: Create_session_def Let_def od del: not_None_eq)
      then show ?thesis using v True by blast
    qed
  qed
qed

lemma Create_inv [manager_kept]:
  assumes "manager_inv m" and "Create_session fs sl rnd t now f md auto m = (res, m')"
  shows "manager_inv m'"
proof -
  obtain status e ro where res: "res = (status, e, ro)" by (metis prod_cases3)
  from Create_session_cases [OF assms(2) [unfolded res]] show ?thesis
  proof (elim disjE conjE exE)
    fix st d sid resolved sc
    assume m': "m' = put_object (next_object m) \<lparr>session = new_session sid f resolved st md auto sc t now, commands = Some empty_queue\<rparr>
        (m\<lparr>files := d, next_object := Suc (next_object m), m_sessions := emplace sid (next_object m) (m_sessions m)\<rparr>)"
    have fresh: "objects m (next_object m) = None"
      using assms(1) by (metis less_irrefl manager_invD(2) not_None_eq)
    then have nr: "next_object m \<notin> registered m" using registered_object [OF assms(1)] by fastforce
    have d: "distinct (map fst (emplace sid (next_object m) (m_sessions m)))" "distinct (map snd (emplace sid (next_object m) (m_sessions m)))"
      using assms(1) nr by (auto simp: emplace_def manager_inv_def registered_def map_of_eq_None_iff)
    have reg: "\<exists>h. objects m' r = Some h \<and> s_id (session h) = i \<and> accepts h" if "(i, r) \<in> set (m_sessions m')" for i r
    proof (cases "r = next_object m")
      case True
      then have "i = sid" using that nr m' by (auto simp: emplace_set registered_def image_iff split: if_splits)
      then show ?thesis using True m' by (simp add: new_session_alt accepts_def empty_queue_def)
    next
      case False
      then have "(i, r) \<in> set (m_sessions m)" using that m' by (auto simp: emplace_set split: if_splits)
      then show ?thesis using False assms(1) m' by (fastforce simp: manager_inv_def)
    qed
    show ?thesis unfolding manager_inv_def
    proof (intro conjI ballI allI impI)
      show "distinct (map fst (m_sessions m'))" "distinct (map snd (m_sessions m'))" using d m' by simp_all
      show "case x of (i, r) \<Rightarrow> \<exists>h. objects m' r = Some h \<and> s_id (session h) = i \<and> accepts h" if "x \<in> set (m_sessions m')" for x
        using reg that by (cases x) auto
      show "r < next_object m'" "hosted_ok h" if "objects m' r = Some h" for r h
        using that m' assms(1) hosted_ok_new [of sid f resolved st md auto sc t now]
        by (auto simp: manager_inv_def less_Suc_eq split: if_splits)
    qed
  qed (use assms(1) in \<open>auto simp: manager_inv_files\<close>)
qed

lemma hosted_ok_session:
  assumes "hosted_ok h" and "correction_queued s' = correction_queued (session h)"
  shows "hosted_ok (h\<lparr>session := s'\<rparr>)"
  using assms by (simp add: hosted_ok_def)

lemma put_session_inv:
  assumes "manager_inv m" "objects m r = Some h" "s_id s' = s_id (session h)"
    "correction_queued s' = correction_queued (session h)"
  shows "manager_inv (put_object r (h\<lparr>session := s'\<rparr>) m)"
  using assms manager_invD(1) [OF assms(1,2)]
  by (intro manager_inv_put [OF assms(1,2)] hosted_ok_session) (simp_all add: accepts_def)

lemma put_object_same: "objects m r = Some h \<Longrightarrow> put_object r h m = m"
  by (simp add: put_object_def fun_upd_idem)

lemma attach_inv [manager_kept]:
  assumes "manager_inv m" and "attach_object r c m = (st, m')"
  shows "manager_inv m' \<and> m_sessions m' = m_sessions m"
  using assms
  by (auto simp: attach_object_def attach_client_def put_object_same split: option.splits if_splits intro!: put_session_inv)

lemma detach_inv [manager_kept]: "manager_inv m \<Longrightarrow> manager_inv (detach_object now r c m)"
  by (auto simp: detach_object_def DetachClient_def Let_def split: option.split intro!: put_session_inv)

lemma erase_inv: "manager_inv m \<Longrightarrow> manager_inv (erase sid m)"
  by (auto simp: manager_inv_def erase_def distinct_map_filter)

lemma kept_teardown: "teardown_idle lib sl (s, d) = (Inr ws, s', d') \<Longrightarrow> s_id s' = s_id s \<and> correction_queued s' = correction_queued s"
  by (auto simp: teardown_idle_def Let_def kept_def fixed_part_def dest!: kept_CommitOverrides
      split: if_splits option.splits prod.splits sum.splits)

lemma close_and_drain_inv:
  assumes "manager_inv m" and "r \<notin> registered m" and "close_and_drain lib sched r m = Some m'"
  shows "manager_inv m' \<and> m_sessions m' = m_sessions m"
proof (cases "objects m r")
  case None
  then show ?thesis using assms by (simp add: close_and_drain_def)
next
  case (Some h)
  note ok = manager_invD(1) [OF assms(1) Some]
  then obtain q where q: "commands h = Some q" by (auto simp: hosted_ok_def)
  let ?h = "h\<lparr>commands := Some (q\<lparr>q_accepting := False\<rparr>)\<rparr>"
  have "lane_of (q\<lparr>q_accepting := False\<rparr>) l = lane_of q l" for l by (cases l) simp_all
  then have "hosted_ok ?h" using ok q by (simp add: hosted_ok_def del: lane_of.simps)
  then have "manager_inv (put_object r ?h m)" using assms(2) by (intro manager_inv_put [OF assms(1) Some]) simp_all
  from consume_n_inv [OF this] show ?thesis using assms(3) Some q by (simp add: close_and_drain_def)
qed

lemma Teardown_returns:
  assumes "TeardownSession lib sl sched r m = Some m'" and "close_and_drain lib sched r m = Some m1" and "objects m1 r = Some h"
  obtains ws s' d' where "teardown_idle lib sl (session h, files m1) = (Inr ws, s', d')"
    and "m' = put_object r (h\<lparr>session := s'\<rparr>) (m1\<lparr>files := d', warnings := warnings m1 @ map (Pair (s_id (session h))) ws\<rparr>)"
  using assms by (auto simp: TeardownSession_def split: prod.splits sum.splits)

text \<open>OpenUSD reports a failed save of a layer by the result of the call and throws nothing.\<close>

definition save_returns :: "('st, 'ly) Library \<Rightarrow> bool" where
  "save_returns lib \<longleftrightarrow> (\<forall>st p d. \<exists>b. fst (SaveSessionLayer lib st p d) = Inr b)"

lemma CommitOverrides_returns:
  assumes "save_returns lib"
  shows "\<exists>r. fst (CommitOverrides lib b (s, d)) = Inr r"
proof -
  have "fst (SaveSessionLayer lib st p d) \<noteq> Inl e" for st p e
    using assms unfolding save_returns_def by (metis sum.distinct(1))
  then have "SaveSessionLayer lib st p d \<noteq> (Inl e, d1)" for st p e d1 by (metis fst_conv)
  then show ?thesis
    by (auto simp: CommitOverrides_def Let_def split: option.split prod.split sum.split)
qed

lemma Teardown_total:
  assumes "save_returns lib" and "close_and_drain lib sched r m \<noteq> None"
  shows "TeardownSession lib sl sched r m \<noteq> None"
proof -
  have "fst (teardown_idle lib sl (s, d)) \<noteq> Inl e" for s d e
    using CommitOverrides_returns [OF assms(1), of False "Revoke s" d]
    by (auto simp: teardown_idle_def Let_def split: prod.split sum.split if_splits)
  then have "teardown_idle lib sl (s, d) \<noteq> (Inl e, s', d')" for s d e s' d' by (metis fst_conv)
  then show ?thesis
    using assms(2) by (auto simp: TeardownSession_def split: option.split prod.split sum.split)
qed

lemma mini_save_returns [simp]: "save_returns mini_lib"
  by (auto simp: save_returns_def)

lemma Teardown_inv [manager_kept]:
  assumes "manager_inv m" and "r \<notin> registered m" and "TeardownSession lib sl sched r m = Some m'"
  shows "manager_inv m' \<and> m_sessions m' = m_sessions m"
proof -
  obtain m1 where m1: "close_and_drain lib sched r m = Some m1" using assms(3) by (auto simp: TeardownSession_def bind_eq_Some_conv)
  note inv = close_and_drain_inv [OF assms(1,2) m1]
  show ?thesis
  proof (cases "objects m1 r")
    case None
    then show ?thesis using assms(3) m1 inv by (simp add: TeardownSession_def)
  next
    case (Some h)
    obtain ws s' d' where t: "teardown_idle lib sl (session h, files m1) = (Inr ws, s', d')"
      using assms(3) m1 Some by (rule Teardown_returns)
    let ?m = "m1\<lparr>files := d', warnings := warnings m1 @ map (Pair (s_id (session h))) ws\<rparr>"
    have "manager_inv ?m" using conjunct1 [OF inv] by (simp add: manager_inv_def)
    then have "manager_inv (put_object r (h\<lparr>session := s'\<rparr>) ?m)"
      using Some kept_teardown [OF t] by (intro put_session_inv) simp_all
    then show ?thesis using assms(3) m1 Some t inv by (auto simp: TeardownSession_def)
  qed
qed

subsection \<open>Interleavings\<close>

inductive manager_step :: "('st, 'ly) Library \<Rightarrow> 'st stage_library \<Rightarrow> 'st SessionManager \<Rightarrow> 'st SessionManager \<Rightarrow> bool"
  for lib sl where
  create: "Create_session fs sl rnd t now f md auto m = (res, m') \<Longrightarrow> manager_step lib sl m m'"
| unregister: "manager_step lib sl m (m\<lparr>m_sessions := filter P (m_sessions m)\<rparr>)"
| teardown: "r \<notin> registered m \<Longrightarrow> TeardownSession lib sl sched r m = Some m' \<Longrightarrow> manager_step lib sl m m'"
| attach: "attach_object r c m = (status, m') \<Longrightarrow> manager_step lib sl m m'"
| detach: "manager_step lib sl m (detach_object now r c m)"
| promise: "manager_step lib sl m (m\<lparr>next_promise := Suc (next_promise m)\<rparr>)"
| submit: "(\<And>key. \<not> is_correction key c) \<Longrightarrow> Submit sched Normal r c m = (st, m') \<Longrightarrow> manager_step lib sl m m'"
| correction: "manager_step lib sl m (SubmitCorrectionCommand sched sid c (Some key) m)"
| consume: "consume lib sched r m = Some m' \<Longrightarrow> manager_step lib sl m m'"
| disk: "manager_step lib sl m (m\<lparr>files := d\<rparr>)"

definition manager_reachable :: "('st, 'ly) Library \<Rightarrow> 'st stage_library \<Rightarrow> 'st SessionManager \<Rightarrow> bool" where
  "manager_reachable lib sl m \<longleftrightarrow> (\<exists>loc timeout d. (manager_step lib sl)\<^sup>*\<^sup>* (SessionManager_create loc timeout d) m)"

lemma manager_step_inv: "manager_step lib sl m m' \<Longrightarrow> manager_inv m \<Longrightarrow> manager_inv m'"
proof (induction rule: manager_step.induct)
  case (unregister m P)
  then show ?case by (auto simp: manager_inv_def distinct_map_filter)
next
  case (promise m)
  then show ?case by (simp add: manager_inv_def)
next
  case (disk m d)
  then show ?case by (simp add: manager_inv_def)
qed (blast dest: manager_kept)+

lemma manager_reachable_inv:
  assumes "manager_reachable lib sl m"
  shows "manager_inv m"
proof -
  have "manager_inv (SessionManager_create loc timeout d)" for loc timeout d
    by (simp add: manager_inv_def SessionManager_create_def)
  moreover have "manager_inv m \<Longrightarrow> (manager_step lib sl)\<^sup>*\<^sup>* m m' \<Longrightarrow> manager_inv m'" for m m'
    by (rotate_tac, induction rule: rtranclp_induct) (auto dest: manager_step_inv)
  ultimately show ?thesis using assms unfolding manager_reachable_def by blast
qed

lemma manager_reachable_step: "manager_reachable lib sl m \<Longrightarrow> manager_step lib sl m m' \<Longrightarrow> manager_reachable lib sl m'"
  by (auto simp: manager_reachable_def intro: rtranclp.rtrancl_into_rtrancl)

subsection \<open>Operations that take several steps\<close>

text \<open>The elementary moves that the REST handlers, the uploads, the reaper and the flusher are composed of.
  A relation on managers that has these moves has, in its closure, every one of those operations.\<close>

locale manager_moves =
  fixes lib :: "('st, 'ly) Library" and sl :: "'st stage_library"
    and moves :: "'st SessionManager \<Rightarrow> 'st SessionManager \<Rightarrow> bool"
  assumes create: "Create_session fs sl rnd t now f md auto m = (res, m') \<Longrightarrow>
      (\<And>r h. objects m r = Some h \<Longrightarrow> s_id (session h) \<noteq> GenerateUuidV4 (fst rnd) (snd rnd)) \<Longrightarrow> moves m m'"
    and unregister: "moves m (m\<lparr>m_sessions := filter P (m_sessions m)\<rparr>)"
    and teardown: "r \<notin> registered m \<Longrightarrow> TeardownSession lib sl sched r m = Some m' \<Longrightarrow> moves m m'"
    and promise: "moves m (m\<lparr>next_promise := Suc (next_promise m)\<rparr>)"
    and submit: "cmd = ReloadRoot \<or> cmd = Flush \<or> cmd = Commit k \<Longrightarrow> Submit sched Normal r cmd m = (st, m') \<Longrightarrow> moves m m'"
    and disk: "moves m (m\<lparr>files := d\<rparr>)"
    and keeps: "moves m m' \<Longrightarrow> manager_inv m \<Longrightarrow> manager_inv m'"
begin

lemma moves_inv: "moves\<^sup>*\<^sup>* m m' \<Longrightarrow> manager_inv m \<Longrightarrow> manager_inv m'"
  by (induction rule: rtranclp_induct) (auto dest: keeps)

lemma submit_each_moves:
  assumes "cmd = ReloadRoot \<or> cmd = Flush" and "submit_each sched cmd rs m = (n, m')"
  shows "moves\<^sup>*\<^sup>* m m'"
  using assms(2)
proof (induction rs arbitrary: m n m')
  case (Cons r rs)
  obtain status m1 where s: "Submit sched Normal r cmd m = (status, m1)" by fastforce
  obtain k m2 where e: "submit_each sched cmd rs m1 = (k, m2)" by fastforce
  have "m' = m2" using Cons.prems s e by simp
  moreover have "moves m m1" using submit [OF _ s] assms(1) by blast
  ultimately show ?case using Cons.IH [OF e] by (auto intro: converse_rtranclp_into_rtranclp)
qed simp

lemma reload_moves: "moves\<^sup>*\<^sup>* m (snd (SubmitReloadSessionsCommand sched file skip m))"
  unfolding SubmitReloadSessionsCommand_def using submit_each_moves [OF _ prod.collapse [symmetric]] by blast

lemma flush_moves: "moves\<^sup>*\<^sup>* m (snd (SubmitFlushDirtySessionsCommand sched m))"
  unfolding SubmitFlushDirtySessionsCommand_def using submit_each_moves [OF _ prod.collapse [symmetric]] by blast

lemma Flusher_moves: "moves\<^sup>*\<^sup>* m (Flusher_Run sched ws m)"
proof (induction sched ws m rule: Flusher_Run.induct)
  case (3 sched now ws m)
  then show ?case using flush_moves [of m sched] by (auto intro: rtranclp_trans)
qed simp_all

lemma commit_moves:
  assumes "SubmitCommitSessionCommand sched outcome sid m = (r, m')"
  shows "moves\<^sup>*\<^sup>* m m'"
proof -
  have "SubmitCommit sched sid m = (x, m') \<Longrightarrow> moves\<^sup>*\<^sup>* m m'" for x
  proof -
    assume c: "SubmitCommit sched sid m = (x, m')"
    have "m' = m \<or> (\<exists>r st. Submit sched Normal r (Commit (next_promise m)) (m\<lparr>next_promise := Suc (next_promise m)\<rparr>) = (st, m'))"
      using c by (auto simp: SubmitCommit_def split: option.splits if_splits prod.splits SubmitStatus.splits)
    then consider "m' = m" | "moves (m\<lparr>next_promise := Suc (next_promise m)\<rparr>) m'" using submit by blast
    then show "moves\<^sup>*\<^sup>* m m'" using promise [of m] by cases (auto intro: converse_rtranclp_into_rtranclp)
  qed
  then show ?thesis using assms by (auto simp: SubmitCommitSessionCommand_def split: prod.splits sum.splits)
qed

lemma teardown_all_moves:
  assumes "manager_inv m" and "set rs \<inter> registered m = {}" and "teardown_all lib sl sched rs m = Some m'"
  shows "moves\<^sup>*\<^sup>* m m' \<and> m_sessions m' = m_sessions m"
  using assms
proof (induction rs arbitrary: m)
  case (Cons r rs)
  then obtain m1 where t: "TeardownSession lib sl sched r m = Some m1" "teardown_all lib sl sched rs m1 = Some m'"
    by (auto simp: bind_eq_Some_conv)
  have nr: "r \<notin> registered m" using Cons.prems(2) by simp
  note i = Teardown_inv [OF Cons.prems(1) nr t(1)]
  then have "registered m1 = registered m" by (simp add: registered_def)
  then show ?case using Cons.IH [OF _ _ t(2)] i Cons.prems(2) teardown [OF nr t(1)]
    by (auto intro: converse_rtranclp_into_rtranclp)
qed simp

lemma Destroy_moves:
  assumes "manager_inv m" and "Destroy lib sl sched sid m = Some (b, m')"
  shows "moves\<^sup>*\<^sup>* m m'"
proof (cases "Get_session m sid")
  case None
  then show ?thesis using assms(2) by (simp add: Destroy_def)
next
  case (Some r)
  then have t: "TeardownSession lib sl sched r (erase sid m) = Some m'" using assms(2) by (auto simp: Destroy_def)
  have "(sid, r) \<in> set (m_sessions m)" using Some by (auto simp: Get_session_def dest: map_of_SomeD)
  then have "r \<notin> registered (erase sid m)"
    using registered_unique [OF assms(1)] by (fastforce simp: registered_def erase_def)
  from teardown [OF this t] show ?thesis
    using unregister [of m "\<lambda>e. fst e \<noteq> sid", folded erase_def] by (meson rtranclp.simps)
qed

lemma Reap_moves:
  assumes "manager_inv m" and "ReapIdleSessions lib sl sched now m = Some (n, m')"
  shows "moves\<^sup>*\<^sup>* m m'"
proof (cases "m_idle_timeout m \<le> 0")
  case True
  then show ?thesis using assms(2) by (simp add: ReapIdleSessions_def)
next
  case False
  let ?m = "m\<lparr>m_sessions := filter (\<lambda>e. \<not> idle_entry now m e) (m_sessions m)\<rparr>"
  let ?rs = "map snd (filter (idle_entry now m) (m_sessions m))"
  have step: "moves m ?m" by (rule unregister)
  have "set ?rs \<inter> registered ?m = {}"
    using registered_unique [OF assms(1)] by (fastforce simp: registered_def)
  moreover have "teardown_all lib sl sched ?rs ?m = Some m'"
    using assms(2) False by (auto simp: ReapIdleSessions_def Let_def)
  ultimately have "moves\<^sup>*\<^sup>* ?m m'" using teardown_all_moves keeps [OF step assms(1)] by blast
  then show ?thesis using step by (rule converse_rtranclp_into_rtranclp [rotated])
qed

lemma Reaper_moves:
  assumes "manager_inv m" and "ReaperRun lib sl sched ws m = Some m'"
  shows "moves\<^sup>*\<^sup>* m m'"
  using assms
proof (induction ws arbitrary: m)
  case (Cons x ws)
  show ?case
  proof (cases x)
    case (Tick now)
    then obtain n m1 where r: "ReapIdleSessions lib sl sched now m = Some (n, m1)" "ReaperRun lib sl sched ws m1 = Some m'"
      using Cons.prems(2) by (auto simp: bind_eq_Some_conv)
    note one = Reap_moves [OF Cons.prems(1) r(1)]
    show ?thesis using one Cons.IH [OF moves_inv [OF one Cons.prems(1)] r(2)] by (rule rtranclp_trans)
  qed (use Cons.prems(2) in simp)
qed simp

end

interpretation mm: manager_moves lib sl "manager_step lib sl"
proof unfold_locales
  show "manager_step lib sl m m'" if "cmd = ReloadRoot \<or> cmd = Flush \<or> cmd = Commit k" "Submit sched Normal r cmd m = (st, m')"
    for cmd k sched r m st m'
    by (rule manager_step.submit [OF _ that(2)]) (use that(1) in auto)
qed (auto intro: manager_step.intros manager_step_inv)

subsection \<open>What the other sessions see\<close>

text \<open>A session that only had commands submitted to it; nothing changes once it is closed.\<close>

definition receives :: "'st hosted \<Rightarrow> 'st hosted \<Rightarrow> bool" where
  "receives h h' \<longleftrightarrow> session h' = session h \<and> accepts h' = accepts h \<and> (\<not> accepts h \<longrightarrow> h' = h)"

definition only_receives :: "nat set \<Rightarrow> 'st SessionManager \<Rightarrow> 'st SessionManager \<Rightarrow> bool" where
  "only_receives R m m' \<longleftrightarrow> (\<forall>r\<in>R. \<forall>h. objects m r = Some h \<longrightarrow> (\<exists>h'. objects m' r = Some h' \<and> receives h h'))"

lemma receives_refl [simp]: "receives h h"
  by (simp add: receives_def)

lemma receives_trans: "receives h h' \<Longrightarrow> receives h' h'' \<Longrightarrow> receives h h''"
  by (auto simp: receives_def)

lemma only_receives_refl [simp]: "only_receives R m m"
  by (simp add: only_receives_def)

lemma only_receives_trans: "only_receives R m m' \<Longrightarrow> only_receives R m' m'' \<Longrightarrow> only_receives R m m''"
  unfolding only_receives_def by (meson receives_trans)

lemma only_receives_put: "r \<notin> R \<Longrightarrow> only_receives R m (put_object r h m)"
  by (auto simp: only_receives_def)

lemma Submit_frame:
  assumes "Submit sched l r c m = (status, m')"
  shows "only_receives UNIV m m' \<and> (\<forall>r'. r' \<noteq> r \<longrightarrow> objects m' r' = objects m r') \<and> files m' = files m \<and> warnings m' = warnings m"
proof (cases "\<exists>h q. objects m r = Some h \<and> commands h = Some q")
  case True
  then obtain h q where h: "objects m r = Some h" "commands h = Some q" by blast
  obtain st q' where a: "admit (push_lossy sched r) l c q = (st, q')" by fastforce
  have "receives h (h\<lparr>commands := Some q'\<rparr>)"
    using h(2) a cq.submit_lane(2) [OF a] cq.submit_stopping [of q "push_lossy sched r" l c] by (cases h) (auto simp: receives_def accepts_def)
  then show ?thesis using assms h a by (auto simp: Submit_def only_receives_def)
next
  case False
  then show ?thesis using assms by (auto simp: Submit_def split: option.splits)
qed

lemma submit_each_frame:
  assumes "submit_each sched c rs m = (n, m')"
  shows "only_receives UNIV m m' \<and> (\<forall>r'. r' \<notin> set rs \<longrightarrow> objects m' r' = objects m r') \<and> files m' = files m \<and> warnings m' = warnings m"
  using assms
proof (induction rs arbitrary: m n m')
  case (Cons r rs)
  obtain status m1 where s: "Submit sched Normal r c m = (status, m1)" by fastforce
  obtain k m2 where e: "submit_each sched c rs m1 = (k, m2)" by fastforce
  have "m' = m2" using Cons.prems s e by simp
  then show ?case using Submit_frame [OF s] Cons.IH [OF e] only_receives_trans by auto
qed simp

lemma reloads_frame:
  "only_receives UNIV m (fold (\<lambda>f m. snd (SubmitReloadSessionsCommand sched f (Some r) m)) fs m) \<and>
   objects (fold (\<lambda>f m. snd (SubmitReloadSessionsCommand sched f (Some r) m)) fs m) r = objects m r \<and>
   files (fold (\<lambda>f m. snd (SubmitReloadSessionsCommand sched f (Some r) m)) fs m) = files m \<and>
   warnings (fold (\<lambda>f m. snd (SubmitReloadSessionsCommand sched f (Some r) m)) fs m) = warnings m"
proof (induction fs arbitrary: m)
  case (Cons f fs)
  obtain n m1 where e: "SubmitReloadSessionsCommand sched f (Some r) m = (n, m1)" by fastforce
  have "only_receives UNIV m m1 \<and> objects m1 r = objects m r \<and> files m1 = files m \<and> warnings m1 = warnings m"
    using submit_each_frame [OF e [unfolded SubmitReloadSessionsCommand_def]] by auto
  then show ?case using Cons.IH [of m1] e only_receives_trans by auto
qed simp

text \<open>One command on the consumer: its own session takes the handler's effect, the others at most receive
  a reload.\<close>

lemma consume_frame:
  assumes "objects m r = Some h" and "commands h = Some q" and "take_command sched r q = Some (c, q')"
    and "consume lib sched r m = Some m'"
  shows "\<exists>s' d'. HandleCommand lib c (session h, files m) = Some (s', d') \<and>
    objects m' r = Some \<lparr>session = s'\<lparr>reload_requests := []\<rparr>, commands = Some q'\<rparr> \<and> files m' = d' \<and> warnings m' = warnings m \<and>
    only_receives (- {r}) m m'"
proof -
  obtain s' d' where hc: "HandleCommand lib c (session h, files m) = Some (s', d')"
    using assms by (auto simp: consume_def ProcessCommand_def split: option.splits)
  let ?h = "\<lparr>session = s'\<lparr>reload_requests := []\<rparr>, commands = Some q'\<rparr>"
  have h': "h\<lparr>commands := Some q', session := s'\<lparr>reload_requests := []\<rparr>\<rparr> = ?h" by (cases h) simp
  have m': "m' = fold (\<lambda>f m. snd (SubmitReloadSessionsCommand sched f (Some r) m)) (reload_requests s')
      (put_object r ?h (m\<lparr>files := d'\<rparr>))"
    using assms hc by (simp add: consume_def ProcessCommand_def put_object_def h')
  have "only_receives (- {r}) m (put_object r ?h (m\<lparr>files := d'\<rparr>))" by (auto simp: only_receives_def)
  moreover have "only_receives (- {r}) (put_object r ?h (m\<lparr>files := d'\<rparr>)) m'"
    using reloads_frame [of "put_object r ?h (m\<lparr>files := d'\<rparr>)" sched r "reload_requests s'"] m'
    by (auto simp: only_receives_def)
  ultimately show ?thesis
    using hc m' reloads_frame [of "put_object r ?h (m\<lparr>files := d'\<rparr>)" sched r "reload_requests s'"]
    by (auto intro: only_receives_trans)
qed

lemma take_command_None: "take_command sched r q = None \<longleftrightarrow> q_priority q = [] \<and> q_normal q = []"
  by (auto simp: take_command_def next_command_def split: list.split)

definition drained :: command_queue where
  "drained = \<lparr>q_normal = [], q_priority = [], q_accepting = False\<rparr>"

lemma consume_n_drains:
  assumes "objects m r = Some h" and "commands h = Some q"
    and "length (q_priority q) + length (q_normal q) = n" and "consume_n lib sched r n m = Some m'"
  shows "\<exists>s'. objects m' r = Some \<lparr>session = s', commands = Some \<lparr>q_normal = [], q_priority = [], q_accepting = q_accepting q\<rparr>\<rparr> \<and>
    fixed_part s' = fixed_part (session h) \<and> warnings m' = warnings m \<and> only_receives (- {r}) m m'"
  using assms
proof (induction n arbitrary: m h q)
  case 0
  have "h = \<lparr>session = session h, commands = Some \<lparr>q_normal = [], q_priority = [], q_accepting = q_accepting q\<rparr>\<rparr>"
    using 0 by (cases h; cases q) simp
  then show ?case using 0 by (metis only_receives_refl consume_n.simps(1) option.inject)
next
  case (Suc n)
  have "take_command sched r q \<noteq> None" using Suc.prems(3) unfolding take_command_None by auto
  then obtain c q' where nc: "take_command sched r q = Some (c, q')" by (metis option.exhaust prod.collapse)
  note l = take_command_lanes [OF nc]
  obtain m1 where m1: "consume lib sched r m = Some m1" "consume_n lib sched r n m1 = Some m'"
    using Suc.prems(4) by (auto simp: bind_eq_Some_conv)
  obtain s' d' where s': "HandleCommand lib c (session h, files m) = Some (s', d')"
      "objects m1 r = Some \<lparr>session = s'\<lparr>reload_requests := []\<rparr>, commands = Some q'\<rparr>"
      "warnings m1 = warnings m" "only_receives (- {r}) m m1"
    using consume_frame [OF Suc.prems(1,2) nc m1(1)] by blast
  have "fixed_part (s'\<lparr>reload_requests := []\<rparr>) = fixed_part (session h)"
    using HandleCommand_kept(1) [OF s'(1)] by (simp add: fixed_part_def)
  moreover have "length (q_priority q') + length (q_normal q') = n" "q_accepting q' = q_accepting q" using l Suc.prems(3) by auto
  ultimately show ?case using Suc.IH [OF s'(2) _ _ m1(2), of q'] s'(3,4) only_receives_trans by fastforce
qed

lemma close_and_drain_effect:
  assumes "objects m r = Some h" and "commands h \<noteq> None" and "close_and_drain lib sched r m = Some m'"
  shows "\<exists>s'. objects m' r = Some \<lparr>session = s', commands = Some drained\<rparr> \<and> fixed_part s' = fixed_part (session h) \<and>
    warnings m' = warnings m \<and> only_receives (- {r}) m m'"
proof -
  obtain q where q: "commands h = Some q" using assms(2) by blast
  let ?h = "h\<lparr>commands := Some (q\<lparr>q_accepting := False\<rparr>)\<rparr>"
  have "consume_n lib sched r (length (q_priority q) + length (q_normal q)) (put_object r ?h m) = Some m'"
    using assms(1,3) q by (simp add: close_and_drain_def pending_commands_def)
  from consume_n_drains [OF _ _ _ this, of ?h "q\<lparr>q_accepting := False\<rparr>"] show ?thesis
    using only_receives_put [of r "- {r}" m ?h] only_receives_trans by (fastforce simp: drained_def)
qed

lemma Teardown_effect:
  assumes "objects m r = Some h" and "commands h \<noteq> None" and "TeardownSession lib sl sched r m = Some m'"
  shows "\<exists>m1 s1 ws s' d'. close_and_drain lib sched r m = Some m1 \<and> objects m1 r = Some \<lparr>session = s1, commands = Some drained\<rparr> \<and>
    fixed_part s1 = fixed_part (session h) \<and> teardown_idle lib sl (s1, files m1) = (Inr ws, s', d') \<and>
    objects m' r = Some \<lparr>session = s', commands = Some drained\<rparr> \<and> files m' = d' \<and>
    warnings m' = warnings m @ map (Pair (s_id (session h))) ws \<and> only_receives (- {r}) m m'"
proof -
  obtain m1 where m1: "close_and_drain lib sched r m = Some m1" using assms(3) by (auto simp: TeardownSession_def bind_eq_Some_conv)
  from close_and_drain_effect [OF assms(1,2) m1] obtain s1 where
    s1: "objects m1 r = Some \<lparr>session = s1, commands = Some drained\<rparr>" "fixed_part s1 = fixed_part (session h)"
      "warnings m1 = warnings m" "only_receives (- {r}) m m1" by blast
  obtain ws s' d' where t: "teardown_idle lib sl (s1, files m1) = (Inr ws, s', d')" and
    m': "m' = put_object r \<lparr>session = s', commands = Some drained\<rparr>
      (m1\<lparr>files := d', warnings := warnings m1 @ map (Pair (s_id s1)) ws\<rparr>)"
    by (rule Teardown_returns [OF assms(3) m1 s1(1)]) simp
  have "only_receives (- {r}) m1 m'" unfolding m' by (auto simp: only_receives_def)
  then have r: "only_receives (- {r}) m m'" using s1(4) only_receives_trans by blast
  have "s_id s1 = s_id (session h)" using s1(2) by (simp add: fixed_part_def)
  then have f: "objects m' r = Some \<lparr>session = s', commands = Some drained\<rparr>" "files m' = d'"
      "warnings m' = warnings m @ map (Pair (s_id (session h))) ws" using s1(3) m' by simp_all
  show ?thesis using m1 s1(1,2) t f r by blast
qed

end
