(* ===== verification/Scheduler_Refinement.thy ===== *)
theory Scheduler_Refinement
  imports Scheduler_Invariant Manager_Invariant
begin

text \<open>
  The scheduler of a session keeps what \<open>Session_Manager\<close> assumes of it: its two mailboxes, seen as
  lists of commands, change only as \<^const>\<open>admit\<close>, \<^const>\<open>next_command\<close> and the closing of
  admission change a \<^typ>\<open>command_queue\<close>.

  One thing is wider than the sequential queue. A submission reads the gate before it pushes, so one
  that found it open may push after the gate has closed. It is counted in \<^verbatim>\<open>m_pending_count\<close> all the
  while, and a teardown waits for it.
\<close>

definition queue_view :: "SessionCommand SessionCommandScheduler \<Rightarrow> command_queue" where
  "queue_view s = \<lparr>q_normal = map fst (cells_of s Normal), q_priority = map fst (cells_of s Priority), q_accepting = accepting s\<rparr>"

text \<open>The state of the abstract queue: the queue, the commands accepted and the commands taken so far.\<close>

type_synonym queue_state = "command_queue \<times> (lane \<times> SessionCommand) list \<times> (lane \<times> SessionCommand) list"

definition open_gate :: "command_queue \<Rightarrow> command_queue" where
  "open_gate q = q\<lparr>q_accepting := True\<rparr>"

inductive queue_step :: "queue_state \<Rightarrow> queue_state \<Rightarrow> bool" where
  push: "admit lossy l c (open_gate q) = (Accepted, open_gate q') \<Longrightarrow> q_accepting q' = q_accepting q \<Longrightarrow>
    queue_step (q, acc, hs) (q', acc @ [(l, c)], hs)"
| take: "next_command overtake q = Some (c, q') \<Longrightarrow> lane_of q l = c # lane_of q' l \<Longrightarrow>
    queue_step (q, acc, hs) (q', acc, hs @ [(l, c)])"
| close: "queue_step (q, acc, hs) (q\<lparr>q_accepting := False\<rparr>, acc, hs)"

definition abs_state :: "SessionCommand SessionCommandScheduler \<Rightarrow> queue_state" where
  "abs_state s = (queue_view s, submitted s, handled s)"

lemma queue_view_simps [simp]:
  "q_accepting (queue_view s) = accepting s" "q_normal (queue_view s) = map fst (cells_of s Normal)"
  "q_priority (queue_view s) = map fst (cells_of s Priority)" "lane_of (queue_view s) l = map fst (cells_of s l)"
  by (cases l; simp add: queue_view_def)+

lemma abs_state_frame [simp]:
  "abs_state (s\<lparr>pending_count := n\<rparr>) = abs_state s" "abs_state (s\<lparr>posted := k\<rparr>) = abs_state s"
  "abs_state (s\<lparr>drain_scheduled := b\<rparr>) = abs_state s" "abs_state (ReleasePending s) = abs_state s"
  by (simp_all add: abs_state_def queue_view_def ReleasePending_def)

lemma abs_state_publish: "abs_state (set_queue l (TryPush_publish p (queues s l)) s) = abs_state s"
  by (cases l) (simp_all add: abs_state_def queue_view_def)

lemma push_refines:
  assumes "TryPush_reserve b (lane_capacity l) c (queues s l) = Some (p, q)"
  shows "queue_step (abs_state s) (abs_state ((set_queue l q s)\<lparr>submitted := submitted s @ [(l, c)]\<rparr>))"
proof -
  have "admit b l c (open_gate (queue_view s)) = (Accepted, open_gate (queue_view (set_queue l q s)))"
    using assms by (cases l) (simp_all add: reserve_Some_iff admit_def open_gate_def queue_view_def)
  from queue_step.push [OF this] show ?thesis by (simp add: abs_state_def queue_view_def)
qed

lemma pop_priority_refines:
  assumes "TryPop_cell (queues s Priority) = Some (c, q)"
  shows "queue_step (abs_state s) (abs_state ((set_queue Priority q s)\<lparr>handled := handled s @ [(Priority, c)]\<rparr>))"
proof -
  have "next_command False (queue_view s) = Some (c, queue_view (set_queue Priority q s))"
    using assms by (auto simp: pop_Some_iff next_command_def queue_view_def)
  from queue_step.take [OF this, of Priority] assms show ?thesis by (auto simp: abs_state_def queue_view_def pop_Some_iff)
qed

lemma pop_normal_refines:
  assumes "TryPop_cell (queues s Normal) = Some (c, q)"
  shows "queue_step (abs_state s) (abs_state ((set_queue Normal q s)\<lparr>handled := handled s @ [(Normal, c)]\<rparr>))"
proof -
  have "next_command True (queue_view s) = Some (c, queue_view (set_queue Normal q s))"
    using assms by (auto simp: pop_Some_iff next_command_def queue_view_def)
  from queue_step.take [OF this, of Normal] assms show ?thesis by (auto simp: abs_state_def queue_view_def pop_Some_iff)
qed

lemma thread_step_refines:
  assumes "thread_step b s pc = (s', pc')"
  shows "abs_state s' = abs_state s \<or> queue_step (abs_state s) (abs_state s')"
  using assms
  by (cases pc) (auto simp: abs_state_publish simp del: fun_upd_apply split: if_splits option.splits
      intro: push_refines pop_priority_refines pop_normal_refines)

lemma close_refines: "queue_step (abs_state s) (abs_state (CloseAdmission s))"
proof -
  have "abs_state (CloseAdmission s) = ((queue_view s)\<lparr>q_accepting := False\<rparr>, submitted s, handled s)"
    by (simp add: abs_state_def CloseAdmission_def queue_view_def)
  then show ?thesis by (simp add: abs_state_def queue_step.close)
qed

lemma scheduler_step_refines:
  "scheduler_step (s, ts) (s', ts') \<Longrightarrow> abs_state s' = abs_state s \<or> queue_step (abs_state s) (abs_state s')"
  by (erule scheduler_step.cases) (auto dest: thread_step_refines simp: close_refines)

lemma abs_state_start: "abs_state SessionCommandScheduler_create = (empty_queue, [], [])"
  by (simp add: abs_state_def queue_view_def SessionCommandScheduler_create_def empty_queue_def)

lemma scheduler_run_refines: "scheduler_reachable n x \<Longrightarrow> queue_step\<^sup>*\<^sup>* (empty_queue, [], []) (abs_state (fst x))"
proof (induction rule: scheduler_reachable.induct)
  case (step x y)
  then show ?case using scheduler_step_refines [of "fst x" "snd x" "fst y" "snd y"] by auto
qed (simp add: abs_state_start)

lemma push_counted:
  assumes "thread_step b s pc = (s', pc')" and "submitted s' \<noteq> submitted s"
  shows "counted pc"
  using assms by (cases pc) (auto simp: ReleasePending_def split: if_splits option.splits)

lemma handled_by_drainer:
  assumes "thread_step b s pc = (s', pc')" and "handled s' \<noteq> handled s"
  shows "drainer pc \<and> \<not> counted pc"
  using assms by (cases pc) (auto simp: ReleasePending_def split: if_splits option.splits)

text \<open>A command is pushed only by a thread that is counted as pending, and taken only while no other is
  being handled.\<close>

lemma scheduler_step_discipline:
  assumes "scheduler_inv (s, ts)" and "scheduler_step (s, ts) (s', ts')"
  shows "(submitted s' \<noteq> submitted s \<longrightarrow> 0 < pending_count s) \<and>
    (handled s' \<noteq> handled s \<longrightarrow> (\<forall>sub k c. DHandle sub k c \<notin> set ts))"
  using assms(2)
proof (cases rule: scheduler_step.cases)
  case (run i b pc')
  have "0 < pending_count s" if "submitted s' \<noteq> submitted s"
  proof -
    have "counted (ts ! i)" by (rule push_counted [OF run(3) that])
    then have "0 < cnt counted ts" using run(2) by (auto simp: cnt_pos_iff)
    then show ?thesis using assms(1) by (simp add: scheduler_inv_def inv_pending_def)
  qed
  moreover have "DHandle sub k c \<notin> set ts" if "handled s' \<noteq> handled s" for sub k c
  proof
    assume "DHandle sub k c \<in> set ts"
    then obtain j where j: "j < length ts" "ts ! j = DHandle sub k c" by (auto simp: in_set_conv_nth)
    note d = handled_by_drainer [OF run(3) that]
    then have "i \<noteq> j" using j by auto
    then have "2 \<le> cnt drainer ts" using cnt_two [of i ts j drainer] run(2) j d by simp
    then show False using assms(1) by (simp add: scheduler_inv_def inv_drain_def split: if_splits)
  qed
  ultimately show ?thesis by blast
qed (simp_all add: CloseAdmission_def)

lemma refusal_refines:
  "thread_step b s (SAdmit l c) = (s', SRelease r) \<Longrightarrow> admit b l c (queue_view s) = (r, queue_view s)"
  "thread_step b s (SPush l c) = (s', SRelease r) \<Longrightarrow> admit b l c (open_gate (queue_view s)) = (r, open_gate (queue_view s))"
  by (auto simp: admit_def open_gate_def TryPush_reserve_def queue_view_def split: if_splits) (cases l; auto)+


definition demo_sevents :: "SessionCommand sevent list" where
  "demo_sevents = [Scheduler_Invariant.Submit 0 Normal Flush, Run 0 False, Run 0 False,
     Scheduler_Invariant.Submit 1 Priority ReloadRoot, Run 1 False, Run 1 False, Run 1 False, Close]"


end
