(* ===== verification/Ring_Refinement.thy ===== *)
theory Ring_Refinement
  imports Ring_Scheduler Scheduler_Refinement
begin

text \<open>
  The scheduler on its ring buffers refines the scheduler on queues of cells, and with it the command queue of the
  session manager: the invariant, its preservation by every access, the chain of the two refinements, and
  the property of the whole command path.
\<close>

subsection \<open>The invariant\<close>

text \<open>A producer is inside \<^verbatim>\<open>TryPush\<close> exactly while its thread is, the consumer inside \<^verbatim>\<open>TryPop\<close> exactly while some
  thread is.\<close>

definition rings_owned :: "'c ring_scheduler \<Rightarrow> 'c ring_thread list \<Rightarrow> bool" where
  "rings_owned s ts \<longleftrightarrow> (\<forall>l. ring_ok l (rings s l) \<and>
     (\<forall>i. producers (rings s l) i \<noteq> PIdle \<longleftrightarrow> i < length ts \<and> ts ! i = Pushing l) \<and>
     (consumer (rings s l) \<noteq> CIdle \<longleftrightarrow> (\<exists>i<length ts. \<exists>sub k r. ts ! i = Popping l sub k r)))"

text \<open>No thread has misused a mailbox, and publishing happens inside \<^verbatim>\<open>TryPush\<close> only.\<close>

fun regular :: "'c ring_thread \<Rightarrow> bool" where
  "regular Misuse = False"
| "regular (Control (SPublish _ _)) = False"
| "regular _ = True"

definition ring_inv :: "nat \<Rightarrow> 'c ring_system \<Rightarrow> bool" where
  "ring_inv n x \<longleftrightarrow> (case x of (s, ts) \<Rightarrow>
     scheduler_reachable n (system_view (s, ts)) \<and> length ts = n \<and> (\<forall>t\<in>set ts. regular t) \<and> rings_owned s ts)"

lemma ring_invD:
  assumes "ring_inv n (s, ts)"
  shows "scheduler_reachable n (system_view (s, ts))" "length ts = n" "\<forall>t\<in>set ts. regular t" "rings_owned s ts"
  using assms by (simp_all add: ring_inv_def)

lemma rings_ownedD:
  assumes "rings_owned s ts"
  shows "ring_ok l (rings s l)" "producers (rings s l) i \<noteq> PIdle \<longleftrightarrow> i < length ts \<and> ts ! i = Pushing l"
    "consumer (rings s l) \<noteq> CIdle \<longleftrightarrow> (\<exists>i<length ts. \<exists>sub k r. ts ! i = Popping l sub k r)"
  using assms by (simp_all add: rings_owned_def)

lemma drainer_pop: "drainer (pop_pc l sub k r c)"
proof (cases c)
  case (CReturn v)
  then show ?thesis by (cases v; cases l) (simp_all add: pop_empty_def)
qed (cases l; simp add: pop_begin_def)+

lemma one_drainer:
  assumes "ring_inv n (s, ts)" "i < n" "j < n" "drainer (thread_view s i (ts ! i))" "drainer (thread_view s j (ts ! j))"
  shows "i = j"
proof (rule ccontr)
  assume "i \<noteq> j"
  let ?ts = "map (\<lambda>i. thread_view s i (ts ! i)) [0..<length ts]"
  have "2 \<le> cnt drainer ?ts" using cnt_two [of i ?ts j drainer] assms ring_invD(2) [OF assms(1)] \<open>i \<noteq> j\<close> by simp
  then show False
    using scheduler_reachable_inv [OF ring_invD(1) [OF assms(1)]]
    by (simp add: system_view_def scheduler_inv_def inv_drain_def split: if_splits)
qed

text \<open>One thread moves and the others keep their view: the system seen on the cells stays or makes that step.\<close>

lemma system_view_update:
  assumes "i < length ts" and "\<And>j. j < length ts \<Longrightarrow> j \<noteq> i \<Longrightarrow> thread_view s' j (ts ! j) = thread_view s j (ts ! j)"
  shows "system_view (s', ts[i := pc]) = (ring_view s', (snd (system_view (s, ts)))[i := thread_view s' i pc])"
  using assms by (auto simp: system_view_def nth_list_update intro!: nth_equalityI)

lemma ring_move:
  assumes inv: "ring_inv n (s, ts)" and i: "i < n"
    and same: "\<And>j. j < n \<Longrightarrow> j \<noteq> i \<Longrightarrow> thread_view s' j (ts ! j) = thread_view s j (ts ! j)"
    and sim: "ring_view s' = ring_view s \<and> thread_view s' i pc = thread_view s i (ts ! i) \<or>
      (\<exists>b. thread_step b (ring_view s) (thread_view s i (ts ! i)) = (ring_view s', thread_view s' i pc))"
    and "regular pc" and owned: "rings_owned s' (ts[i := pc])"
  shows "ring_inv n (s', ts[i := pc]) \<and> scheduler_step\<^sup>*\<^sup>* (system_view (s, ts)) (system_view (s', ts[i := pc]))"
proof -
  note d = ring_invD [OF inv]
  let ?ts = "snd (system_view (s, ts))"
  have v: "system_view (s, ts) = (ring_view s, ?ts)" "length ?ts = n" "?ts ! i = thread_view s i (ts ! i)"
    using d(2) i by (simp_all add: system_view_def)
  have v': "system_view (s', ts[i := pc]) = (ring_view s', ?ts[i := thread_view s' i pc])"
    using system_view_update [of i ts s' s pc] i same d(2) by simp
  have "system_view (s', ts[i := pc]) = system_view (s, ts) \<or> scheduler_step (system_view (s, ts)) (system_view (s', ts[i := pc]))"
    using sim v i scheduler_step.run [of i ?ts] unfolding v' by (metis list_update_id)
  moreover have "\<forall>t\<in>set (ts[i := pc]). regular t"
    using d(3) assms(5) set_update_subset_insert [of ts i pc] by blast
  ultimately show ?thesis using d(1,2) owned
    by (auto simp: ring_inv_def intro: scheduler_reachable.step)
qed

fun lane_in :: "'c ring_thread \<Rightarrow> lane option" where
  "lane_in (Pushing l) = Some l"
| "lane_in (Popping l _ _ _) = Some l"
| "lane_in _ = None"

lemma owned_push:
  assumes own: "rings_owned s ts" and i: "i < length ts" and "rings s' = (rings s)(l := m)" and "ring_ok l m"
    and "\<And>j. j \<noteq> i \<Longrightarrow> producers m j = producers (rings s l) j" and "consumer m = consumer (rings s l)"
    and "producers m i \<noteq> PIdle \<longleftrightarrow> pc = Pushing l"
    and in_l: "\<forall>k. lane_in (ts ! i) = Some k \<longrightarrow> ts ! i = Pushing l" "\<forall>k. lane_in pc = Some k \<longrightarrow> pc = Pushing l"
  shows "rings_owned s' (ts[i := pc])"
proof -
  have "ts ! i \<noteq> Popping k sub p r" "pc \<noteq> Popping k sub p r" for k sub p r using in_l by auto
  then have pops: "(\<exists>j<length ts. \<exists>sub p r. ts[i := pc] ! j = Popping k sub p r) \<longleftrightarrow> (\<exists>j<length ts. \<exists>sub p r. ts ! j = Popping k sub p r)" for k
    using i by (metis nth_list_update)
  have pushes: "ts[i := pc] ! j = Pushing k \<longleftrightarrow> (if j = i then pc = Pushing k else ts ! j = Pushing k)" for j k
    using i by auto
  have "pc = Pushing k \<Longrightarrow> k = l" "ts ! i = Pushing k \<Longrightarrow> k = l" for k using in_l by auto
  then show ?thesis using own assms(3-7) i unfolding rings_owned_def by (auto simp: pops pushes)
qed

lemma owned_pop:
  assumes own: "rings_owned s ts" and i: "i < length ts" and "rings s' = (rings s)(l := m)" and "ring_ok l m"
    and "producers m = producers (rings s l)"
    and alone: "\<And>j k sub p r. j < length ts \<Longrightarrow> j \<noteq> i \<Longrightarrow> ts ! j \<noteq> Popping k sub p r"
    and "consumer m \<noteq> CIdle \<longleftrightarrow> lane_in pc = Some l"
    and in_l: "\<forall>k. lane_in (ts ! i) = Some k \<longrightarrow> k = l" "\<forall>k. lane_in pc = Some k \<longrightarrow> k = l"
      "\<And>k. ts ! i \<noteq> Pushing k" "\<And>k. pc \<noteq> Pushing k"
  shows "rings_owned s' (ts[i := pc])"
proof -
  have pushes: "ts[i := pc] ! j = Pushing k \<longleftrightarrow> ts ! j = Pushing k" for j k
    using i in_l(3,4) by (cases "j = i") auto
  have popping: "lane_in x = Some k \<longleftrightarrow> (\<exists>sub p r. x = Popping k sub p r)" if "\<And>k. x \<noteq> Pushing k" for x :: "'a ring_thread" and k
    using that by (cases x) auto
  have only: "(\<exists>j<length xs. \<exists>sub p r. xs ! j = Popping k sub p r) \<longleftrightarrow> lane_in (xs ! i) = Some k"
    if "i < length xs" "\<And>k. xs ! i \<noteq> Pushing k" "\<And>j sub p r. j < length xs \<Longrightarrow> j \<noteq> i \<Longrightarrow> xs ! j \<noteq> Popping k sub p r"
    for xs :: "'a ring_thread list" and k
    unfolding popping [OF that(2)] using that(1,3) by blast
  have new: "(\<exists>j<length ts. \<exists>sub p r. ts[i := pc] ! j = Popping k sub p r) \<longleftrightarrow> lane_in pc = Some k" for k
    using only [of "ts[i := pc]" k] i alone in_l(4) by simp
  have old: "(\<exists>j<length ts. \<exists>sub p r. ts ! j = Popping k sub p r) \<longleftrightarrow> lane_in (ts ! i) = Some k" for k
    using only [of ts k] i alone in_l(3) by simp
  have "ring_ok k (rings s' k)" "producers (rings s' k) j = producers (rings s k) j" for k j
    using assms(3-5) rings_ownedD(1) [OF own] by simp_all
  moreover have "consumer (rings s' k) \<noteq> CIdle \<longleftrightarrow> lane_in pc = Some k" for k
    using assms(3,7) rings_ownedD(3) [OF own, of k, unfolded old] in_l(1,2) by (cases "k = l") auto
  ultimately show ?thesis
    using rings_ownedD(2) [OF own] unfolding rings_owned_def by (simp add: pushes new)
qed

lemma ring_simps [simp]:
  "rings (set_ring l m s) = (rings s)(l := m)" "control (set_ring l m s) = control s"
  "rings (record_push l m m' s) = rings s" "rings (record_pop l m m' s) = rings s"
  "queues (ring_view s) l = ring_queue (rings s l)"
  by (simp_all add: set_ring_def record_push_def record_pop_def ring_view_def)

lemma ring_view_simps:
  "ring_view (set_ring l m' (record_push l m m' s)) = after_push l m m' (ring_view s)"
  "ring_view (set_ring l m' (record_pop l m m' s)) = after_pop l m m' (ring_view s)"
  "ring_queue m' = ring_queue (rings s l) \<Longrightarrow> ring_view (set_ring l m' s) = ring_view s"
  by (auto simp: ring_view_def set_ring_def record_push_def record_pop_def after_push_def after_pop_def set_queue_def
      intro!: SessionCommandScheduler.equality)

lemma thread_view_push:
  assumes "rings s' = (rings s)(l := m)" "\<And>k. k \<noteq> i \<Longrightarrow> producers m k = producers (rings s l) k"
    "consumer m = consumer (rings s l)" "j \<noteq> i"
  shows "thread_view s' j t = thread_view s j t"
  using assms by (cases t) auto

lemma thread_view_pop:
  assumes "rings s' = (rings s)(l := m)" "producers m = producers (rings s l)" "\<And>sub k r. t \<noteq> Popping l sub k r"
  shows "thread_view s' j t = thread_view s j t"
  using assms by (cases t) auto

text \<open>The thread that drains is the only one inside \<^verbatim>\<open>TryPop\<close>.\<close>

lemma alone_popping:
  assumes "ring_inv n (s, ts)" "i < n" "drainer (thread_view s i (ts ! i))" "j < length ts" "j \<noteq> i"
  shows "ts ! j \<noteq> Popping l sub k r"
  using one_drainer [OF assms(1,2), of j] assms ring_invD(2) [OF assms(1)] drainer_pop by fastforce

lemma bounded_ring: "ring_bounded s \<Longrightarrow> rings s l = m \<Longrightarrow> mbx_bounded (lane_capacity l) m"
  by (auto simp: ring_bounded_def)

subsection \<open>Every step keeps the invariant and is a step on the cells\<close>

lemma push_access_frame:
  "j \<noteq> i \<Longrightarrow> producers (push_access b i m) j = producers m j" "consumer (push_access b i m) = consumer m"
  "producers m i \<noteq> PIdle \<Longrightarrow> producers (push_access b i m) i \<noteq> PIdle"
proof -
  show "producers m i \<noteq> PIdle \<Longrightarrow> producers (push_access b i m) i \<noteq> PIdle"
    by (cases "producers m i") (auto simp: push_access_def Let_def)
qed (auto simp: push_access_def split: prod.split)

lemma pop_access_frame:
  "producers (pop_access m) = producers m" "consumer m \<noteq> CIdle \<Longrightarrow> consumer (pop_access m) \<noteq> CIdle"
proof -
  show "consumer m \<noteq> CIdle \<Longrightarrow> consumer (pop_access m) \<noteq> CIdle"
    by (cases "consumer m") (auto simp: pop_access_def Let_def split: option.split)
qed (auto simp: pop_access_def split: prod.split)

text \<open>The common part: one mailbox moves, on the side of a producer or on that of the consumer.\<close>

abbreviation ring_sim :: "nat \<Rightarrow> 'c ring_scheduler \<Rightarrow> 'c ring_thread \<Rightarrow> 'c ring_scheduler \<Rightarrow> 'c ring_thread \<Rightarrow> bool" where
  "ring_sim i s t s' pc \<equiv> ring_view s' = ring_view s \<and> thread_view s' i pc = thread_view s i t \<or>
     (\<exists>b. thread_step b (ring_view s) (thread_view s i t) = (ring_view s', thread_view s' i pc))"

abbreviation ring_moves :: "nat \<Rightarrow> 'c ring_system \<Rightarrow> 'c ring_system \<Rightarrow> bool" where
  "ring_moves n x y \<equiv> ring_inv n y \<and> scheduler_step\<^sup>*\<^sup>* (system_view x) (system_view y)"

lemma push_move:
  assumes inv: "ring_inv n (s, ts)" and i: "i < n" and bd: "ring_bounded s'" and rings: "rings s' = (rings s)(l := m)"
    and st: "mailbox_step (rings s l) m" and m: "\<And>j. j \<noteq> i \<Longrightarrow> producers m j = producers (rings s l) j"
    "consumer m = consumer (rings s l)" "producers m i \<noteq> PIdle \<longleftrightarrow> pc = Pushing l"
    and in_l: "\<forall>k. lane_in (ts ! i) = Some k \<longrightarrow> ts ! i = Pushing l" "\<forall>k. lane_in pc = Some k \<longrightarrow> pc = Pushing l"
    and "regular pc" and sim: "ring_sim i s (ts ! i) s' pc"
  shows "ring_moves n (s, ts) (s', ts[i := pc])"
proof (rule ring_move [OF inv i _ sim assms(11)])
  note d = ring_invD [OF inv]
  show "thread_view s' j (ts ! j) = thread_view s j (ts ! j)" if "j \<noteq> i" for j
    using thread_view_push [OF rings _ m(2) that] m(1) by blast
  have "ring_ok l m" using ring_ok_step [OF rings_ownedD(1) [OF d(4)] st] bounded_ring [OF bd, of l m] rings by simp
  then show "rings_owned s' (ts[i := pc])" using i d(2) by (intro owned_push [OF d(4) _ rings _ m in_l]) simp_all
qed

lemma pop_move:
  assumes inv: "ring_inv n (s, ts)" and i: "i < n" and bd: "ring_bounded s'" and rings: "rings s' = (rings s)(l := m)"
    and st: "mailbox_step (rings s l) m" and m: "producers m = producers (rings s l)" "consumer m \<noteq> CIdle \<longleftrightarrow> lane_in pc = Some l"
    and in_l: "\<forall>k. lane_in (ts ! i) = Some k \<longrightarrow> k = l" "\<forall>k. lane_in pc = Some k \<longrightarrow> k = l"
      "\<And>k. ts ! i \<noteq> Pushing k" "\<And>k. pc \<noteq> Pushing k"
    and "regular pc" and dr: "drainer (thread_view s i (ts ! i))" and sim: "ring_sim i s (ts ! i) s' pc"
  shows "ring_moves n (s, ts) (s', ts[i := pc])"
proof (rule ring_move [OF inv i _ sim assms(12)])
  note d = ring_invD [OF inv]
  have alone: "ts ! j \<noteq> Popping k sub p r" if "j < length ts" "j \<noteq> i" for j k sub p r
    by (rule alone_popping [OF inv i dr that])
  show "thread_view s' j (ts ! j) = thread_view s j (ts ! j)" if "j < n" "j \<noteq> i" for j
    using thread_view_pop [OF rings m(1)] alone that d(2) by blast
  have "ring_ok l m" using ring_ok_step [OF rings_ownedD(1) [OF d(4)] st] bounded_ring [OF bd, of l m] rings by simp
  then show "rings_owned s' (ts[i := pc])"
    using i d(2) alone by (intro owned_pop [OF d(4) _ rings _ m(1) _ m(2) in_l]) simp_all
qed

lemma pushing_access:
  assumes inv: "ring_inv n (s, ts)" and i: "i < n" "ts ! i = Pushing l" and m: "m = push_access b i (rings s l)"
    and s': "s' = set_ring l m (record_push l (rings s l) m s)" and bd: "ring_bounded s'"
  shows "ring_moves n (s, ts) (s', ts[i := Pushing l])"
proof (rule push_move [OF inv i(1) bd])
  have own: "ring_ok l (rings s l)" "producers (rings s l) i \<noteq> PIdle"
    using rings_ownedD(1,2) [OF ring_invD(4) [OF inv]] i ring_invD(2) [OF inv] by simp_all
  then show "(producers m i \<noteq> PIdle) = (Pushing l = Pushing l)" by (simp add: m push_access_frame)
  show "ring_sim i s (ts ! i) s' (Pushing l)"
    using push_access_sim [OF own(1) _ m, of "ring_view s"] by (simp add: s' ring_view_simps i)
qed (simp_all add: m s' i push_access_frame mailbox_calls)

lemma pushing_return:
  assumes inv: "ring_inv n (s, ts)" and i: "i < n" "ts ! i = Pushing l" and r: "producers (rings s l) i = PReturn ok"
    and s': "s' = set_ring l (push_return i (rings s l)) s" and bd: "ring_bounded s'"
    and pc: "pc = Control (if ok then SExchange True else SRelease QueueFull)"
  shows "ring_moves n (s, ts) (s', ts[i := pc])"
proof (rule push_move [OF inv i(1) bd])
  have q: "ring_queue (push_return i (rings s l)) = ring_queue (rings s l)"
    unfolding push_return_def by (rule ring_queue_producer) (simp add: r)
  show "ring_sim i s (ts ! i) s' pc" by (simp add: s' ring_view_simps(3) [OF q] i r pc)
  show "mailbox_step (rings s l) (push_return i (rings s l))" by (rule mailbox_calls(3) [OF r])
qed (simp_all add: s' i pc push_return_def)

lemma push_begins:
  assumes inv: "ring_inv n (s, ts)" and i: "i < n" "ts ! i = Control (SPush l c)"
    and s': "s' = set_ring l (push_call i c (rings s l)) s" and bd: "ring_bounded s'"
  shows "ring_moves n (s, ts) (s', ts[i := Pushing l])"
proof (rule push_move [OF inv i(1) bd])
  have r: "producers (rings s l) i = PIdle"
    using rings_ownedD(2) [OF ring_invD(4) [OF inv], of l i] i ring_invD(2) [OF inv] by auto
  have q: "ring_queue (push_call i c (rings s l)) = ring_queue (rings s l)"
    unfolding push_call_def by (rule ring_queue_producer) (simp add: r)
  show "ring_sim i s (ts ! i) s' (Pushing l)" using ring_view_simps(3) [OF q] by (simp add: s' i push_call_def)
  show "mailbox_step (rings s l) (push_call i c (rings s l))" by (rule mailbox_calls(1) [OF r])
qed (simp_all add: s' i push_call_def)

lemma popping_access:
  assumes inv: "ring_inv n (s, ts)" and i: "i < n" "ts ! i = Popping l sub k r" and m: "m = pop_access (rings s l)"
    and s': "s' = set_ring l m (record_pop l (rings s l) m s)" and bd: "ring_bounded s'"
  shows "ring_moves n (s, ts) (s', ts[i := Popping l sub k r])"
proof (rule pop_move [OF inv i(1) bd])
  have own: "ring_ok l (rings s l)" "consumer (rings s l) \<noteq> CIdle"
    using rings_ownedD(1,3) [OF ring_invD(4) [OF inv]] i ring_invD(2) [OF inv] by blast+
  then show "(consumer m \<noteq> CIdle) = (lane_in (Popping l sub k r) = Some l)" by (simp add: m pop_access_frame)
  show "ring_sim i s (ts ! i) s' (Popping l sub k r)"
    using pop_access_sim [OF own(1) _ m, of "ring_view s"] by (simp add: s' ring_view_simps i)
  show "drainer (thread_view s i (ts ! i))" by (simp add: i drainer_pop)
qed (simp_all add: m s' i pop_access_frame mailbox_calls)

lemma popping_return:
  assumes inv: "ring_inv n (s, ts)" and i: "i < n" "ts ! i = Popping l sub k r" and v: "consumer (rings s l) = CReturn v"
    and s': "s' = set_ring l (pop_return (rings s l)) s" and bd: "ring_bounded s'"
    and pc: "pc = Control (pop_pc l sub k r (CReturn v))"
  shows "ring_moves n (s, ts) (s', ts[i := pc])"
proof (rule pop_move [OF inv i(1) bd])
  have q: "ring_queue (pop_return (rings s l)) = ring_queue (rings s l)" by (simp add: pop_return_def)
  show "ring_sim i s (ts ! i) s' pc" by (simp add: s' ring_view_simps(3) [OF q] i v pc)
  show "mailbox_step (rings s l) (pop_return (rings s l))" by (rule mailbox_calls(6) [OF v])
  show "drainer (thread_view s i (ts ! i))" by (simp add: i drainer_pop)
  show "regular pc" by (cases v; cases l) (simp_all add: pc pop_empty_def)
qed (simp_all add: s' i pc pop_return_def)

text \<open>Here the mailbox is used as its contract demands: the consumer's side is free when a drain calls \<^verbatim>\<open>TryPop\<close>.\<close>

lemma pop_begins:
  assumes inv: "ring_inv n (s, ts)" and i: "i < n" "ts ! i = Control (pop_begin l sub k r)"
    and st: "begin_pop l sub k r s = (s', pc)" and bd: "ring_bounded s'"
  shows "ring_moves n (s, ts) (s', ts[i := pc])"
proof -
  have dr: "drainer (thread_view s i (ts ! i))" using i(2) by (cases l) (simp_all add: pop_begin_def)
  have "consumer (rings s l) = CIdle"
    using rings_ownedD(3) [OF ring_invD(4) [OF inv], of l] alone_popping [OF inv i(1) dr] i(2) by (metis ring_thread.distinct(3))
  then have s': "s' = set_ring l (pop_call (rings s l)) s" and pc: "pc = Popping l sub k r"
    and call: "mailbox_step (rings s l) (pop_call (rings s l))"
    using st by (auto simp: begin_pop_def intro: mailbox_calls(4))
  have q: "ring_queue (pop_call (rings s l)) = ring_queue (rings s l)" by (simp add: pop_call_def)
  have sim: "ring_sim i s (ts ! i) s' pc" using ring_view_simps(3) [OF q] by (simp add: s' i pc pop_call_def)
  show ?thesis
    by (rule pop_move [OF inv i(1) bd _ call _ _ _ _ _ _ _ dr sim]) (simp_all add: s' i pc pop_call_def)
qed

fun mailbox_call :: "'c thread \<Rightarrow> bool" where
  "mailbox_call (SPush _ _) = True"
| "mailbox_call (SPublish _ _) = True"
| "mailbox_call (DPop _ _ _) = True"
| "mailbox_call (DPopNormal _ _ _) = True"
| "mailbox_call _ = False"

lemma control_step:
  assumes "\<not> mailbox_call pc" and "thread_step b c pc = (c', pc')"
  shows "thread_step b (c\<lparr>queues := q\<rparr>) pc = (c'\<lparr>queues := q\<rparr>, pc')" and "regular (Control pc')"
  using assms by (cases pc; auto simp: scheduler_state_simps split: if_splits)+

lemma ring_control:
  assumes "\<not> mailbox_call pc" and "ring_thread_step i b s (Control pc) = (s', t)"
  obtains c pc' where "thread_step b (control s) pc = (c, pc')" "s' = s\<lparr>control := c\<rparr>" "t = Control pc'"
  using assms by (cases pc) (auto split: prod.splits)

text \<open>A thread between two operations starts, finishes or continues without a mailbox.\<close>

lemma control_move:
  assumes inv: "ring_inv n (s, ts)" and i: "i < n" "ts ! i = Control pc" and "regular (Control pc')"
    and st: "scheduler_step (system_view (s, ts)) (ring_view (s\<lparr>control := c\<rparr>), (snd (system_view (s, ts)))[i := pc'])"
  shows "ring_moves n (s, ts) (s\<lparr>control := c\<rparr>, ts[i := Control pc'])"
proof -
  note d = ring_invD [OF inv]
  have same: "thread_view (s\<lparr>control := c\<rparr>) j t = thread_view s j t" for j t by (cases t) simp_all
  have v: "system_view (s\<lparr>control := c\<rparr>, ts[i := Control pc']) = (ring_view (s\<lparr>control := c\<rparr>), (snd (system_view (s, ts)))[i := pc'])"
    using system_view_update [of i ts "s\<lparr>control := c\<rparr>" s "Control pc'"] same i d(2) by simp
  have "rings_owned (s\<lparr>control := c\<rparr>) (ts[i := Control pc'])"
    by (rule owned_push [OF d(4), where l = Normal and m = "rings s Normal"])
      (use rings_ownedD(1,2) [OF d(4), of Normal] i d(2) in auto)
  moreover have "\<forall>t\<in>set (ts[i := Control pc']). regular t"
    using d(3) assms(4) set_update_subset_insert [of ts i "Control pc'"] by blast
  moreover have "scheduler_reachable n (system_view (s\<lparr>control := c\<rparr>, ts[i := Control pc']))"
    using scheduler_reachable.step [OF d(1) st] by (simp only: v)
  ultimately show ?thesis using d(2) st by (simp add: ring_inv_def v)
qed

lemma ring_view_control: "ring_view (s\<lparr>control := c\<rparr>) = c\<lparr>queues := queues (ring_view s)\<rparr>"
  by (simp add: ring_view_def)

lemma ring_run:
  assumes inv: "ring_inv n (s, ts)" and i: "i < n" and st: "ring_thread_step i b s (ts ! i) = (s', pc)" and bd: "ring_bounded s'"
  shows "ring_moves n (s, ts) (s', ts[i := pc])"
proof (cases "ts ! i")
  case (Pushing l)
  then show ?thesis using st pushing_access [OF inv i Pushing refl refl] pushing_return [OF inv i Pushing _ _ _ refl] bd
    by (auto simp: Let_def split: producer.splits)
next
  case (Popping l sub k r)
  have "consumer (rings s l) \<noteq> CFault"
    using rings_ownedD(1) [OF ring_invD(4) [OF inv], of l] ring_okD(1) mbx_invD(10) by fastforce
  then consider v where "consumer (rings s l) = CReturn v" "s' = set_ring l (pop_return (rings s l)) s"
      "pc = Control (pop_pc l sub k r (CReturn v))"
    | "s' = set_ring l (pop_access (rings s l)) (record_pop l (rings s l) (pop_access (rings s l)) s)" "pc = Popping l sub k r"
    using st Popping by (cases "consumer (rings s l)") (auto simp: Let_def split: option.splits)
  then show ?thesis
    using popping_access [OF inv i Popping refl _ bd] popping_return [OF inv i Popping _ _ bd] by cases simp_all
next
  case (Control t)
  show ?thesis
  proof (cases "mailbox_call t")
    case True
    then consider l c where "t = SPush l c" | l sub k r where "t = pop_begin l sub k r" "begin_pop l sub k r s = (s', pc)"
      using st ring_invD(2,3) [OF inv] Control i nth_mem [of i ts]
      by (cases t) (force simp: pop_begin_def split: lane.splits)+
    then show ?thesis
    proof cases
      case 1
      then show ?thesis using push_begins [OF inv i _ _ bd] Control st by simp
    next
      case 2
      then show ?thesis using pop_begins [OF inv i _ _ bd] Control by simp
    qed
  next
    case False
    from st [unfolded Control] obtain c pc' where c: "thread_step b (control s) t = (c, pc')" "s' = s\<lparr>control := c\<rparr>" "pc = Control pc'"
      by (rule ring_control [OF False])
    have "thread_step b (ring_view s) t = (ring_view s', pc')"
      using control_step(1) [OF False c(1)] by (simp add: ring_view_def c(2))
    moreover have "system_view (s, ts) = (ring_view s, snd (system_view (s, ts)))" "length (snd (system_view (s, ts))) = n"
      "snd (system_view (s, ts)) ! i = t"
      using i ring_invD(2) [OF inv] by (simp_all add: system_view_def Control)
    ultimately have "scheduler_step (system_view (s, ts)) (ring_view s', (snd (system_view (s, ts)))[i := pc'])"
      using scheduler_step.run [of i "snd (system_view (s, ts))" b "ring_view s"] i by metis
    then show ?thesis using control_move [OF inv i Control control_step(2) [OF False c(1)]] c by simp
  qed
next
  case Misuse
  then show ?thesis using ring_invD(2,3) [OF inv] i nth_mem [of i ts] by fastforce
qed

lemma ring_view_fields [simp]:
  "pending_count (ring_view s) = pending_count (control s)" "posted (ring_view s) = posted (control s)"
  "drain_scheduled (ring_view s) = drain_scheduled (control s)" "accepting (ring_view s) = accepting (control s)"
  by (simp_all add: ring_view_def)

lemma ring_view_counters:
  "ring_view (s\<lparr>control := (control s)\<lparr>pending_count := a\<rparr>\<rparr>) = (ring_view s)\<lparr>pending_count := a\<rparr>"
  "ring_view (s\<lparr>control := (control s)\<lparr>posted := p\<rparr>\<rparr>) = (ring_view s)\<lparr>posted := p\<rparr>"
  "ring_view (s\<lparr>control := CloseAdmission (control s)\<rparr>) = CloseAdmission (ring_view s)"
  by (cases "control s"; simp add: ring_view_def CloseAdmission_def)+

lemma ring_inv_step:
  assumes st: "ring_step x y" and inv: "ring_inv n x"
  shows "ring_moves n x y"
  using st
proof (cases rule: ring_step.cases)
  case (run i ts b s s' pc)
  then show ?thesis using ring_run [of n s ts i b s' pc] inv ring_invD(2) by auto
next
  case (close s ts)
  let ?s = "s\<lparr>control := CloseAdmission (control s)\<rparr>"
  have "thread_view ?s j t = thread_view s j t" for j t by (cases t) simp_all
  then have "system_view (?s, ts) = (CloseAdmission (ring_view s), snd (system_view (s, ts)))"
    by (simp add: system_view_def ring_view_counters)
  moreover have "system_view (s, ts) = (ring_view s, snd (system_view (s, ts)))" by (simp add: system_view_def)
  ultimately have "scheduler_step (system_view (s, ts)) (system_view (?s, ts))" using scheduler_step.close by metis
  moreover have "scheduler_reachable n (system_view (?s, ts))"
    using ring_invD(1) [of n s ts] inv close by (auto intro: scheduler_reachable.step [OF _ calculation])
  ultimately show ?thesis using inv close by (auto simp: ring_inv_def rings_owned_def)
next
  case (submit i ts s l c)
  have "scheduler_step (system_view (s, ts)) (ring_view (s\<lparr>control := (control s)\<lparr>pending_count := pending_count (control s) + 1\<rparr>\<rparr>),
      (snd (system_view (s, ts)))[i := SAdmit l c])"
    using scheduler_step.submit [of i "snd (system_view (s, ts))" "ring_view s"] submit by (simp add: system_view_def ring_view_counters)
  then show ?thesis using submit inv control_move [of n s ts i Idle "SAdmit l c"] ring_invD(2) by auto
next
  case (start_task i ts s)
  have "scheduler_step (system_view (s, ts)) (ring_view (s\<lparr>control := (control s)\<lparr>posted := posted (control s) - 1\<rparr>\<rparr>),
      (snd (system_view (s, ts)))[i := DPop False 0 0])"
    using scheduler_step.start_task [of i "snd (system_view (s, ts))" "ring_view s"] start_task
    by (simp add: system_view_def ring_view_counters)
  then show ?thesis using start_task inv control_move [of n s ts i Idle "DPop False 0 0"] ring_invD(2) by auto
next
  case (wait_idle i ts s)
  have "scheduler_step (system_view (s, ts)) (ring_view (s\<lparr>control := control s\<rparr>), (snd (system_view (s, ts)))[i := WPending])"
    using scheduler_step.wait_idle [of i "snd (system_view (s, ts))" "ring_view s"] wait_idle by (simp add: system_view_def)
  then show ?thesis using wait_idle inv control_move [of n s ts i Idle WPending "control s"] ring_invD(2) by auto
next
  case (return i ts r s)
  then obtain pc where pc: "ts ! i = Control pc" "pc = SReturn r \<or> pc = WReturn" by auto
  then have "scheduler_step (system_view (s, ts)) (ring_view (s\<lparr>control := control s\<rparr>), (snd (system_view (s, ts)))[i := Idle])"
    using scheduler_step.return [of i "snd (system_view (s, ts))" r "ring_view s"] return by (auto simp: system_view_def)
  then show ?thesis using return pc inv control_move [of n s ts i pc Idle "control s"] ring_invD(2) by auto
qed

lemma ring_inv_start: "ring_inv n (ring_scheduler_create, replicate n (Control Idle))"
  (is "ring_inv n (?s, ?ts)")
proof -
  have "cells (init_mbx cap :: 'a mbx) = []" for cap by (simp add: cells_def init_mbx_def)
  then have "system_view (?s, ?ts) = (SessionCommandScheduler_create, replicate n Idle)"
    by (auto simp: system_view_def ring_scheduler_create_def ring_view_def SessionCommandScheduler_create_def ring_queue_def init_mbx_def
        intro!: nth_equalityI)
  moreover have "mbx_bounded (lane_capacity l) (init_mbx (lane_capacity l))" for l
    by (cases l) (simp_all add: mbx_bounded_def init_mbx_def lane_capacity_def kMailboxCapacity_def kPriorityMailboxCapacity_def)
  then have "rings_owned ?s ?ts"
    by (auto simp: rings_owned_def ring_scheduler_create_def ring_ok_def init_mbx_def intro: mbx_reachable.start [unfolded init_mbx_def])
  ultimately show ?thesis by (simp add: ring_inv_def scheduler_reachable.start)
qed

subsection \<open>From the rings to the command queue\<close>

text \<open>The rings refine the cells, the cells refine the command queue of the session manager.\<close>

interpretation rs: simulation "ring_inv n" ring_step system_view scheduler_step
  by unfold_locales (use ring_inv_step in blast)+

interpretation sc: simulation "scheduler_reachable n" scheduler_step "\<lambda>x. abs_state (fst x)" queue_step
proof
  show "queue_step\<^sup>*\<^sup>* (abs_state (fst x)) (abs_state (fst y))" if "scheduler_step x y" for x y
    using scheduler_step_refines [of "fst x" "snd x" "fst y" "snd y"] that by auto
qed (rule scheduler_reachable.step)

interpretation rq: simulation_chain "ring_inv n" ring_step system_view scheduler_step
  "scheduler_reachable n" "\<lambda>x. abs_state (fst x)" queue_step
  by unfold_locales (auto simp: ring_inv_def)

lemma ring_reachable_run: "ring_reachable n x \<Longrightarrow> ring_step\<^sup>*\<^sup>* (ring_scheduler_create, replicate n (Control Idle)) x"
  by (induction rule: ring_reachable.induct) auto

lemmas ring_reachable_inv = rs.run_reach [OF ring_reachable_run ring_inv_start]

lemma ring_queue_run:
  assumes "ring_reachable n (s, ts)"
  shows "queue_step\<^sup>*\<^sup>* (empty_queue, [], []) (abs_state (ring_view s))"
proof -
  have "abs_state (ring_view ring_scheduler_create) = (empty_queue, [], [])"
    by (simp add: abs_state_def queue_view_def ring_view_def ring_scheduler_create_def SessionCommandScheduler_create_def
        ring_queue_def cells_def init_mbx_def empty_queue_def)
  then show ?thesis
    using rq.whole.run_sim [OF ring_reachable_run [OF assms] ring_inv_start] by (simp add: system_view_def)
qed

lemma ring_quiescent:
  assumes inv: "ring_inv n (s, ts)" and "posted (control s) = 0" and idle: "\<forall>t\<in>set ts. \<exists>pc. t = Control pc \<and> neutral pc"
  shows "(\<forall>l. taken (rings s l) = reserved (rings s l)) \<and> pending_count (control s) = 0 \<and> \<not> drain_scheduled (control s)"
proof -
  note d = ring_invD [OF inv]
  let ?ts = "map (\<lambda>i. thread_view s i (ts ! i)) [0..<length ts]"
  have r: "scheduler_reachable n (ring_view s, ?ts)" using d(1) by (simp add: system_view_def)
  have "neutral (thread_view s i (ts ! i))" if "i < length ts" for i
    using idle nth_mem [OF that] by fastforce
  then have neutral: "neutral t" if "t \<in> set ?ts" for t using that by auto
  have q: "in_lane l (submitted (ring_view s)) = in_lane l (handled (ring_view s))"
    "pending_count (ring_view s) = 0" "\<not> drain_scheduled (ring_view s)" for l
    using quiescent_empty [OF r, of l] neutral assms(2) by simp_all
  have "cells (rings s l) = []" for l
    using scheduler_reachable_inv [OF r] q(1) [of l] by (simp add: scheduler_inv_def inv_fifo_def ring_queue_def)
  then have "taken (rings s l) = reserved (rings s l)" for l
    using mbx_invD(2,3) [OF ring_okD(1) [OF rings_ownedD(1) [OF d(4)]], of l]
    by (metis diff_is_0_eq length_0_conv length_cells take_all)
  then show ?thesis using q by simp
qed

lemma all_lanes: "(\<forall>l. P l) \<longleftrightarrow> P Normal \<and> P Priority"
  by (metis lane.exhaust)

subsection \<open>Schedules\<close>

text \<open>An executable view of the steps, to build concrete executions.\<close>

datatype 'c revent = RSubmit nat lane 'c | RRun nat bool | RStart nat | RReturn nat

fun run_revent :: "'c revent \<Rightarrow> 'c ring_system \<Rightarrow> 'c ring_system option" where
  "run_revent (RSubmit i l c) (s, ts) = (if i < length ts
     then (case ts ! i of Control Idle \<Rightarrow>
         Some (s\<lparr>control := (control s)\<lparr>pending_count := pending_count (control s) + 1\<rparr>\<rparr>, ts[i := Control (SAdmit l c)])
       | _ \<Rightarrow> None) else None)"
| "run_revent (RRun i b) (s, ts) = (if i < length ts
     then (case ring_thread_step i b s (ts ! i) of (s', pc) \<Rightarrow>
         if mbx_bounded (lane_capacity Normal) (rings s' Normal) \<and> mbx_bounded (lane_capacity Priority) (rings s' Priority)
         then Some (s', ts[i := pc]) else None) else None)"
| "run_revent (RStart i) (s, ts) = (if i < length ts \<and> 0 < posted (control s)
     then (case ts ! i of Control Idle \<Rightarrow>
         Some (s\<lparr>control := (control s)\<lparr>posted := posted (control s) - 1\<rparr>\<rparr>, ts[i := Control (DPop False 0 0)])
       | _ \<Rightarrow> None) else None)"
| "run_revent (RReturn i) (s, ts) = (if i < length ts
     then (case ts ! i of Control (SReturn r) \<Rightarrow> Some (s, ts[i := Control Idle]) | _ \<Rightarrow> None) else None)"

fun run_revents :: "'c revent list \<Rightarrow> 'c ring_system \<Rightarrow> 'c ring_system option" where
  "run_revents [] x = Some x"
| "run_revents (e # es) x = (case run_revent e x of None \<Rightarrow> None | Some y \<Rightarrow> run_revents es y)"

lemma run_revent_step: "run_revent e x = Some y \<Longrightarrow> ring_step x y"
  by (cases "(e, x)" rule: run_revent.cases)
    (auto simp: ring_bounded_def all_lanes split: if_splits thread.splits ring_thread.splits prod.splits
      intro: ring_step.intros ring_step.start_task [simplified])

lemma run_revents_reachable:
  "run_revents es x = Some y \<Longrightarrow> ring_reachable n x \<Longrightarrow> ring_reachable n y"
  by (induction es x rule: run_revents.induct)
    (auto split: option.splits dest: run_revent_step intro: ring_reachable.step)

text \<open>One thread pushes a command through the ring, another drains it.\<close>

definition demo_revents :: "SessionCommand revent list" where
  "demo_revents = RSubmit 0 Normal Flush # replicate 8 (RRun 0 False) @ [RRun 0 True, RReturn 0, RStart 1] @
     replicate 20 (RRun 1 False)"

lemma ring_eval:
  "slot_index (lane_capacity l) 0 = 0" "slot_index (lane_capacity l) 1 = Suc 0"
  "slots (BoundedMpscMailbox (lane_capacity l)) ! 0 = \<lparr>sequence = 0, storage = None\<rparr>"
  "slots (BoundedMpscMailbox (lane_capacity l)) ! Suc 0 = \<lparr>sequence = 1, storage = None\<rparr>"
  "enqueue_position (BoundedMpscMailbox cap) = 0" "dequeue_position (BoundedMpscMailbox cap) = 0"
  "length (slots (BoundedMpscMailbox (lane_capacity l))) = lane_capacity l" "0 < lane_capacity l" "Suc 0 < lane_capacity l"
  "length (reserved m) \<le> 1 \<Longrightarrow> mbx_bounded (lane_capacity l) m"
  by (cases l; simp add: slot_index_def kIndexMask_def BoundedMpscMailbox_def lane_capacity_def kMailboxCapacity_def
      kPriorityMailboxCapacity_def mbx_bounded_def)+

lemma demo_ring_run:
  "\<exists>s. run_revents demo_revents (ring_scheduler_create, [Control Idle, Control Idle]) = Some (s, [Control Idle, Control Idle]) \<and>
     posted (control s) = 0 \<and> reserved (rings s Normal) = [Flush]"
  by (simp add: demo_revents_def eval_nat_numeral ring_scheduler_create_def SessionCommandScheduler_create_def begin_pop_def
      push_call_def push_access_def push_return_def pop_call_def pop_access_def pop_return_def pop_empty_def set_ring_def
      record_push_def record_pop_def Let_def init_mbx_def scheduler_state_simps ring_eval slot_at_def set_slot_def intptr_difference_def
      kMaxCommandsPerDrain_def)

subsection \<open>Properties\<close>

text \<open>C13: The command path from the lock-free rings up. Run access by access on its two ring buffers, with any
  number of threads, the scheduler uses each mailbox as the mailbox demands: at most one thread is inside
  \<^verbatim>\<open>TryPop\<close>, and no value is taken from an empty slot. Seen on the commands, every execution is one of the
  sequential command queue that the session manager relies on. When no drain is queued and no thread is inside
  an operation, every value that was ever pushed into a ring has been taken out of it, in order, and
  the scheduler is idle.\<close>

theorem ring_scheduler_refines_queue:
  assumes "ring_reachable n (s, ts)"
  shows "Misuse \<notin> set ts \<and> (\<forall>l. consumer (rings s l) \<noteq> CFault) \<and>
    queue_step\<^sup>*\<^sup>* (empty_queue, [], []) (abs_state (ring_view s)) \<and>
    (\<forall>i j l l' sub k r sub' k' r'. i < length ts \<and> j < length ts \<and> ts ! i = Popping l sub k r \<and> ts ! j = Popping l' sub' k' r' \<longrightarrow> i = j) \<and>
    (posted (control s) = 0 \<and> (\<forall>t\<in>set ts. \<exists>pc. t = Control pc \<and> neutral pc) \<longrightarrow>
       (\<forall>l. taken (rings s l) = reserved (rings s l)) \<and> pending_count (control s) = 0 \<and> \<not> drain_scheduled (control s))"
proof -
  have inv: "ring_inv n (s, ts)" by (rule ring_reachable_inv [OF assms])
  note d = ring_invD [OF inv]
  have ok: "mbx_inv (lane_capacity l) (rings s l)" for l by (rule ring_okD(1) [OF rings_ownedD(1) [OF d(4)]])
  have "Misuse \<notin> set ts" using d(3) by auto
  moreover have "consumer (rings s l) \<noteq> CFault" for l using mbx_invD(10) [OF ok, of l] by auto
  moreover have "queue_step\<^sup>*\<^sup>* (empty_queue, [], []) (abs_state (ring_view s))"
    by (rule ring_queue_run [OF assms])
  moreover have "i = j" if "i < length ts" "j < length ts" "ts ! i = Popping l sub k r" "ts ! j = Popping l' sub' k' r'" for i j l l' sub k r sub' k' r'
    by (rule one_drainer [OF inv]) (use that d(2) in \<open>simp_all add: drainer_pop\<close>)
  moreover have "(\<forall>l. taken (rings s l) = reserved (rings s l)) \<and> pending_count (control s) = 0 \<and> \<not> drain_scheduled (control s)"
    if "posted (control s) = 0" "\<forall>t\<in>set ts. \<exists>pc. t = Control pc \<and> neutral pc"
    using ring_quiescent [OF inv that] by blast
  ultimately show ?thesis by blast
qed

theorem ring_scheduler_refines_queue_witness:
  "\<exists>s :: SessionCommand ring_scheduler. reserved (rings s Normal) = [Flush] \<and> taken (rings s Normal) = [Flush] \<and> \<not> drain_scheduled (control s)"
proof -
  obtain s where s: "run_revents demo_revents (ring_scheduler_create, [Control Idle, Control Idle]) = Some (s, [Control Idle, Control Idle])"
    "posted (control s) = 0" "reserved (rings s Normal) = [Flush]"
    using demo_ring_run by blast
  have "ring_reachable 2 (ring_scheduler_create, [Control Idle, Control Idle :: SessionCommand ring_thread])"
    using ring_reachable.start [of 2] by (simp add: numeral_2_eq_2)
  from ring_scheduler_refines_queue [OF run_revents_reachable [OF s(1) this]] s(2,3) show ?thesis
    by (auto simp: neutral_def intro!: exI [of _ s])
qed

end
