(* ===== verification/Scheduler_Progress.thy ===== *)
theory Scheduler_Progress
  imports Scheduler_Invariant
begin

text \<open>
  The scheduler cannot get stuck. From every state its threads can reach, those threads alone, without any further
  call, can run to the state in which every call has returned and every command has been handled. The
  argument is a measure: the submissions under way, then the queued commands, then how far each thread is from
  leaving.
\<close>

subsection \<open>Steps that finish what was begun\<close>

inductive settle_step :: "'c system \<Rightarrow> 'c system \<Rightarrow> bool" where
  run: "i < length ts \<Longrightarrow> thread_step b s (ts ! i) = (s', pc') \<Longrightarrow> settle_step (s, ts) (s', ts[i := pc'])"
| start_task: "i < length ts \<Longrightarrow> ts ! i = Idle \<Longrightarrow> 0 < posted s \<Longrightarrow>
    settle_step (s, ts) (s\<lparr>posted := posted s - 1\<rparr>, ts[i := DPop False 0 0])"
| return: "i < length ts \<Longrightarrow> ts ! i = SReturn r \<or> ts ! i = WReturn \<Longrightarrow> settle_step (s, ts) (s, ts[i := Idle])"

inductive_cases settle_stepE: "settle_step (s, ts) y"

lemma settle_scheduler_step: "settle_step x y \<Longrightarrow> scheduler_step x y"
  by (induction rule: settle_step.induct) (auto intro: scheduler_step.intros scheduler_step.start_task [simplified])

lemma settle_reachable: "settle_step\<^sup>*\<^sup>* x y \<Longrightarrow> scheduler_reachable n x \<Longrightarrow> scheduler_reachable n y"
  by (induction rule: rtranclp_induct) (auto intro: scheduler_reachable.step settle_scheduler_step)

subsection \<open>Unpublished cells\<close>

text \<open>An unpublished cell belongs to a thread that is about to publish it.\<close>

definition inv_cells :: "'c system \<Rightarrow> bool" where
  "inv_cells x = (case x of (s, ts) \<Rightarrow> \<forall>l k. k < length (cells_of s l) \<and> \<not> snd (cells_of s l ! k) \<longrightarrow>
     SPublish l (base (queues s l) + k) \<in> set ts)"

lemma inv_cells_frame:
  assumes "inv_cells (s, ts)" and "i < length ts" and "queues s' = queues s" and "\<And>l p. ts ! i \<noteq> SPublish l p"
  shows "inv_cells (s', ts[i := pc])"
proof -
  have "SPublish l p \<in> set (ts[i := pc])" if "SPublish l p \<in> set ts" for l p
    using that assms(2,4) by (metis in_set_conv_nth length_list_update nth_list_update_neq)
  then show ?thesis using assms(1,3) unfolding inv_cells_def by simp
qed

lemma in_set_update_other: "x \<in> set ts \<Longrightarrow> i < length ts \<Longrightarrow> x \<noteq> ts ! i \<Longrightarrow> x \<in> set (ts[i := pc])"
  by (metis in_set_conv_nth length_list_update nth_list_update_neq)

text \<open>Outside a push, a step leaves the queues alone or pops one of them.\<close>

lemma thread_step_queues:
  assumes "thread_step b s pc = (s', pc')" and "\<And>l c. pc \<noteq> SPush l c" and "\<And>l p. pc \<noteq> SPublish l p"
  shows "queues s' = queues s \<or> (\<exists>l c q. TryPop_cell (queues s l) = Some (c, q) \<and> queues s' = (queues s)(l := q))"
  using assms by (cases pc) (auto simp: scheduler_state_simps split: if_splits option.splits, blast+)

lemma inv_cells_pop:
  assumes inv: "inv_cells (s, ts)" and i: "i < length ts" and pc: "\<And>l p. ts ! i \<noteq> SPublish l p"
    and pop: "TryPop_cell (queues s l) = Some (c, q)" and s': "queues s' = (queues s)(l := q)"
  shows "inv_cells (s', ts[i := pc'])"
proof -
  obtain cs where q: "cells_of s l = (c, True) # cs" "q = (queues s l)\<lparr>base := base (queues s l) + 1, queue_cells := cs\<rparr>"
    using pop by (auto simp: pop_Some_iff)
  have "SPublish l' (base (queues s' l') + k) \<in> set (ts[i := pc'])"
    if k: "k < length (cells_of s' l')" "\<not> snd (cells_of s' l' ! k)" for l' k
  proof -
    have "SPublish l' (base (queues s' l') + k) \<in> set ts"
    proof (cases "l' = l")
      case True
      then have "Suc k < length (cells_of s l)" "\<not> snd (cells_of s l ! Suc k)" using k s' q by simp_all
      then have "SPublish l (base (queues s l) + Suc k) \<in> set ts" using inv unfolding inv_cells_def by (metis (no_types, lifting) case_prod_conv)
      then show ?thesis using True s' q by simp
    qed (use inv k s' in \<open>auto simp: inv_cells_def\<close>)
    then show ?thesis using i pc by (intro in_set_update_other) metis+
  qed
  then show ?thesis by (auto simp: inv_cells_def)
qed

lemma inv_cells_run:
  assumes inv: "inv_cells (s, ts)" and i: "i < length ts" and st: "thread_step b s (ts ! i) = (s', pc')"
  shows "inv_cells (s', ts[i := pc'])"
proof (cases "ts ! i")
  case (SPush l c)
  show ?thesis
  proof (cases "TryPush_reserve b (lane_capacity l) c (queues s l)")
    case None
    then show ?thesis using inv_cells_frame [OF inv i] st SPush by auto
  next
    case (Some pq)
    obtain p q where pq: "pq = (p, q)" by (cases pq)
    then have q: "p = base (queues s l) + length (cells_of s l)" "q = (queues s l)\<lparr>queue_cells := cells_of s l @ [(c, False)]\<rparr>"
      using Some by (simp_all add: reserve_Some_iff)
    have s': "queues s' = (queues s)(l := q)" "pc' = SPublish l p" using st SPush Some pq by auto
    have "SPublish l' (base (queues s' l') + k) \<in> set (ts[i := pc'])"
      if k: "k < length (cells_of s' l')" "\<not> snd (cells_of s' l' ! k)" for l' k
    proof (cases "l' = l \<and> k = length (cells_of s l)")
      case True
      then show ?thesis using s' q i by (simp add: set_update_memI)
    next
      case False
      then have "k < length (cells_of s l')" "\<not> snd (cells_of s l' ! k)" "base (queues s' l') = base (queues s l')"
        using k s' q by (auto simp: nth_append split: if_splits)
      then show ?thesis using inv i SPush by (auto simp: inv_cells_def intro!: in_set_update_other)
    qed
    then show ?thesis by (auto simp: inv_cells_def)
  qed
next
  case (SPublish l p)
  have s': "queues s' = (queues s)(l := TryPush_publish p (queues s l))" using st SPublish by auto
  have "SPublish l' (base (queues s' l') + k) \<in> set (ts[i := pc'])"
    if k: "k < length (cells_of s' l')" "\<not> snd (cells_of s' l' ! k)" for l' k
  proof -
    have len: "k < length (cells_of s l')" "base (queues s' l') = base (queues s l')"
      using k(1) s' by (auto split: if_splits)
    have ne: "l' \<noteq> l \<or> k \<noteq> p - base (queues s l)" and "\<not> snd (cells_of s l' ! k)"
      using k len s'
      by (cases "k = p - base (queues s l)"; auto simp: TryPush_publish_def Let_def nth_list_update split: if_splits)+
    then have "SPublish l' (base (queues s l') + k) \<in> set ts" using inv len(1) by (auto simp: inv_cells_def)
    then show ?thesis using ne len(2) i SPublish by (intro in_set_update_other) auto
  qed
  then show ?thesis by (auto simp: inv_cells_def)
qed (use thread_step_queues [OF st] inv_cells_frame [OF inv i] inv_cells_pop [OF inv i] in \<open>fastforce simp del: thread_step.simps\<close>)+

lemma inv_cells_reachable: "scheduler_reachable n x \<Longrightarrow> inv_cells x"
proof (induction rule: scheduler_reachable.induct)
  case (step x y)
  from step(2,3) show ?case
  proof (induction rule: scheduler_step.induct)
    case (run i ts b s s' pc')
    then show ?case by (blast intro: inv_cells_run)
  next
    case (close s ts)
    then show ?case by (simp add: inv_cells_def CloseAdmission_def)
  next
    case (return i ts r s)
    then show ?case using inv_cells_frame [of s ts i s Idle] by auto
  qed (auto intro!: inv_cells_frame)
qed (simp add: inv_cells_def SessionCommandScheduler_create_def)

subsection \<open>The measure\<close>

fun submitting :: "'c thread \<Rightarrow> nat" where
  "submitting (SAdmit _ _) = 4"
| "submitting (SPush _ _) = 3"
| "submitting (SPublish _ _) = 2"
| "submitting (SRelease _) = 1"
| "submitting _ = 0"

text \<open>How far a thread is from leaving, while commands are queued (\<open>q\<close>) or not; \<open>e\<close> says that the normal
  mailbox is empty. A drain that finds the mailboxes empty goes on to the end of its batch; one that may yet find
  a command goes on to take it.\<close>

fun rank :: "bool \<Rightarrow> bool \<Rightarrow> 'c thread \<Rightarrow> nat" where
  "rank q e (DHandle _ _ _) = 30"
| "rank q e (DRelease _ _) = 29"
| "rank q e (SExchange _) = (if q then 16 else 28)"
| "rank q e (SPost _) = (if q then 15 else 27)"
| "rank q e (DPop _ _ _) = (if q then 11 else 19)"
| "rank q e (DPopNormal _ _ _) = (if q then (if e then 20 else 10) else 18)"
| "rank q e (DPending _ _ _) = (if q then 19 else 17)"
| "rank q e (DClear _) = (if q then 18 else 16)"
| "rank q e (DReload _) = (if q then 17 else 15)"
| "rank q e WPending = 3"
| "rank q e WDrain = 2"
| "rank q e WReturn = 1"
| "rank q e (SReturn _) = 1"
| "rank q e _ = 0"

definition task_rank :: "bool \<Rightarrow> nat" where
  "task_rank q = (if q then 12 else 20)"

definition distance :: "'c system \<Rightarrow> nat" where
  "distance x = (case x of (s, ts) \<Rightarrow>
     let q = total_cells s \<noteq> 0; e = cells_of s Normal = []
     in sum_list (map (rank q e) ts) + posted s * task_rank q)"

definition settle_measure :: "('c system \<times> 'c system) set" where
  "settle_measure = measures [\<lambda>(s, ts). sum_list (map submitting ts), \<lambda>(s, ts). total_cells s, distance]"

lemma wf_settle_measure: "wf settle_measure"
  by (simp add: settle_measure_def)

lemma sum_update:
  "i < length ts \<Longrightarrow> sum_list (map f (ts[i := pc])) + f (ts ! i) = sum_list (map f ts) + (f pc :: nat)"
  by (induction ts arbitrary: i) (auto split: nat.split)

lemma settle_submitting:
  assumes "i < length ts" and "submitting pc < submitting (ts ! i)"
  shows "((s', ts[i := pc]), (s, ts)) \<in> settle_measure"
  using assms sum_update [of i ts submitting pc] by (simp add: settle_measure_def)

lemma settle_cells:
  assumes "i < length ts" and "submitting pc = submitting (ts ! i)" and "total_cells s' < total_cells s"
  shows "((s', ts[i := pc]), (s, ts)) \<in> settle_measure"
  using assms sum_update [of i ts submitting pc] by (simp add: settle_measure_def)

lemma settle_distance:
  assumes "i < length ts" and "submitting pc = submitting (ts ! i)" and "queues s' = queues s"
    and "\<And>q e. q = (total_cells s \<noteq> 0) \<Longrightarrow> e = (cells_of s Normal = []) \<Longrightarrow>
      rank q e pc + posted s' * task_rank q < rank q e (ts ! i) + posted s * task_rank q"
  shows "((s', ts[i := pc]), (s, ts)) \<in> settle_measure"
proof -
  have "total_cells s' = total_cells s" using assms(3) by (simp add: total_cells_def)
  moreover have "distance (s', ts[i := pc]) < distance (s, ts)"
    using assms(4) [OF refl refl] sum_update [OF assms(1), of "rank (total_cells s \<noteq> 0) (cells_of s Normal = [])" pc] assms(3)
    by (simp add: distance_def total_cells_def Let_def)
  ultimately show ?thesis using assms(1,2) sum_update [of i ts submitting pc] by (simp add: settle_measure_def)
qed

subsection \<open>Some step always brings the threads closer to leaving\<close>

definition waiting :: "'c thread \<Rightarrow> bool" where
  "waiting t \<longleftrightarrow> t = WPending \<or> t = WDrain"

text \<open>The step that is taken, of thread \<open>i\<close>.\<close>

definition closer :: "'c system \<Rightarrow> nat \<Rightarrow> 'c system \<Rightarrow> bool" where
  "closer x i y \<longleftrightarrow> (case (x, y) of ((s, ts), (s', ts')) \<Rightarrow>
     settle_step (s, ts) (s', ts') \<and> ((s', ts'), (s, ts)) \<in> settle_measure \<and>
     (\<exists>pc. ts' = ts[i := pc] \<and> i < length ts \<and> (waiting pc \<longrightarrow> waiting (ts ! i))))"

lemma closer_run:
  assumes "i < length ts" "thread_step b s (ts ! i) = (s', pc)" "((s', ts[i := pc]), (s, ts)) \<in> settle_measure"
    and "waiting pc \<longrightarrow> waiting (ts ! i)"
  shows "\<exists>y. closer (s, ts) i y"
  using assms by (intro exI [of _ "(s', ts[i := pc])"]) (auto simp: closer_def intro: settle_step.run)

lemma closer_submitting:
  assumes "i < length ts" "0 < submitting (ts ! i)"
  shows "\<exists>y. closer (s, ts) i y"
proof -
  obtain s' pc where st: "thread_step False s (ts ! i) = (s', pc)" by (cases "thread_step False s (ts ! i)")
  then have "submitting pc < submitting (ts ! i)" "\<not> waiting pc"
    using assms(2) by (cases "ts ! i"; auto simp: waiting_def split: if_splits option.splits)+
  then show ?thesis using closer_run [OF assms(1) st] settle_submitting [OF assms(1)] by blast
qed

text \<open>From here on no submission is under way: the queued commands are all published, and only a drain is
  counted beside them.\<close>

definition no_submission :: "nat \<Rightarrow> 'c SessionCommandScheduler \<Rightarrow> 'c thread list \<Rightarrow> bool" where
  "no_submission n s ts \<longleftrightarrow> scheduler_reachable n (s, ts) \<and> (\<forall>t\<in>set ts. submitting t = 0)"

lemma no_submissionD:
  assumes "no_submission n s ts"
  shows "scheduler_reachable n (s, ts)" "t \<in> set ts \<Longrightarrow> submitting t = 0" "i < length ts \<Longrightarrow> submitting (ts ! i) = 0"
  using assms by (simp_all add: no_submission_def)

lemma pop_iff:
  assumes "no_submission n s ts"
  shows "TryPop_cell (queues s l) = None \<longleftrightarrow> cells_of s l = []"
proof (cases "cells_of s l")
  case (Cons c cs)
  have "SPublish l p \<notin> set ts" for p using no_submissionD(2) [OF assms, of "SPublish l p"] by auto
  then have "0 < length (cells_of s l) \<longrightarrow> snd (cells_of s l ! 0)"
    using inv_cells_reachable [OF no_submissionD(1) [OF assms]] by (auto simp: inv_cells_def)
  then show ?thesis using Cons by (cases c) (simp add: TryPop_cell_def)
qed (simp add: TryPop_cell_def)

lemma counted_drainer: "submitting t = 0 \<Longrightarrow> counted t \<Longrightarrow> drainer t"
  by (cases t) simp_all

lemma pending_cells:
  assumes "scheduler_reachable n (s, ts)" "\<And>t. t \<in> set ts \<Longrightarrow> \<not> counted t"
  shows "pending_count s = int (total_cells s)"
proof -
  have "cnt counted ts = 0" using assms(2) cnt_pos_iff [of counted ts] by auto
  then show ?thesis using scheduler_reachable_inv [OF assms(1)] by (simp add: scheduler_inv_def inv_pending_def)
qed

lemma drainer_unique:
  assumes "scheduler_reachable n (s, ts)" "i < length ts" "drainer (ts ! i)" "j < length ts" "drainer (ts ! j)"
  shows "i = j"
proof (rule ccontr)
  assume "i \<noteq> j"
  then have "2 \<le> cnt drainer ts" using cnt_two [of i ts j drainer] assms(2-) by simp
  then show False
    using scheduler_reachable_inv [OF assms(1)] by (simp add: scheduler_inv_def inv_drain_def split: if_splits)
qed

lemma drainer_pending:
  assumes ns: "no_submission n s ts" and "i < length ts" "drainer (ts ! i)" "\<not> counted (ts ! i)"
  shows "pending_count s = int (total_cells s)"
proof (rule pending_cells [OF no_submissionD(1) [OF ns]])
  show "\<not> counted t" if "t \<in> set ts" for t
    using that counted_drainer [OF no_submissionD(2) [OF ns that]] drainer_unique [OF no_submissionD(1) [OF ns] assms(2,3)]
      assms(4) by (metis in_set_conv_nth)
qed

lemma closer_pop:
  assumes ns: "no_submission n s ts" and i: "i < length ts"
    and st: "thread_step True s (ts ! i) = ((set_queue l q s)\<lparr>handled := hs\<rparr>, DHandle sub k c)"
    and pop: "TryPop_cell (queues s l) = Some (c, q)"
  shows "\<exists>y. closer (s, ts) i y"
proof (rule closer_run [OF i st])
  have "total_cells (set_queue l q s) < total_cells s"
    using pop total_cells_set_queue [of l q s] by (auto simp: pop_Some_iff)
  then show "(((set_queue l q s)\<lparr>handled := hs\<rparr>, ts[i := DHandle sub k c]), (s, ts)) \<in> settle_measure"
    using no_submissionD(3) [OF ns i] by (intro settle_cells [OF i]) simp_all
qed (simp add: waiting_def)

lemma closer_distance:
  assumes ns: "no_submission n s ts" and i: "i < length ts" and st: "thread_step b s (ts ! i) = (s', pc)"
    and "queues s' = queues s" "submitting pc = 0" "waiting pc \<longrightarrow> waiting (ts ! i)"
    and "\<And>q e. q = (total_cells s \<noteq> 0) \<Longrightarrow> e = (cells_of s Normal = []) \<Longrightarrow>
      rank q e pc + posted s' * task_rank q < rank q e (ts ! i) + posted s * task_rank q"
  shows "\<exists>y. closer (s, ts) i y"
proof (rule closer_run [OF i st _ assms(6)])
  show "((s', ts[i := pc]), (s, ts)) \<in> settle_measure"
    by (rule settle_distance [OF i _ assms(4,7)]) (simp_all add: assms(5) no_submissionD(3) [OF ns i])
qed

lemma finish_schedule_simps [simp]: "submitting (finish_schedule sub) = 0" "\<not> waiting (finish_schedule sub)"
  "rank q e (finish_schedule sub) = of_bool sub"
  by (simp_all add: finish_schedule_def waiting_def)

lemma closer_drainer:
  assumes ns: "no_submission n s ts" and i: "i < length ts" and dr: "drainer (ts ! i)"
  shows "\<exists>y. closer (s, ts) i y"
proof (cases "ts ! i")
  case (DPop sub k r)
  show ?thesis
  proof (cases "TryPop_cell (queues s Priority)")
    case None
    then have "cells_of s Priority = []" by (simp add: pop_iff [OF ns])
    then show ?thesis using None DPop
      by (intro closer_distance [OF ns i, of True s "DPopNormal sub k r"]) (auto simp: waiting_def total_cells_def)
  next
    case (Some cq)
    then show ?thesis using DPop closer_pop [OF ns i, where l = Priority] by (cases cq) simp
  qed
next
  case (DPopNormal sub k r)
  show ?thesis
  proof (cases "TryPop_cell (queues s Normal)")
    case None
    then have "cells_of s Normal = []" by (simp add: pop_iff [OF ns])
    then show ?thesis using None DPopNormal
      by (intro closer_distance [OF ns i, of True s "DPending sub k r"]) (auto simp: waiting_def)
  next
    case (Some cq)
    then show ?thesis using DPopNormal closer_pop [OF ns i, where l = Normal] by (cases cq) simp
  qed
next
  case (DPending sub k r)
  then have p: "pending_count s = int (total_cells s)" using drainer_pending [OF ns i] dr by simp
  show ?thesis
    by (rule closer_distance [OF ns i, of True s "snd (thread_step True s (ts ! i))"]) (auto simp: p DPending waiting_def)
next
  case (SPost sub)
  have "rank q e (finish_schedule sub) + (posted s + 1) * task_rank q < rank q e (ts ! i) + posted s * task_rank q" for q e
    by (simp add: SPost task_rank_def)
  then show ?thesis using closer_distance [OF ns i, of True "s\<lparr>posted := posted s + 1\<rparr>" "finish_schedule sub"] SPost by simp
next
  case (DHandle sub k c)
  then show ?thesis by (intro closer_distance [OF ns i, of True s "DRelease sub k"]) (auto simp: waiting_def)
next
  case (DRelease sub k)
  then show ?thesis
    by (intro closer_distance [OF ns i, of True "ReleasePending s" "snd (thread_step True s (ts ! i))"])
      (auto simp: waiting_def ReleasePending_def)
next
  case (DClear sub)
  then show ?thesis
    by (intro closer_distance [OF ns i, of True "s\<lparr>drain_scheduled := False\<rparr>" "DReload sub"]) (auto simp: waiting_def)
qed (use dr in simp_all)

lemma closer_rescuer:
  assumes ns: "no_submission n s ts" and i: "i < length ts" and r: "rescuer (ts ! i)" and no: "\<And>t. t \<in> set ts \<Longrightarrow> \<not> drainer t"
  shows "\<exists>y. closer (s, ts) i y"
proof (cases "ts ! i")
  case (SExchange sub)
  have small: "rank q e (finish_schedule sub) < rank q e (ts ! i)" for q e
    by (simp add: SExchange)
  show ?thesis
  proof (cases "drain_scheduled s")
    case True
    then show ?thesis using small closer_distance [OF ns i, of True s "finish_schedule sub"] SExchange by simp
  next
    case False
    then show ?thesis using SExchange
      by (intro closer_distance [OF ns i, of True "s\<lparr>drain_scheduled := True\<rparr>" "SPost sub"]) (auto simp: waiting_def)
  qed
next
  case (DReload sub)
  have p: "pending_count s = int (total_cells s)"
    using pending_cells [OF no_submissionD(1) [OF ns]] counted_drainer no no_submissionD(2) [OF ns] by blast
  have small: "rank q e (finish_schedule sub) < rank q e (ts ! i)" for q e
    by (simp add: DReload)
  show ?thesis using small
    by (intro closer_distance [OF ns i, of True s "snd (thread_step True s (ts ! i))"]) (auto simp: DReload p waiting_def finish_schedule_def)
qed (use r no_submissionD(3) [OF ns i] in simp_all)

text \<open>No submission, drain or check is left: what remains is to return, to run a queued task, or to stop waiting.\<close>

lemma closer_return:
  assumes i: "i < length ts" and "ts ! i = SReturn r \<or> ts ! i = WReturn"
  shows "\<exists>y. closer (s, ts) i y"
proof -
  have "((s, ts[i := Idle]), (s, ts)) \<in> settle_measure"
    using assms by (intro settle_distance [OF i]) auto
  then show ?thesis using assms
    by (intro exI [of _ "(s, ts[i := Idle])"]) (auto simp: closer_def waiting_def intro: settle_step.return)
qed

lemma closer_start:
  assumes i: "i < length ts" and "ts ! i = Idle" and p: "0 < posted s"
  shows "\<exists>y. closer (s, ts) i y"
proof -
  let ?s = "s\<lparr>posted := posted s - 1\<rparr>"
  have "((?s, ts[i := DPop False 0 0]), (s, ts)) \<in> settle_measure"
    using assms by (intro settle_distance [OF i]) (auto simp: task_rank_def gr0_conv_Suc)
  moreover have "settle_step (s, ts) (?s, ts[i := DPop False 0 0])" by (rule settle_step.start_task [OF assms])
  ultimately show ?thesis using i
    by (intro exI [of _ "(?s, ts[i := DPop False 0 0])"]) (auto simp: closer_def waiting_def)
qed

lemma closer_waiting:
  assumes ns: "no_submission n s ts" and i: "i < length ts" "waiting (ts ! i)"
    and "posted s = 0" and "\<And>t. t \<in> set ts \<Longrightarrow> neutral t"
  shows "\<exists>y. closer (s, ts) i y"
proof -
  have q: "pending_count s = 0" "\<not> drain_scheduled s"
    using quiescent_empty [OF no_submissionD(1) [OF ns] assms(4,5)] by simp_all
  consider "ts ! i = WPending" | "ts ! i = WDrain" using i(2) by (auto simp: waiting_def)
  then show ?thesis
  proof cases
    case 1
    then show ?thesis using q by (intro closer_distance [OF ns i(1), of True s WDrain]) (auto simp: waiting_def)
  next
    case 2
    then show ?thesis using q by (intro closer_distance [OF ns i(1), of True s WReturn]) (auto simp: waiting_def)
  qed
qed

definition at_rest :: "'c system \<Rightarrow> bool" where
  "at_rest x \<longleftrightarrow> posted (fst x) = 0 \<and> (\<forall>t\<in>set (snd x). t = Idle)"

lemma remaining_threads:
  assumes "submitting t = 0" "\<not> drainer t" "\<not> rescuer t" "\<And>r. t \<noteq> SReturn r" "t \<noteq> WReturn"
  shows "neutral t" "t = Idle \<or> waiting t"
  using assms by (cases t; simp add: neutral_def waiting_def)+

lemma some_closer:
  assumes reach: "scheduler_reachable n (s, ts)" and free: "\<exists>t\<in>set ts. \<not> waiting t" and "\<not> at_rest (s, ts)"
  shows "\<exists>i y. closer (s, ts) i y"
proof -
  consider i where "i < length ts" "0 < submitting (ts ! i)" | "no_submission n s ts"
    using reach by (metis no_submission_def in_set_conv_nth neq0_conv)
  then show ?thesis
  proof cases
    case 1
    then show ?thesis using closer_submitting by blast
  next
    case ns: 2
    let ?leaves = "\<lambda>t. (\<exists>r. t = SReturn r) \<or> t = WReturn"
    consider i where "i < length ts" "drainer (ts ! i)" | i where "i < length ts" "rescuer (ts ! i)" "\<And>t. t \<in> set ts \<Longrightarrow> \<not> drainer t"
      | i where "i < length ts" "?leaves (ts ! i)"
      | "\<And>t. t \<in> set ts \<Longrightarrow> \<not> drainer t \<and> \<not> rescuer t \<and> \<not> ?leaves t"
      by (metis in_set_conv_nth)
    then show ?thesis
    proof cases
      case 4
      then have rest: "neutral t" "t = Idle \<or> waiting t" if "t \<in> set ts" for t
        using remaining_threads [OF no_submissionD(2) [OF ns that]] that by blast+
      show ?thesis
      proof (cases "posted s = 0")
        case True
        then obtain i where "i < length ts" "waiting (ts ! i)"
          using assms(3) rest(2) unfolding at_rest_def by (metis fst_conv in_set_conv_nth snd_conv)
        then show ?thesis using closer_waiting [OF ns _ _ True rest(1)] by blast
      next
        case False
        then obtain i where "i < length ts" "ts ! i = Idle" using free rest(2) by (metis in_set_conv_nth)
        then show ?thesis using closer_start False by blast
      qed
    qed (use closer_drainer [OF ns] closer_rescuer [OF ns] closer_return in blast)+
  qed
qed

lemma closer_free:
  assumes "closer (s, ts) i (s', ts')" and "\<exists>t\<in>set ts. \<not> waiting t"
  shows "\<exists>t\<in>set ts'. \<not> waiting t"
proof -
  obtain pc where pc: "ts' = ts[i := pc]" "i < length ts" "waiting pc \<longrightarrow> waiting (ts ! i)" using assms(1) by (auto simp: closer_def)
  obtain t where t: "t \<in> set ts" "\<not> waiting t" using assms(2) by blast
  show ?thesis
  proof (cases "waiting pc")
    case True
    then show ?thesis using t pc in_set_update_other [OF t(1) pc(2)] by metis
  next
    case False
    then show ?thesis using pc(1,2) set_update_memI by metis
  qed
qed

lemma settles:
  assumes "scheduler_reachable n x" "\<exists>t\<in>set (snd x). \<not> waiting t"
  shows "\<exists>y. settle_step\<^sup>*\<^sup>* x y \<and> at_rest y"
  using wf_settle_measure assms
proof (induction x rule: wf_induct_rule)
  case (less x)
  obtain s ts where x: "x = (s, ts)" by (cases x)
  show ?case
  proof (cases "at_rest x")
    case False
    then obtain i s' ts' where c: "closer (s, ts) i (s', ts')" using some_closer less.prems unfolding x by (metis prod.exhaust snd_conv)
    then have st: "settle_step x (s', ts')" and "((s', ts'), x) \<in> settle_measure" by (auto simp: closer_def x)
    moreover have "scheduler_reachable n (s', ts')"
      using less.prems(1) settle_scheduler_step [OF st] by (rule scheduler_reachable.step)
    ultimately obtain y where "settle_step\<^sup>*\<^sup>* (s', ts') y" "at_rest y"
      using less.IH [of "(s', ts')"] closer_free [OF c] less.prems(2) by (auto simp: x)
    then show ?thesis using st by (meson converse_rtranclp_into_rtranclp)
  qed blast
qed

subsection \<open>Properties\<close>

text \<open>C14: The scheduler never gets stuck. From every state that its threads can reach, unless all of them are blocked in
  \<^verbatim>\<open>WaitIdle\<close>, which leaves none to run a queued drain, they can finish without any further call: every
  submission and every \<^verbatim>\<open>WaitIdle\<close> returns, no drain stays queued or running, and every command that was
  accepted, the ones still being pushed included, has been handled in the order of its lane.\<close>

theorem scheduler_can_finish:
  assumes "scheduler_reachable n x" and "\<exists>t\<in>set (snd x). \<not> waiting t"
  shows "\<exists>s ts. settle_step\<^sup>*\<^sup>* x (s, ts) \<and> set ts \<subseteq> {Idle} \<and> posted s = 0 \<and> pending_count s = 0 \<and> \<not> drain_scheduled s \<and>
    (\<forall>l. in_lane l (handled s) = in_lane l (submitted s))"
proof -
  obtain s ts where y: "settle_step\<^sup>*\<^sup>* x (s, ts)" "posted s = 0" "\<forall>t\<in>set ts. t = Idle"
    using settles [OF assms] by (auto simp: at_rest_def)
  have "neutral t" if "t \<in> set ts" for t using that y(3) by (auto simp: neutral_def)
  then show ?thesis
    using y quiescent_empty [OF settle_reachable [OF y(1) assms(1)] y(2)] by (intro exI [of _ s] exI [of _ ts]) auto
qed

text \<open>The hypothesis at work: one thread waits, one has announced a submission.\<close>

theorem scheduler_can_finish_witness:
  "\<exists>(s0 :: nat SessionCommandScheduler) s ts. settle_step\<^sup>*\<^sup>* (s0, [WPending, SPush Normal 7]) (s, ts) \<and> set ts \<subseteq> {Idle} \<and>
     (\<forall>l. in_lane l (handled s) = in_lane l (submitted s))"
proof -
  obtain s0 where r: "run_sevents [Scheduler_Invariant.Submit 1 Normal (7 :: nat), Run 1 True, WaitCall 0]
      (SessionCommandScheduler_create, [Idle, Idle]) = Some (s0, [WPending, SPush Normal 7])"
    by (simp add: SessionCommandScheduler_create_def)
  have "scheduler_reachable 2 (SessionCommandScheduler_create, [Idle, Idle :: nat thread])"
    using scheduler_reachable.start [of 2] by (simp add: numeral_2_eq_2)
  then have "scheduler_reachable 2 (s0, [WPending, SPush Normal 7])" by (rule run_sevents_reachable [OF r])
  from scheduler_can_finish [OF this] show ?thesis by (simp add: waiting_def) blast
qed

end
