(* ===== verification/Rate_Limit_Handler.thy ===== *)
theory Rate_Limit_Handler
  imports Http Rate_Limiter
begin

text \<open>
  The request filter in front of all routes (\<^verbatim>\<open>source/middleware/RateLimitHandler.h\<close>).

  \<open>before_handle\<close> takes the request and the response under construction and returns the handler with
  its limiters updated, the response, the context and the audit records written. Each of the three
  throttles reads the clock itself: \<open>clock\<close> gives the three readings. \<^verbatim>\<open>crow::method_name\<close> is the
  argument \<open>method_name\<close>.
\<close>

subsection \<open>Configuration and state\<close>

record Config =
  globalMaxRequests :: nat
  globalWindow :: seconds
  loginMaxRequests :: nat
  loginWindow :: seconds
  loginMaxFailures :: nat
  loginFailureWindow :: seconds
  loginLockout :: seconds
  loginMaxBodyBytes :: nat
  uploadMaxBodyBytes :: nat
  globalMaxBodyBytes :: nat
  trustForwardedFor :: bool

definition default_Config :: Config where
  "default_Config = \<lparr>globalMaxRequests = 300, globalWindow = 60, loginMaxRequests = 10, loginWindow = 60,
     loginMaxFailures = 5, loginFailureWindow = 300, loginLockout = 300, loginMaxBodyBytes = 4 * 1024,
     uploadMaxBodyBytes = 8 * 1024 * 1024 * 1024, globalMaxBodyBytes = 8 * 1024 * 1024,
     trustForwardedFor = True\<rparr>"

record RateLimitHandler =
  enabled :: bool
  config :: Config
  globalLimiter :: "SlidingWindowLimiter option"
  loginLimiter :: "SlidingWindowLimiter option"
  loginThrottler :: "LoginThrottler option"

record rate_context =
  blocked :: bool
  ctx_clientIp :: string

definition RateLimitHandler_create :: RateLimitHandler where
  "RateLimitHandler_create = \<lparr>enabled = False, config = default_Config, globalLimiter = None,
     loginLimiter = None, loginThrottler = None\<rparr>"

definition configure :: "Config \<Rightarrow> time_point \<Rightarrow> RateLimitHandler \<Rightarrow> RateLimitHandler" where
  "configure cfg now h = h\<lparr>config := cfg,
     globalLimiter := Some (SlidingWindowLimiter_create (globalMaxRequests cfg) (globalWindow cfg) now),
     loginLimiter := Some (SlidingWindowLimiter_create (loginMaxRequests cfg) (loginWindow cfg) now),
     loginThrottler := Some (LoginThrottler_create (loginMaxFailures cfg) (loginFailureWindow cfg)
       (loginLockout cfg) now),
     enabled := True\<rparr>"

definition GetLoginThrottler :: "RateLimitHandler \<Rightarrow> LoginThrottler option" where
  "GetLoginThrottler h = loginThrottler h"

subsection \<open>Client identity and path\<close>

definition blank :: "char \<Rightarrow> bool" where
  "blank c \<longleftrightarrow> c = CHR '' '' \<or> c = CHR 0x09"

definition ResolveClientIp :: "request \<Rightarrow> bool \<Rightarrow> string" where
  "ResolveClientIp req trustForwarded =
     (let xff = header req ''X-Forwarded-For'';
          first = takeWhile (\<lambda>c. c \<noteq> CHR '','') xff;
          trimmed = rev (dropWhile blank (rev (dropWhile blank first)));
          peer = (if remote_ip_address req = [] then ''unknown'' else remote_ip_address req)
      in if trustForwarded \<and> xff \<noteq> [] \<and> (\<exists>c\<in>set first. \<not> blank c) then trimmed else peer)"

definition NormalisePath :: "string \<Rightarrow> string" where
  "NormalisePath u = takeWhile (\<lambda>c. c \<noteq> CHR ''?'') u"

definition Reject :: "int \<Rightarrow> string \<Rightarrow> string \<Rightarrow> response \<Rightarrow> rate_context \<Rightarrow> response \<times> rate_context" where
  "Reject c error message res ctx =
     ((set_header ''Content-Type'' ''application/json'' (res\<lparr>code := c\<rparr>))
        \<lparr>res_body := Text (''{'' @ [CHR 0x22] @ ''error'' @ [CHR 0x22] @ '':'' @ [CHR 0x22] @ error @ [CHR 0x22] @
           '','' @ [CHR 0x22] @ ''message'' @ [CHR 0x22] @ '':'' @ [CHR 0x22] @ message @ [CHR 0x22] @ ''}''),
         ended := True\<rparr>,
      ctx\<lparr>blocked := True\<rparr>)"

definition c_loginPath :: string where "c_loginPath = ''/api/v1/auth/login''"
definition c_uploadPath :: string where "c_uploadPath = ''/api/v1/upload''"

definition audit :: "AuditEvent \<Rightarrow> string \<Rightarrow> string \<Rightarrow> string \<Rightarrow> string \<Rightarrow> int \<Rightarrow> string \<Rightarrow> nat option \<Rightarrow> nat option \<Rightarrow> AuditRecord" where
  "audit ev ip meth p ua status why lim obs =
     \<lparr>event = ev, clientIp = ip, req_method = meth, path = p, userAgent = ua, username = None,
      statusCode = Some status, detail = Some why, limit = lim, observed = obs\<rparr>"

definition is_login :: "request \<Rightarrow> bool" where
  "is_login req \<longleftrightarrow> http_method req = PostMethod \<and> NormalisePath (url req) = c_loginPath"

definition is_upload :: "request \<Rightarrow> bool" where
  "is_upload req \<longleftrightarrow> http_method req = PostMethod \<and> NormalisePath (url req) = c_uploadPath"

definition maxBody :: "Config \<Rightarrow> request \<Rightarrow> nat" where
  "maxBody cfg req = (if is_login req then loginMaxBodyBytes cfg
     else if is_upload req then uploadMaxBodyBytes cfg else globalMaxBodyBytes cfg)"

type_synonym before_result = "RateLimitHandler \<times> response \<times> rate_context \<times> AuditRecord list"

text \<open>Write the audit record, reject, return.\<close>

definition deny :: "int \<Rightarrow> string \<Rightarrow> string \<Rightarrow> AuditRecord \<Rightarrow> RateLimitHandler \<Rightarrow> response \<Rightarrow> rate_context \<Rightarrow> before_result" where
  "deny c error message rec h res ctx =
     (let (res', ctx') = Reject c error message res ctx in (h, res', ctx', [rec]))"

text \<open>The third stage, rate limiting: the login bucket first, then the global one.\<close>

definition global_stage :: "string \<Rightarrow> time_point \<Rightarrow> request \<Rightarrow> RateLimitHandler \<Rightarrow> response \<Rightarrow> rate_context \<Rightarrow> before_result" where
  "global_stage meth now req h res ctx =
     (case globalLimiter h of
        None \<Rightarrow> (h, res, ctx, [])
      | Some l \<Rightarrow>
          let ip = ctx_clientIp ctx; (l', d) = Allow (''global:'' @ ip) now l; h' = h\<lparr>globalLimiter := Some l'\<rparr>
          in if \<not> allowed d
             then deny 429 ''rate_limited'' ''Too many requests. Slow down.''
                    (audit RateLimitExceeded ip meth (NormalisePath (url req))
                       (header req ''User-Agent'') 429 ''request rate limit exceeded''
                       (Some (decision_limit d)) (Some (decision_observed d)))
                    h' (set_header ''Retry-After'' (int_to_string (retryAfter d)) res) ctx
             else (h', res, ctx, []))"

definition rate_stage :: "string \<Rightarrow> (nat \<Rightarrow> time_point) \<Rightarrow> request \<Rightarrow> RateLimitHandler \<Rightarrow> response \<Rightarrow> rate_context \<Rightarrow> before_result" where
  "rate_stage meth clock req h res ctx =
     (case (is_login req, loginLimiter h) of
        (True, Some l) \<Rightarrow>
          let ip = ctx_clientIp ctx; (l', d) = Allow (''login:'' @ ip) (clock 1) l; h' = h\<lparr>loginLimiter := Some l'\<rparr>
          in if \<not> allowed d
             then deny 429 ''rate_limited'' ''Too many login attempts. Slow down.''
                    (audit LoginRateLimitExceeded ip meth (NormalisePath (url req))
                       (header req ''User-Agent'') 429 ''login rate limit exceeded''
                       (Some (decision_limit d)) (Some (decision_observed d)))
                    h' (set_header ''Retry-After'' (int_to_string (retryAfter d)) res) ctx
             else global_stage meth (clock 2) req h' res ctx
      | _ \<Rightarrow> global_stage meth (clock 2) req h res ctx)"

definition before_handle ::
  "(HTTPMethod \<Rightarrow> string) \<Rightarrow> (nat \<Rightarrow> time_point) \<Rightarrow> request \<Rightarrow> RateLimitHandler \<Rightarrow> response \<Rightarrow> rate_context \<Rightarrow> before_result" where
  "before_handle method_name clock req h res ctx =
     (if \<not> enabled h then (h, res, ctx, [])
      else if http_method req = Options then (h, res, ctx, [])
      else
        let ip = ResolveClientIp req True;
            meth = method_name (http_method req);
            ua = header req ''User-Agent'';
            ctx1 = ctx\<lparr>ctx_clientIp := ip\<rparr>;
            cap = maxBody (config h) req
        in if length (req_body req) > cap
           then deny 413 ''payload_too_large'' ''Request body exceeds the permitted size.''
                  (audit BodyTooLarge ip meth (NormalisePath (url req)) ua 413
                     ''request body exceeds cap'' (Some cap) (Some (length (req_body req))))
                  h res ctx1
           else case (is_login req, loginThrottler h) of
             (True, Some t) \<Rightarrow>
               let lockedFor = LockedFor ip (clock 0) t
               in if lockedFor > 0
                  then deny 429 ''too_many_attempts'' ''Too many failed login attempts. Try again later.''
                         (audit LoginLockout ip meth (NormalisePath (url req)) ua 429
                            ''source temporarily locked out'' (Some (loginMaxFailures (config h))) None)
                         h (set_header ''Retry-After'' (int_to_string lockedFor) res) ctx1
                  else rate_stage meth clock req h res ctx1
           | _ \<Rightarrow> rate_stage meth clock req h res ctx1)"

definition after_handle :: "request \<Rightarrow> response \<Rightarrow> rate_context \<Rightarrow> response \<times> rate_context" where
  "after_handle req res ctx = (res, ctx)"

subsection \<open>Stages\<close>

lemma Reject_simps [simp]:
  "blocked (snd (Reject c e m res ctx))" "code (fst (Reject c e m res ctx)) = c"
  "ended (fst (Reject c e m res ctx))"
  by (simp_all add: Reject_def set_header_def)

text \<open>A stage either leaves the response and context alone without a record, or blocks with exactly
  one record whose status is the response's.\<close>

definition stage_ok :: "response \<Rightarrow> before_result \<Rightarrow> bool" where
  "stage_ok res r = (case r of (h', res', ctx', recs) \<Rightarrow>
     if blocked ctx'
     then \<exists>x. recs = [x] \<and> statusCode x = Some (code res') \<and> code res' \<in> {413, 429} \<and> ended res' \<and>
        clientIp x = ctx_clientIp ctx'
     else recs = [] \<and> res' = res)"

lemma deny_ok:
  assumes "c \<in> {413, 429}" "statusCode x = Some c" "clientIp x = ctx_clientIp ctx"
  shows "stage_ok res0 (deny c e m x h res ctx)"
  using assms by (auto simp: stage_ok_def deny_def Reject_def set_header_def)

lemma pass_ok: "\<not> blocked ctx \<Longrightarrow> stage_ok res (h, res, ctx, [])"
  by (simp add: stage_ok_def)

lemma audit_simps [simp]:
  "statusCode (audit ev ip meth p ua status why lim obs) = Some status"
  "clientIp (audit ev ip meth p ua status why lim obs) = ip"
  by (simp_all add: audit_def)

lemma global_stage_ok: "\<not> blocked ctx \<Longrightarrow> stage_ok res (global_stage meth now req h res ctx)"
  by (simp add: global_stage_def deny_ok pass_ok Let_def split: option.split prod.split)

lemma rate_stage_ok: "\<not> blocked ctx \<Longrightarrow> stage_ok res (rate_stage meth clock req h res ctx)"
  by (simp add: rate_stage_def deny_ok global_stage_ok Let_def split: option.split prod.split bool.split)

lemma before_handle_ok: "\<not> blocked ctx \<Longrightarrow> stage_ok res (before_handle mn clock req h res ctx)"
  by (simp add: before_handle_def deny_ok pass_ok rate_stage_ok Let_def split: option.split bool.split)

lemma deny_blocked [simp]: "blocked (fst (snd (snd (deny c e m x h res ctx))))"
  by (simp add: deny_def split: prod.split) (metis Reject_simps(1) snd_conv)

text \<open>Which requests a stage blocks.\<close>

definition global_admits :: "RateLimitHandler \<Rightarrow> string \<Rightarrow> time_point \<Rightarrow> bool" where
  "global_admits h ip now =
     (case globalLimiter h of None \<Rightarrow> True | Some l \<Rightarrow> allowed (snd (Allow (''global:'' @ ip) now l)))"

definition login_admits :: "RateLimitHandler \<Rightarrow> string \<Rightarrow> time_point \<Rightarrow> bool" where
  "login_admits h ip now =
     (case loginLimiter h of None \<Rightarrow> True | Some l \<Rightarrow> allowed (snd (Allow (''login:'' @ ip) now l)))"

definition locked_out :: "RateLimitHandler \<Rightarrow> string \<Rightarrow> time_point \<Rightarrow> bool" where
  "locked_out h ip now =
     (case loginThrottler h of None \<Rightarrow> False | Some t \<Rightarrow> LockedFor ip now t > 0)"

abbreviation result_blocked :: "before_result \<Rightarrow> bool" where
  "result_blocked r \<equiv> blocked (fst (snd (snd r)))"

lemma global_stage_blocks:
  "\<not> blocked ctx \<Longrightarrow> result_blocked (global_stage meth now req h res ctx) \<longleftrightarrow> \<not> global_admits h (ctx_clientIp ctx) now"
  by (simp add: global_stage_def global_admits_def Let_def split: option.split prod.split)

lemma rate_stage_blocks:
  "\<not> blocked ctx \<Longrightarrow> result_blocked (rate_stage meth clock req h res ctx) \<longleftrightarrow>
     is_login req \<and> \<not> login_admits h (ctx_clientIp ctx) (clock 1) \<or> \<not> global_admits h (ctx_clientIp ctx) (clock 2)"
  by (auto simp: rate_stage_def login_admits_def global_admits_def global_stage_blocks Let_def
      split: option.splits prod.splits bool.splits)

subsection \<open>Properties\<close>


definition demo_login :: request where
  "demo_login = \<lparr>http_method = PostMethod, url = ''/api/v1/auth/login?x=1'',
     header = (\<lambda>k. if k = ''X-Forwarded-For'' then '' 10.0.0.9 , 10.0.0.1'' else []),
     req_body = ''{}'', remote_ip_address = ''10.0.0.1''\<rparr>"


text \<open>Every block is reported: a request is either let through with its response untouched and no
  audit record, or answered with 413 or 429 and exactly one audit record that carries this status
  and the client the decision was taken for.\<close>

theorem before_handle_audits_every_block:
  assumes "\<not> blocked ctx"
  shows "case before_handle mn clock req h res ctx of (h', res', ctx', recs) \<Rightarrow>
    if blocked ctx'
    then \<exists>x. recs = [x] \<and> statusCode x = Some (code res') \<and> code res' \<in> {413, 429} \<and> ended res' \<and>
      clientIp x = ctx_clientIp ctx'
    else recs = [] \<and> res' = res"
  using before_handle_ok [OF assms] unfolding stage_ok_def .

theorem before_handle_audits_every_block_witness:
  "\<exists>x res' ctx' h'. before_handle (\<lambda>_. ''POST'') (\<lambda>_. ns 100) (demo_login\<lparr>req_body := replicate 5000 CHR ''a''\<rparr>)
     (configure default_Config 0 RateLimitHandler_create) empty_response \<lparr>blocked = False, ctx_clientIp = []\<rparr>
     = (h', res', ctx', [x]) \<and> statusCode x = Some (code res') \<and> clientIp x = ''10.0.0.9''"
proof -
  let ?req = "demo_login\<lparr>req_body := replicate 5000 CHR ''a''\<rparr>"
  let ?h = "configure default_Config 0 RateLimitHandler_create"
  let ?r = "before_handle (\<lambda>_. ''POST'') (\<lambda>_. ns 100) ?req ?h empty_response \<lparr>blocked = False, ctx_clientIp = []\<rparr>"
  have "result_blocked ?r \<and> ctx_clientIp (fst (snd (snd ?r))) = ''10.0.0.9''"
    by (simp add: before_handle_def configure_def default_Config_def demo_login_def maxBody_def
        is_login_def NormalisePath_def c_loginPath_def ResolveClientIp_def blank_def deny_def Reject_def Let_def)
  moreover obtain h' res' ctx' recs where r: "?r = (h', res', ctx', recs)" by (cases ?r)
  ultimately show ?thesis
    using before_handle_audits_every_block [where ctx = "\<lparr>blocked = False, ctx_clientIp = []\<rparr>"
        and mn = "\<lambda>_. ''POST''" and clock = "\<lambda>_. ns 100" and req = ?req and h = ?h
        and res = empty_response] by (auto simp: r)
qed

end
