(* ===== verification/Auth.thy ===== *)
theory Auth
  imports Rate_Limit_Handler Environment
begin

text \<open>
  Login (\<^verbatim>\<open>source/controller/AuthController.{h,cpp}\<close>, \<^verbatim>\<open>source/dto/AuthDto.h\<close>) and the outgoing HTTP
  client (\<^verbatim>\<open>source/utils/HttpClient.{h,cpp}\<close>).

  The transfer itself (libcpr) is the argument \<open>transport\<close>: what the library returns for a request.
  \<^verbatim>\<open>Login\<close> returns the response, the shared throttler and the audit records it wrote.
\<close>

subsection \<open>Outgoing HTTP\<close>

record cpr_result =
  status_code :: int
  transfer_ok :: bool
  error_message :: string
  text_body :: string

record http_response =
  ok :: bool
  body :: string
  http_code :: int
  err :: string

type_synonym payload = "(string \<times> string) list"

record cpr_request =
  cpr_url :: string
  cpr_timeout :: int
  cpr_redirect :: bool
  cpr_headers :: "(string \<times> string) list"
  cpr_user_agent :: "string option"
  cpr_payload :: "payload option"

type_synonym transport = "cpr_request \<Rightarrow> cpr_result"

definition http_result :: "cpr_result \<Rightarrow> http_response" where
  "http_result r =
     (let http_ok = (status_code r \<ge> 200 \<and> status_code r < 300);
          curl_ok = transfer_ok r;
          e = (if \<not> curl_ok then error_message r
               else if \<not> http_ok then ''HTTP '' @ int_to_string (status_code r) else [])
      in \<lparr>ok = curl_ok \<and> http_ok, body = text_body r, http_code = status_code r, err = e\<rparr>)"

definition HttpClient_get :: "transport \<Rightarrow> string \<Rightarrow> http_response" where
  "HttpClient_get transport u =
     http_result (transport \<lparr>cpr_url = u, cpr_timeout = 5000, cpr_redirect = True, cpr_headers = [],
       cpr_user_agent = None, cpr_payload = None\<rparr>)"

definition HttpClient_post :: "transport \<Rightarrow> string \<Rightarrow> payload \<Rightarrow> (string \<times> string) list \<Rightarrow> http_response" where
  "HttpClient_post transport u p hs =
     http_result (transport \<lparr>cpr_url = u, cpr_timeout = 5000, cpr_redirect = True, cpr_headers = hs,
       cpr_user_agent = None, cpr_payload = Some p\<rparr>)"

subsection \<open>DTOs\<close>

record LoginRequest =
  login_username :: string
  login_password :: string

definition LoginRequest_from_json :: "json_library \<Rightarrow> json \<Rightarrow> json_error + LoginRequest" where
  "LoginRequest_from_json lib j =
     (case at_string lib ''username'' j of
        Inl e \<Rightarrow> Inl e
      | Inr u \<Rightarrow> (case at_string lib ''password'' j of
          Inl e \<Rightarrow> Inl e
        | Inr p \<Rightarrow> Inr \<lparr>login_username = u, login_password = p\<rparr>))"

record OAuthTokenResponse =
  access_token :: string
  token_type :: "string option"
  expires_in :: "int option"
  refresh_token :: "string option"
  scope :: "string option"
  id_token :: "string option"

definition get_string_field :: "string \<Rightarrow> json \<Rightarrow> string option" where
  "get_string_field k j = (case json_field k j of Some (JString s) \<Rightarrow> Some s | _ \<Rightarrow> None)"

text \<open>\<^verbatim>\<open>get<long long>\<close> of an integer wraps to 64 bits.\<close>

definition get_int_field :: "string \<Rightarrow> json \<Rightarrow> int option" where
  "get_int_field k j = (case json_field k j of Some (JInt i) \<Rightarrow> Some (sint (word_of_int i :: u64)) | _ \<Rightarrow> None)"

definition OAuthTokenResponse_from_json :: "json_library \<Rightarrow> json \<Rightarrow> json_error + OAuthTokenResponse" where
  "OAuthTokenResponse_from_json lib j =
     (case at_string lib ''access_token'' j of
        Inl e \<Rightarrow> Inl e
      | Inr t \<Rightarrow> Inr \<lparr>access_token = t, token_type = get_string_field ''token_type'' j,
          expires_in = get_int_field ''expires_in'' j, refresh_token = get_string_field ''refresh_token'' j,
          scope = get_string_field ''scope'' j, id_token = get_string_field ''id_token'' j\<rparr>)"

record LoginResponse =
  out_access_token :: string
  out_token_type :: string
  out_expires_in :: "int option"
  out_refresh_token :: "string option"
  out_scope :: "string option"

definition LoginResponse_to_json :: "LoginResponse \<Rightarrow> json" where
  "LoginResponse_to_json r =
     set_optional ''scope'' JString (out_scope r) (
     set_optional ''refresh_token'' JString (out_refresh_token r) (
     set_optional ''expires_in'' JInt (out_expires_in r) (
       JObject [(''access_token'', JString (out_access_token r)), (''token_type'', JString (out_token_type r))])))"

subsection \<open>The login handler\<close>

record AuthController =
  tokenUrl :: string
  clientId :: string
  clientSecret :: string
  auth_scope :: string
  auth_trustForwardedFor :: bool

definition login_payload :: "AuthController \<Rightarrow> LoginRequest \<Rightarrow> payload" where
  "login_payload c creds =
     [(''grant_type'', ''password''), (''username'', login_username creds), (''password'', login_password creds),
      (''client_id'', clientId c)] @
     (if clientSecret c \<noteq> [] then [(''client_secret'', clientSecret c)] else []) @
     (if auth_scope c \<noteq> [] then [(''scope'', auth_scope c)] else [])"

definition login_audit :: "AuditEvent \<Rightarrow> string \<Rightarrow> string \<Rightarrow> string option \<Rightarrow> int \<Rightarrow> string \<Rightarrow> AuditRecord" where
  "login_audit ev ip ua user status why =
     \<lparr>event = ev, clientIp = ip, req_method = ''POST'', path = ''/api/v1/auth/login'', userAgent = ua,
      username = user, statusCode = Some status, detail = Some why, limit = None, observed = None\<rparr>"

type_synonym login_result = "response \<times> LoginThrottler option \<times> AuditRecord list"

text \<open>The part of \<^verbatim>\<open>Login\<close> after the identity provider has answered with an error.\<close>

definition Login_rejected :: "time_point \<Rightarrow> string \<Rightarrow> string \<Rightarrow> LoginRequest \<Rightarrow> http_response \<Rightarrow> LoginThrottler option \<Rightarrow> login_result" where
  "Login_rejected now ip ua creds r throttler =
     (if http_code r \<ge> 400 \<and> http_code r < 500
      then
        let (throttler', lockedOut) = (case throttler of
              None \<Rightarrow> (None, False)
            | Some t \<Rightarrow> (let (t', l) = RecordFailure ip now t in (Some t', l)))
        in (make_error 401 ''invalid_credentials'' ''Authentication failed.'', throttler',
            login_audit LoginFailed ip ua (Some (login_username creds)) 401 ''invalid credentials'' #
            (if lockedOut then [login_audit LoginLockout ip ua (Some (login_username creds)) 401
               ''source locked out after repeated failures''] else []))
      else (make_error 502 ''idp_unreachable'' ''Failed to contact the identity provider.'', throttler, []))"

text \<open>The part of \<^verbatim>\<open>Login\<close> after the identity provider has answered with success.\<close>

definition Login_granted :: "json_library \<Rightarrow> string \<Rightarrow> http_response \<Rightarrow> LoginThrottler option \<Rightarrow> login_result" where
  "Login_granted lib ip r throttler =
     (case (case json_parse lib (body r) of Inl e \<Rightarrow> Inl (Other_error e) | Inr j \<Rightarrow> OAuthTokenResponse_from_json lib j) of
        Inl e \<Rightarrow> (make_error 502 ''idp_invalid_response'' ''Identity provider returned an invalid response.'', throttler, [])
      | Inr idp \<Rightarrow>
          let out = \<lparr>out_access_token = access_token idp,
                     out_token_type = (case token_type idp of None \<Rightarrow> ''Bearer'' | Some t \<Rightarrow> t),
                     out_expires_in = expires_in idp, out_refresh_token = refresh_token idp,
                     out_scope = scope idp\<rparr>
          in (set_header ''Pragma'' ''no-cache'' (set_header ''Cache-Control'' ''no-store''
                (set_header ''Content-Type'' ''application/json''
                  (empty_response\<lparr>code := 200, res_body := Json (LoginResponse_to_json out)\<rparr>))),
              map_option (RecordSuccess ip) throttler, []))"

definition Login ::
  "json_library \<Rightarrow> transport \<Rightarrow> time_point \<Rightarrow> AuthController \<Rightarrow> request \<Rightarrow> LoginThrottler option \<Rightarrow> login_result" where
  "Login lib transport now c req throttler =
     (let ip = ResolveClientIp req (auth_trustForwardedFor c);
          ua = header req ''User-Agent''
      in if tokenUrl c = [] \<or> clientId c = []
         then (make_error 503 ''auth_unavailable'' ''Authentication is not configured on the server.'', throttler, [])
         else case parse_json_dto lib (LoginRequest_from_json lib) req of
           Inl e \<Rightarrow> (e, throttler, [])
         | Inr creds \<Rightarrow>
             if login_username creds = [] \<or> login_password creds = []
             then (make_error 400 ''invalid_request''
                     (CHR 0x27 # ''username' and 'password' must not be empty.''), throttler,
                   [login_audit LoginFailed ip ua None 400 ''missing username or password''])
             else
               let r = HttpClient_post transport (tokenUrl c) (login_payload c creds)
                         [(''Content-Type'', ''application/x-www-form-urlencoded''), (''Accept'', ''application/json'')]
               in if \<not> ok r then Login_rejected now ip ua creds r throttler
                  else Login_granted lib ip r throttler)"

lemma code_make_error [simp]: "code (make_error c e m) = c"
  by (simp add: make_error_def set_header_def)

lemma code_set_header [simp]: "code (set_header k v r) = code r" "res_body (set_header k v r) = res_body r"
  by (simp_all add: set_header_def)

definition accounting :: "string \<Rightarrow> time_point \<Rightarrow> LoginThrottler option \<Rightarrow> login_result \<Rightarrow> bool" where
  "accounting ip now throttler r = (case r of (res, throttler', recs) \<Rightarrow>
     throttler' = (if code res = 200 then map_option (RecordSuccess ip) throttler
                   else if code res = 401 then map_option (\<lambda>t. fst (RecordFailure ip now t)) throttler
                   else throttler))"

lemma Login_rejected_accounting: "accounting ip now throttler (Login_rejected now ip ua creds r throttler)"
  by (auto simp: accounting_def Login_rejected_def split: option.split prod.split)

lemma Login_granted_accounting: "accounting ip now throttler (Login_granted lib ip r throttler)"
  by (auto simp: accounting_def Login_granted_def Let_def split: sum.split)

lemma json_fields_to_json:
  "\<exists>fs. LoginResponse_to_json r = JObject fs \<and>
     fst ` set fs \<subseteq> {''access_token'', ''token_type'', ''expires_in'', ''refresh_token'', ''scope''}"
  by (cases "out_scope r"; cases "out_refresh_token r"; cases "out_expires_in r")
    (simp_all add: LoginResponse_to_json_def set_optional_def)

lemma Login_rejected_code: "code (fst (Login_rejected now ip ua creds r throttler)) \<noteq> 200"
  by (simp add: Login_rejected_def split: prod.split)

lemma Login_granted_body:
  "code (fst (Login_granted lib ip r throttler)) = 200 \<Longrightarrow>
   \<exists>x. res_body (fst (Login_granted lib ip r throttler)) = Json (LoginResponse_to_json x)"
  by (auto simp: Login_granted_def Let_def split: sum.splits)

lemma Login_success_body:
  assumes "code (fst (Login lib transport now c req throttler)) = 200"
  shows "\<exists>x. res_body (fst (Login lib transport now c req throttler)) = Json (LoginResponse_to_json x)"
proof (cases "tokenUrl c = [] \<or> clientId c = []")
  case True
  with assms show ?thesis by (simp add: Login_def Let_def)
next
  case conf: False
  show ?thesis
  proof (cases "parse_json_dto lib (LoginRequest_from_json lib) req")
    case (Inl e)
    with assms conf parse_json_dto_error [OF Inl] show ?thesis by (simp add: Login_def Let_def)
  next
    case (Inr creds)
    with assms conf show ?thesis
      using Login_rejected_code Login_granted_body
      by (simp add: Login_def Let_def split: if_splits)
  qed
qed

lemma Login_lockout_locks:
  assumes "Login lib transport now c req (Some t) = (res, Some t', recs)"
    and "LoginLockout \<in> event ` set recs"
  shows "locked_until t' (ResolveClientIp req (auth_trustForwardedFor c)) (now + ns (lockout t))"
  using assms RecordFailure_locks [of "ResolveClientIp req (auth_trustForwardedFor c)" now t]
  by (auto simp: Login_def Login_rejected_def Login_granted_def login_audit_def Let_def
      split: if_splits sum.splits prod.splits)

subsection \<open>Properties\<close>

text \<open>Login feeds the throttle exactly once per verdict: a failure is recorded exactly for the
  replies 401, a success exactly for the replies 200, and no other reply (bad request, identity
  provider unreachable or invalid, server not configured) touches it.\<close>

theorem Login_throttle_accounting:
  "case Login lib transport now c req throttler of (res, throttler', recs) \<Rightarrow>
     throttler' = (if code res = 200 then map_option (RecordSuccess (ResolveClientIp req (auth_trustForwardedFor c))) throttler
       else if code res = 401
       then map_option (\<lambda>t. fst (RecordFailure (ResolveClientIp req (auth_trustForwardedFor c)) now t)) throttler
       else throttler)"
proof -
  have "accounting (ResolveClientIp req (auth_trustForwardedFor c)) now throttler
      (Login lib transport now c req throttler)"
    using Login_rejected_accounting Login_granted_accounting
    by (auto simp: Login_def accounting_def Let_def parse_json_dto_error split: sum.split)
  then show ?thesis by (simp add: accounting_def)
qed

text \<open>Lockout works across the two components: when a failed login locks its source out, the
  request filter, sharing the throttle, blocks every login from that source until one second before
  the lockout ends, provided both identify clients the same way.\<close>

theorem lockout_reaches_filter:
  assumes "Login lib transport now c req (Some t) = (res, Some t', recs)"
    and "LoginLockout \<in> event ` set recs"
    and "loginThrottler h = Some t'" and "enabled h" and "\<not> blocked ctx" and "is_login req2"
    and "ResolveClientIp req2 True = ResolveClientIp req (auth_trustForwardedFor c)"
    and "clock 0 + ns 1 \<le> now + ns (lockout t)"
  shows "result_blocked (before_handle mn clock req2 h res2 ctx)"
proof -
  have "1 \<le> LockedFor (ResolveClientIp req2 True) (clock 0) t'"
    using LockedFor_positive [OF Login_lockout_locks [OF assms(1,2)] assms(8)] assms(7) by simp
  then have "locked_out h (ResolveClientIp req2 True) (clock 0)" by (simp add: locked_out_def assms(3))
  moreover have "http_method req2 \<noteq> Options" using assms(6) by (simp add: is_login_def)
  ultimately show ?thesis using assms(4,5,6)
    by (auto simp: before_handle_def rate_stage_blocks locked_out_def Let_def split: option.splits bool.splits)
qed

definition demo_lib :: json_library where
  "demo_lib = \<lparr>json_parse = (\<lambda>_. Inr (JObject [(''username'', JString ''alice''), (''password'', JString ''pw'')])),
     missing_text = id, type_text = id\<rparr>"

definition demo_controller :: AuthController where
  "demo_controller = \<lparr>tokenUrl = ''https://idp/token'', clientId = ''core'', clientSecret = [], auth_scope = [],
     auth_trustForwardedFor = True\<rparr>"

definition demo_idp :: transport where
  "demo_idp = (\<lambda>_. \<lparr>status_code = 401, transfer_ok = True, error_message = [], text_body = []\<rparr>)"

theorem lockout_reaches_filter_witness:
  "result_blocked (before_handle (\<lambda>_. ''POST'') (\<lambda>_. ns 100) demo_login
     ((configure default_Config 0 RateLimitHandler_create)
       \<lparr>loginThrottler := Some (fst (RecordFailure ''10.0.0.9'' (ns 5) (LoginThrottler_create 1 300 300 0)))\<rparr>)
     empty_response \<lparr>blocked = False, ctx_clientIp = []\<rparr>)"
proof -
  let ?t = "LoginThrottler_create 1 300 300 0"
  have ip: "ResolveClientIp demo_login True = ''10.0.0.9''"
    by (simp add: ResolveClientIp_def demo_login_def blank_def Let_def)
  have lock: "snd (RecordFailure ''10.0.0.9'' (ns 5) ?t)"
    by (simp add: RecordFailure_def LoginThrottler_MaybeSweep_def LoginThrottler_create_def entry_at_def
        ns_def Let_def)
  obtain res recs where L: "Login demo_lib demo_idp (ns 5) demo_controller demo_login (Some ?t) =
      (res, Some (fst (RecordFailure ''10.0.0.9'' (ns 5) ?t)), recs)" "LoginLockout \<in> event ` set recs"
  proof -
    have "\<exists>res recs. Login demo_lib demo_idp (ns 5) demo_controller demo_login (Some ?t) =
      (res, Some (fst (RecordFailure ''10.0.0.9'' (ns 5) ?t)), recs) \<and> LoginLockout \<in> event ` set recs"
    proof -
      have p: "parse_json_dto demo_lib (LoginRequest_from_json demo_lib) demo_login =
          Inr \<lparr>login_username = ''alice'', login_password = ''pw''\<rparr>"
        by (simp add: parse_json_dto_def demo_lib_def LoginRequest_from_json_def at_string_def)
      obtain t' where "RecordFailure ''10.0.0.9'' (ns 5) ?t = (t', True)"
        using lock by (cases "RecordFailure ''10.0.0.9'' (ns 5) ?t") simp
      then show ?thesis
        unfolding Login_def Let_def p
        by (simp add: ip demo_controller_def demo_idp_def HttpClient_post_def http_result_def
            Login_rejected_def login_audit_def Let_def)
    qed
    then show ?thesis using that by blast
  qed
  have "is_login demo_login"
    by (simp add: is_login_def demo_login_def NormalisePath_def c_loginPath_def)
  then show ?thesis
    by (intro lockout_reaches_filter [OF L])
      (simp_all add: configure_def demo_controller_def LoginThrottler_create_def ns_def)
qed

text \<open>A successful login exposes only the documented fields: the reply is a JSON object with no
  keys beyond the five of \<^verbatim>\<open>LoginResponse\<close>, whatever the identity provider sent.\<close>

theorem Login_success_fields:
  assumes "Login lib transport now c req throttler = (res, throttler', recs)" and "code res = 200"
  shows "\<exists>fs. res_body res = Json (JObject fs) \<and>
    fst ` set fs \<subseteq> {''access_token'', ''token_type'', ''expires_in'', ''refresh_token'', ''scope''}"
proof -
  have "\<exists>x. res_body res = Json (LoginResponse_to_json x)"
    using Login_success_body [of lib transport now c req throttler] assms by simp
  then show ?thesis using json_fields_to_json by metis
qed

theorem Login_success_fields_witness:
  "\<exists>fs. res_body (fst (Login (demo_lib\<lparr>json_parse := (\<lambda>s. if s = ''tok'' then Inr (JObject [(''access_token'', JString ''t''),
        (''secret'', JString ''x'')]) else json_parse demo_lib s)\<rparr>)
      (\<lambda>_. \<lparr>status_code = 200, transfer_ok = True, error_message = [], text_body = ''tok''\<rparr>) 0 demo_controller demo_login None))
    = Json (JObject fs) \<and> ''secret'' \<notin> fst ` set fs"
proof -
  let ?lib = "demo_lib\<lparr>json_parse := (\<lambda>s. if s = ''tok'' then Inr (JObject [(''access_token'', JString ''t''),
        (''secret'', JString ''x'')]) else json_parse demo_lib s)\<rparr>"
  let ?L = "Login ?lib (\<lambda>_. \<lparr>status_code = 200, transfer_ok = True, error_message = [], text_body = ''tok''\<rparr>)
      0 demo_controller demo_login None"
  have p: "parse_json_dto ?lib (LoginRequest_from_json ?lib) demo_login =
      Inr \<lparr>login_username = ''alice'', login_password = ''pw''\<rparr>"
    by (simp add: parse_json_dto_def demo_lib_def demo_login_def LoginRequest_from_json_def at_string_def)
  have "code (fst ?L) = 200"
    unfolding Login_def Let_def p
    by (simp add: demo_controller_def HttpClient_post_def http_result_def Login_granted_def
        OAuthTokenResponse_from_json_def at_string_def Let_def)
  then show ?thesis
    using Login_success_fields [of ?lib _ 0 demo_controller demo_login None "fst ?L" "fst (snd ?L)" "snd (snd ?L)"]
    by fastforce
qed

text \<open>The filter always honours \<^verbatim>\<open>X-Forwarded-For\<close>, the controller only when configured to: without
  trust they use different keys for the same request.\<close>

lemma client_key_mismatch:
  "ResolveClientIp demo_login True = ''10.0.0.9'' \<and> ResolveClientIp demo_login False = ''10.0.0.1''"
  by (simp add: ResolveClientIp_def demo_login_def blank_def Let_def)

end
