(* ===== verification/Jwt_Auth.thy ===== *)
theory Jwt_Auth
  imports Auth
begin

text \<open>
  Bearer-token authentication (\<^verbatim>\<open>source/middleware/JwtAuthHandler.{h,cpp}\<close>) and its configuration
  (\<^verbatim>\<open>source/middleware/OidcConfiguration.{h,cpp}\<close>).

  jwt-cpp is a library: \<open>jwt_library\<close> holds what the sources use of it, decoding a token, building a
  key from RSA components, and verifying with a verifier that is the list of the builder calls made
  on it. JSON parsing and HTTP are the arguments of the previous theories. A call that leaves by an
  exception is \<open>Inl\<close>; \<^verbatim>\<open>authenticate\<close> reads the \<^verbatim>\<open>sub\<close> claim outside its \<^verbatim>\<open>try\<close>, so \<open>before_handle\<close> may
  itself leave by an exception.
\<close>

subsection \<open>The libraries\<close>

record decoded_jwt =
  header_claims :: "string \<rightharpoonup> json"
  payload_claims :: "string \<rightharpoonup> json"

datatype verifier_call =
    WithLeeway int
  | WithIssuer string
  | WithAudience string
  | AllowAlgorithm string string

record jwt_library =
  jwt_decode :: "string \<Rightarrow> string + decoded_jwt"
  rsa_pem :: "string \<Rightarrow> string \<Rightarrow> string + string"
  jwt_verify :: "verifier_call list \<Rightarrow> decoded_jwt \<Rightarrow> string option"
  bad_cast :: string
  claim_not_present :: string

definition as_string :: "jwt_library \<Rightarrow> json \<Rightarrow> string throws" where
  "as_string jl j = (case j of JString s \<Rightarrow> Inr s | _ \<Rightarrow> Inl (bad_cast jl))"

definition header_claim :: "jwt_library \<Rightarrow> decoded_jwt \<Rightarrow> string \<Rightarrow> string throws" where
  "header_claim jl d k = (case header_claims d k of None \<Rightarrow> Inr [] | Some j \<Rightarrow> as_string jl j)"

definition payload_claim :: "jwt_library \<Rightarrow> decoded_jwt \<Rightarrow> string \<Rightarrow> string throws" where
  "payload_claim jl d k = (case payload_claims d k of None \<Rightarrow> Inl (claim_not_present jl) | Some j \<Rightarrow> as_string jl j)"

subsection \<open>The key cache\<close>

record KeyEntry =
  pem :: string
  kid :: string
  kty :: string
  "use" :: string
  alg :: string

type_synonym JwksCache = "string \<rightharpoonup> KeyEntry"

text \<open>\<^verbatim>\<open>j.value(k, default)\<close> for a string.\<close>

definition json_value :: "json_library \<Rightarrow> json \<Rightarrow> string \<Rightarrow> string \<Rightarrow> string throws" where
  "json_value lib j k dflt =
     (if \<not> is_object j then Inl (type_text lib k)
      else case json_field k j of
        None \<Rightarrow> Inr dflt
      | Some (JString s) \<Rightarrow> Inr s
      | Some _ \<Rightarrow> Inl (type_text lib k))"

definition json_at_string :: "json_library \<Rightarrow> json \<Rightarrow> string \<Rightarrow> string throws" where
  "json_at_string lib j k = (case at_string lib k j of
     Inr s \<Rightarrow> Inr s | Inl (Out_of_range e) \<Rightarrow> Inl e | Inl (Type_error e) \<Rightarrow> Inl e | Inl (Other_error e) \<Rightarrow> Inl e)"

definition bind_throws :: "'a throws \<Rightarrow> ('a \<Rightarrow> 'b throws) \<Rightarrow> 'b throws" where
  "bind_throws m f = (case m of Inl e \<Rightarrow> Inl e | Inr x \<Rightarrow> f x)"

text \<open>One element of the \<^verbatim>\<open>keys\<close> array; \<^verbatim>\<open>emplace\<close> keeps the first entry of a kid.\<close>

definition load_key :: "json_library \<Rightarrow> jwt_library \<Rightarrow> json \<Rightarrow> JwksCache \<Rightarrow> JwksCache throws" where
  "load_key lib jl publicKey keyEntries =
     bind_throws (json_value lib publicKey ''kty'' []) (\<lambda>kty.
     bind_throws (json_value lib publicKey ''use'' ''sig'') (\<lambda>use.
     bind_throws (json_value lib publicKey ''kid'' []) (\<lambda>kid.
     bind_throws (json_value lib publicKey ''alg'' []) (\<lambda>alg.
       if kid = [] \<or> use \<noteq> ''sig'' then Inr keyEntries
       else if kty = ''RSA'' then
         (if json_field ''n'' publicKey = None \<or> json_field ''e'' publicKey = None then Inr keyEntries
          else
            bind_throws (json_at_string lib publicKey ''n'') (\<lambda>n.
            bind_throws (json_at_string lib publicKey ''e'') (\<lambda>e.
            bind_throws (rsa_pem jl n e) (\<lambda>pem.
              Inr (case keyEntries kid of
                     Some _ \<Rightarrow> keyEntries
                   | None \<Rightarrow> keyEntries(kid \<mapsto> \<lparr>pem = pem, kid = kid, kty = kty, use = use, alg = alg\<rparr>))))))
       else Inr keyEntries))))"

fun load_keys :: "json_library \<Rightarrow> jwt_library \<Rightarrow> json list \<Rightarrow> JwksCache \<Rightarrow> JwksCache throws" where
  "load_keys lib jl [] keyEntries = Inr keyEntries"
| "load_keys lib jl (k # ks) keyEntries = bind_throws (load_key lib jl k keyEntries) (load_keys lib jl ks)"

text \<open>\<^verbatim>\<open>for (auto& x : j["keys"])\<close>: on an object a missing key reads as null, which has no elements;
  a scalar iterates once over itself, an object over its values.\<close>

fun json_elements :: "json option \<Rightarrow> json list" where
  "json_elements None = []"
| "json_elements (Some JNull) = []"
| "json_elements (Some (JArray xs)) = xs"
| "json_elements (Some (JObject fs)) = map snd fs"
| "json_elements (Some j) = [j]"

definition loadJwksJson :: "json_library \<Rightarrow> jwt_library \<Rightarrow> string \<Rightarrow> JwksCache throws" where
  "loadJwksJson lib jl text =
     bind_throws (json_parse lib text) (\<lambda>publicKeys.
       if is_object publicKeys \<or> publicKeys = JNull
       then load_keys lib jl (json_elements (json_field ''keys'' publicKeys)) Map.empty
       else Inl (type_text lib ''keys''))"

definition getKeyEntry :: "JwksCache \<Rightarrow> string \<Rightarrow> KeyEntry option" where
  "getKeyEntry keys k = keys k"

subsection \<open>The handler\<close>

record OidcConfiguration =
  wellKnownUrl :: string
  audiences :: "string list"
  oidc_enabled :: bool

record JwtAuthHandler =
  is_enabled :: bool
  well_known_url :: string
  issuer :: string
  jwks_uri :: string
  handler_audiences :: "string list"
  allowed_algs :: "string list"
  leeway :: seconds
  last_error :: string
  cache :: "JwksCache option"

record AuthResult =
  success :: bool
  message :: string
  sub :: string

record jwt_context =
  authenticated :: bool
  ctx_message :: string
  ctx_sub :: string

definition refreshJwks :: "json_library \<Rightarrow> jwt_library \<Rightarrow> transport \<Rightarrow> JwtAuthHandler \<Rightarrow> JwtAuthHandler \<times> bool" where
  "refreshJwks lib jl transport h =
     (if jwks_uri h = [] then (h\<lparr>last_error := ''jwks_uri not set''\<rparr>, False)
      else
        let r = HttpClient_get transport (jwks_uri h)
        in if \<not> ok r
           then (h\<lparr>last_error := ''Failed to GET jwks: HTTP '' @ int_to_string (http_code r) @ '' '' @ err r\<rparr>, False)
           else case loadJwksJson lib jl (body r) of
             Inr c \<Rightarrow> (h\<lparr>cache := Some c\<rparr>, True)
           | Inl e \<Rightarrow> (h\<lparr>last_error := ''Failed to load JWKS: '' @ e\<rparr>, False))"

definition JwtAuthHandler_configure ::
  "json_library \<Rightarrow> jwt_library \<Rightarrow> transport \<Rightarrow> OidcConfiguration \<Rightarrow> string list \<Rightarrow> seconds \<Rightarrow> JwtAuthHandler \<Rightarrow> JwtAuthHandler" where
  "JwtAuthHandler_configure lib jl transport oidc algs lw h0 =
     (let h = h0\<lparr>well_known_url := wellKnownUrl oidc, handler_audiences := audiences oidc, allowed_algs := algs,
            leeway := lw, is_enabled := oidc_enabled oidc\<rparr>
      in if \<not> is_enabled h then h
         else
           let h1 = h\<lparr>cache := Some Map.empty\<rparr>; r = HttpClient_get transport (well_known_url h1)
           in if \<not> ok r then h1
              else case json_parse lib (body r) of
                Inl e \<Rightarrow> h1
              | Inr j \<Rightarrow> (case json_at_string lib j ''issuer'' of
                  Inl e \<Rightarrow> h1
                | Inr iss \<Rightarrow> (case json_at_string lib j ''jwks_uri'' of
                    Inl e \<Rightarrow> h1\<lparr>issuer := iss\<rparr>
                  | Inr uri \<Rightarrow> fst (refreshJwks lib jl transport (h1\<lparr>issuer := iss, jwks_uri := uri\<rparr>)))))"

definition supported_algs :: "string list" where
  "supported_algs = [''RS256'', ''RS384'', ''RS512'', ''PS256'', ''PS384'', ''PS512'']"

definition verifier_for :: "JwtAuthHandler \<Rightarrow> verifier_call list" where
  "verifier_for h =
     [WithLeeway (leeway h)] @ (if issuer h \<noteq> [] then [WithIssuer (issuer h)] else []) @
     map WithAudience (handler_audiences h)"

text \<open>\<open>None\<close> is success, \<open>Some e\<close> failure with \<^verbatim>\<open>out_error\<close>.\<close>

definition tryVerify :: "jwt_library \<Rightarrow> JwtAuthHandler \<Rightarrow> decoded_jwt \<Rightarrow> string \<Rightarrow> string \<Rightarrow> string option" where
  "tryVerify jl h decoded a k =
     (case (case cache h of None \<Rightarrow> None | Some c \<Rightarrow> getKeyEntry c k) of
        None \<Rightarrow> Some ''Unknown key id kid''
      | Some key \<Rightarrow>
          if use key \<noteq> ''sig'' then Some ''jwk not for signing''
          else if kty key \<noteq> ''RSA'' then Some ''Unsupported key type''
          else if alg key \<noteq> [] \<and> alg key \<noteq> a then Some ''jwk alg mismatch''
          else if a \<notin> set supported_algs then Some ''Unsupported algorithm''
          else case jwt_verify jl (verifier_for h @ [AllowAlgorithm a (pem key)]) decoded of
            None \<Rightarrow> None
          | Some e \<Rightarrow> Some (''Token verification failed: '' @ e))"

definition getBearerToken :: "request \<Rightarrow> string option" where
  "getBearerToken req =
     (let auth = header req ''Authorization''
      in if \<not> starts_with auth ''Bearer '' then None else Some (drop 7 auth))"

definition auth_fail :: "string \<Rightarrow> string \<Rightarrow> AuthResult" where
  "auth_fail m s = \<lparr>success = False, message = m, sub = s\<rparr>"

definition authenticate_token ::
  "json_library \<Rightarrow> jwt_library \<Rightarrow> transport \<Rightarrow> string \<Rightarrow> JwtAuthHandler \<Rightarrow> (JwtAuthHandler \<times> AuthResult) throws" where
  "authenticate_token lib jl transport token h =
     (if token = [] then Inr (h, auth_fail ''Missing token'' [])
      else if issuer h = [] \<or> jwks_uri h = [] then Inr (h, auth_fail ''JwtAuth not initialized'' [])
      else case jwt_decode jl token of
        Inl e \<Rightarrow> Inr (h, auth_fail (''Invalid token format: '' @ e) [])
      | Inr d \<Rightarrow>
          bind_throws (header_claim jl d ''kid'') (\<lambda>k.
          bind_throws (header_claim jl d ''alg'') (\<lambda>a.
          bind_throws (payload_claim jl d ''sub'') (\<lambda>subject.
            if k = [] then Inr (h, auth_fail (''Token missing '' @ [CHR 0x27] @ ''kid'' @ [CHR 0x27]) subject)
            else if a = [] then Inr (h, auth_fail (''Token missing '' @ [CHR 0x27] @ ''alg'' @ [CHR 0x27]) subject)
            else if allowed_algs h \<noteq> [] \<and> a \<notin> set (allowed_algs h)
            then Inr (h, auth_fail (''Disallowed algorithm: '' @ a) subject)
            else case tryVerify jl h d a k of
              None \<Rightarrow> Inr (h, \<lparr>success = True, message = ''OK'', sub = subject\<rparr>)
            | Some why \<Rightarrow>
                if why = ''Unknown kid''
                then (let (h', refreshed) = refreshJwks lib jl transport h
                      in if refreshed
                         then (case tryVerify jl h' d a k of
                             None \<Rightarrow> Inr (h', \<lparr>success = True, message = ''OK'', sub = subject\<rparr>)
                           | Some why' \<Rightarrow> Inr (h', auth_fail why' subject))
                         else Inr (h', auth_fail why subject))
                else Inr (h, auth_fail why subject)))))"

definition authenticate ::
  "json_library \<Rightarrow> jwt_library \<Rightarrow> transport \<Rightarrow> request \<Rightarrow> JwtAuthHandler \<Rightarrow> (JwtAuthHandler \<times> AuthResult) throws" where
  "authenticate lib jl transport req h =
     (case getBearerToken req of
        None \<Rightarrow> Inr (h, auth_fail ''Unauthorized: No Bearer token'' [])
      | Some token \<Rightarrow> authenticate_token lib jl transport token h)"

definition jwt_before_handle ::
  "json_library \<Rightarrow> jwt_library \<Rightarrow> transport \<Rightarrow> request \<Rightarrow> JwtAuthHandler \<Rightarrow> response \<Rightarrow> jwt_context \<Rightarrow>
   (JwtAuthHandler \<times> response \<times> jwt_context) throws" where
  "jwt_before_handle lib jl transport req h res ctx =
     (if http_method req = Options \<or> \<not> is_enabled h then Inr (h, res, ctx)
      else if url req = ''/api/v1/health'' \<or> url req = ''/api/v1/auth/login'' then Inr (h, res, ctx)
      else bind_throws (authenticate lib jl transport req h) (\<lambda>(h', result).
        if \<not> success result
        then Inr (h', (set_header ''WWW-Authenticate'' ''Bearer'' (res\<lparr>code := 401\<rparr>))
                    \<lparr>res_body := Text (message result), ended := True\<rparr>,
                  ctx\<lparr>authenticated := False, ctx_message := message result, ctx_sub := sub result\<rparr>)
        else Inr (h', res, ctx\<lparr>authenticated := True, ctx_message := message result, ctx_sub := sub result\<rparr>)))"

subsection \<open>Configuration from the environment\<close>

definition is_space :: "char \<Rightarrow> bool" where
  "is_space c \<longleftrightarrow> (let n = (of_char c :: nat) in n = 32 \<or> 9 \<le> n \<and> n \<le> 13)"

definition trim_space :: "string \<Rightarrow> string" where
  "trim_space s = rev (dropWhile is_space (rev (dropWhile is_space s)))"

definition split_env :: "string \<Rightarrow> string list" where
  "split_env env = filter (\<lambda>t. t \<noteq> []) (map trim_space (split_on (CHR '','') env))"

definition OidcConfiguration_create ::
  "environment \<Rightarrow> string \<Rightarrow> string \<Rightarrow> (OidcConfiguration \<times> AuditRecord list) throws" where
  "OidcConfiguration_create env wellknownVar audiencesVar =
     (let disable_auth = (case get_env env ''IDTX_INSECURE_DISABLE_AUTH'' of None \<Rightarrow> ''false'' | Some v \<Rightarrow> v);
          en = (disable_auth \<noteq> ''true'' \<and> disable_auth \<noteq> ''1'')
      in if \<not> en
         then Inr (\<lparr>wellKnownUrl = [], audiences = [], oidc_enabled = False\<rparr>,
                   [\<lparr>event = AuthenticationDisabled, clientIp = [], req_method = [], path = [], userAgent = [],
                     username = None, statusCode = None, detail = Some ''IDTX_INSECURE_DISABLE_AUTH is enabled'',
                     limit = None, observed = None\<rparr>])
         else case get_env env wellknownVar of
           None \<Rightarrow> Inl (''Missing required environment variable: '' @ wellknownVar)
         | Some u \<Rightarrow> (case get_env env audiencesVar of
             None \<Rightarrow> Inl (''Missing required environment variable: '' @ audiencesVar)
           | Some a \<Rightarrow>
               if split_env a = [] then Inl (audiencesVar @ '' parsed to an empty list.'')
               else Inr (\<lparr>wellKnownUrl = u, audiences = split_env a, oidc_enabled = True\<rparr>, [])))"

subsection \<open>Key loading\<close>

lemma bind_throws_Inr: "bind_throws m f = Inr y \<longleftrightarrow> (\<exists>x. m = Inr x \<and> f x = Inr y)"
  by (cases m) (auto simp: bind_throws_def)

definition key_ok :: "string \<Rightarrow> KeyEntry \<Rightarrow> bool" where
  "key_ok k e \<longleftrightarrow> k \<noteq> [] \<and> kid e = k \<and> kty e = ''RSA'' \<and> use e = ''sig''"

definition cache_ok :: "JwksCache \<Rightarrow> bool" where
  "cache_ok c \<longleftrightarrow> (\<forall>k e. c k = Some e \<longrightarrow> key_ok k e)"

lemma cache_ok_update: "cache_ok c \<Longrightarrow> key_ok k e \<Longrightarrow> cache_ok (c(k \<mapsto> e))"
  by (auto simp: cache_ok_def)

lemma key_okI: "k \<noteq> [] \<Longrightarrow> key_ok k \<lparr>pem = p, kid = k, kty = ''RSA'', use = ''sig'', alg = a\<rparr>"
  by (simp add: key_ok_def)

lemma load_key_ok: "load_key lib jl j c = Inr c' \<Longrightarrow> cache_ok c \<Longrightarrow> cache_ok c'"
  by (auto simp: load_key_def bind_throws_Inr cache_ok_update key_okI split: if_splits option.splits)

lemma load_keys_ok: "load_keys lib jl js c = Inr c' \<Longrightarrow> cache_ok c \<Longrightarrow> cache_ok c'"
  by (induction js arbitrary: c) (auto simp: bind_throws_Inr intro: load_key_ok)

lemma loadJwksJson_ok: "loadJwksJson lib jl text = Inr c \<Longrightarrow> cache_ok c"
  using load_keys_ok [of lib jl _ Map.empty c]
  by (auto simp: loadJwksJson_def bind_throws_Inr cache_ok_def split: if_splits)

lemma trim_space_edges: "trim_space s = [] \<or> \<not> is_space (hd (trim_space s)) \<and> \<not> is_space (last (trim_space s))"
proof (cases "trim_space s = []")
  case False
  let ?t = "dropWhile is_space s"
  have r: "rev (trim_space s) = dropWhile is_space (rev ?t)" by (simp add: trim_space_def)
  have last: "\<not> is_space (last (trim_space s))"
    using False r by (metis hd_dropWhile hd_rev rev_is_Nil_conv)
  have "prefix (trim_space s) ?t"
    using suffix_dropWhile [of is_space "rev ?t"] by (simp add: trim_space_def suffix_to_prefix)
  then obtain zs where zs: "?t = trim_space s @ zs" by (auto simp: prefix_def)
  then have "hd (trim_space s) = hd ?t" "?t \<noteq> []" unfolding zs using False by simp_all
  then have "\<not> is_space (hd (trim_space s))" using hd_dropWhile [of is_space s] by simp
  with last show ?thesis by simp
qed simp

lemma split_env_items:
  assumes "t \<in> set (split_env e)"
  shows "t \<noteq> []" "CHR '','' \<notin> set t" "\<not> is_space (hd t)" "\<not> is_space (last t)"
proof -
  from assms obtain p where p: "p \<in> set (split_on (CHR '','') e)" "t = trim_space p" "t \<noteq> []"
    by (auto simp: split_env_def)
  show "t \<noteq> []" by (rule p(3))
  show "\<not> is_space (hd t)" "\<not> is_space (last t)" using trim_space_edges [of p] p by auto
  have "set t \<subseteq> set p" by (auto simp: p trim_space_def dest!: set_dropWhileD)
  then show "CHR '','' \<notin> set t" using split_on_pieces [OF p(1)] by auto
qed

lemma authenticate_token_success:
  assumes "authenticate_token lib jl transport token h = Inr (h', r)" and "success r"
  shows "\<exists>d a k key. jwt_decode jl token = Inr d \<and> header_claim jl d ''kid'' = Inr k \<and>
    header_claim jl d ''alg'' = Inr a \<and> (allowed_algs h = [] \<or> a \<in> set (allowed_algs h)) \<and>
    cache h' \<noteq> None \<and> the (cache h') k = Some key \<and> use key = ''sig'' \<and> kty key = ''RSA'' \<and>
    (alg key = [] \<or> alg key = a) \<and> a \<in> set supported_algs \<and>
    jwt_verify jl (verifier_for h' @ [AllowAlgorithm a (pem key)]) d = None \<and> payload_claim jl d ''sub'' = Inr (sub r)"
proof -
  have fail: "\<not> success (auth_fail m s)" for m s by (simp add: auth_fail_def)
  from assms obtain d where d: "jwt_decode jl token = Inr d"
    by (auto simp: authenticate_token_def fail split: if_splits sum.splits)
  from assms d fail obtain k a s where ks: "header_claim jl d ''kid'' = Inr k" "header_claim jl d ''alg'' = Inr a"
      "payload_claim jl d ''sub'' = Inr s" "allowed_algs h = [] \<or> a \<in> set (allowed_algs h)"
      "sub r = s" "tryVerify jl h' d a k = None"
    by (auto simp: authenticate_token_def bind_throws_Inr split: if_splits sum.splits option.splits prod.splits)
  from ks(6) have "\<exists>key. cache h' \<noteq> None \<and> the (cache h') k = Some key \<and> use key = ''sig'' \<and> kty key = ''RSA'' \<and>
    (alg key = [] \<or> alg key = a) \<and> a \<in> set supported_algs \<and>
    jwt_verify jl (verifier_for h' @ [AllowAlgorithm a (pem key)]) d = None"
    by (auto simp: tryVerify_def getKeyEntry_def split: option.splits if_splits)
  with d ks show ?thesis by blast
qed

subsection \<open>Properties\<close>

text \<open>C19: Authentication is sound: with authentication enabled, a request to a protected path that
  leaves the handler marked authenticated carries a token that decodes, is signed with an allowed
  and supported algorithm under an RSA signing key of the cache that fits its kid and algorithm,
  and that the JWT library verified against the configured issuer, every configured audience and
  the leeway.\<close>

theorem jwt_before_handle_sound:
  assumes "is_enabled h" and "http_method req \<noteq> Options"
    and "url req \<notin> {''/api/v1/health'', ''/api/v1/auth/login''}"
    and "\<not> authenticated ctx"
    and "jwt_before_handle lib jl transport req h res ctx = Inr (h', res', ctx')" and "authenticated ctx'"
  shows "\<exists>token d a k key. getBearerToken req = Some token \<and> jwt_decode jl token = Inr d \<and>
    header_claim jl d ''kid'' = Inr k \<and> header_claim jl d ''alg'' = Inr a \<and>
    (allowed_algs h = [] \<or> a \<in> set (allowed_algs h)) \<and> a \<in> set supported_algs \<and>
    cache h' \<noteq> None \<and> the (cache h') k = Some key \<and> use key = ''sig'' \<and> kty key = ''RSA'' \<and>
    (alg key = [] \<or> alg key = a) \<and>
    jwt_verify jl ([WithLeeway (leeway h')] @ (if issuer h' \<noteq> [] then [WithIssuer (issuer h')] else []) @
      map WithAudience (handler_audiences h') @ [AllowAlgorithm a (pem key)]) d = None \<and>
    payload_claim jl d ''sub'' = Inr (ctx_sub ctx')"
proof -
  from assms obtain r where a: "authenticate lib jl transport req h = Inr (h', r)" and s: "success r"
      and c: "ctx_sub ctx' = sub r"
    by (auto simp: jwt_before_handle_def bind_throws_Inr split: if_splits)
  then obtain token where t: "getBearerToken req = Some token"
      "authenticate_token lib jl transport token h = Inr (h', r)"
    by (auto simp: authenticate_def auth_fail_def split: option.splits)
  from authenticate_token_success [OF t(2) s] t(1) c show ?thesis
    unfolding verifier_for_def by fastforce
qed

definition demo_jwt :: jwt_library where
  "demo_jwt = \<lparr>jwt_decode = (\<lambda>t. Inr \<lparr>header_claims = [''kid'' \<mapsto> JString t, ''alg'' \<mapsto> JString ''RS256''],
       payload_claims = [''sub'' \<mapsto> JString ''alice'']\<rparr>),
     rsa_pem = (\<lambda>n e. Inr n), jwt_verify = (\<lambda>calls d. None), bad_cast = [], claim_not_present = []\<rparr>"

definition demo_handler :: JwtAuthHandler where
  "demo_handler = \<lparr>is_enabled = True, well_known_url = ''w'', issuer = ''i'', jwks_uri = ''j'',
     handler_audiences = [''core''], allowed_algs = [''RS256'', ''PS256''], leeway = 60, last_error = [],
     cache = Some [''k1'' \<mapsto> \<lparr>pem = ''p'', kid = ''k1'', kty = ''RSA'', use = ''sig'', alg = ''RS256''\<rparr>]\<rparr>"

definition demo_request :: "string \<Rightarrow> request" where
  "demo_request auth = \<lparr>http_method = Get, url = ''/api/v1/sessions'',
     header = (\<lambda>k. if k = ''Authorization'' then auth else []), req_body = [], remote_ip_address = ''10.0.0.1''\<rparr>"

abbreviation demo_context :: jwt_context where
  "demo_context \<equiv> \<lparr>authenticated = False, ctx_message = [], ctx_sub = []\<rparr>"

theorem jwt_before_handle_sound_witness:
  "\<exists>token. getBearerToken (demo_request ''Bearer k1'') = Some token \<and>
     authenticated (snd (snd (projr (jwt_before_handle demo_lib demo_jwt demo_idp (demo_request ''Bearer k1'')
       demo_handler empty_response demo_context))))"
proof -
  let ?r = "jwt_before_handle demo_lib demo_jwt demo_idp (demo_request ''Bearer k1'') demo_handler empty_response demo_context"
  have r: "?r = Inr (demo_handler, empty_response, \<lparr>authenticated = True, ctx_message = ''OK'', ctx_sub = ''alice''\<rparr>)"
    by (simp add: jwt_before_handle_def demo_request_def demo_handler_def authenticate_def getBearerToken_def
        starts_with_def authenticate_token_def demo_jwt_def header_claim_def payload_claim_def as_string_def
        bind_throws_def tryVerify_def getKeyEntry_def supported_algs_def Let_def)
  show ?thesis
  proof -
    have "\<exists>token d a k key. getBearerToken (demo_request ''Bearer k1'') = Some token \<and>
        jwt_decode demo_jwt token = Inr d \<and> a \<in> set supported_algs \<and> the (cache demo_handler) k = Some key"
      using jwt_before_handle_sound [OF _ _ _ _ r] by (simp add: demo_handler_def demo_request_def) blast
    then show ?thesis by (auto simp: r)
  qed
qed

text \<open>Everything else is rejected: with authentication enabled, a request to a protected path
  that is not authenticated is answered 401 with a challenge and does not reach a route.\<close>

theorem jwt_before_handle_rejects:
  assumes "is_enabled h" and "http_method req \<noteq> Options"
    and "url req \<notin> {''/api/v1/health'', ''/api/v1/auth/login''}"
    and "jwt_before_handle lib jl transport req h res ctx = Inr (h', res', ctx')" and "\<not> authenticated ctx'"
  shows "code res' = 401 \<and> ended res' \<and> map_of (res_headers res') ''WWW-Authenticate'' = Some ''Bearer''"
proof -
  obtain h1 r where r: "authenticate lib jl transport req h = Inr (h1, r)"
    "(if \<not> success r
      then Inr (h1, (set_header ''WWW-Authenticate'' ''Bearer'' (res\<lparr>code := 401\<rparr>))
          \<lparr>res_body := Text (message r), ended := True\<rparr>,
        ctx\<lparr>authenticated := False, ctx_message := message r, ctx_sub := sub r\<rparr>)
      else Inr (h1, res, ctx\<lparr>authenticated := True, ctx_message := message r, ctx_sub := sub r\<rparr>)) =
     (Inr (h', res', ctx') :: (JwtAuthHandler \<times> response \<times> jwt_context) throws)"
    using assms(1-4) by (auto simp: jwt_before_handle_def bind_throws_Inr)
  show ?thesis
  proof (cases "success r")
    case True
    with r(2) assms(5) show ?thesis by auto
  next
    case False
    with r(2) show ?thesis by (auto simp: set_header_def AList.update_conv)
  qed
qed

theorem jwt_before_handle_rejects_witness:
  "code (fst (snd (projr (jwt_before_handle demo_lib demo_jwt demo_idp (demo_request ''Basic x'') demo_handler
     empty_response demo_context)))) = 401"
proof -
  let ?r = "jwt_before_handle demo_lib demo_jwt demo_idp (demo_request ''Basic x'') demo_handler empty_response demo_context"
  have "\<exists>res' ctx'. ?r = Inr (demo_handler, res', ctx') \<and> \<not> authenticated ctx'"
    by (simp add: jwt_before_handle_def demo_request_def demo_handler_def authenticate_def getBearerToken_def
        starts_with_def bind_throws_def auth_fail_def Let_def)
  then obtain res' ctx' where r: "?r = Inr (demo_handler, res', ctx')" and n: "\<not> authenticated ctx'" by blast
  have "code res' = 401"
    using jwt_before_handle_rejects [OF _ _ _ r n] by (simp add: demo_handler_def demo_request_def)
  with r show ?thesis by simp
qed

text \<open>A token signed with a key that is not cached is rejected without asking the identity
  provider for new keys: the retry compares with another error text than the one the verification
  sets, so key rotation is never picked up after start-up.\<close>

theorem unknown_kid_never_refreshes:
  assumes "token \<noteq> []" and "issuer h \<noteq> []" and "jwks_uri h \<noteq> []" and "jwt_decode jl token = Inr d"
    and "header_claim jl d ''kid'' = Inr k" and "header_claim jl d ''alg'' = Inr a"
    and "payload_claim jl d ''sub'' = Inr s" and "k \<noteq> []" and "a \<noteq> []"
    and "allowed_algs h = [] \<or> a \<in> set (allowed_algs h)"
    and "cache h = Some c" and "c k = None"
  shows "authenticate_token lib jl transport token h = Inr (h, auth_fail ''Unknown key id kid'' s)"
  using assms by (auto simp: authenticate_token_def bind_throws_def tryVerify_def getKeyEntry_def)

theorem unknown_kid_never_refreshes_witness:
  "authenticate_token demo_lib demo_jwt demo_idp ''k2'' demo_handler =
     Inr (demo_handler, auth_fail ''Unknown key id kid'' ''alice'')"
  by (rule unknown_kid_never_refreshes [where d = "projr (jwt_decode demo_jwt ''k2'')" and k = "''k2''" and a = "''RS256''" and
        c = "[''k1'' \<mapsto> \<lparr>pem = ''p'', kid = ''k1'', kty = ''RSA'', use = ''sig'', alg = ''RS256''\<rparr>]"])
    (simp_all add: demo_handler_def demo_jwt_def header_claim_def payload_claim_def as_string_def)

text \<open>Configuration fails closed: authentication is disabled only by the explicit variable and
  then audited; otherwise creation either fails or yields a discovery URL and a non-empty list of
  audiences, each trimmed, non-empty and free of commas.\<close>

theorem OidcConfiguration_fails_closed:
  assumes "OidcConfiguration_create env w a = Inr (cfg, recs)"
  shows "if oidc_enabled cfg
    then wellKnownUrl cfg \<noteq> [] \<and> audiences cfg \<noteq> [] \<and> recs = [] \<and>
      (\<forall>t\<in>set (audiences cfg). t \<noteq> [] \<and> CHR '','' \<notin> set t \<and> \<not> is_space (hd t) \<and> \<not> is_space (last t))
    else (env ''IDTX_INSECURE_DISABLE_AUTH'' = Some ''true'' \<or> env ''IDTX_INSECURE_DISABLE_AUTH'' = Some ''1'') \<and>
      map event recs = [AuthenticationDisabled]"
proof (cases "oidc_enabled cfg")
  case True
  then obtain u v where "get_env env w = Some u" "cfg = \<lparr>wellKnownUrl = u, audiences = split_env v, oidc_enabled = True\<rparr>"
      "split_env v \<noteq> []" "recs = []"
    using assms by (auto simp: OidcConfiguration_create_def Let_def split: if_splits option.splits)
  then show ?thesis using split_env_items [of _ v] by (auto simp: get_env_def split: option.splits if_splits)
next
  case False
  then show ?thesis
    using assms by (auto simp: OidcConfiguration_create_def get_env_def Let_def split: if_splits option.splits)
qed

theorem OidcConfiguration_fails_closed_witness:
  "\<exists>cfg. OidcConfiguration_create [''W'' \<mapsto> ''u'', ''A'' \<mapsto> '' a ,b''] ''W'' ''A'' = Inr (cfg, []) \<and>
     oidc_enabled cfg \<and> audiences cfg \<noteq> []"
proof -
  let ?cfg = "\<lparr>wellKnownUrl = ''u'', audiences = [''a'', ''b''], oidc_enabled = True\<rparr>"
  have "OidcConfiguration_create [''W'' \<mapsto> ''u'', ''A'' \<mapsto> '' a ,b''] ''W'' ''A'' = Inr (?cfg, [])"
    by (simp add: OidcConfiguration_create_def get_env_def split_env_def trim_space_def is_space_def Let_def)
  with OidcConfiguration_fails_closed [OF this] show ?thesis by auto
qed

end
