(* ===== verification/Mini_Png.thy ===== *)
theory Mini_Png
  imports Idtx_Prelude
begin

text \<open>
  The dependency-free PNG writer (\<^verbatim>\<open>source/thumbnails/MiniPng.h\<close>).

  Bytes are 8-bit words, checksums 32-bit words. \<open>Write\<close> yields the bytes of the file or the error
  text; whether the file can be opened and written is its argument. The reference for the format is
  a decoder for this subset of PNG (RGB, no filter, stored deflate blocks) that checks every length
  and checksum, and a bit-serial CRC.
\<close>

unbundle bit_operations_syntax

subsection \<open>Checksums\<close>

definition crc_bit :: "u32 \<Rightarrow> u32" where
  "crc_bit c = (if c AND 1 \<noteq> 0 then 0xEDB88320 XOR drop_bit 1 c else drop_bit 1 c)"

definition crc_table :: "u32 list" where
  "crc_table = map (\<lambda>n. (crc_bit ^^ 8) (of_nat n)) [0..<256]"

definition crc_update :: "u32 \<Rightarrow> u8 \<Rightarrow> u32" where
  "crc_update c d = crc_table ! unat ((c XOR ucast d) AND 0xFF) XOR drop_bit 8 c"

definition Crc32 :: "u8 list \<Rightarrow> u32" where
  "Crc32 data = foldl crc_update 0xFFFFFFFF data XOR 0xFFFFFFFF"

definition adler_step :: "u32 \<times> u32 \<Rightarrow> u8 \<Rightarrow> u32 \<times> u32" where
  "adler_step ab d = (let a = (fst ab + ucast d) mod 65521; b = (snd ab + a) mod 65521 in (a, b))"

definition Adler32 :: "u8 list \<Rightarrow> u32" where
  "Adler32 data = (let (a, b) = foldl adler_step (1, 0) data in push_bit 16 b OR a)"

subsection \<open>The writer\<close>

definition BE32 :: "u32 \<Rightarrow> u8 list" where
  "BE32 x = [ucast (drop_bit 24 x AND 0xFF), ucast (drop_bit 16 x AND 0xFF),
             ucast (drop_bit 8 x AND 0xFF), ucast (drop_bit 0 x AND 0xFF)]"

definition WriteChunk :: "u8 list \<Rightarrow> u8 list \<Rightarrow> u8 list \<Rightarrow> u8 list" where
  "WriteChunk out type data = out @ BE32 (of_nat (length data)) @ type @ data @ BE32 (Crc32 (type @ data))"

definition stored_header :: "bool \<Rightarrow> nat \<Rightarrow> u8 list" where
  "stored_header final chunk =
     (let len = (of_nat chunk :: u16); nlen = NOT len
      in [if final then 1 else 0, ucast (len AND 0xFF), ucast (drop_bit 8 len AND 0xFF),
          ucast (nlen AND 0xFF), ucast (drop_bit 8 nlen AND 0xFF)])"

function stored_blocks :: "u8 list \<Rightarrow> u8 list" where
  "stored_blocks raw =
     (let chunk = (if length raw > 65535 then 65535 else length raw);
          final = (chunk = length raw)
      in stored_header final chunk @ take chunk raw @ (if final then [] else stored_blocks (drop chunk raw)))"
  by auto
termination by (relation "measure length") (auto split: if_splits)

declare stored_blocks.simps [simp del]

definition ZlibWrapStored :: "u8 list \<Rightarrow> u8 list" where
  "ZlibWrapStored raw = [0x78, 0x01] @ stored_blocks raw @ BE32 (Adler32 raw)"

definition kSig :: "u8 list" where
  "kSig = [0x89, 0x50, 0x4E, 0x47, 0x0D, 0x0A, 0x1A, 0x0A]"

definition IHDR_type :: "u8 list" where "IHDR_type = [0x49, 0x48, 0x44, 0x52]"
definition IDAT_type :: "u8 list" where "IDAT_type = [0x49, 0x44, 0x41, 0x54]"
definition IEND_type :: "u8 list" where "IEND_type = [0x49, 0x45, 0x4E, 0x44]"

text \<open>Every scanline with its filter byte; the row length is computed in 32 bits.\<close>

definition scanlines :: "u32 \<Rightarrow> u32 \<Rightarrow> u8 list \<Rightarrow> u8 list" where
  "scanlines width height rgb =
     concat (map (\<lambda>y. 0 # take (unat (width * 3)) (drop (y * unat width * 3) rgb)) [0..<unat height])"

definition png_bytes :: "u32 \<Rightarrow> u32 \<Rightarrow> u8 list \<Rightarrow> u8 list" where
  "png_bytes width height rgb =
     (let out1 = WriteChunk kSig IHDR_type (BE32 width @ BE32 height @ [8, 2, 0, 0, 0]);
          out2 = WriteChunk out1 IDAT_type (ZlibWrapStored (scanlines width height rgb))
      in WriteChunk out2 IEND_type [])"

definition Write :: "bool \<Rightarrow> bool \<Rightarrow> u32 \<Rightarrow> u32 \<Rightarrow> u8 list \<Rightarrow> u8 list throws" where
  "Write can_open can_write width height rgb =
     (if width = 0 \<or> height = 0 then Inl ''invalid image dimensions''
      else if (of_nat (length rgb) :: u64) \<noteq> ucast width * ucast height * 3
      then Inl ''pixel buffer size does not match dimensions''
      else if \<not> can_open then Inl ''failed to open output file for writing''
      else if \<not> can_write then Inl ''failed to write image bytes''
      else Inr (png_bytes width height rgb))"

subsection \<open>Reference: bit-serial CRC\<close>

definition crc_serial :: "u8 list \<Rightarrow> u32" where
  "crc_serial data = foldl (\<lambda>c d. (crc_bit ^^ 8) (c XOR ucast d)) 0xFFFFFFFF data XOR 0xFFFFFFFF"

lemma odd_and_1: "(c AND 1 \<noteq> 0) = bit (c :: u32) 0"
  by (simp add: and_one_eq odd_iff_mod_2_eq_one bit_0)

lemma crc_bit_alt: "crc_bit c = (if bit c 0 then 0xEDB88320 else 0) XOR drop_bit 1 c"
  by (simp add: crc_bit_def odd_and_1)

lemma crc_bit_xor: "crc_bit (a XOR b) = crc_bit a XOR crc_bit b"
  by (auto simp: crc_bit_alt bit_xor_iff drop_bit_xor ac_simps)

lemma crc_bits_xor: "(crc_bit ^^ k) (a XOR b) = (crc_bit ^^ k) a XOR (crc_bit ^^ k) b"
  by (induction k) (simp_all add: crc_bit_xor)

lemma crc_bit_even: "\<not> bit c 0 \<Longrightarrow> crc_bit c = drop_bit 1 c"
  by (simp add: crc_bit_alt)

lemma crc_bits_high:
  "(\<And>i. i < k \<Longrightarrow> \<not> bit c i) \<Longrightarrow> (crc_bit ^^ k) c = drop_bit k c"
proof (induction k)
  case (Suc k)
  then have "(crc_bit ^^ k) c = drop_bit k c" by simp
  moreover have "\<not> bit (drop_bit k c) 0" using Suc.prems [of k] by (simp add: bit_drop_bit_eq)
  ultimately show ?case by (simp add: crc_bit_even)
qed simp

lemma word_split_mask: "x = (x AND m) XOR (x AND NOT m)" for x m :: "'a::len word"
  by (rule bit_word_eqI) (auto simp: bit_and_iff bit_xor_iff bit_not_iff)

lemma crc_update_serial: "crc_update c d = (crc_bit ^^ 8) (c XOR ucast d)"
proof -
  let ?x = "c XOR ucast d"
  let ?hi = "?x AND NOT (mask 8)"
  have mask: "(0xFF :: u32) = mask 8" by (simp add: mask_eq_exp_minus_1)
  have split: "?x = (?x AND 0xFF) XOR ?hi" unfolding mask by (rule word_split_mask)
  have low: "\<not> bit ?hi i" if "i < 8" for i
    using that by (simp add: bit_and_iff bit_not_iff bit_mask_iff)
  have "drop_bit 8 ?hi = drop_bit 8 c"
    by (rule bit_word_eqI)
      (auto simp: bit_drop_bit_eq bit_and_iff bit_not_iff bit_mask_iff bit_xor_iff bit_ucast_iff dest: bit_imp_le_length)
  then have hi: "(crc_bit ^^ 8) ?hi = drop_bit 8 c" using crc_bits_high [of 8 ?hi] low by simp
  have "?x AND 0xFF \<le> 0xFF" by (rule word_and_le1)
  then have idx: "unat (?x AND 0xFF) < 256" by (simp add: word_le_nat_alt)
  have "crc_table ! unat (?x AND 0xFF) = (crc_bit ^^ 8) (?x AND 0xFF)"
    using idx by (simp add: crc_table_def)
  then have "crc_update c d = (crc_bit ^^ 8) (?x AND 0xFF) XOR (crc_bit ^^ 8) ?hi"
    unfolding crc_update_def hi by simp
  also have "\<dots> = (crc_bit ^^ 8) ((?x AND 0xFF) XOR ?hi)" by (simp only: crc_bits_xor)
  also have "\<dots> = (crc_bit ^^ 8) ?x" by (simp only: split [symmetric])
  finally show ?thesis .
qed

subsection \<open>Reference: decoder\<close>

fun be32_of :: "u8 list \<Rightarrow> u32" where
  "be32_of [a, b, c, d] = push_bit 24 (ucast a) OR push_bit 16 (ucast b) OR push_bit 8 (ucast c) OR ucast d"
| "be32_of _ = 0"

definition read_chunk :: "u8 list \<Rightarrow> (u8 list \<times> u8 list \<times> u8 list) option" where
  "read_chunk bs =
     (if length bs < 12 then None
      else
        let len = unat (be32_of (take 4 bs)); type = take 4 (drop 4 bs); rest = drop 8 bs;
            data = take len rest; tail = drop len rest
        in if length tail < 4 \<or> be32_of (take 4 tail) \<noteq> crc_serial (type @ data) then None
           else Some (type, data, drop 4 tail))"

definition u16_of :: "u8 \<Rightarrow> u8 \<Rightarrow> u16" where
  "u16_of lo hi = ucast lo OR push_bit 8 (ucast hi)"

fun unstore :: "nat \<Rightarrow> u8 list \<Rightarrow> (u8 list \<times> u8 list) option" where
  "unstore 0 bs = None"
| "unstore (Suc n) bs =
     (case bs of
        h # l0 # l1 # n0 # n1 # rest \<Rightarrow>
          (let len = u16_of l0 l1; nlen = u16_of n0 n1
           in if h \<noteq> 0 \<and> h \<noteq> 1 \<or> nlen \<noteq> NOT len \<or> length rest < unat len then None
              else if h = 1 then Some (take (unat len) rest, drop (unat len) rest)
              else (case unstore n (drop (unat len) rest) of
                  None \<Rightarrow> None
                | Some (more, tail) \<Rightarrow> Some (take (unat len) rest @ more, tail)))
      | _ \<Rightarrow> None)"

definition zlib_decode :: "u8 list \<Rightarrow> u8 list option" where
  "zlib_decode bs =
     (if take 2 bs \<noteq> [0x78, 0x01] then None
      else case unstore (length bs) (drop 2 bs) of
        None \<Rightarrow> None
      | Some (raw, tail) \<Rightarrow> if length tail = 4 \<and> be32_of tail = Adler32 raw then Some raw else None)"

fun unfilter :: "nat \<Rightarrow> nat \<Rightarrow> u8 list \<Rightarrow> u8 list option" where
  "unfilter row 0 bs = (if bs = [] then Some [] else None)"
| "unfilter row (Suc n) bs =
     (case bs of
        f # rest \<Rightarrow> if f = 0 \<and> row \<le> length rest
          then map_option ((@) (take row rest)) (unfilter row n (drop row rest)) else None
      | [] \<Rightarrow> None)"

definition png_decode :: "u8 list \<Rightarrow> (u32 \<times> u32 \<times> u8 list) option" where
  "png_decode bs =
     (if take 8 bs \<noteq> kSig then None
      else case read_chunk (drop 8 bs) of
        None \<Rightarrow> None
      | Some (t1, ihdr, r1) \<Rightarrow>
          (case read_chunk r1 of
             None \<Rightarrow> None
           | Some (t2, idat, r2) \<Rightarrow>
               (case read_chunk r2 of
                  None \<Rightarrow> None
                | Some (t3, iend, r3) \<Rightarrow>
                    if t1 \<noteq> IHDR_type \<or> length ihdr \<noteq> 13 \<or> drop 8 ihdr \<noteq> [8, 2, 0, 0, 0] \<or>
                       t2 \<noteq> IDAT_type \<or> t3 \<noteq> IEND_type \<or> iend \<noteq> [] \<or> r3 \<noteq> [] then None
                    else
                      let w = be32_of (take 4 ihdr); h = be32_of (take 4 (drop 4 ihdr))
                      in (case zlib_decode idat of
                            None \<Rightarrow> None
                          | Some raw \<Rightarrow> map_option (\<lambda>rgb. (w, h, rgb)) (unfilter (3 * unat w) (unat h) raw)))))"

subsection \<open>Decoding inverts encoding\<close>

lemma mask_FF: "(0xFF :: 'a::len word) = mask 8"
  by (simp add: mask_eq_exp_minus_1)

lemma be32_roundtrip: "be32_of (BE32 x) = x"
proof (rule bit_word_eqI)
  fix n assume "n < LENGTH(32)"
  then have n: "n < 32" by simp
  consider "n < 8" | "8 \<le> n" "n < 16" | "16 \<le> n" "n < 24" | "24 \<le> n" using n by linarith
  then show "bit (be32_of (BE32 x)) n = bit x n"
    using n by cases
      (auto simp: BE32_def mask_FF bit_or_iff bit_push_bit_iff bit_ucast_iff bit_and_iff bit_mask_iff
        bit_drop_bit_eq dest: bit_imp_le_length)
qed

lemma length_BE32 [simp]: "length (BE32 x) = 4"
  by (simp add: BE32_def)

lemma u16_halves: "u16_of (ucast (l AND 0xFF)) (ucast (drop_bit 8 l AND 0xFF)) = l"
proof (rule bit_word_eqI)
  fix n assume "n < LENGTH(16)"
  then have n: "n < 16" by simp
  consider "n < 8" | "8 \<le> n" by linarith
  then show "bit (u16_of (ucast (l AND 0xFF)) (ucast (drop_bit 8 l AND 0xFF))) n = bit l n"
    using n by cases
      (auto simp: u16_of_def mask_FF bit_or_iff bit_push_bit_iff bit_ucast_iff bit_and_iff bit_mask_iff
        bit_drop_bit_eq dest: bit_imp_le_length)
qed

lemma Crc32_serial: "Crc32 data = crc_serial data"
proof -
  have "crc_update = (\<lambda>c d. (crc_bit ^^ 8) (c XOR ucast d))" by (intro ext) (rule crc_update_serial)
  then show ?thesis by (simp add: Crc32_def crc_serial_def)
qed

lemma read_chunk_write:
  assumes "length type = 4" and "length data < 2 ^ 32"
  shows "read_chunk (BE32 (of_nat (length data)) @ type @ data @ BE32 (Crc32 (type @ data)) @ rest) =
    Some (type, data, rest)"
proof -
  have "unat (of_nat (length data) :: u32) = length data"
    using assms(2) by (simp add: unat_of_nat)
  then show ?thesis
    using assms(1) by (simp add: read_chunk_def Let_def be32_roundtrip Crc32_serial)
qed

lemma unstore_step:
  assumes "chunk < 2 ^ 16" and "chunk \<le> length rest"
  shows "unstore (Suc n) (stored_header final chunk @ rest) =
    (if final then Some (take chunk rest, drop chunk rest)
     else case unstore n (drop chunk rest) of None \<Rightarrow> None | Some (more, tail) \<Rightarrow> Some (take chunk rest @ more, tail))"
proof -
  have "unat (of_nat chunk :: u16) = chunk" using assms(1) by (simp add: unat_of_nat)
  then show ?thesis using assms(2) by (auto simp: stored_header_def Let_def u16_halves split: option.split)
qed

lemma unstore_blocks:
  "length raw < n \<Longrightarrow> unstore n (stored_blocks raw @ tail) = Some (raw, tail)"
proof (induction raw arbitrary: n rule: stored_blocks.induct)
  case (1 raw)
  obtain m where n: "n = Suc m" using 1(2) by (cases n) auto
  show ?case
  proof (cases "length raw > 65535")
    case True
    have "unstore m (stored_blocks (drop 65535 raw) @ tail) = Some (drop 65535 raw, tail)"
      using 1(1) [of 65535 False] 1(2) True n by simp
    then show ?thesis
      using True unstore_step [of 65535 "take 65535 raw @ stored_blocks (drop 65535 raw) @ tail" m False]
      by (subst stored_blocks.simps) (simp add: n Let_def)
  next
    case False
    then show ?thesis
      using unstore_step [of "length raw" "raw @ tail" m True]
      by (subst stored_blocks.simps) (simp add: n Let_def)
  qed
qed

lemma stored_blocks_length: "length raw \<le> length (stored_blocks raw)"
proof (induction raw rule: stored_blocks.induct)
  case (1 raw)
  show ?case
  proof (cases "length raw > 65535")
    case True
    then have "length (drop 65535 raw) \<le> length (stored_blocks (drop 65535 raw))" using 1 [of 65535 False] by simp
    then show ?thesis using True by (subst stored_blocks.simps) (simp add: Let_def)
  qed (subst stored_blocks.simps, simp add: Let_def)
qed

lemma zlib_roundtrip: "zlib_decode (ZlibWrapStored raw) = Some raw"
proof -
  have "length raw < length (ZlibWrapStored raw)"
    using stored_blocks_length [of raw] by (simp add: ZlibWrapStored_def)
  from unstore_blocks [OF this] show ?thesis
    by (simp add: zlib_decode_def ZlibWrapStored_def be32_roundtrip)
qed

lemma stored_blocks_bound: "length (stored_blocks raw) \<le> 2 * length raw + 5"
proof (induction raw rule: stored_blocks.induct)
  case (1 raw)
  show ?case
  proof (cases "length raw > 65535")
    case True
    then have "length (stored_blocks (drop 65535 raw)) \<le> 2 * length (drop 65535 raw) + 5" using 1 [of 65535 False] by simp
    then show ?thesis using True by (subst stored_blocks.simps) (simp add: Let_def stored_header_def)
  qed (subst stored_blocks.simps, simp add: Let_def stored_header_def)
qed

lemma unfilter_rows:
  assumes "length rgb = n * row"
  shows "unfilter row n (concat (map (\<lambda>y. 0 # take row (drop (y * row) rgb)) [0..<n])) = Some rgb"
  using assms
proof (induction n arbitrary: rgb)
  case (Suc n)
  have up: "[0..<Suc n] = 0 # map Suc [0..<n]" by (simp add: upt_conv_Cons map_Suc_upt del: upt_Suc)
  have shift: "take row (drop (row + y * row) rgb) = take row (drop (y * row) (drop row rgb))" for y
    by (simp add: add.commute)
  have "unfilter row n (concat (map (\<lambda>y. 0 # take row (drop (y * row) (drop row rgb))) [0..<n])) = Some (drop row rgb)"
    using Suc.prems by (intro Suc.IH) simp
  then show ?case
    using Suc.prems by (simp add: up shift comp_def min_def del: upt_Suc)
qed simp

lemma nat_row:
  assumes "unat height * (1 + 3 * unat width) < 2 ^ 30" and "height \<noteq> 0"
  shows "unat (width * 3 :: u32) = 3 * unat width"
proof -
  have "1 \<le> unat height" using assms(2) by (simp add: unat_gt_0 Suc_le_eq)
  then have "3 * unat width < unat height * (1 + 3 * unat width)"
    by (metis add.commute less_add_one mult.left_neutral mult_le_mono1 order.strict_trans2)
  then have "3 * unat width < 2 ^ 32" using assms(1) by simp
  then show ?thesis by (simp add: unat_word_ariths mult.commute)
qed

lemma pixel_count:
  assumes "unat height * (1 + 3 * unat width) < 2 ^ 30"
    and "(of_nat (length rgb) :: u64) = ucast (width :: u32) * ucast (height :: u32) * 3" and "length rgb < 2 ^ 64"
  shows "length rgb = unat height * (3 * unat width)"
proof -
  have small: "3 * (unat width * unat height) < 2 ^ 64"
    using assms(1) by (simp add: algebra_simps)
  have "length rgb = unat (of_nat (length rgb) :: u64)" using assms(3) by (simp add: unat_of_nat)
  also have "\<dots> = unat (of_nat (3 * (unat width * unat height)) :: u64)"
    unfolding assms(2) by (simp add: mult.commute mult.left_commute)
  also have "\<dots> = 3 * (unat width * unat height)" using small by (simp add: unat_of_nat del: of_nat_mult)
  finally show ?thesis by (simp add: mult.commute mult.left_commute)
qed

lemma scanlines_length: "length (scanlines w h rgb) \<le> unat h * (1 + unat (w * 3))"
proof -
  have "sum_list (map (\<lambda>y. Suc (min (f y) n)) [0..<k]) \<le> k + k * n" for f and n k :: nat
    by (induction k) auto
  then show ?thesis by (simp add: scanlines_def length_concat comp_def)
qed

lemma png_decode_write:
  assumes "Write True True width height rgb = Inr bytes"
    and "unat height * (1 + 3 * unat width) < 2 ^ 30" and "length rgb < 2 ^ 64"
  shows "png_decode bytes = Some (width, height, rgb)"
proof -
  have wh: "width \<noteq> 0" "height \<noteq> 0" and sz: "(of_nat (length rgb) :: u64) = ucast width * ucast height * 3"
    and bytes: "bytes = png_bytes width height rgb"
    using assms(1) by (auto simp: Write_def split: if_splits)
  have row: "unat (width * 3) = 3 * unat width" by (rule nat_row [OF assms(2) wh(2)])
  have len: "length rgb = unat height * (3 * unat width)" by (rule pixel_count [OF assms(2) sz assms(3)])
  let ?raw = "scanlines width height rgb"
  have "length ?raw < 2 ^ 30" using scanlines_length [of width height rgb] assms(2) by (simp add: row)
  then have z: "length (ZlibWrapStored ?raw) < 2 ^ 32"
    using stored_blocks_bound [of ?raw] by (simp add: ZlibWrapStored_def)
  have un: "unfilter (3 * unat width) (unat height) ?raw = Some rgb"
    using unfilter_rows [OF len] by (simp add: scanlines_def row mult.commute mult.left_commute)
  let ?ihdr = "BE32 width @ BE32 height @ [8, 2, 0, 0, 0 :: u8]" and ?z = "ZlibWrapStored ?raw"
  let ?chunk = "\<lambda>type data. BE32 (of_nat (length data)) @ type @ data @ BE32 (Crc32 (type @ data))"
  have bytes': "bytes = kSig @ ?chunk IHDR_type ?ihdr @ ?chunk IDAT_type ?z @ ?chunk IEND_type []"
    by (simp add: bytes png_bytes_def WriteChunk_def Let_def)
  have ty: "length IHDR_type = 4" "length IDAT_type = 4" "length IEND_type = 4" "length kSig = 8"
    by (simp_all add: IHDR_type_def IDAT_type_def IEND_type_def kSig_def)
  have c1: "read_chunk (drop 8 bytes) = Some (IHDR_type, ?ihdr, ?chunk IDAT_type ?z @ ?chunk IEND_type [])"
    using read_chunk_write [OF ty(1), of ?ihdr "?chunk IDAT_type ?z @ ?chunk IEND_type []"] ty(4)
    unfolding bytes' by simp
  have c2: "read_chunk (?chunk IDAT_type ?z @ ?chunk IEND_type []) = Some (IDAT_type, ?z, ?chunk IEND_type [])"
    using read_chunk_write [OF ty(2) z, of "?chunk IEND_type []"] by simp
  have c3: "read_chunk (?chunk IEND_type []) = Some (IEND_type, [], [])"
    using read_chunk_write [OF ty(3), of "[]" "[]"] by simp
  have "take 8 bytes = kSig" using ty(4) by (simp add: bytes')
  then show ?thesis
    unfolding png_decode_def c1 c2 c3 option.case prod.case
    by (simp add: be32_roundtrip zlib_roundtrip un Let_def)
qed

subsection \<open>Properties\<close>

text \<open>The table-driven checksum is the CRC-32 of the PNG specification, computed bit by bit.\<close>

theorem Crc32_is_bit_serial: "Crc32 data = crc_serial data"
  by (rule Crc32_serial)



end
