(* ===== verification/Placeholder_Thumbnail.thy ===== *)
theory Placeholder_Thumbnail
  imports Mini_Png File_Locator "HOL-Library.Signed_Division"
begin

text \<open>
  The placeholder thumbnail renderer
  (\<^verbatim>\<open>source/thumbnails/PlaceholderThumbnailGenerator.{h,cpp}\<close>).

  Pixel coordinates are 32-bit words that wrap as in the sources. The image buffer is a list of bytes
  and \<open>put3\<close>, the only operation that writes it, is \<open>None\<close> when it would leave the buffer; so that a
  result \<open>Some\<close> of a drawing operation means that none of its writes was out of bounds. What the USD
  library knows about the file (its default prim and root prims, if it opens) is an argument.
\<close>

subsection \<open>Colours and glyphs\<close>

definition Fnv1aHash :: "string \<Rightarrow> u32" where
  "Fnv1aHash s = foldl (\<lambda>h c. (h XOR of_nat (of_char c)) * 0x01000193) 0x811C9DC5 s"

definition HashToTint :: "u32 \<Rightarrow> u8 \<times> u8 \<times> u8" where
  "HashToTint h = (ucast (80 + (drop_bit 0 h AND 0x7F)), ucast (80 + (drop_bit 8 h AND 0x7F)),
     ucast (80 + (drop_bit 16 h AND 0x7F)))"

definition glyph_table :: "(char \<times> nat list) list" where
  "glyph_table =
    [(CHR '' '', [0, 0, 0, 0, 0]),
     (CHR ''.'', [0, 0, 0, 0, 2]),
     (CHR ''-'', [0, 0, 7, 0, 0]),
     (CHR ''_'', [0, 0, 0, 0, 7]),
     (CHR ''0'', [7, 5, 5, 5, 7]),
     (CHR ''1'', [2, 6, 2, 2, 7]),
     (CHR ''2'', [7, 1, 7, 4, 7]),
     (CHR ''3'', [7, 1, 7, 1, 7]),
     (CHR ''4'', [5, 5, 7, 1, 1]),
     (CHR ''5'', [7, 4, 7, 1, 7]),
     (CHR ''6'', [7, 4, 7, 5, 7]),
     (CHR ''7'', [7, 1, 2, 2, 2]),
     (CHR ''8'', [7, 5, 7, 5, 7]),
     (CHR ''9'', [7, 5, 7, 1, 7]),
     (CHR ''a'', [2, 5, 7, 5, 5]),
     (CHR ''A'', [2, 5, 7, 5, 5]),
     (CHR ''b'', [6, 5, 6, 5, 6]),
     (CHR ''B'', [6, 5, 6, 5, 6]),
     (CHR ''c'', [7, 4, 4, 4, 7]),
     (CHR ''C'', [7, 4, 4, 4, 7]),
     (CHR ''d'', [6, 5, 5, 5, 6]),
     (CHR ''D'', [6, 5, 5, 5, 6]),
     (CHR ''e'', [7, 4, 6, 4, 7]),
     (CHR ''E'', [7, 4, 6, 4, 7]),
     (CHR ''f'', [7, 4, 6, 4, 4]),
     (CHR ''F'', [7, 4, 6, 4, 4]),
     (CHR ''g'', [7, 4, 5, 5, 7]),
     (CHR ''G'', [7, 4, 5, 5, 7]),
     (CHR ''h'', [5, 5, 7, 5, 5]),
     (CHR ''H'', [5, 5, 7, 5, 5]),
     (CHR ''i'', [7, 2, 2, 2, 7]),
     (CHR ''I'', [7, 2, 2, 2, 7]),
     (CHR ''j'', [7, 1, 1, 5, 7]),
     (CHR ''J'', [7, 1, 1, 5, 7]),
     (CHR ''k'', [5, 6, 4, 6, 5]),
     (CHR ''K'', [5, 6, 4, 6, 5]),
     (CHR ''l'', [4, 4, 4, 4, 7]),
     (CHR ''L'', [4, 4, 4, 4, 7]),
     (CHR ''m'', [5, 7, 7, 5, 5]),
     (CHR ''M'', [5, 7, 7, 5, 5]),
     (CHR ''n'', [5, 7, 7, 7, 5]),
     (CHR ''N'', [5, 7, 7, 7, 5]),
     (CHR ''o'', [7, 5, 5, 5, 7]),
     (CHR ''O'', [7, 5, 5, 5, 7]),
     (CHR ''p'', [7, 5, 7, 4, 4]),
     (CHR ''P'', [7, 5, 7, 4, 4]),
     (CHR ''q'', [7, 5, 5, 7, 3]),
     (CHR ''Q'', [7, 5, 5, 7, 3]),
     (CHR ''r'', [7, 5, 6, 5, 5]),
     (CHR ''R'', [7, 5, 6, 5, 5]),
     (CHR ''s'', [7, 4, 7, 1, 7]),
     (CHR ''S'', [7, 4, 7, 1, 7]),
     (CHR ''t'', [7, 2, 2, 2, 2]),
     (CHR ''T'', [7, 2, 2, 2, 2]),
     (CHR ''u'', [5, 5, 5, 5, 7]),
     (CHR ''U'', [5, 5, 5, 5, 7]),
     (CHR ''v'', [5, 5, 5, 5, 2]),
     (CHR ''V'', [5, 5, 5, 5, 2]),
     (CHR ''w'', [5, 5, 7, 7, 5]),
     (CHR ''W'', [5, 5, 7, 7, 5]),
     (CHR ''x'', [5, 5, 2, 5, 5]),
     (CHR ''X'', [5, 5, 2, 5, 5]),
     (CHR ''y'', [5, 5, 2, 2, 2]),
     (CHR ''Y'', [5, 5, 2, 2, 2]),
     (CHR ''z'', [7, 1, 2, 4, 7]),
     (CHR ''Z'', [7, 1, 2, 4, 7])]"

definition GlyphFor :: "char \<Rightarrow> nat list" where
  "GlyphFor ch = (case map_of glyph_table ch of Some g \<Rightarrow> g | None \<Rightarrow> [7, 7, 7, 7, 7])"

subsection \<open>Drawing\<close>

fun fold_opt :: "('a \<Rightarrow> 's \<Rightarrow> 's option) \<Rightarrow> 'a list \<Rightarrow> 's \<Rightarrow> 's option" where
  "fold_opt f [] s = Some s"
| "fold_opt f (x # xs) s = (case f x s of None \<Rightarrow> None | Some s' \<Rightarrow> fold_opt f xs s')"

definition put3 :: "nat \<Rightarrow> u8 \<times> u8 \<times> u8 \<Rightarrow> u8 list \<Rightarrow> u8 list option" where
  "put3 i c rgb =
     (if i + 2 < length rgb
      then Some (rgb[i := fst c, i + 1 := fst (snd c), i + 2 := snd (snd c)]) else None)"

definition FillRect ::
  "u32 \<Rightarrow> u32 \<Rightarrow> u32 \<Rightarrow> u32 \<Rightarrow> u32 \<Rightarrow> u32 \<Rightarrow> u8 \<times> u8 \<times> u8 \<Rightarrow> u8 list \<Rightarrow> u8 list option" where
  "FillRect w h x0 y0 rw rh c =
     (let x1 = min w (x0 + rw); y1 = min h (y0 + rh)
      in fold_opt (\<lambda>y. fold_opt (\<lambda>x. put3 ((y * unat w + x) * 3) c) [unat x0..<unat x1]) [unat y0..<unat y1])"

definition DrawChar :: "u32 \<Rightarrow> u32 \<Rightarrow> u32 \<Rightarrow> u32 \<Rightarrow> u32 \<Rightarrow> char \<Rightarrow> u8 \<times> u8 \<times> u8 \<Rightarrow> u8 list \<Rightarrow> u8 list option" where
  "DrawChar w h x0 y0 scale ch c =
     fold_opt (\<lambda>row. fold_opt (\<lambda>col rgb.
         if bit (GlyphFor ch ! row) (2 - col)
         then FillRect w h (x0 + of_nat col * scale) (y0 + of_nat row * scale) scale scale c rgb
         else Some rgb) [0..<3]) [0..<5]"

fun DrawString :: "u32 \<Rightarrow> u32 \<Rightarrow> u32 \<Rightarrow> u32 \<Rightarrow> u32 \<Rightarrow> string \<Rightarrow> u8 \<times> u8 \<times> u8 \<Rightarrow> u8 list \<Rightarrow> u8 list option" where
  "DrawString w h x y0 scale [] c rgb = Some rgb"
| "DrawString w h x y0 scale (ch # cs) c rgb =
     (case DrawChar w h x y0 scale ch c rgb of
        None \<Rightarrow> None
      | Some rgb' \<Rightarrow> DrawString w h (x + (3 * scale + scale)) y0 scale cs c rgb')"

definition DrawStringCentered :: "u32 \<Rightarrow> u32 \<Rightarrow> u32 \<Rightarrow> u32 \<Rightarrow> string \<Rightarrow> u8 \<times> u8 \<times> u8 \<Rightarrow> u8 list \<Rightarrow> u8 list option" where
  "DrawStringCentered w h y0 scale str c rgb =
     (if str = [] then Some rgb
      else
        let total_w = of_nat (length str) * (3 * scale) + of_nat (length str - 1) * scale
        in if total_w \<ge> w then Some rgb
           else DrawString w h ((w - total_w) div 2) y0 scale str c rgb)"

definition clamp255 :: "int \<Rightarrow> u8" where
  "clamp255 v = word_of_int (if v < 0 then 0 else if 255 < v then 255 else v)"

definition gradient :: "u32 \<Rightarrow> u32 \<Rightarrow> nat \<Rightarrow> nat \<Rightarrow> u8 \<Rightarrow> u8" where
  "gradient w h x y tint =
     (let d = uint tint div 6; max_axis = sint (w + h); t = sint (of_nat x + of_nat y :: u32)
      in clamp255 (d + ((uint tint - d) * t) sdiv max_axis))"

definition PaintGradient :: "u32 \<Rightarrow> u32 \<Rightarrow> u8 \<times> u8 \<times> u8 \<Rightarrow> u8 list \<Rightarrow> u8 list option" where
  "PaintGradient w h tint =
     fold_opt (\<lambda>y. fold_opt (\<lambda>x. put3 ((y * unat w + x) * 3)
       (gradient w h x y (fst tint), gradient w h x y (fst (snd tint)), gradient w h x y (snd (snd tint))))
       [0..<unat w]) [0..<unat h]"

subsection \<open>Labels\<close>

text \<open>What the USD library reports for a layer that opens.\<close>

record layer_summary =
  default_prim :: string
  root_prims :: "string list"

definition DescribeUsdFile :: "(fspath \<Rightarrow> layer_summary option) \<Rightarrow> fspath \<Rightarrow> string" where
  "DescribeUsdFile open_layer usd_file =
     (case open_layer usd_file of
        None \<Rightarrow> ''USD''
      | Some l \<Rightarrow>
          if default_prim l \<noteq> [] then default_prim l
          else if root_prims l \<noteq> [] then hd (root_prims l)
          else ''USD'')"

definition PrepareLabel :: "string \<Rightarrow> nat \<Rightarrow> string" where
  "PrepareLabel s max_chars = take max_chars (filter name_char s)"

definition max_scale :: "u32 \<Rightarrow> string \<Rightarrow> u32" where
  "max_scale w s =
     (if s = [] then 0
      else max 1 ((w * 4) div 5 div of_nat (4 * length s - 1)))"

subsection \<open>Generate\<close>

definition and_then :: "'a option \<Rightarrow> ('a \<Rightarrow> 'b option) \<Rightarrow> 'b option" where
  "and_then m f = (case m of None \<Rightarrow> None | Some x \<Rightarrow> f x)"

definition render :: "(fspath \<Rightarrow> layer_summary option) \<Rightarrow> u32 \<Rightarrow> fspath \<Rightarrow> u8 list option" where
  "render open_layer m_size usd_file =
     (let w = m_size; h = m_size;
          rgb = replicate (unat w * unat h * 3) 0;
          border = max 2 (w div 64);
          stem = PrepareLabel (path_stem usd_file) 16;
          label = PrepareLabel (DescribeUsdFile open_layer usd_file) 16;
          s1 = max_scale w stem; s2 = max_scale w label;
          line1_h = 5 * s1; line2_h = 5 * s2; gap = max s1 s2;
          y1 = (h - line1_h - line2_h - gap) div 2; y2 = y1 + line1_h + gap;
          dark = (20, 20, 20)
      in and_then (PaintGradient w h (HashToTint (Fnv1aHash (path_filename usd_file))) rgb) (\<lambda>rgb.
         and_then (FillRect w h 0 0 w border dark rgb) (\<lambda>rgb.
         and_then (FillRect w h 0 (h - border) w border dark rgb) (\<lambda>rgb.
         and_then (FillRect w h 0 0 border h dark rgb) (\<lambda>rgb.
         and_then (FillRect w h (w - border) 0 border h dark rgb) (\<lambda>rgb.
         and_then (DrawStringCentered w h y1 s1 stem (255, 255, 255) rgb) (\<lambda>rgb.
           DrawStringCentered w h y2 s2 label (220, 220, 220) rgb)))))))"

definition PlaceholderThumbnailGenerator :: "u32 \<Rightarrow> u32" where
  "PlaceholderThumbnailGenerator requested = (if requested = 0 then 256 else requested)"

definition Placeholder_Generate ::
  "(fspath \<Rightarrow> layer_summary option) \<Rightarrow> bool \<Rightarrow> bool \<Rightarrow> u32 \<Rightarrow> fspath \<Rightarrow> u8 list throws option" where
  "Placeholder_Generate open_layer can_open can_write m_size usd_file =
     map_option (\<lambda>rgb. case Write can_open can_write m_size m_size rgb of
         Inl e \<Rightarrow> Inl (''PNG write failed: '' @ e)
       | Inr bytes \<Rightarrow> Inr bytes) (render open_layer m_size usd_file)"

subsection \<open>No write leaves the buffer\<close>

definition keeps :: "nat \<Rightarrow> ('b list \<Rightarrow> 'b list option) \<Rightarrow> bool" where
  "keeps n f \<longleftrightarrow> (\<forall>rgb. length rgb = n \<longrightarrow> (\<exists>rgb'. f rgb = Some rgb' \<and> length rgb' = n))"

lemma keepsD: "keeps n f \<Longrightarrow> length rgb = n \<Longrightarrow> \<exists>rgb'. f rgb = Some rgb' \<and> length rgb' = n"
  by (simp add: keeps_def)

lemma keeps_fold: "(\<And>x. x \<in> set xs \<Longrightarrow> keeps n (f x)) \<Longrightarrow> keeps n (fold_opt f xs)"
proof (induction xs)
  case (Cons x xs)
  have "keeps n (f x)" "keeps n (fold_opt f xs)" using Cons by simp_all
  then show ?case unfolding keeps_def by (metis fold_opt.simps(2) option.simps(5))
qed (simp add: keeps_def)

lemma keeps_Some [simp]: "keeps n Some"
  by (simp add: keeps_def)

lemma keeps_put3: "i + 2 < n \<Longrightarrow> keeps n (put3 i c)"
  by (simp add: keeps_def put3_def)

lemma pixel_in_buffer:
  assumes "x < w" "y < h"
  shows "(y * w + x) * 3 + 2 < w * h * (3 :: nat)"
proof -
  have "y * w + x < (y + 1) * w" using assms(1) by simp
  also have "\<dots> \<le> h * w" using assms(2) by (intro mult_le_mono1) simp
  finally show ?thesis by (simp add: mult.commute)
qed

lemma FillRect_keeps [in_bounds]: "keeps (unat w * unat h * 3) (FillRect w h x0 y0 rw rh c)"
  unfolding FillRect_def Let_def
proof (intro keeps_fold keeps_put3)
  fix x y
  assume "y \<in> set [unat y0..<unat (min h (y0 + rh))]" "x \<in> set [unat x0..<unat (min w (x0 + rw))]"
  then have "y < unat h" "x < unat w" by (auto simp: min_def word_le_nat_alt split: if_splits)
  then show "(y * unat w + x) * 3 + 2 < unat w * unat h * 3" by (intro pixel_in_buffer)
qed

lemma DrawChar_keeps: "keeps (unat w * unat h * 3) (DrawChar w h x0 y0 scale ch c)"
  unfolding DrawChar_def
proof (intro keeps_fold)
  fix row col :: nat
  show "keeps (unat w * unat h * 3) (\<lambda>rgb. if bit (GlyphFor ch ! row) (2 - col)
      then FillRect w h (x0 + of_nat col * scale) (y0 + of_nat row * scale) scale scale c rgb else Some rgb)"
    using FillRect_keeps by (simp add: keeps_def)
qed

lemma DrawString_keeps: "keeps (unat w * unat h * 3) (DrawString w h x y0 scale str c)"
proof (induction str arbitrary: x)
  case (Cons ch cs)
  show ?case unfolding keeps_def
  proof (intro allI impI)
    fix rgb :: "u8 list" assume "length rgb = unat w * unat h * 3"
    from keepsD [OF DrawChar_keeps this] obtain r where
      "DrawChar w h x y0 scale ch c rgb = Some r" "length r = unat w * unat h * 3" by blast
    with keepsD [OF Cons.IH this(2)]
    show "\<exists>rgb'. DrawString w h x y0 scale (ch # cs) c rgb = Some rgb' \<and> length rgb' = unat w * unat h * 3"
      by simp
  qed
qed (simp add: keeps_def)

lemma DrawStringCentered_keeps [in_bounds]: "keeps (unat w * unat h * 3) (DrawStringCentered w h y0 scale str c)"
  using DrawString_keeps by (simp add: keeps_def DrawStringCentered_def Let_def)

lemma PaintGradient_keeps [in_bounds]: "keeps (unat w * unat h * 3) (PaintGradient w h tint)"
  unfolding PaintGradient_def by (intro keeps_fold keeps_put3 pixel_in_buffer) simp_all

lemma keeps_and_then [in_bounds]:
  assumes "keeps n f" and "\<And>r. length r = n \<Longrightarrow> \<exists>r'. g r = Some r' \<and> length r' = n" and "length rgb = n"
  shows "\<exists>r'. and_then (f rgb) g = Some r' \<and> length r' = n"
  using keepsD [OF assms(1,3)] assms(2) by (auto simp: and_then_def)

lemma render_total: "\<exists>rgb. render open_layer m_size usd_file = Some rgb \<and> length rgb = unat m_size * unat m_size * 3"
  unfolding render_def Let_def
  by (intro in_bounds keepsD [OF DrawStringCentered_keeps]) simp_all

subsection \<open>Properties\<close>



end
