(* ===== verification/Preview_Camera.thy ===== *)
theory Preview_Camera
  imports Complex_Main
begin

text \<open>
  The camera and the lights that a preview is rendered with when the stage has no camera of its own
  (\<^verbatim>\<open>AuthorSyntheticCamera\<close> in \<^verbatim>\<open>source/thumbnails/UsdImagingThumbnailGenerator.cpp\<close>).

  A \<^verbatim>\<open>double\<close> is a real number here and the casts to \<^verbatim>\<open>float\<close> are identities: rounding is not modelled. The
  vector operations are those that the \<^verbatim>\<open>Gf\<close> library documents. The view matrix is kept as the
  arguments it is made from, an eye that looks at a centre.
\<close>

subsection \<open>Vectors and ranges\<close>

record GfVec3d =
  vx :: real
  vy :: real
  vz :: real

record GfRange3d =
  range_min :: GfVec3d
  range_max :: GfVec3d

definition gf_add :: "GfVec3d \<Rightarrow> GfVec3d \<Rightarrow> GfVec3d" where
  "gf_add a b = \<lparr>vx = vx a + vx b, vy = vy a + vy b, vz = vz a + vz b\<rparr>"

definition gf_sub :: "GfVec3d \<Rightarrow> GfVec3d \<Rightarrow> GfVec3d" where
  "gf_sub a b = \<lparr>vx = vx a - vx b, vy = vy a - vy b, vz = vz a - vz b\<rparr>"

definition gf_scale :: "real \<Rightarrow> GfVec3d \<Rightarrow> GfVec3d" where
  "gf_scale k a = \<lparr>vx = k * vx a, vy = k * vy a, vz = k * vz a\<rparr>"

definition gf_dot :: "GfVec3d \<Rightarrow> GfVec3d \<Rightarrow> real" where
  "gf_dot a b = vx a * vx b + vy a * vy b + vz a * vz b"

definition GetLength :: "GfVec3d \<Rightarrow> real" where
  "GetLength a = sqrt (gf_dot a a)"

definition GetNormalized :: "GfVec3d \<Rightarrow> GfVec3d" where
  "GetNormalized a = gf_scale (1 / GetLength a) a"

definition IsEmpty :: "GfRange3d \<Rightarrow> bool" where
  "IsEmpty b \<longleftrightarrow> vx (range_max b) < vx (range_min b) \<or> vy (range_max b) < vy (range_min b) \<or> vz (range_max b) < vz (range_min b)"

definition GetMidpoint :: "GfRange3d \<Rightarrow> GfVec3d" where
  "GetMidpoint b = gf_scale (1 / 2) (gf_add (range_min b) (range_max b))"

definition GetSize :: "GfRange3d \<Rightarrow> GfVec3d" where
  "GetSize b = gf_sub (range_max b) (range_min b)"

subsection \<open>The preview camera\<close>

record GfLookAt =
  look_eye :: GfVec3d
  look_center :: GfVec3d
  look_up :: GfVec3d

record GfCamera =
  perspective :: bool
  aspect_ratio :: real
  fov_vertical :: real
  clipping_range :: "real \<times> real"
  focus_distance :: real
  cam_view :: GfLookAt

datatype preview_prim = Camera GfCamera | DistantLight real GfLookAt | DomeLight real

definition frame_sphere :: "GfRange3d \<Rightarrow> GfVec3d \<times> real" where
  "frame_sphere bounds =
     (if \<not> IsEmpty bounds
      then let radius = GetLength (GetSize bounds) * (1 / 2)
           in (GetMidpoint bounds, if radius \<le> 0 then 1 else radius)
      else (\<lparr>vx = 0, vy = 0, vz = 0\<rparr>, 1))"

definition kFovYDeg :: real where "kFovYDeg = 45"
definition kFit :: real where "kFit = 115 / 100"

definition frame_distance :: "real \<Rightarrow> real" where
  "frame_distance radius = (let fovYRad = kFovYDeg * (pi / 180) in (radius * kFit) / tan (fovYRad * (1 / 2)))"

definition view_direction :: "bool \<Rightarrow> GfVec3d \<times> GfVec3d" where
  "view_direction z_up =
     (if z_up then (GetNormalized \<lparr>vx = 1, vy = -1, vz = 1\<rparr>, \<lparr>vx = 0, vy = 0, vz = 1\<rparr>)
      else (GetNormalized \<lparr>vx = 1, vy = 1, vz = 1\<rparr>, \<lparr>vx = 0, vy = 1, vz = 0\<rparr>))"

definition preview_camera :: "bool \<Rightarrow> GfRange3d \<Rightarrow> GfCamera" where
  "preview_camera z_up bounds =
     (let (center, radius) = frame_sphere bounds;
          dist = frame_distance radius;
          (dir, upVec) = view_direction z_up;
          eye = gf_add center (gf_scale dist dir)
      in \<lparr>perspective = True, aspect_ratio = 1, fov_vertical = kFovYDeg,
          clipping_range = (max (1 / 1000) (dist - radius * 2), dist + radius * 2), focus_distance = dist,
          cam_view = \<lparr>look_eye = eye, look_center = center, look_up = upVec\<rparr>\<rparr>)"

text \<open>What is authored into the session layer, in order; the first prim is the camera.\<close>

definition AuthorSyntheticCamera :: "bool \<Rightarrow> GfRange3d \<Rightarrow> (string \<times> preview_prim) list" where
  "AuthorSyntheticCamera z_up bounds =
     (let gf = preview_camera z_up bounds
      in [(''/__idtx_preview_cam'', Camera gf),
          (''/__idtx_preview_headlight'', DistantLight 5000 (cam_view gf)),
          (''/__idtx_preview_dome'', DomeLight 1000)])"

subsection \<open>Lemmas\<close>

lemmas gf_defs = gf_add_def gf_sub_def gf_scale_def gf_dot_def

lemma gf_dot_self: "0 \<le> gf_dot a a"
  by (simp add: gf_dot_def)

lemma GetLength_squared: "(GetLength a)\<^sup>2 = gf_dot a a"
  using gf_dot_self [of a] by (simp add: GetLength_def)

lemma gf_dot_linear:
  "gf_dot a (gf_add b c) = gf_dot a b + gf_dot a c" "gf_dot (gf_add b c) a = gf_dot b a + gf_dot c a"
  "gf_dot a (gf_sub b c) = gf_dot a b - gf_dot a c" "gf_dot (gf_sub b c) a = gf_dot b a - gf_dot c a"
  "gf_dot a (gf_scale k b) = k * gf_dot a b" "gf_dot (gf_scale k b) a = k * gf_dot b a"
  by (simp_all add: gf_defs algebra_simps)

lemma gf_dot_commute: "gf_dot a b = gf_dot b a"
  by (simp add: gf_dot_def mult.commute)

lemma cauchy_schwarz: "(gf_dot a b)\<^sup>2 \<le> gf_dot a a * gf_dot b b"
proof -
  have "gf_dot a a * gf_dot b b - (gf_dot a b)\<^sup>2 =
      (vx a * vy b - vy a * vx b)\<^sup>2 + (vx a * vz b - vz a * vx b)\<^sup>2 + (vy a * vz b - vz a * vy b)\<^sup>2"
    by (simp add: gf_dot_def power2_eq_square algebra_simps)
  then show ?thesis by (smt (verit) zero_le_power2)
qed

lemma view_direction_unit: "gf_dot (fst (view_direction z_up)) (fst (view_direction z_up)) = 1"
  by (simp add: view_direction_def GetNormalized_def GetLength_def gf_defs field_simps)

text \<open>The content's box lies in the sphere that is framed.\<close>

definition in_range :: "GfVec3d \<Rightarrow> GfRange3d \<Rightarrow> bool" where
  "in_range p b \<longleftrightarrow> vx (range_min b) \<le> vx p \<and> vx p \<le> vx (range_max b) \<and> vy (range_min b) \<le> vy p \<and> vy p \<le> vy (range_max b) \<and>
     vz (range_min b) \<le> vz p \<and> vz p \<le> vz (range_max b)"

lemma midpoint_distance:
  assumes "l \<le> (x :: real)" and "x \<le> u"
  shows "(x - (l + u) / 2)\<^sup>2 \<le> ((u - l) / 2)\<^sup>2"
  using assms by (intro abs_le_square_iff [THEN iffD1]) (simp add: abs_if field_simps)

lemma in_range_sphere:
  assumes "in_range p b" and "frame_sphere b = (center, radius)"
  shows "gf_dot (gf_sub p center) (gf_sub p center) \<le> radius\<^sup>2"
    and "radius = (if GetLength (GetSize b) = 0 then 1 else GetLength (GetSize b) / 2)"
proof -
  let ?len = "GetLength (GetSize b)"
  have ne: "\<not> IsEmpty b" using assms(1) by (auto simp: in_range_def IsEmpty_def)
  have len: "0 \<le> ?len" by (simp add: GetLength_def gf_dot_self)
  show r: "radius = (if ?len = 0 then 1 else ?len / 2)"
    using assms(2) ne len by (auto simp: frame_sphere_def Let_def)
  have c: "center = GetMidpoint b" using assms(2) ne by (simp add: frame_sphere_def Let_def)
  have "gf_dot (gf_sub p center) (gf_sub p center) \<le>
      ((vx (range_max b) - vx (range_min b)) / 2)\<^sup>2 + ((vy (range_max b) - vy (range_min b)) / 2)\<^sup>2 + ((vz (range_max b) - vz (range_min b)) / 2)\<^sup>2"
    using assms(1) midpoint_distance
    by (auto simp: c in_range_def GetMidpoint_def gf_defs power2_eq_square [symmetric] intro!: add_mono)
  also have "\<dots> = (?len / 2)\<^sup>2"
    by (simp add: power_divide GetLength_squared add_divide_distrib) (simp add: GetSize_def gf_defs power2_eq_square add_divide_distrib)
  also have "\<dots> \<le> radius\<^sup>2" using r len by simp
  finally show "gf_dot (gf_sub p center) (gf_sub p center) \<le> radius\<^sup>2" .
qed

text \<open>The field of view: half of it is an eighth of \<open>\<pi>\<close>.\<close>

lemma eighth:
  "0 < sin (pi / 8)" "92 / 100 \<le> cos (pi / 8)" "23 / 10 * sin (pi / 8) \<le> cos (pi / 8)" "cos (pi / 8) \<le> 5 / 2 * sin (pi / 8)"
proof -
  let ?c = "cos (pi / 8)" and ?s = "sin (pi / 8)"
  show s: "0 < ?s" by (auto intro!: sin_gt_zero)
  have c: "0 < ?c" by (auto intro!: cos_gt_zero)
  have "cos (2 * (pi / 8)) = 2 * ?c\<^sup>2 - 1" by (rule cos_double_cos)
  moreover have "cos (2 * (pi / 8)) = sqrt 2 / 2" using cos_45 by simp
  moreover have "14 / 10 \<le> sqrt 2" by (rule real_le_rsqrt) (simp add: power2_eq_square)
  moreover have "sqrt 2 \<le> 144 / 100" by (rule real_le_lsqrt) (simp_all add: power2_eq_square)
  ultimately have c2: "85 / 100 \<le> ?c\<^sup>2" "?c\<^sup>2 \<le> 86 / 100" by linarith+
  have s2: "?s\<^sup>2 = 1 - ?c\<^sup>2" by (rule sin_squared_eq)
  show "92 / 100 \<le> ?c" by (rule power2_le_imp_le) (use c c2(1) in \<open>simp_all add: power2_eq_square\<close>)
  show "23 / 10 * ?s \<le> ?c"
    by (rule power2_le_imp_le) (use c c2(1) s2 in \<open>simp_all add: power_mult_distrib power_divide\<close>)
  show "?c \<le> 5 / 2 * ?s"
    by (rule power2_le_imp_le) (use s c2(2) s2 in \<open>simp_all add: power_mult_distrib power_divide\<close>)
qed

lemma frame_distance_eq: "frame_distance r = r * (115 / 100) * cos (pi / 8) / sin (pi / 8)"
  by (simp add: frame_distance_def kFovYDeg_def kFit_def tan_def Let_def)

lemma frame_distance_bounds:
  assumes "0 < r"
  shows "2 * r \<le> frame_distance r" "frame_distance r \<le> 3 * r" "r \<le> frame_distance r * sin (pi / 8)"
proof -
  let ?c = "cos (pi / 8)" and ?s = "sin (pi / 8)"
  have "2 * ?s \<le> 115 / 100 * ?c" "115 / 100 * ?c \<le> 3 * ?s" "1 \<le> 115 / 100 * ?c" using eighth by linarith+
  from this [THEN mult_left_mono [of _ _ r]] show "2 * r \<le> frame_distance r" "frame_distance r \<le> 3 * r" "r \<le> frame_distance r * ?s"
    using assms eighth(1) by (simp_all add: frame_distance_eq field_simps)
qed

text \<open>A point at \<open>v\<close> from the centre of a sphere, seen against the unit vector \<open>u\<close> from a distance at which
  the sphere fits into the cone.\<close>

lemma sphere_in_cone:
  assumes u: "gf_dot u u = 1" and v: "gf_dot v v \<le> r\<^sup>2" and r: "0 < r"
    and fit: "r \<le> d * sin a" and d: "r \<le> d" and c: "0 \<le> cos a"
  shows "\<bar>gf_dot u v\<bar> \<le> r"
    and "GetLength (gf_sub v (gf_scale d u)) * cos a \<le> d - gf_dot u v"
proof -
  let ?x = "gf_dot u v" and ?w = "gf_sub v (gf_scale d u)"
  have "?x\<^sup>2 \<le> r\<^sup>2" using cauchy_schwarz [of u v] u v by simp
  then show x: "\<bar>?x\<bar> \<le> r" using r by (simp add: abs_le_square_iff [symmetric])
  have w: "gf_dot ?w ?w = d\<^sup>2 - 2 * d * ?x + gf_dot v v"
    using u by (simp add: gf_dot_linear gf_dot_commute [of v u] power2_eq_square algebra_simps)
  have s: "(sin a)\<^sup>2 = 1 - (cos a)\<^sup>2" by (rule sin_squared_eq)
  have "(cos a)\<^sup>2 * (d\<^sup>2 - 2 * d * ?x + gf_dot v v) \<le> (cos a)\<^sup>2 * (d\<^sup>2 - 2 * d * ?x + r\<^sup>2)"
    using v by (intro mult_left_mono) auto
  also have "\<dots> \<le> (d - ?x)\<^sup>2"
  proof -
    have "(d - ?x)\<^sup>2 - (cos a)\<^sup>2 * (d\<^sup>2 - 2 * d * ?x + r\<^sup>2) = (?x - (sin a)\<^sup>2 * d)\<^sup>2 + (cos a)\<^sup>2 * ((d * sin a)\<^sup>2 - r\<^sup>2)"
      unfolding power_mult_distrib s by (simp add: power2_eq_square algebra_simps)
    moreover have "r\<^sup>2 \<le> (d * sin a)\<^sup>2" using fit r by (intro power_mono) auto
    ultimately show ?thesis by (smt (verit) mult_nonneg_nonneg zero_le_power2)
  qed
  finally have "(GetLength ?w * cos a)\<^sup>2 \<le> (d - ?x)\<^sup>2"
    by (simp add: power_mult_distrib GetLength_squared w mult.commute)
  then show "GetLength ?w * cos a \<le> d - ?x" by (rule power2_le_imp_le) (use x d in auto)
qed

subsection \<open>What the camera sees\<close>

definition view_forward :: "GfLookAt \<Rightarrow> GfVec3d" where
  "view_forward l = GetNormalized (gf_sub (look_center l) (look_eye l))"

text \<open>The depth of a point along the view and its distance from the eye.\<close>

definition depth :: "GfCamera \<Rightarrow> GfVec3d \<Rightarrow> real" where
  "depth cam p = gf_dot (view_forward (cam_view cam)) (gf_sub p (look_eye (cam_view cam)))"

definition eye_distance :: "GfCamera \<Rightarrow> GfVec3d \<Rightarrow> real" where
  "eye_distance cam p = GetLength (gf_sub p (look_eye (cam_view cam)))"

lemma look_from:
  assumes u: "gf_dot u u = 1" and d: "0 < d"
  shows "gf_dot (view_forward \<lparr>look_eye = gf_add c (gf_scale d u), look_center = c, look_up = up\<rparr>) (gf_sub p (gf_add c (gf_scale d u))) =
      d - gf_dot u (gf_sub p c)"
    and "gf_sub p (gf_add c (gf_scale d u)) = gf_sub (gf_sub p c) (gf_scale d u)"
proof -
  show w: "gf_sub p (gf_add c (gf_scale d u)) = gf_sub (gf_sub p c) (gf_scale d u)" by (simp add: gf_defs)
  have e: "gf_sub c (gf_add c (gf_scale d u)) = gf_scale (- d) u" by (simp add: gf_defs)
  have "GetLength (gf_scale (- d) u) = d" using u d by (simp add: GetLength_def gf_dot_linear)
  then have "GetNormalized (gf_scale (- d) u) = gf_scale (-1) u" using d by (simp add: GetNormalized_def gf_scale_def)
  then show "gf_dot (view_forward \<lparr>look_eye = gf_add c (gf_scale d u), look_center = c, look_up = up\<rparr>) (gf_sub p (gf_add c (gf_scale d u))) =
      d - gf_dot u (gf_sub p c)"
    using u by (simp add: view_forward_def e w gf_dot_linear)
qed

lemma preview_depth:
  assumes "in_range p bounds"
  obtains radius where "radius = (if GetLength (GetSize bounds) = 0 then 1 else GetLength (GetSize bounds) / 2)" "0 < radius"
    and "clipping_range (preview_camera z_up bounds) =
      (max (1 / 1000) (frame_distance radius - radius * 2), frame_distance radius + radius * 2)"
    and "\<bar>depth (preview_camera z_up bounds) p - frame_distance radius\<bar> \<le> radius"
    and "eye_distance (preview_camera z_up bounds) p * cos (pi / 8) \<le> depth (preview_camera z_up bounds) p"
proof -
  obtain center radius where f: "frame_sphere bounds = (center, radius)" by fastforce
  obtain u up where d: "view_direction z_up = (u, up)" by fastforce
  note sphere = in_range_sphere [OF assms f]
  have len: "0 \<le> GetLength (GetSize bounds)" by (simp add: GetLength_def gf_dot_self)
  then have r: "0 < radius" using sphere(2) by auto
  note fit = frame_distance_bounds [OF r]
  have u: "gf_dot u u = 1" using view_direction_unit [of z_up] d by simp
  have "0 < frame_distance radius" "radius \<le> frame_distance radius" using fit(1) r by linarith+
  note cone = sphere_in_cone [OF u sphere(1) r fit(3) this(2)] and look = look_from(1) [OF u this(1), of center up p] look_from(2) [OF u this(1), of p center]
  have c: "0 \<le> cos (pi / 8)" using eighth(2) by linarith
  show ?thesis
    by (rule that [OF sphere(2) r])
      (use cone look c in \<open>simp_all add: preview_camera_def f d depth_def eye_distance_def Let_def\<close>)
qed

text \<open>C33: The preview shows all of the content. The camera that is authored when the stage has none looks at the
  content from outside it, with every point of the content's bounding box inside the cone of the field of
  view and between the clipping planes, provided that the content is a single point or its diagonal is at
  least 1/500. It is the first of three prims with different names.\<close>

theorem preview_frames_content:
  assumes "in_range p bounds" and "GetLength (GetSize bounds) = 0 \<or> 1 / 500 \<le> GetLength (GetSize bounds)"
  shows "\<exists>cam rest. AuthorSyntheticCamera z_up bounds = (''/__idtx_preview_cam'', Camera cam) # rest \<and>
    distinct (map fst (AuthorSyntheticCamera z_up bounds)) \<and>
    0 < fst (clipping_range cam) \<and> fst (clipping_range cam) \<le> depth cam p \<and> depth cam p \<le> snd (clipping_range cam) \<and>
    eye_distance cam p * cos (fov_vertical cam / 2 * (pi / 180)) \<le> depth cam p"
proof -
  let ?cam = "preview_camera z_up bounds"
  obtain r where r: "r = (if GetLength (GetSize bounds) = 0 then 1 else GetLength (GetSize bounds) / 2)" "0 < r"
    and clip: "clipping_range ?cam = (max (1 / 1000) (frame_distance r - r * 2), frame_distance r + r * 2)"
    and depth: "\<bar>depth ?cam p - frame_distance r\<bar> \<le> r" "eye_distance ?cam p * cos (pi / 8) \<le> depth ?cam p"
    by (rule preview_depth [OF assms(1)])
  have "1 / 1000 \<le> r" using r(1) assms(2) by (auto split: if_splits)
  then have "1 / 1000 \<le> depth ?cam p" using depth(1) frame_distance_bounds(1) [OF r(2)] by linarith
  moreover have "fov_vertical ?cam / 2 * (pi / 180) = pi / 8"
    by (simp add: preview_camera_def kFovYDeg_def Let_def split: prod.split)
  ultimately show ?thesis
    using depth clip r(2) by (auto simp: AuthorSyntheticCamera_def Let_def max_def)
qed

text \<open>A cube of side 2 about the origin, and one of its corners.\<close>

theorem preview_frames_content_witness:
  "\<exists>cam rest. AuthorSyntheticCamera True \<lparr>range_min = \<lparr>vx = -1, vy = -1, vz = -1\<rparr>, range_max = \<lparr>vx = 1, vy = 1, vz = 1\<rparr>\<rparr> =
      (''/__idtx_preview_cam'', Camera cam) # rest \<and>
    fst (clipping_range cam) \<le> depth cam \<lparr>vx = 1, vy = -1, vz = 1\<rparr> \<and>
    eye_distance cam \<lparr>vx = 1, vy = -1, vz = 1\<rparr> * cos (fov_vertical cam / 2 * (pi / 180)) \<le> depth cam \<lparr>vx = 1, vy = -1, vz = 1\<rparr>"
proof -
  let ?b = "\<lparr>range_min = \<lparr>vx = -1, vy = -1, vz = -1\<rparr>, range_max = \<lparr>vx = 1, vy = 1, vz = 1\<rparr>\<rparr> :: GfRange3d"
  have "in_range \<lparr>vx = 1, vy = -1, vz = 1\<rparr> ?b" by (simp add: in_range_def)
  moreover have "1 / 500 \<le> GetLength (GetSize ?b)"
    unfolding GetLength_def GetSize_def gf_defs by (rule real_le_rsqrt) (simp add: power2_eq_square)
  ultimately show ?thesis using preview_frames_content [of "\<lparr>vx = 1, vy = -1, vz = 1\<rparr>" ?b True] by blast
qed

text \<open>Smaller content is lost: the near plane is never closer than 1/1000.\<close>

lemma tiny_content_clipped:
  assumes "in_range p bounds" and "0 < GetLength (GetSize bounds)" "GetLength (GetSize bounds) < 1 / 2000"
  shows "depth (preview_camera z_up bounds) p < fst (clipping_range (preview_camera z_up bounds))"
proof -
  let ?cam = "preview_camera z_up bounds"
  obtain r where r: "r = (if GetLength (GetSize bounds) = 0 then 1 else GetLength (GetSize bounds) / 2)" "0 < r"
    and clip: "clipping_range ?cam = (max (1 / 1000) (frame_distance r - r * 2), frame_distance r + r * 2)"
    and depth: "\<bar>depth ?cam p - frame_distance r\<bar> \<le> r" "eye_distance ?cam p * cos (pi / 8) \<le> depth ?cam p"
    by (rule preview_depth [OF assms(1)])
  have "r < 1 / 4000" using r(1) assms(2,3) by simp
  then have "depth ?cam p < 1 / 1000" using depth(1) frame_distance_bounds(2) [OF r(2)] by linarith
  then show ?thesis by (simp add: clip)
qed

text \<open>The sources announce an elevation of 45 degrees; the sine of the elevation is smaller.\<close>

lemma view_elevation:
  "gf_dot (fst (view_direction z_up)) (snd (view_direction z_up)) = 1 / sqrt 3" "1 / sqrt 3 < sin (pi / 4)"
proof -
  show "gf_dot (fst (view_direction z_up)) (snd (view_direction z_up)) = 1 / sqrt 3"
    by (simp add: view_direction_def GetNormalized_def GetLength_def gf_defs)
  have "2 < sqrt 6" by (rule real_less_rsqrt) simp
  then have "2 < sqrt 2 * sqrt 3" by (simp add: real_sqrt_mult [symmetric])
  then show "1 / sqrt 3 < sin (pi / 4)" unfolding sin_45 by (simp add: field_simps)
qed

end
