(* ===== verification/Imaging_Thumbnail.thy ===== *)
theory Imaging_Thumbnail
  imports Placeholder_Thumbnail Preview_Camera Stage_Committer Environment
begin

text \<open>
  The thumbnail generator that renders the stage
  (\<^verbatim>\<open>source/thumbnails/UsdImagingThumbnailGenerator.{h,cpp}\<close>, built with \<^verbatim>\<open>IDTX_ENABLE_IMAGING\<close>).

  What the off-screen GL libraries, the stage, the frame recorder and the file system answer are the
  fields of the records \<open>egl\<close>, \<open>osmesa\<close> and \<open>imaging\<close>, arguments of the definitions; any of them may
  fail or throw. The definitions are the control flow around them: the order in which a GL context is
  looked for, what is released again, the choice of the camera, the temporary file and its move into
  place, and the fall back to the placeholder. What is authored when the stage has no camera is the
  subject of \<open>Preview_Camera\<close>.
\<close>

subsection \<open>Off-screen contexts\<close>

definition SetEnvIfUnset :: "string \<Rightarrow> string \<Rightarrow> environment \<Rightarrow> environment" where
  "SetEnvIfUnset name value env = (case env name of None \<Rightarrow> setenv_if_absent name value env | Some _ \<Rightarrow> env)"

definition EnsureSoftwareGlEnv :: "environment \<Rightarrow> environment" where
  "EnsureSoftwareGlEnv =
     SetEnvIfUnset ''MESA_GLSL_VERSION_OVERRIDE'' ''450'' \<circ> SetEnvIfUnset ''MESA_GL_VERSION_OVERRIDE'' ''4.5'' \<circ>
     SetEnvIfUnset ''GALLIUM_DRIVER'' ''llvmpipe'' \<circ> SetEnvIfUnset ''LIBGL_ALWAYS_SOFTWARE'' ''1''"

datatype release =
    DestroyOsMesa
  | CloseLibrary nat
  | ReleaseCurrent nat
  | DestroyContext nat nat
  | DestroySurface nat nat
  | TerminateDisplay nat

record osmesa =
  os_dlopen :: "string \<Rightarrow> nat option"
  os_dlerror :: "string option"
  os_symbol :: "string \<Rightarrow> bool"
  os_create :: bool
  os_make_current :: bool

record OsMesaContext =
  os_lib :: "nat option"
  os_ctx :: bool
  os_destroy :: bool
  os_ok :: bool
  os_error :: "string option"

definition OsMesaContext_create :: "osmesa \<Rightarrow> OsMesaContext" where
  "OsMesaContext_create gl =
     (let lib = (case os_dlopen gl ''libOSMesa.so.8'' of Some h \<Rightarrow> Some h | None \<Rightarrow> os_dlopen gl ''libOSMesa.so'');
          c = \<lparr>os_lib = lib, os_ctx = False, os_destroy = False, os_ok = False, os_error = None\<rparr>
      in if lib = None then c\<lparr>os_error := os_dlerror gl\<rparr>
         else
           let c1 = c\<lparr>os_destroy := os_symbol gl ''OSMesaDestroyContext''\<rparr>
           in if \<not> os_symbol gl ''OSMesaCreateContextExt'' \<or> \<not> os_symbol gl ''OSMesaMakeCurrent'' \<or> \<not> os_destroy c1
              then c1\<lparr>os_error := Some ''OSMesa entry points missing in libOSMesa.so''\<rparr>
              else if \<not> os_create gl then c1\<lparr>os_error := Some ''OSMesaCreateContextExt failed''\<rparr>
              else c1\<lparr>os_ctx := True, os_ok := os_make_current gl,
                      os_error := if os_make_current gl then None else Some ''OSMesaMakeCurrent failed''\<rparr>)"

definition OsMesaContext_destroy :: "OsMesaContext \<Rightarrow> release list" where
  "OsMesaContext_destroy c =
     (if os_ctx c \<and> os_destroy c then [DestroyOsMesa] else []) @ (case os_lib c of None \<Rightarrow> [] | Some h \<Rightarrow> [CloseLibrary h])"

text \<open>Handles are numbers; \<open>None\<close> stands for \<^verbatim>\<open>EGL_NO_DISPLAY\<close>, \<^verbatim>\<open>EGL_NO_SURFACE\<close> and \<^verbatim>\<open>EGL_NO_CONTEXT\<close>.
  \<open>query_devices\<close> is the number of devices and, for a number of slots, the devices filled in.\<close>

record egl =
  has_platform_display :: bool
  surfaceless_display :: "nat option"
  query_devices :: "(int \<times> (nat \<Rightarrow> nat list)) option"
  device_display :: "nat \<Rightarrow> nat option"
  default_display :: "nat option"
  eglInitialize :: "nat \<Rightarrow> bool"
  eglBindAPI :: bool
  eglChooseConfig :: "nat \<Rightarrow> nat list option"
  eglCreatePbufferSurface :: "nat \<Rightarrow> nat \<Rightarrow> u32 \<Rightarrow> nat option"
  eglCreateContext :: "nat \<Rightarrow> nat \<Rightarrow> nat option"
  eglMakeCurrent :: "nat \<Rightarrow> nat \<Rightarrow> nat \<Rightarrow> bool"

record EglContext =
  egl_display :: "nat option"
  egl_surface :: "nat option"
  egl_context :: "nat option"
  egl_error :: "string option"

definition device_displays :: "egl \<Rightarrow> nat option" where
  "device_displays gl =
     (case query_devices gl of
        None \<Rightarrow> None
      | Some (n, devices) \<Rightarrow>
          if n > 0
          then (case filter (\<lambda>d. device_display gl d \<noteq> None) (devices (nat n)) of [] \<Rightarrow> None | d # _ \<Rightarrow> device_display gl d)
          else None)"

definition or_else :: "'a option \<Rightarrow> 'a option \<Rightarrow> 'a option" where
  "or_else a b = (case a of None \<Rightarrow> b | Some x \<Rightarrow> Some x)"

definition find_display :: "egl \<Rightarrow> nat option" where
  "find_display gl =
     (if has_platform_display gl
      then or_else (surfaceless_display gl) (or_else (device_displays gl) (default_display gl))
      else default_display gl)"

definition EglContext_create :: "egl \<Rightarrow> u32 \<Rightarrow> EglContext" where
  "EglContext_create gl m_size =
     (let none = \<lparr>egl_display = None, egl_surface = None, egl_context = None, egl_error = None\<rparr>
      in case find_display gl of
           None \<Rightarrow> none\<lparr>egl_error := Some (if has_platform_display gl
               then ''no headless EGL display (surfaceless, device platform, and default all failed)''
               else ''no EGL vendor found (missing libglvnd ICD manifest /usr/share/glvnd/egl_vendor.d/50_mesa.json?)'')\<rparr>
         | Some d \<Rightarrow>
             let c = none\<lparr>egl_display := Some d\<rparr>
             in if \<not> eglInitialize gl d then c\<lparr>egl_error := Some ''eglInitialize failed''\<rparr>
                else if \<not> eglBindAPI gl then c\<lparr>egl_error := Some ''eglBindAPI(EGL_OPENGL_API) failed''\<rparr>
                else (case eglChooseConfig gl d of
                  Some (cfg # _) \<Rightarrow>
                    (case eglCreatePbufferSurface gl d cfg m_size of
                       None \<Rightarrow> c\<lparr>egl_error := Some ''eglCreatePbufferSurface failed''\<rparr>
                     | Some s \<Rightarrow>
                         let c1 = c\<lparr>egl_surface := Some s\<rparr>
                         in (case eglCreateContext gl d cfg of
                               None \<Rightarrow> c1\<lparr>egl_error := Some ''eglCreateContext(GL 4.5 compat) failed''\<rparr>
                             | Some x \<Rightarrow>
                                 c1\<lparr>egl_context := Some x,
                                    egl_error := if eglMakeCurrent gl d s x then None else Some ''eglMakeCurrent failed''\<rparr>))
                | _ \<Rightarrow> c\<lparr>egl_error := Some ''eglChooseConfig found no EGL_OPENGL_BIT config''\<rparr>))"

definition EglContext_destroy :: "EglContext \<Rightarrow> release list" where
  "EglContext_destroy c =
     (case egl_display c of
        None \<Rightarrow> []
      | Some d \<Rightarrow>
          [ReleaseCurrent d] @ (case egl_context c of None \<Rightarrow> [] | Some x \<Rightarrow> [DestroyContext d x]) @
          (case egl_surface c of None \<Rightarrow> [] | Some s \<Rightarrow> [DestroySurface d s]) @ [TerminateDisplay d])"

datatype gl_platform = OsMesaBuild osmesa | EglBuild egl | OtherBuild

text \<open>Why there is no context, if there is none, and what is released when the function returns.\<close>

fun gl_context :: "gl_platform \<Rightarrow> u32 \<Rightarrow> string option \<times> release list" where
  "gl_context (OsMesaBuild gl) m_size =
     (let c = OsMesaContext_create gl
      in (if os_ok c then None else Some (''OSMesa: '' @ (case os_error c of None \<Rightarrow> ''unknown error'' | Some e \<Rightarrow> e)),
          OsMesaContext_destroy c))"
| "gl_context (EglBuild gl) m_size =
     (let c = EglContext_create gl m_size
      in (map_option (\<lambda>e. ''EGL init: '' @ e) (egl_error c), EglContext_destroy c))"
| "gl_context OtherBuild m_size = (None, [])"

subsection \<open>Rendering\<close>

datatype thrown = StdException string | OtherException

fun reason :: "thrown \<Rightarrow> string" where
  "reason (StdException what) = what"
| "reason OtherException = ''unknown exception''"

datatype camera = Authored nat | Synthetic "(string \<times> preview_prim) list"

text \<open>\<open>world_range\<close> is the bounding box of the prims of some purposes, \<open>define_prims\<close> tells whether the camera is
  valid after the prims were defined in the session layer. \<open>record_frame\<close> tells what the recorder returns and what it leaves in its output file, \<open>copy_file\<close> what a
  failed copy leaves in its target, \<open>partial_image\<close> what a failed write of the placeholder leaves.\<close>

record 'st imaging =
  platform :: gl_platform
  open_stage :: "fspath \<Rightarrow> disk \<Rightarrow> thrown + 'st option"
  traverse :: "'st \<Rightarrow> nat list"
  is_camera :: "'st \<Rightarrow> nat \<Rightarrow> bool"
  world_range :: "'st \<Rightarrow> string list \<Rightarrow> thrown + GfRange3d"
  up_axis :: "'st \<Rightarrow> string"
  define_prims :: "'st \<Rightarrow> (string \<times> preview_prim) list \<Rightarrow> thrown + bool"
  record_frame :: "'st \<Rightarrow> camera \<Rightarrow> u32 \<Rightarrow> fspath \<Rightarrow> (thrown + bool) \<times> string option"
  stat_works :: "fspath \<Rightarrow> bool"
  size_works :: "fspath \<Rightarrow> bool"
  can_remove :: "fspath \<Rightarrow> bool"
  can_rename :: "fspath \<Rightarrow> fspath \<Rightarrow> bool"
  copy_file :: "fspath \<Rightarrow> fspath \<Rightarrow> bool \<times> string option"
  layer_of :: "fspath \<Rightarrow> layer_summary option"
  can_open_image :: bool
  can_write_image :: bool
  partial_image :: string

definition FindAuthoredCamera :: "('st, 'z) imaging_scheme \<Rightarrow> 'st \<Rightarrow> nat option" where
  "FindAuthoredCamera im st = find (is_camera im st) (traverse im st)"

definition ComputeStageBounds :: "('st, 'z) imaging_scheme \<Rightarrow> 'st \<Rightarrow> thrown + GfRange3d" where
  "ComputeStageBounds im st = world_range im st [''default'', ''render'']"

definition choose_camera :: "('st, 'z) imaging_scheme \<Rightarrow> 'st \<Rightarrow> thrown + camera option" where
  "choose_camera im st =
     (case FindAuthoredCamera im st of
        Some p \<Rightarrow> Inr (Some (Authored p))
      | None \<Rightarrow>
          (case ComputeStageBounds im st of
             Inl t \<Rightarrow> Inl t
           | Inr bounds \<Rightarrow>
               let prims = AuthorSyntheticCamera (up_axis im st = ''Z'') bounds
               in (case define_prims im st prims of
                     Inl t \<Rightarrow> Inl t
                   | Inr ok \<Rightarrow> Inr (if ok then Some (Synthetic prims) else None))))"

definition image_tmp :: "fspath \<Rightarrow> fspath" where
  "image_tmp out = path_join (path_parent out) (path_stem out @ ''.tmp'' @ path_extension out)"

definition image_text :: "u8 list \<Rightarrow> string" where
  "image_text bytes = map (\<lambda>b. char_of (unat b)) bytes"

definition im_remove :: "('st, 'z) imaging_scheme \<Rightarrow> fspath \<Rightarrow> disk \<Rightarrow> disk" where
  "im_remove im p d = (if can_remove im p then d(file_key p := None) else d)"

text \<open>The temporary file moved into place, or copied there where it cannot be moved.\<close>

definition place_image :: "('st, 'z) imaging_scheme \<Rightarrow> fspath \<Rightarrow> disk \<Rightarrow> string option \<times> disk" where
  "place_image im out d =
     (let tmp = image_tmp out
      in if can_rename im tmp out then (None, d(file_key out := d (file_key tmp), file_key tmp := None))
         else
           (case copy_file im tmp out of
              (True, _) \<Rightarrow> (None, im_remove im tmp (d(file_key out := d (file_key tmp))))
            | (False, left) \<Rightarrow>
                (Some ''could not move rendered image into place'',
                 im_remove im tmp (case left of None \<Rightarrow> d | Some b \<Rightarrow> d(file_key out \<mapsto> b)))))"

definition render_stage :: "('st, 'z) imaging_scheme \<Rightarrow> u32 \<Rightarrow> 'st \<Rightarrow> fspath \<Rightarrow> disk \<Rightarrow> string option \<times> disk" where
  "render_stage im m_size st out d =
     (case choose_camera im st of
        Inl t \<Rightarrow> (Some (reason t), d)
      | Inr None \<Rightarrow> (Some ''no usable camera'', d)
      | Inr (Some cam) \<Rightarrow>
          let tmp = image_tmp out
          in (case record_frame im st cam m_size tmp of
                (r, bytes) \<Rightarrow>
                  let d1 = (case bytes of None \<Rightarrow> d | Some b \<Rightarrow> d(file_key tmp \<mapsto> b))
                  in (case r of
                        Inl t \<Rightarrow> (Some (reason t), d1)
                      | Inr recorded \<Rightarrow>
                          if \<not> recorded \<or> \<not> (stat_works im tmp \<and> d1 (file_key tmp) \<noteq> None) \<or>
                             size_works im tmp \<and> d1 (file_key tmp) = Some []
                          then (Some ''frame recorder produced no image'', im_remove im tmp d1)
                          else place_image im out d1)))"

text \<open>The placeholder generator with its effect on the disk; a failed write leaves \<open>partial\<close> behind.\<close>

definition placeholder_file ::
  "(fspath \<Rightarrow> layer_summary option) \<Rightarrow> bool \<Rightarrow> bool \<Rightarrow> string \<Rightarrow> u32 \<Rightarrow> fspath \<Rightarrow> fspath \<Rightarrow> disk \<Rightarrow> (string option \<times> disk) option" where
  "placeholder_file layers can_open can_write partial m_size usd_path out d =
     map_option (\<lambda>r. case r of
         Inr bytes \<Rightarrow> (None, d(file_key out \<mapsto> image_text bytes))
       | Inl e \<Rightarrow> (Some e, if can_open \<and> \<not> can_write then d(file_key out \<mapsto> partial) else d))
       (Placeholder_Generate layers can_open can_write m_size usd_path)"

text \<open>The fall back. Its own failure is the failure of the generator.\<close>

definition fall_back :: "('st, 'z) imaging_scheme \<Rightarrow> u32 \<Rightarrow> fspath \<Rightarrow> fspath \<Rightarrow> disk \<Rightarrow> string \<Rightarrow> (string option \<times> disk) option" where
  "fall_back im m_size usd_path out d why =
     map_option (\<lambda>r. case r of
         (None, d') \<Rightarrow> (None, d')
       | (Some e, d') \<Rightarrow> (Some (''render failed ('' @ why @ '') and placeholder failed ('' @ e @ '')''), d'))
       (placeholder_file (layer_of im) (can_open_image im) (can_write_image im) (partial_image im) m_size usd_path out d)"

text \<open>Everything before the fall back: why there is no image, if there is none.\<close>

definition attempt :: "('st, 'z) imaging_scheme \<Rightarrow> u32 \<Rightarrow> fspath \<Rightarrow> fspath \<Rightarrow> disk \<Rightarrow> string option \<Rightarrow> string option \<times> disk" where
  "attempt im m_size usd_path out d no_context =
     (case no_context of
        Some why \<Rightarrow> (Some why, d)
      | None \<Rightarrow>
          (case open_stage im usd_path d of
             Inl t \<Rightarrow> (Some (reason t), d)
           | Inr None \<Rightarrow> (Some ''stage could not be opened'', d)
           | Inr (Some st) \<Rightarrow> render_stage im m_size st out d))"

text \<open>The result is the error, the environment, the disk and the released resources; \<open>None\<close> would be a write
  outside the placeholder's pixel buffer.\<close>

definition Imaging_Generate ::
  "('st, 'z) imaging_scheme \<Rightarrow> u32 \<Rightarrow> fspath \<Rightarrow> fspath \<Rightarrow> environment \<Rightarrow> disk \<Rightarrow>
   (string option \<times> environment \<times> disk \<times> release list) option" where
  "Imaging_Generate im m_size usd_path out env d =
     (case gl_context (platform im) m_size of
        (no_context, releases) \<Rightarrow>
          (case attempt im m_size usd_path out d no_context of
             (None, d1) \<Rightarrow> Some (None, EnsureSoftwareGlEnv env, d1, releases)
           | (Some why, d1) \<Rightarrow>
               map_option (\<lambda>r. (fst r, EnsureSoftwareGlEnv env, snd r, releases)) (fall_back im m_size usd_path out d1 why)))"

definition UsdImagingThumbnailGenerator :: "u32 \<Rightarrow> u32" where
  "UsdImagingThumbnailGenerator requested = (if requested = 0 then 256 else requested)"

subsection \<open>Lemmas\<close>

lemma SetEnvIfUnset_keeps: "env k = Some v \<Longrightarrow> SetEnvIfUnset n x env k = Some v"
  by (auto simp: SetEnvIfUnset_def setenv_if_absent_def split: option.split)

lemma EnsureSoftwareGlEnv_keeps: "env k = Some v \<Longrightarrow> EnsureSoftwareGlEnv env k = Some v"
  by (simp add: EnsureSoftwareGlEnv_def SetEnvIfUnset_keeps)

text \<open>The calls that made a surface and a context, read off the library.\<close>

definition surface_made :: "egl \<Rightarrow> u32 \<Rightarrow> nat \<Rightarrow> nat \<Rightarrow> bool" where
  "surface_made gl m d s \<longleftrightarrow> find_display gl = Some d \<and> eglInitialize gl d \<and> eglBindAPI gl \<and>
     (\<exists>cfg cfgs. eglChooseConfig gl d = Some (cfg # cfgs) \<and> eglCreatePbufferSurface gl d cfg m = Some s)"

definition context_made :: "egl \<Rightarrow> u32 \<Rightarrow> nat \<Rightarrow> nat \<Rightarrow> bool" where
  "context_made gl m d x \<longleftrightarrow> (\<exists>s cfg cfgs. surface_made gl m d s \<and> eglChooseConfig gl d = Some (cfg # cfgs) \<and>
     eglCreateContext gl d cfg = Some x)"

lemma EglContext_fields:
  "egl_display (EglContext_create gl m) = find_display gl"
  "egl_surface (EglContext_create gl m) = Some s \<longleftrightarrow> (\<exists>d. surface_made gl m d s)"
  "egl_context (EglContext_create gl m) = Some x \<longleftrightarrow> (\<exists>d. context_made gl m d x)"
  by (auto simp: EglContext_create_def surface_made_def context_made_def Let_def
      split: option.splits list.splits if_splits)

lemma made_on_display:
  "surface_made gl m d s \<Longrightarrow> find_display gl = Some d" "context_made gl m d x \<Longrightarrow> find_display gl = Some d"
  by (auto simp: surface_made_def context_made_def)

definition library_loaded :: "osmesa \<Rightarrow> nat option" where
  "library_loaded gl = or_else (os_dlopen gl ''libOSMesa.so.8'') (os_dlopen gl ''libOSMesa.so'')"

definition symbols_found :: "osmesa \<Rightarrow> bool" where
  "symbols_found gl \<longleftrightarrow> os_symbol gl ''OSMesaCreateContextExt'' \<and> os_symbol gl ''OSMesaMakeCurrent'' \<and> os_symbol gl ''OSMesaDestroyContext''"

fun acquired :: "gl_platform \<Rightarrow> u32 \<Rightarrow> release set" where
  "acquired (OsMesaBuild gl) m =
     {DestroyOsMesa | h. library_loaded gl = Some h \<and> symbols_found gl \<and> os_create gl} \<union>
     {CloseLibrary h | h. library_loaded gl = Some h}"
| "acquired (EglBuild gl) m =
     {TerminateDisplay d | d. find_display gl = Some d} \<union> {ReleaseCurrent d | d. find_display gl = Some d} \<union>
     {DestroySurface d s | d s. surface_made gl m d s} \<union> {DestroyContext d x | d x. context_made gl m d x}"
| "acquired OtherBuild m = {}"

lemma OsMesa_fields:
  "os_lib (OsMesaContext_create gl) = library_loaded gl"
  "os_ctx (OsMesaContext_create gl) \<longleftrightarrow> library_loaded gl \<noteq> None \<and> symbols_found gl \<and> os_create gl"
  "os_ctx (OsMesaContext_create gl) \<Longrightarrow> os_destroy (OsMesaContext_create gl)"
  by (auto simp: OsMesaContext_create_def library_loaded_def symbols_found_def or_else_def Let_def split: option.splits if_splits)

text \<open>Whatever was acquired is released, once, whether or not the context could be used.\<close>

lemma gl_context_releases:
  assumes "gl_context p m = (r, rs)"
  shows "set rs = acquired p m \<and> distinct rs"
proof (cases p)
  case (OsMesaBuild gl)
  then have rs: "rs = OsMesaContext_destroy (OsMesaContext_create gl)" using assms by (simp add: Let_def)
  show ?thesis unfolding rs OsMesaBuild using OsMesa_fields [of gl]
    by (auto simp: OsMesaContext_destroy_def split: option.splits)
next
  case (EglBuild gl)
  then have rs: "rs = EglContext_destroy (EglContext_create gl m)" using assms by (simp add: Let_def)
  show ?thesis
  proof (cases "find_display gl")
    case None
    then show ?thesis using EglBuild made_on_display [of gl m] by (auto simp: rs EglContext_destroy_def EglContext_fields(1))
  next
    case (Some d)
    then have "surface_made gl m d' s \<longleftrightarrow> d' = d \<and> egl_surface (EglContext_create gl m) = Some s"
      "context_made gl m d' x \<longleftrightarrow> d' = d \<and> egl_context (EglContext_create gl m) = Some x" for d' s x
      using EglContext_fields(2,3) made_on_display [of gl m] by (metis option.inject)+
    then show ?thesis using EglBuild Some by (auto simp: rs EglContext_destroy_def EglContext_fields(1) split: option.splits)
  qed
qed (use assms in auto)

lemma tmp_name_plain:
  assumes "plain_name (path_filename p)"
  shows "plain_name (path_stem p @ ''.tmp'' @ path_extension p)"
proof -
  have "slash \<notin> set (path_stem p @ ''.tmp'' @ path_extension p)" using stem_no_slash [OF assms] by (simp add: slash_def)
  moreover have "4 \<le> length (path_stem p @ ''.tmp'' @ path_extension p)" by simp
  moreover have "4 \<le> length n \<Longrightarrow> n \<noteq> [] \<and> n \<noteq> ''.'' \<and> n \<noteq> ''..''" for n :: string by auto
  ultimately show ?thesis unfolding plain_name_def by blast
qed

lemma image_tmp_key:
  assumes "plain_name (path_filename out)"
  shows "file_key (image_tmp out) \<noteq> file_key out"
proof -
  have "length (path_stem out) + length (path_extension out) = length (path_filename out)"
    using name_split_append [of out] by (metis length_append)
  then have "path_stem out @ ''.tmp'' @ path_extension out \<noteq> path_filename out" by (auto dest: arg_cong [of _ _ length])
  then show ?thesis
    using file_key_join [OF tmp_name_plain [OF assms], of "path_parent out"] file_key_parent [OF assms]
    by (simp add: image_tmp_def)
qed

lemma im_remove_frame: "k \<noteq> file_key p \<Longrightarrow> im_remove im p d k = d k"
  by (simp add: im_remove_def)

lemma im_remove_gone: "can_remove im p \<Longrightarrow> im_remove im p d (file_key p) = None"
  by (simp add: im_remove_def)

lemma place_image_effect:
  assumes "place_image im out d = (r, d')" and "plain_name (path_filename out)"
  shows "(r = None \<longrightarrow> d' (file_key out) = d (file_key (image_tmp out))) \<and>
    (can_remove im (image_tmp out) \<longrightarrow> d' (file_key (image_tmp out)) = None) \<and>
    (\<forall>k. k \<noteq> file_key out \<longrightarrow> k \<noteq> file_key (image_tmp out) \<longrightarrow> d' k = d k)"
  using assms(1) image_tmp_key [OF assms(2)]
  by (auto simp: place_image_def Let_def im_remove_def split: if_splits prod.splits bool.splits option.splits)

text \<open>The image that the recorder leaves for a stage and a camera.\<close>

definition rendered :: "('st, 'z) imaging_scheme \<Rightarrow> u32 \<Rightarrow> fspath \<Rightarrow> fspath \<Rightarrow> disk \<Rightarrow> string \<Rightarrow> bool" where
  "rendered im m_size usd_path out d img \<longleftrightarrow> (\<exists>st cam bytes. open_stage im usd_path d = Inr (Some st) \<and>
     choose_camera im st = Inr (Some cam) \<and> record_frame im st cam m_size (image_tmp out) = (Inr True, bytes) \<and>
     (case bytes of None \<Rightarrow> d (file_key (image_tmp out)) | Some b \<Rightarrow> Some b) = Some img \<and>
     (size_works im (image_tmp out) \<longrightarrow> img \<noteq> []))"

definition recorder_returns :: "('st, 'z) imaging_scheme \<Rightarrow> u32 \<Rightarrow> fspath \<Rightarrow> bool" where
  "recorder_returns im m_size p \<longleftrightarrow> (\<forall>st cam. \<exists>b bytes. record_frame im st cam m_size p = (Inr b, bytes))"

lemma render_stage_effect:
  assumes "render_stage im m_size st out d = (r, d')" and p: "plain_name (path_filename out)"
    and "open_stage im usd_path d = Inr (Some st)"
  shows "(r = None \<longrightarrow> (\<exists>img. rendered im m_size usd_path out d img \<and> d' (file_key out) = Some img)) \<and>
    (\<forall>k. k \<noteq> file_key out \<longrightarrow> k \<noteq> file_key (image_tmp out) \<longrightarrow> d' k = d k) \<and>
    (d (file_key (image_tmp out)) = None \<and> can_remove im (image_tmp out) \<and> recorder_returns im m_size (image_tmp out) \<longrightarrow>
       d' (file_key (image_tmp out)) = None)"
proof (cases "\<exists>cam. choose_camera im st = Inr (Some cam)")
  case False
  then have "d' = d \<and> r \<noteq> None" using assms(1)
    by (auto simp: render_stage_def split: sum.splits option.splits)
  then show ?thesis by auto
next
  case True
  then obtain cam where cam: "choose_camera im st = Inr (Some cam)" by blast
  let ?t = "file_key (image_tmp out)"
  obtain q bytes where f: "record_frame im st cam m_size (image_tmp out) = (q, bytes)" by fastforce
  define d1 where "d1 = (case bytes of None \<Rightarrow> d | Some b \<Rightarrow> d(?t \<mapsto> b))"
  have d1: "d1 ?t = (case bytes of None \<Rightarrow> d ?t | Some b \<Rightarrow> Some b)" "k \<noteq> ?t \<Longrightarrow> d1 k = d k" for k
    by (auto simp: d1_def split: option.split)
  note st = assms(1) [unfolded render_stage_def cam, simplified, unfolded Let_def f, simplified, folded d1_def]
  consider (thrown) t where "q = Inl t" "r = Some (reason t)" "d' = d1"
    | (empty) e where "r = Some e" "d' = im_remove im (image_tmp out) d1"
    | (image) img where "q = Inr True" "d1 ?t = Some img" "size_works im (image_tmp out) \<longrightarrow> img \<noteq> []" "place_image im out d1 = (r, d')"
    using st by (auto split: sum.splits if_splits)
  then show ?thesis
  proof cases
    case thrown
    then have "\<not> recorder_returns im m_size (image_tmp out)" using f by (auto simp: recorder_returns_def) (metis Inl_Inr_False fst_conv)
    then show ?thesis using thrown d1(2) by auto
  next
    case empty
    then show ?thesis using d1(2) by (auto simp: im_remove_def)
  next
    case image
    then have "rendered im m_size usd_path out d img" using f cam d1(1) assms(3) by (auto simp: rendered_def)
    then show ?thesis using place_image_effect [OF image(4) p] image(2) d1(2) by auto
  qed
qed

lemma attempt_effect:
  assumes "attempt im m_size usd_path out d no_context = (r, d')" and "plain_name (path_filename out)"
  shows "(r = None \<longrightarrow> (\<exists>img. rendered im m_size usd_path out d img \<and> d' (file_key out) = Some img)) \<and>
    (\<forall>k. k \<noteq> file_key out \<longrightarrow> k \<noteq> file_key (image_tmp out) \<longrightarrow> d' k = d k) \<and>
    (d (file_key (image_tmp out)) = None \<and> can_remove im (image_tmp out) \<and> recorder_returns im m_size (image_tmp out) \<longrightarrow>
       d' (file_key (image_tmp out)) = None)"
proof (cases "\<exists>st. no_context = None \<and> open_stage im usd_path d = Inr (Some st)")
  case True
  then obtain st where "open_stage im usd_path d = Inr (Some st)" "render_stage im m_size st out d = (r, d')"
    using assms(1) by (auto simp: attempt_def)
  then show ?thesis by (intro render_stage_effect [OF _ assms(2)])
next
  case False
  then have "d' = d \<and> r \<noteq> None" using assms(1) by (auto simp: attempt_def split: option.splits sum.splits)
  then show ?thesis by auto
qed

lemma placeholder_file_effect:
  assumes "m_size \<noteq> 0"
  shows "\<exists>r d'. placeholder_file layers can_open can_write partial m_size usd_path out d = Some (r, d') \<and>
    (can_open \<and> can_write \<longleftrightarrow> r = None) \<and>
    (r = None \<longrightarrow> (\<exists>bytes. Placeholder_Generate layers True True m_size usd_path = Some (Inr bytes) \<and>
       d' (file_key out) = Some (image_text bytes))) \<and>
    (\<forall>k. k \<noteq> file_key out \<longrightarrow> d' k = d k)"
proof -
  obtain rgb where r: "render layers m_size usd_path = Some rgb" "length rgb = unat m_size * unat m_size * 3"
    using render_total by blast
  then have "(of_nat (length rgb) :: u64) = ucast m_size * ucast m_size * 3" by (simp add: of_nat_unat)
  then show ?thesis using r(1) assms by (auto simp: placeholder_file_def Placeholder_Generate_def Write_def)
qed

lemma fall_back_effect:
  assumes "m_size \<noteq> 0"
  shows "\<exists>r d'. fall_back im m_size usd_path out d why = Some (r, d') \<and>
    (can_open_image im \<and> can_write_image im \<longleftrightarrow> r = None) \<and>
    (r = None \<longrightarrow> (\<exists>bytes. Placeholder_Generate (layer_of im) True True m_size usd_path = Some (Inr bytes) \<and>
       d' (file_key out) = Some (image_text bytes))) \<and>
    (\<forall>k. k \<noteq> file_key out \<longrightarrow> d' k = d k)"
  using placeholder_file_effect [OF assms, of "layer_of im" "can_open_image im" "can_write_image im" "partial_image im" usd_path out d]
  by (auto simp: fall_back_def)

lemma Imaging_Generate_cases:
  assumes "m_size \<noteq> 0" and "plain_name (path_filename out)"
  obtains r d' rs where "Imaging_Generate im m_size usd_path out env d = Some (r, EnsureSoftwareGlEnv env, d', rs)"
    "set rs = acquired (platform im) m_size \<and> distinct rs"
    "can_open_image im \<and> can_write_image im \<longrightarrow> r = None"
    "r = None \<longrightarrow> (\<exists>img. d' (file_key out) = Some img \<and>
       (rendered im m_size usd_path out d img \<or>
        (\<exists>bytes. Placeholder_Generate (layer_of im) True True m_size usd_path = Some (Inr bytes) \<and> img = image_text bytes)))"
    "\<forall>k. k \<noteq> file_key out \<longrightarrow> k \<noteq> file_key (image_tmp out) \<longrightarrow> d' k = d k"
    "d (file_key (image_tmp out)) = None \<and> can_remove im (image_tmp out) \<and> recorder_returns im m_size (image_tmp out) \<longrightarrow>
       d' (file_key (image_tmp out)) = None"
proof -
  obtain no_context rs where g: "gl_context (platform im) m_size = (no_context, rs)" by fastforce
  obtain r1 d1 where f: "attempt im m_size usd_path out d no_context = (r1, d1)" by fastforce
  note one = attempt_effect [OF f assms(2)]
  have e: "Imaging_Generate im m_size usd_path out env d = (case r1 of
       None \<Rightarrow> Some (None, EnsureSoftwareGlEnv env, d1, rs)
     | Some why \<Rightarrow> map_option (\<lambda>r. (fst r, EnsureSoftwareGlEnv env, snd r, rs)) (fall_back im m_size usd_path out d1 why))"
    by (simp add: Imaging_Generate_def g f split: option.split)
  show thesis
  proof (cases r1)
    case None
    then show ?thesis using one gl_context_releases [OF g] that [of None d1 rs] by (auto simp: e)
  next
    case (Some why)
    obtain r d' where b: "fall_back im m_size usd_path out d1 why = Some (r, d')"
      "can_open_image im \<and> can_write_image im \<longrightarrow> r = None"
      "r = None \<longrightarrow> (\<exists>bytes. Placeholder_Generate (layer_of im) True True m_size usd_path = Some (Inr bytes) \<and>
         d' (file_key out) = Some (image_text bytes))" "\<forall>k. k \<noteq> file_key out \<longrightarrow> d' k = d1 k"
      using fall_back_effect [OF assms(1), of im usd_path out d1 why] by blast
    then show ?thesis using Some one gl_context_releases [OF g] image_tmp_key [OF assms(2)] that [of r d' rs] by (auto simp: e)
  qed
qed

lemma UsdImagingThumbnailGenerator_nonzero [simp]: "UsdImagingThumbnailGenerator requested \<noteq> 0"
  by (simp add: UsdImagingThumbnailGenerator_def)


text \<open>A recorder that returns an image on a machine with one surfaceless display.\<close>

definition demo_egl :: egl where
  "demo_egl = \<lparr>has_platform_display = True, surfaceless_display = None, query_devices = Some (2, \<lambda>n. take n [7, 8]),
     device_display = (\<lambda>d. if d = 8 then Some 3 else None), default_display = None, eglInitialize = (\<lambda>_. True), eglBindAPI = True,
     eglChooseConfig = (\<lambda>_. Some [1]), eglCreatePbufferSurface = (\<lambda>_ _ _. Some 5), eglCreateContext = (\<lambda>_ _. Some 6),
     eglMakeCurrent = (\<lambda>_ _ _. True)\<rparr>"

definition demo_imaging :: "unit imaging" where
  "demo_imaging = \<lparr>platform = EglBuild demo_egl, open_stage = (\<lambda>_ _. Inr (Some ())), traverse = (\<lambda>_. [1, 2]),
     is_camera = (\<lambda>_ p. p = 2), world_range = (\<lambda>_ _. Inl OtherException), up_axis = (\<lambda>_. ''Z''), define_prims = (\<lambda>_ _. Inr False), record_frame = (\<lambda>_ _ _ _. (Inr True, Some ''image'')),
     stat_works = (\<lambda>_. True), size_works = (\<lambda>_. True), can_remove = (\<lambda>_. True), can_rename = (\<lambda>_ _. False),
     copy_file = (\<lambda>_ _. (False, Some ''im'')), layer_of = (\<lambda>_. None), can_open_image = True, can_write_image = True,
     partial_image = []\<rparr>"


end
