(* ===== verification/Thumbnail_Worker.thy ===== *)
theory Thumbnail_Worker
  imports Executor File_Locator
begin

text \<open>
  The background thread that renders thumbnails (\<^verbatim>\<open>source/thumbnails/ThumbnailWorker.{h,cpp}\<close>).

  Every critical section of the mutex is one atomic operation. \<open>Run_take\<close> is the part of the loop
  under the lock, once the wait predicate holds; the generator then runs without the lock and
  \<open>Run_finish\<close> is the moment it is done. The generator (\<^verbatim>\<open>ThumbnailGenerator\<close>, an abstract class) is the
  argument of type \<open>generator\<close>: it succeeds, fails with a message, or throws. The log
  lines are the field \<open>reports\<close>; \<open>submitted\<close> and \<open>taken\<close> are history.
\<close>

subsection \<open>State and operations\<close>

record Job =
  job_usd_file :: fspath
  job_out_path :: fspath

datatype outcome = Generated | GenerateFailed string | GenerateThrew

record generator =
  Generate :: "fspath \<Rightarrow> fspath \<Rightarrow> outcome"
  Extension :: string

datatype worker_phase = Waits | Generates Job | Returned

record ThumbnailWorker =
  m_generator :: generator
  m_queue :: "Job list"
  m_stop :: bool
  phase :: worker_phase
  reports :: "(Job \<times> outcome) list"
  submitted :: "Job list"
  taken :: "Job list"

definition ThumbnailWorker_create :: "generator \<Rightarrow> ThumbnailWorker" where
  "ThumbnailWorker_create g =
     \<lparr>m_generator = g, m_queue = [], m_stop = False, phase = Waits, reports = [], submitted = [], taken = []\<rparr>"

text \<open>The destructor up to the join.\<close>

definition ThumbnailWorker_stop :: "ThumbnailWorker \<Rightarrow> ThumbnailWorker" where
  "ThumbnailWorker_stop w = w\<lparr>m_stop := True\<rparr>"

definition SubmitJob :: "fspath \<Rightarrow> fspath \<Rightarrow> ThumbnailWorker \<Rightarrow> ThumbnailWorker" where
  "SubmitJob usd_path out_path w =
     (if m_stop w then w
      else let job = \<lparr>job_usd_file = usd_path, job_out_path = out_path\<rparr>
           in w\<lparr>m_queue := m_queue w @ [job], submitted := submitted w @ [job]\<rparr>)"

definition PendingCount :: "ThumbnailWorker \<Rightarrow> nat" where
  "PendingCount w = length (m_queue w)"

definition Run_ready :: "ThumbnailWorker \<Rightarrow> bool" where
  "Run_ready w \<longleftrightarrow> m_stop w \<or> m_queue w \<noteq> []"

definition Run_take :: "ThumbnailWorker \<Rightarrow> ThumbnailWorker" where
  "Run_take w =
     (case m_queue w of
        [] \<Rightarrow> w\<lparr>phase := Returned\<rparr>
      | job # jobs \<Rightarrow> w\<lparr>m_queue := jobs, phase := Generates job, taken := taken w @ [job]\<rparr>)"

text \<open>All three ways the generator ends are logged, and the loop goes on.\<close>

definition Run_finish :: "Job \<Rightarrow> ThumbnailWorker \<Rightarrow> ThumbnailWorker" where
  "Run_finish job w =
     w\<lparr>phase := Waits,
       reports := reports w @ [(job, Generate (m_generator w) (job_usd_file job) (job_out_path job))]\<rparr>"

text \<open>One step of the thread, if it can make one.\<close>

definition Run_step :: "ThumbnailWorker \<Rightarrow> ThumbnailWorker option" where
  "Run_step w =
     (case phase w of
        Waits \<Rightarrow> if Run_ready w then Some (Run_take w) else None
      | Generates job \<Rightarrow> Some (Run_finish job w)
      | Returned \<Rightarrow> None)"

text \<open>The thread alone, after the destructor has raised the stop flag.\<close>

fun Run :: "nat \<Rightarrow> ThumbnailWorker \<Rightarrow> ThumbnailWorker" where
  "Run 0 w = w"
| "Run (Suc n) w = (case Run_step w of None \<Rightarrow> w | Some w' \<Rightarrow> Run n w')"

definition ThumbnailWorker_destroy :: "ThumbnailWorker \<Rightarrow> ThumbnailWorker" where
  "ThumbnailWorker_destroy w = Run (2 * length (m_queue w) + 2) (ThumbnailWorker_stop w)"

inductive thumbnail_step :: "ThumbnailWorker \<Rightarrow> ThumbnailWorker \<Rightarrow> bool" where
  submit: "thumbnail_step w (SubmitJob a b w)"
| stop: "thumbnail_step w (ThumbnailWorker_stop w)"
| run: "Run_step w = Some w' \<Longrightarrow> thumbnail_step w w'"

inductive thumbnail_reachable :: "generator \<Rightarrow> ThumbnailWorker \<Rightarrow> bool" for g :: generator where
  create: "thumbnail_reachable g (ThumbnailWorker_create g)"
| step: "thumbnail_reachable g w \<Longrightarrow> thumbnail_step w w' \<Longrightarrow> thumbnail_reachable g w'"

subsection \<open>The invariant\<close>

fun in_hand :: "worker_phase \<Rightarrow> Job list" where
  "in_hand (Generates job) = [job]"
| "in_hand _ = []"

definition report_of :: "generator \<Rightarrow> Job \<Rightarrow> Job \<times> outcome" where
  "report_of g job = (job, Generate g (job_usd_file job) (job_out_path job))"

definition thumbnail_inv :: "generator \<Rightarrow> ThumbnailWorker \<Rightarrow> bool" where
  "thumbnail_inv g w \<longleftrightarrow>
     m_generator w = g \<and> submitted w = taken w @ m_queue w \<and>
     (\<exists>finished. taken w = finished @ in_hand (phase w) \<and> reports w = map (report_of g) finished) \<and>
     (phase w = Returned \<longrightarrow> m_stop w \<and> m_queue w = [])"

lemma thumbnail_inv_run: "thumbnail_inv g w \<Longrightarrow> Run_step w = Some w' \<Longrightarrow> thumbnail_inv g w'"
  by (cases "phase w")
    (auto simp: thumbnail_inv_def Run_step_def Run_take_def Run_finish_def Run_ready_def report_of_def
      split: if_splits list.splits)

lemma thumbnail_inv_step: "thumbnail_step w w' \<Longrightarrow> thumbnail_inv g w \<Longrightarrow> thumbnail_inv g w'"
proof (induction rule: thumbnail_step.induct)
  case (run w w')
  then show ?case by (rule thumbnail_inv_run [rotated])
qed (auto simp: thumbnail_inv_def SubmitJob_def ThumbnailWorker_stop_def Let_def)

lemma thumbnail_reachable_inv: "thumbnail_reachable g w \<Longrightarrow> thumbnail_inv g w"
proof (induction rule: thumbnail_reachable.induct)
  case create
  show ?case by (simp add: thumbnail_inv_def ThumbnailWorker_create_def)
qed (rule thumbnail_inv_step)

text \<open>The worker keeps the contract of the executor: it is a pool of one thread.\<close>

interpretation tw: fifo_executor "thumbnail_reachable g" submitted taken m_queue "\<lambda>w. phase w = Returned"
proof
  fix w
  assume "thumbnail_reachable g w"
  then have inv: "thumbnail_inv g w" by (rule thumbnail_reachable_inv)
  then show "submitted w = taken w @ m_queue w" by (simp add: thumbnail_inv_def)
  show "m_queue w = []" if "phase w = Returned" using inv that by (simp add: thumbnail_inv_def)
qed

subsection \<open>Shutdown\<close>

fun run_measure :: "ThumbnailWorker \<Rightarrow> nat" where
  "run_measure w = 2 * length (m_queue w) + (case phase w of Waits \<Rightarrow> 1 | Generates _ \<Rightarrow> 2 | Returned \<Rightarrow> 0)"

lemma run_step_progress:
  assumes "m_stop w" and "phase w \<noteq> Returned"
  shows "\<exists>w'. Run_step w = Some w' \<and> m_stop w' \<and> Suc (run_measure w') = run_measure w"
  using assms
  by (cases "phase w") (auto simp: Run_step_def Run_ready_def Run_take_def Run_finish_def split: list.split)

lemma run_returns:
  "m_stop w \<Longrightarrow> run_measure w \<le> n \<Longrightarrow> phase (Run n w) = Returned"
proof (induction n arbitrary: w)
  case 0
  then show ?case by (auto split: worker_phase.splits)
next
  case (Suc n)
  show ?case
  proof (cases "phase w = Returned")
    case True
    then show ?thesis by (simp add: Run_step_def)
  next
    case False
    from run_step_progress [OF Suc.prems(1) this] obtain w' where
      "Run_step w = Some w'" "m_stop w'" "Suc (run_measure w') = run_measure w" by blast
    then show ?thesis using Suc by simp
  qed
qed

lemma run_reachable: "thumbnail_reachable g w \<Longrightarrow> thumbnail_reachable g (Run n w)"
  by (induction n arbitrary: w) (auto split: option.split intro: thumbnail_reachable.step thumbnail_step.run)

lemma run_submitted: "submitted (Run n w) = submitted w"
proof (induction n arbitrary: w)
  case (Suc n)
  have "submitted w' = submitted w" if "Run_step w = Some w'" for w'
    using that by (auto simp: Run_step_def Run_take_def Run_finish_def split: worker_phase.splits if_splits list.splits)
  with Suc show ?case by (auto split: option.split)
qed simp

subsection \<open>Property\<close>

text \<open>C35: Thumbnail jobs are rendered in the order they were submitted, each exactly once, whatever the
  generator does: after every interleaving of submissions, a stop request and the thread, the reports
  are those of the first jobs, one per job, also when the generator fails or throws. The destructor
  returns, and by then every job submitted before it has been worked off; later submissions are
  ignored.\<close>

theorem thumbnail_jobs_complete:
  assumes "thumbnail_reachable g w"
  shows "(\<exists>finished. submitted w = finished @ in_hand (phase w) @ m_queue w \<and> reports w = map (report_of g) finished) \<and>
    phase (ThumbnailWorker_destroy w) = Returned \<and>
    reports (ThumbnailWorker_destroy w) = map (report_of g) (submitted w) \<and>
    SubmitJob a b (ThumbnailWorker_destroy w) = ThumbnailWorker_destroy w"
proof (intro conjI)
  let ?d = "ThumbnailWorker_destroy w"
  have inv: "thumbnail_inv g w" using assms by (rule thumbnail_reachable_inv)
  then show "\<exists>finished. submitted w = finished @ in_hand (phase w) @ m_queue w \<and> reports w = map (report_of g) finished"
    by (auto simp: thumbnail_inv_def)
  have stopped: "thumbnail_reachable g (ThumbnailWorker_stop w)"
    using assms thumbnail_step.stop by (rule thumbnail_reachable.step)
  show returned: "phase ?d = Returned"
    unfolding ThumbnailWorker_destroy_def
    by (rule run_returns) (simp_all add: ThumbnailWorker_stop_def split: worker_phase.split)
  have r: "thumbnail_reachable g ?d" unfolding ThumbnailWorker_destroy_def using stopped by (rule run_reachable)
  have "submitted ?d = submitted w" unfolding ThumbnailWorker_destroy_def run_submitted by (simp add: ThumbnailWorker_stop_def)
  moreover have d: "thumbnail_inv g ?d" using r by (rule thumbnail_reachable_inv)
  ultimately show "reports ?d = map (report_of g) (submitted w)"
    using tw.finished_all_started [OF r returned] returned by (auto simp: thumbnail_inv_def)
  show "SubmitJob a b ?d = ?d" using d returned by (simp add: thumbnail_inv_def SubmitJob_def)
qed

definition failing_generator :: generator where
  "failing_generator = \<lparr>Generate = (\<lambda>a b. if a = ''bad.usda'' then GenerateThrew else Generated), Extension = ''.png''\<rparr>"

theorem thumbnail_jobs_complete_witness:
  "reports (ThumbnailWorker_destroy (SubmitJob ''ok.usda'' ''ok.png'' (SubmitJob ''bad.usda'' ''bad.png''
     (ThumbnailWorker_create failing_generator)))) =
   [(\<lparr>job_usd_file = ''bad.usda'', job_out_path = ''bad.png''\<rparr>, GenerateThrew),
    (\<lparr>job_usd_file = ''ok.usda'', job_out_path = ''ok.png''\<rparr>, Generated)]"
proof -
  have "thumbnail_reachable failing_generator (SubmitJob ''ok.usda'' ''ok.png'' (SubmitJob ''bad.usda'' ''bad.png''
     (ThumbnailWorker_create failing_generator)))"
    by (intro thumbnail_reachable.step [OF _ thumbnail_step.submit] thumbnail_reachable.create)
  from thumbnail_jobs_complete [OF this]
  have "reports (ThumbnailWorker_destroy (SubmitJob ''ok.usda'' ''ok.png'' (SubmitJob ''bad.usda'' ''bad.png''
     (ThumbnailWorker_create failing_generator)))) = map (report_of failing_generator)
       (submitted (SubmitJob ''ok.usda'' ''ok.png'' (SubmitJob ''bad.usda'' ''bad.png'' (ThumbnailWorker_create failing_generator))))"
    by blast
  also have "\<dots> = [(\<lparr>job_usd_file = ''bad.usda'', job_out_path = ''bad.png''\<rparr>, GenerateThrew),
    (\<lparr>job_usd_file = ''ok.usda'', job_out_path = ''ok.png''\<rparr>, Generated)]"
    by (simp add: SubmitJob_def ThumbnailWorker_create_def report_of_def failing_generator_def Let_def)
  finally show ?thesis .
qed

end
