(* ===== verification/Thumbnail_Generators.thy ===== *)
theory Thumbnail_Generators
  imports Imaging_Thumbnail Thumbnail_Worker
begin

text \<open>
  The interface \<^verbatim>\<open>ThumbnailGenerator\<close> (\<^verbatim>\<open>source/thumbnails/ThumbnailGenerator.h\<close>) as a locale: what the worker,
  and whoever else uses the files on the disk, may rely on whichever generator is configured. Both
  implementations satisfy it.
\<close>

text \<open>The jobs in the order in which the worker takes them; a failure is logged and the next job runs.\<close>

fun run_jobs :: "(fspath \<Rightarrow> fspath \<Rightarrow> disk \<Rightarrow> (string option \<times> disk) option) \<Rightarrow> Job list \<Rightarrow> disk \<Rightarrow> (string option list \<times> disk) option" where
  "run_jobs generate [] d = Some ([], d)"
| "run_jobs generate (j # js) d =
     (case generate (job_usd_file j) (job_out_path j) d of
        None \<Rightarrow> None
      | Some (r, d') \<Rightarrow> map_option (\<lambda>x. (r # fst x, snd x)) (run_jobs generate js d'))"

locale thumbnail_generator =
  fixes generate :: "fspath \<Rightarrow> fspath \<Rightarrow> disk \<Rightarrow> (string option \<times> disk) option"
    and touched :: "fspath \<Rightarrow> string list set"
  assumes returns: "plain_name (path_filename out) \<Longrightarrow> \<exists>r d'. generate usd_path out d = Some (r, d')"
    and written: "plain_name (path_filename out) \<Longrightarrow> generate usd_path out d = Some (None, d') \<Longrightarrow> d' (file_key out) \<noteq> None"
    and frame: "plain_name (path_filename out) \<Longrightarrow> generate usd_path out d = Some (r, d') \<Longrightarrow> k \<notin> touched out \<Longrightarrow> d' k = d k"
begin

lemma run_jobs_effect:
  assumes "\<And>j. j \<in> set js \<Longrightarrow> plain_name (path_filename (job_out_path j))"
  shows "\<exists>rs d'. run_jobs generate js d = Some (rs, d') \<and> length rs = length js \<and>
    (\<forall>k. (\<forall>j \<in> set js. k \<notin> touched (job_out_path j)) \<longrightarrow> d' k = d k)"
  using assms
proof (induction js arbitrary: d)
  case (Cons j js)
  obtain r d1 where g: "generate (job_usd_file j) (job_out_path j) d = Some (r, d1)" using returns Cons.prems by force
  obtain rs d' where js: "run_jobs generate js d1 = Some (rs, d')" "length rs = length js"
    "\<forall>k. (\<forall>j \<in> set js. k \<notin> touched (job_out_path j)) \<longrightarrow> d' k = d1 k" using Cons by (metis list.set_intros(2))
  then show ?case using g frame [OF _ g] Cons.prems by auto
qed simp

text \<open>The output of a job is there when no later job touches it.\<close>

lemma run_jobs_written:
  assumes "\<And>i. i \<in> set (js @ j # js') \<Longrightarrow> plain_name (path_filename (job_out_path i))"
    and "run_jobs generate (js @ j # js') d = Some (rs, d')" and "rs ! length js = None"
    and "\<And>i. i \<in> set js' \<Longrightarrow> file_key (job_out_path j) \<notin> touched (job_out_path i)"
  shows "d' (file_key (job_out_path j)) \<noteq> None"
  using assms
proof (induction js arbitrary: d rs)
  case Nil
  then obtain d1 rs' where g: "generate (job_usd_file j) (job_out_path j) d = Some (None, d1)" "run_jobs generate js' d1 = Some (rs', d')"
    by (auto split: option.splits)
  have "d1 (file_key (job_out_path j)) \<noteq> None" using written [OF _ g(1)] Nil.prems(1) by simp
  moreover have "d' (file_key (job_out_path j)) = d1 (file_key (job_out_path j))"
    using run_jobs_effect [of js' d1] Nil.prems(1,4) g(2) by auto
  ultimately show ?case by simp
next
  case (Cons i js)
  then obtain d1 r rs' where "run_jobs generate (js @ j # js') d1 = Some (rs', d')" "rs = r # rs'" by (auto split: option.splits)
  with Cons show ?case by simp
qed

end

text \<open>The image file and the temporary of the rendering generator.\<close>

definition image_files :: "fspath \<Rightarrow> string list set" where
  "image_files out = {file_key out, file_key (image_tmp out)}"

definition imaging_file :: "('st, 'z) imaging_scheme \<Rightarrow> u32 \<Rightarrow> environment \<Rightarrow> fspath \<Rightarrow> fspath \<Rightarrow> disk \<Rightarrow> (string option \<times> disk) option" where
  "imaging_file im m_size env usd_path out d = map_option (\<lambda>(r, e, d', rs). (r, d')) (Imaging_Generate im m_size usd_path out env d)"

interpretation ph: thumbnail_generator
  "placeholder_file layers can_open can_write partial (PlaceholderThumbnailGenerator requested)" "\<lambda>out. {file_key out}"
proof (unfold_locales, goal_cases)
  note e = placeholder_file_effect [of "PlaceholderThumbnailGenerator requested"]
  have nz: "PlaceholderThumbnailGenerator requested \<noteq> 0" by (simp add: PlaceholderThumbnailGenerator_def)
  {
    case (1 out usd_path d)
    then show ?case using e [OF nz] by blast
  next
    case (2 out usd_path d d')
    then show ?case using e [OF nz, of layers can_open can_write partial usd_path out d] by auto
  next
    case (3 out usd_path d r d' k)
    then show ?case using e [OF nz, of layers can_open can_write partial usd_path out d] by auto
  }
qed

lemmas imaging_cases = Imaging_Generate_cases [OF UsdImagingThumbnailGenerator_nonzero]

interpretation ig: thumbnail_generator "imaging_file im (UsdImagingThumbnailGenerator requested) env" image_files
proof (unfold_locales, goal_cases)
  case (1 out usd_path d)
  then show ?case
    by (rule imaging_cases [where requested = requested and out = out and im = im and usd_path = usd_path and env = env and d = d]) (simp add: imaging_file_def)
next
  case (2 out usd_path d d')
  show ?case
    by (rule imaging_cases [OF 2(1), where requested = requested and im = im and usd_path = usd_path and env = env and d = d])
      (use 2(2) in \<open>auto simp: imaging_file_def\<close>)
next
  case (3 out usd_path d r d' k)
  show ?case
    by (rule imaging_cases [OF 3(1), where requested = requested and im = im and usd_path = usd_path and env = env and d = d])
      (use 3(2,3) in \<open>auto simp: imaging_file_def image_files_def\<close>)
qed

lemma image_names:
  assumes "plain_name (path_filename out)" and "ends_with (path_filename out) ''.png''" and "k \<in> image_files out"
  shows "\<not> IsUsdFilename (last k)"
proof -
  have png: "\<not> IsUsdFilename n" if "ends_with n ''.png''" for n
    using that by (auto simp: IsUsdFilename_def ends_with_suffix suffix_def)
  obtain a where a: "path_filename out = a @ ''.png''" using assms(2) by (auto simp: ends_with_suffix suffix_def)
  have "path_extension out = ''.png'' \<or> path_filename out = ''.png'' \<and> path_extension out = []"
    by (auto simp: path_extension_def name_split_def a Let_def takeWhile_append)
  then have "\<not> IsUsdFilename (path_stem out @ ''.tmp'' @ path_extension out)"
    by (auto simp: IsUsdFilename_def ends_with_suffix suffix_def)
  moreover have "last (file_key (image_tmp out)) = path_stem out @ ''.tmp'' @ path_extension out"
    using file_key_join [OF tmp_name_plain [OF assms(1)], of "path_parent out"] by (simp add: image_tmp_def)
  ultimately show ?thesis using assms(2,3) png file_key_last [OF assms(1)] by (auto simp: image_files_def)
qed

text \<open>C32: Rendering thumbnails never touches an upload, whichever generator is configured. For every sequence of
  jobs whose outputs are named as the upload endpoint names them, the worker gets an answer for each
  job, every file with the name of a USD file keeps its content, and the output of a job that
  succeeded is there unless a later job has the same name for its image or temporary.\<close>

theorem thumbnails_spare_uploads:
  assumes "\<And>j. j \<in> set js \<Longrightarrow> plain_name (path_filename (job_out_path j)) \<and> ends_with (path_filename (job_out_path j)) ''.png''"
    and "generate = placeholder_file layers can_open can_write partial (PlaceholderThumbnailGenerator requested) \<or>
      generate = imaging_file im (UsdImagingThumbnailGenerator requested) env"
  shows "\<exists>rs d'. run_jobs generate js d = Some (rs, d') \<and> length rs = length js \<and>
    (\<forall>k. IsUsdFilename (last k) \<longrightarrow> d' k = d k) \<and>
    (\<forall>i < length js. rs ! i = None \<and> (\<forall>j \<in> set (drop (Suc i) js). file_key (job_out_path (js ! i)) \<notin> image_files (job_out_path j)) \<longrightarrow>
       d' (file_key (job_out_path (js ! i))) \<noteq> None)"
proof -
  have p: "plain_name (path_filename (job_out_path j))" if "j \<in> set js" for j using assms(1) that by blast
  have usd: "k \<notin> image_files (job_out_path j)" if "IsUsdFilename (last k)" "j \<in> set js" for k j
    using image_names assms(1) that by blast
  obtain touched where t: "thumbnail_generator generate touched" "\<And>out. touched out \<subseteq> image_files out"
    using assms(2) ph.thumbnail_generator_axioms ig.thumbnail_generator_axioms
    by (elim disjE) (force simp: image_files_def, blast)
  obtain rs d' where r: "run_jobs generate js d = Some (rs, d')" "length rs = length js"
    "\<forall>k. (\<forall>j \<in> set js. k \<notin> touched (job_out_path j)) \<longrightarrow> d' k = d k"
    using thumbnail_generator.run_jobs_effect [OF t(1) p] by blast
  have "d' (file_key (job_out_path (js ! i))) \<noteq> None"
    if "i < length js" "rs ! i = None" "\<forall>j \<in> set (drop (Suc i) js). file_key (job_out_path (js ! i)) \<notin> image_files (job_out_path j)" for i
  proof -
    have e: "take i js @ js ! i # drop (Suc i) js = js" by (rule id_take_nth_drop [OF that(1), symmetric])
    have l: "length (take i js) = i" using that(1) by simp
    show ?thesis
    proof (rule thumbnail_generator.run_jobs_written [OF t(1)])
      show "run_jobs generate (take i js @ js ! i # drop (Suc i) js) d = Some (rs, d')" unfolding e by (rule r(1))
      show "rs ! length (take i js) = None" unfolding l by (rule that(2))
    qed (use p that(3) t(2) in \<open>unfold e, auto\<close>)
  qed
  moreover have "d' k = d k" if "IsUsdFilename (last k)" for k using r(3) usd [OF that] t(2) by blast
  ultimately show ?thesis using r(1,2) by blast
qed

text \<open>The temporary of one image can be the image of another file: rendering the thumbnail of \<^verbatim>\<open>a.usda\<close> overwrites
  the one of \<^verbatim>\<open>a.tmp.usda\<close>.\<close>

lemma temporary_hits_neighbour: "file_key ''thumbs/a.tmp.png'' \<in> image_files ''thumbs/a.png''"
  by code_simp

theorem thumbnails_spare_uploads_witness:
  "\<exists>rs d'. run_jobs (imaging_file demo_imaging (UsdImagingThumbnailGenerator 0) Map.empty)
       [\<lparr>job_usd_file = ''a.usda'', job_out_path = ''thumbs/a.png''\<rparr>, \<lparr>job_usd_file = ''b.usda'', job_out_path = ''thumbs/b.png''\<rparr>]
       [[''a.usda''] \<mapsto> ''A''] = Some (rs, d') \<and> length rs = 2 \<and> d' [''a.usda''] = Some ''A''"
proof -
  let ?js = "[\<lparr>job_usd_file = ''a.usda'', job_out_path = ''thumbs/a.png''\<rparr>, \<lparr>job_usd_file = ''b.usda'', job_out_path = ''thumbs/b.png''\<rparr>]"
  have n: "plain_name (path_filename (job_out_path j)) \<and> ends_with (path_filename (job_out_path j)) ''.png''" if "j \<in> set ?js" for j
    using that by (auto simp: plain_name_def path_filename_def slash_def ends_with_def)
  have u: "IsUsdFilename (last [''a.usda''])" by code_simp
  obtain rs d' where "run_jobs (imaging_file demo_imaging (UsdImagingThumbnailGenerator 0) Map.empty) ?js [[''a.usda''] \<mapsto> ''A''] = Some (rs, d')"
    "length rs = length ?js" "\<forall>k. IsUsdFilename (last k) \<longrightarrow> d' k = [[''a.usda''] \<mapsto> ''A''] k"
    using thumbnails_spare_uploads [where js = ?js, OF n disjI2 [OF refl], where im = demo_imaging and requested = 0 and env = Map.empty
        and d = "[[''a.usda''] \<mapsto> ''A'']"] by blast
  then show ?thesis using u by (intro exI [of _ rs] exI [of _ d']) simp
qed

end
