(* ===== verification/Health.thy ===== *)
theory Health
  imports Environment Http
begin

text \<open>
  The health endpoint (\<^verbatim>\<open>source/controller/HealthController.{h,cpp}\<close>).

  The time stamp is what \<^verbatim>\<open>gmtime_r\<close> and \<^verbatim>\<open>std::put_time\<close> make of the seconds since the epoch, which are an
  argument. \<^verbatim>\<open>gmtime_r\<close> counts whole years and months off the days; \<open>timegm\<close> adds them up again and is
  the reference the result is measured against.
\<close>

subsection \<open>Calendar\<close>

definition leap_year :: "nat \<Rightarrow> bool" where
  "leap_year y \<longleftrightarrow> y mod 4 = 0 \<and> (y mod 100 \<noteq> 0 \<or> y mod 400 = 0)"

definition year_days :: "nat \<Rightarrow> nat" where
  "year_days y = (if leap_year y then 366 else 365)"

definition month_lengths :: "nat \<Rightarrow> nat list" where
  "month_lengths y = [31, if leap_year y then 29 else 28, 31, 30, 31, 30, 31, 31, 30, 31, 30, 31]"

lemma year_days_pos [simp]: "0 < year_days y"
  by (simp add: year_days_def)

function civil_year :: "nat \<Rightarrow> nat \<Rightarrow> nat \<times> nat" where
  "civil_year y d = (if d < year_days y then (y, d) else civil_year (Suc y) (d - year_days y))"
  by pat_completeness auto
termination
  by (relation "measure snd") (auto simp: year_days_def)

declare civil_year.simps [simp del]

fun civil_month :: "nat \<Rightarrow> nat list \<Rightarrow> nat \<Rightarrow> nat \<times> nat" where
  "civil_month m [] d = (m, d)"
| "civil_month m (l # ls) d = (if d < l then (m, d) else civil_month (Suc m) ls (d - l))"

record tm =
  tm_year :: nat
  tm_mon :: nat
  tm_mday :: nat
  tm_hour :: nat
  tm_min :: nat
  tm_sec :: nat

definition gmtime :: "nat \<Rightarrow> tm" where
  "gmtime t =
     (case civil_year 1970 (t div 86400) of (y, d) \<Rightarrow>
        case civil_month 0 (month_lengths y) d of (m, k) \<Rightarrow>
          \<lparr>tm_year = y, tm_mon = m, tm_mday = k + 1,
           tm_hour = t mod 86400 div 3600, tm_min = t mod 3600 div 60, tm_sec = t mod 60\<rparr>)"

definition two_digits :: "nat \<Rightarrow> string" where
  "two_digits n = [digit_char (n div 10 mod 10), digit_char (n mod 10)]"

definition put_time :: "tm \<Rightarrow> string" where
  "put_time x =
     nat_to_string (tm_year x) @ ''-'' @ two_digits (tm_mon x + 1) @ ''-'' @ two_digits (tm_mday x) @ ''T'' @
     two_digits (tm_hour x) @ '':'' @ two_digits (tm_min x) @ '':'' @ two_digits (tm_sec x) @ ''Z''"

definition get_current_timestamp :: "nat \<Rightarrow> string" where
  "get_current_timestamp now = put_time (gmtime now)"

definition GetHealth :: "nat \<Rightarrow> response" where
  "GetHealth now =
     empty_response\<lparr>code := 200,
       res_body := Json (JObject [(''status'', JString ''ok''), (''timestamp'', JString (get_current_timestamp now))])\<rparr>"

subsection \<open>Reading a time stamp\<close>

definition timegm :: "tm \<Rightarrow> nat" where
  "timegm x =
     ((\<Sum>y = 1970..<tm_year x. year_days y) + sum_list (take (tm_mon x) (month_lengths (tm_year x))) + (tm_mday x - 1)) * 86400 +
     tm_hour x * 3600 + tm_min x * 60 + tm_sec x"

definition scan_time :: "string \<Rightarrow> tm" where
  "scan_time s =
     \<lparr>tm_year = digits_value (take 4 s), tm_mon = digits_value (take 2 (drop 5 s)) - 1, tm_mday = digits_value (take 2 (drop 8 s)),
      tm_hour = digits_value (take 2 (drop 11 s)), tm_min = digits_value (take 2 (drop 14 s)), tm_sec = digits_value (take 2 (drop 17 s))\<rparr>"

lemma civil_year_spec:
  "civil_year y d = (y', d') \<Longrightarrow> d' < year_days y' \<and> y \<le> y' \<and> d = (\<Sum>k = y..<y'. year_days k) + d'"
proof (induction y d arbitrary: y' d' rule: civil_year.induct)
  case (1 y d)
  show ?case
  proof (cases "d < year_days y")
    case True
    then show ?thesis using 1(2) by (simp add: civil_year.simps)
  next
    case False
    then have "civil_year (Suc y) (d - year_days y) = (y', d')" using 1(2) by (simp add: civil_year.simps [of y])
    from 1(1) [OF False this] False show ?thesis by (auto simp: sum.atLeast_Suc_lessThan)
  qed
qed

lemma civil_month_spec:
  "civil_month m ls d = (m', d') \<Longrightarrow> d < sum_list ls \<Longrightarrow>
   m \<le> m' \<and> m' - m < length ls \<and> d' < ls ! (m' - m) \<and> d = sum_list (take (m' - m) ls) + d'"
proof (induction ls arbitrary: m d)
  case (Cons l ls)
  show ?case
  proof (cases "d < l")
    case False
    then have "civil_month (Suc m) ls (d - l) = (m', d')" "d - l < sum_list ls" using Cons.prems by auto
    from Cons.IH [OF this] False show ?thesis by (auto simp: Suc_diff_le dest!: Suc_leD simp flip: Suc_diff_Suc)
  qed (use Cons.prems in simp)
qed simp

lemma month_lengths_sum: "sum_list (month_lengths y) = year_days y"
  by (simp add: month_lengths_def year_days_def)

lemma month_lengths_bound: "m < 12 \<Longrightarrow> month_lengths y ! m \<le> 31"
  by (auto simp: month_lengths_def nth_Cons' less_Suc_eq numeral_eq_Suc)

lemma time_of_day: "n div 3600 * 3600 + n mod 3600 div 60 * 60 + n mod 60 = (n :: nat)"
proof -
  have "n mod 3600 mod 60 = n mod 60" by (rule mod_mod_cancel) simp
  then show ?thesis by (metis add.assoc div_mult_mod_eq)
qed

text \<open>What \<^verbatim>\<open>gmtime_r\<close> returns is a date, and the date of that instant.\<close>

lemma gmtime_correct:
  "timegm (gmtime t) = t" "tm_mon (gmtime t) < 12" "tm_mday (gmtime t) \<le> 31" "0 < tm_mday (gmtime t)"
  "tm_hour (gmtime t) < 24" "tm_min (gmtime t) < 60" "tm_sec (gmtime t) < 60" "1970 \<le> tm_year (gmtime t)"
  "(\<Sum>y = 1970..<tm_year (gmtime t). year_days y) \<le> t div 86400"
  "tm_mday (gmtime t) - 1 < month_lengths (tm_year (gmtime t)) ! tm_mon (gmtime t)"
proof -
  obtain y d where y: "civil_year 1970 (t div 86400) = (y, d)" by fastforce
  obtain m k where m: "civil_month 0 (month_lengths y) d = (m, k)" by fastforce
  note ys = civil_year_spec [OF y]
  have ms: "m < 12 \<and> k < month_lengths y ! m \<and> d = sum_list (take m (month_lengths y)) + k"
    using civil_month_spec [OF m] ys by (simp add: month_lengths_sum month_lengths_def [THEN arg_cong, of length, simplified])
  have g: "gmtime t = \<lparr>tm_year = y, tm_mon = m, tm_mday = k + 1, tm_hour = t mod 86400 div 3600, tm_min = t mod 3600 div 60, tm_sec = t mod 60\<rparr>"
    by (simp add: gmtime_def y m)
  have c: "t mod 86400 mod 3600 = t mod 3600" "t mod 86400 mod 60 = t mod 60" by (simp_all add: mod_mod_cancel)
  have "(t div 86400) * 86400 + (t mod 86400 div 3600 * 3600 + t mod 3600 div 60 * 60 + t mod 60) = t"
    using time_of_day [of "t mod 86400"] by (simp add: c)
  then show "timegm (gmtime t) = t" using ys ms by (simp add: timegm_def g)
  show "tm_mday (gmtime t) \<le> 31" using ms month_lengths_bound [of m y] by (simp add: g)
  show "(\<Sum>y = 1970..<tm_year (gmtime t). year_days y) \<le> t div 86400" using ys by (simp add: g)
  show "tm_hour (gmtime t) < 24" by (simp add: g less_mult_imp_div_less)
  show "tm_min (gmtime t) < 60" by (simp add: g less_mult_imp_div_less)
  show "tm_mon (gmtime t) < 12" "0 < tm_mday (gmtime t)" "tm_sec (gmtime t) < 60" "1970 \<le> tm_year (gmtime t)"
    "tm_mday (gmtime t) - 1 < month_lengths (tm_year (gmtime t)) ! tm_mon (gmtime t)"
    using ys ms by (simp_all add: g)
qed

subsection \<open>Printing and reading\<close>

lemma two_digits_value: "n < 100 \<Longrightarrow> digits_value (two_digits n) = n"
  using digit_char_props [of "n div 10"] digit_char_props [of "n mod 10"]
  by (simp add: two_digits_def digits_value_def)

lemma two_digits_length [simp]: "length (two_digits n) = 2"
  by (simp add: two_digits_def)

lemma year_length: "1000 \<le> n \<Longrightarrow> n < 10000 \<Longrightarrow> length (nat_to_string n) = 4"
proof -
  assume n: "1000 \<le> n" "n < 10000"
  then have "n div 1000 < 10" "\<not> n div 100 < 10" "\<not> n div 10 < 10" by simp_all
  then show ?thesis
    using n by (simp add: nat_to_string.simps [of n] nat_to_string.simps [of "n div 10"] nat_to_string.simps [of "n div 100"]
        nat_to_string.simps [of "n div 1000"] div_mult2_eq [symmetric])
qed

lemma drop_first: "length xs = k \<Longrightarrow> drop (k + n) (xs @ ys) = drop n ys" "length xs = k \<Longrightarrow> take k (xs @ ys) = xs"
  by simp_all

lemma scan_put_time:
  assumes "1000 \<le> tm_year x" "tm_year x < 10000" "tm_mon x < 12" "tm_mday x < 100" "tm_hour x < 100" "tm_min x < 100" "tm_sec x < 100"
  shows "scan_time (put_time x) = x"
proof -
  have y: "length (nat_to_string (tm_year x)) = 4" by (rule year_length [OF assms(1,2)])
  show ?thesis
    by (cases x) (use assms y in \<open>simp add: scan_time_def put_time_def two_digits_value digits_value_nat_to_string numeral_eq_Suc\<close>)
qed

lemma year_before: "t div 86400 < (\<Sum>y = 1970..<n. year_days y) \<Longrightarrow> tm_year (gmtime t) < n"
proof (rule ccontr)
  assume t: "t div 86400 < (\<Sum>y = 1970..<n. year_days y)" and "\<not> tm_year (gmtime t) < n"
  then have "(\<Sum>y = 1970..<n. year_days y) \<le> (\<Sum>y = 1970..<tm_year (gmtime t). year_days y)"
    by (intro sum_mono2) auto
  then show False using t gmtime_correct(9) [of t] by simp
qed

lemma years_at_least: "365 * (n - 1970) \<le> (\<Sum>y = 1970..<n. year_days y)"
proof -
  have "365 \<le> year_days y" for y by (simp add: year_days_def)
  then show ?thesis using sum_bounded_below [of "{1970..<n}" 365 year_days] by (simp add: mult.commute)
qed

text \<open>The health endpoint reports the time. Up to the end of the year 9999 the time stamp in its reply, read
  as a date and a time of day, is a calendar date, and its distance from the epoch is the number of
  seconds the clock showed.\<close>

theorem health_timestamp_reads_back:
  assumes "now div 86400 < (\<Sum>y = 1970..<10000. year_days y)"
  shows "\<exists>stamp x. res_body (GetHealth now) = Json (JObject [(''status'', JString ''ok''), (''timestamp'', JString stamp)]) \<and>
    scan_time stamp = x \<and> timegm x = now \<and> tm_mon x < 12 \<and> tm_mday x - 1 < month_lengths (tm_year x) ! tm_mon x \<and>
    tm_hour x < 24 \<and> tm_min x < 60 \<and> tm_sec x < 60"
proof -
  note g = gmtime_correct [of now]
  have "scan_time (get_current_timestamp now) = gmtime now"
    unfolding get_current_timestamp_def by (rule scan_put_time) (use g year_before [OF assms] in simp_all)
  then show ?thesis using g by (simp add: GetHealth_def)
qed

theorem health_timestamp_reads_back_witness:
  "get_current_timestamp 1709210096 = ''2024-02-29T12:34:56Z'' \<and>
   (\<exists>stamp x. res_body (GetHealth 1709210096) = Json (JObject [(''status'', JString ''ok''), (''timestamp'', JString stamp)]) \<and>
      scan_time stamp = x \<and> timegm x = 1709210096)"
proof
  show "get_current_timestamp 1709210096 = ''2024-02-29T12:34:56Z''"
    by (simp add: get_current_timestamp_def gmtime_def civil_year.simps year_days_def leap_year_def month_lengths_def
        put_time_def nat_to_string.simps two_digits_def digit_char_def) code_simp
  have "1709210096 div 86400 < (\<Sum>y = 1970..<10000. year_days y)" using years_at_least [of 10000] by simp
  from health_timestamp_reads_back [OF this]
  show "\<exists>stamp x. res_body (GetHealth 1709210096) = Json (JObject [(''status'', JString ''ok''), (''timestamp'', JString stamp)]) \<and>
      scan_time stamp = x \<and> timegm x = 1709210096" by blast
qed

end
