(* ===== verification/Manager_Properties.thy ===== *)
theory Manager_Properties
  imports Manager_Invariant
begin

text \<open>
  What the registry guarantees: well-formedness, coalesced corrections, orderly destruction, the
  reaper, and the reloads after a file was replaced.
\<close>

subsection \<open>A manager with one session\<close>

definition demo_fs :: filesystem_view where
  "demo_fs = \<lparr>fs_canonical = (\<lambda>p. Inr (path_elems p)), fs_exists = (\<lambda>_. True), fs_create_directories = (\<lambda>_. None),
     fs_probe_write = (\<lambda>_. True)\<rparr>"

definition demo_stages :: "mini_stage stage_library" where
  "demo_stages = \<lparr>FindOrOpen = (\<lambda>_ _. True), CreateNew = (\<lambda>p d. (True, d(file_key p \<mapsto> []))),
     OpenStage = (\<lambda>_ _ _. Some mini_root_stage), SetEditTarget = (\<lambda>st. st), ClearSessionLayer = Inr\<rparr>"

definition demo_empty :: "mini_stage SessionManager" where
  "demo_empty = SessionManager_create \<lparr>root = ''uploads'', session_root = ''sessions''\<rparr> 60 Map.empty"

definition demo_id :: string where
  "demo_id = GenerateUuidV4 1 2"

definition demo_hosted :: "mini_stage hosted" where
  "demo_hosted = \<lparr>session = new_session demo_id ''a.usda'' ''uploads/a.usda'' mini_root_stage SingleEdit True
       (path_join ''sessions'' (demo_id @ ''.usda'')) 0 0, commands = Some empty_queue\<rparr>"

definition demo_manager :: "mini_stage SessionManager" where
  "demo_manager = snd (Create_session demo_fs demo_stages (1, 2) 0 0 ''a.usda'' SingleEdit True demo_empty)"

lemma demo_resolve: "Resolve demo_fs \<lparr>root = ''uploads'', session_root = ''sessions''\<rparr> ''a.usda'' = (Ok, ''uploads/a.usda'')"
  by code_simp

lemma demo_manager_eq:
  "demo_manager = put_object 0 demo_hosted
     (demo_empty\<lparr>files := [file_key (path_join ''sessions'' (demo_id @ ''.usda'')) \<mapsto> []], next_object := 1, m_sessions := [(demo_id, 0)]\<rparr>)"
  by (simp add: demo_manager_def Create_session_def demo_empty_def SessionManager_create_def demo_resolve demo_stages_def
      demo_hosted_def demo_id_def emplace_def Let_def)

lemma demo_reachable: "manager_reachable mini_lib demo_stages demo_manager"
proof -
  have "manager_step mini_lib demo_stages demo_empty demo_manager"
    unfolding demo_manager_def by (rule manager_step.create [OF prod.collapse [symmetric]])
  then show ?thesis by (auto simp: manager_reachable_def demo_empty_def)
qed

subsection \<open>Well-formedness\<close>



text \<open>C37: Corrections are coalesced: at any time at most one correction per connection and prim is queued in
  a session, always in the priority queue, and the mark of the pending correction is set exactly
  while there is one, so a rejection after the state was read queues a new one.\<close>

theorem corrections_coalesced:
  assumes "manager_reachable lib sl m" and "objects m r = Some h" and "commands h = Some q"
  shows "cnt (is_correction key) (q_priority q) = (if correction_queued (session h) key then 1 else 0) \<and>
    cnt (is_correction key) (q_normal q) = 0"
  using manager_invD(1) [OF manager_reachable_inv [OF assms(1)] assms(2)] assms(3)
  by (cases key) (simp add: hosted_ok_def)

definition demo_corrected :: "mini_stage SessionManager" where
  "demo_corrected = SubmitCorrectionCommand in_turn demo_id 1 (Some (1, ''/World'')) demo_manager"

theorem corrections_coalesced_witness:
  "\<exists>h q. objects demo_corrected 0 = Some h \<and> commands h = Some q \<and> correction_queued (session h) (1, ''/World'') \<and>
     cnt (is_correction (1, ''/World'')) (q_priority q) = 1"
proof -
  have "manager_reachable mini_lib demo_stages demo_corrected"
    unfolding demo_corrected_def by (rule manager_reachable_step [OF demo_reachable manager_step.correction])
  moreover obtain h where h: "objects demo_corrected 0 = Some h" "correction_queued (session h) (1, ''/World'')"
      "commands h = Some (empty_queue\<lparr>q_priority := [Correction 1 (Some (1, ''/World''))]\<rparr>)"
    by (simp add: demo_corrected_def demo_manager_eq SubmitCorrectionCommand_def Get_session_def correction_marked_def
        mark_correction_def Submit_def admit_def demo_hosted_def new_session_alt empty_queue_def lane_capacity_def
        kPriorityMailboxCapacity_def put_object_def)
  ultimately show ?thesis using corrections_coalesced [OF _ h(1,3), of mini_lib demo_stages "(1, ''/World'')"] by auto
qed

subsection \<open>Destruction\<close>

definition overrides_committed :: "('st, 'ly) Library \<Rightarrow> 'st Session \<Rightarrow> disk \<Rightarrow> bool" where
  "overrides_committed lib s d \<longleftrightarrow>
     auto_commit s \<and> has_overrides (usd lib) s \<and>
     (case fst (CommitOverrides lib False (s\<lparr>listener_registered := False\<rparr>, d)) of
        Inl _ \<Rightarrow> False | Inr result \<Rightarrow> commit_status result = CommitOk)"

lemma CommitOverrides_frame:
  assumes "CommitOverrides lib False (s, d) = (res, s', d')"
  shows "stage s' = stage s \<and> dirty s' = (dirty s \<and> (\<forall>r. res = Inr r \<longrightarrow> commit_status r \<noteq> CommitOk))"
  using assms by (auto simp: CommitOverrides_def Let_def split: option.splits if_splits prod.splits sum.splits)

lemma teardown_idle_reports:
  assumes "teardown_idle lib sl (s, d) = (Inr ws, s', d')"
  shows "\<not> listener_registered s' \<and> (has_overrides (usd lib) s \<longrightarrow> UncommittedOverrides \<in> set ws \<or> overrides_committed lib s d) \<and>
    (dirty s \<longrightarrow> UnflushedChanges \<in> set ws \<or> overrides_committed lib s d)"
proof -
  let ?s0 = "s\<lparr>listener_registered := False\<rparr>"
  obtain res s1 d1 where c: "CommitOverrides lib False (?s0, d) = (res, s1, d1)" by (metis prod_cases3)
  have k: "listener_registered s1 = listener_registered ?s0"
    using kept_CommitOverrides [OF c] by (simp add: kept_def fixed_part_def)
  have o: "has_overrides (usd lib) ?s0 = has_overrides (usd lib) s" by (simp add: has_overrides_def)
  show ?thesis
    using assms c k CommitOverrides_frame [OF c]
    by (auto simp: teardown_idle_def Let_def o overrides_committed_def split: if_splits option.splits sum.splits prod.splits)
qed

lemma teardown_idle_sidecar:
  assumes "teardown_idle lib sl (s, d) = (Inr ws, s', d')" and "sidecar_path s \<noteq> []" and "remove_works (cenv lib) (sidecar_path s)"
  shows "d' (file_key (sidecar_path s)) = None"
proof -
  let ?s0 = "s\<lparr>listener_registered := False\<rparr>"
  obtain res s1 d1 where c: "CommitOverrides lib False (?s0, d) = (res, s1, d1)" by (metis prod_cases3)
  have k: "sidecar_path s1 = sidecar_path s" using kept_CommitOverrides [OF c] by (simp add: kept_def fixed_part_def)
  show ?thesis
    using assms c k by (auto simp: teardown_idle_def Let_def fs_remove_def split: if_splits option.splits sum.splits prod.splits)
qed



subsection \<open>The reaper\<close>

lemma teardown_all_effect:
  assumes "manager_inv m" and "set rs \<inter> registered m = {}" and "distinct rs" and "teardown_all lib sl sched rs m = Some m'"
  shows "only_receives (- set rs) m m' \<and> (\<forall>r\<in>set rs. \<forall>h. objects m r = Some h \<longrightarrow> (\<exists>h'. objects m' r = Some h' \<and> commands h' = Some drained))"
  using assms
proof (induction rs arbitrary: m)
  case (Cons r rs)
  then obtain m1 where t: "TeardownSession lib sl sched r m = Some m1" "teardown_all lib sl sched rs m1 = Some m'"
    by (auto simp: bind_eq_Some_conv)
  have nr: "r \<notin> registered m" using Cons.prems(2) by simp
  note i = Teardown_inv [OF Cons.prems(1) nr t(1)]
  then have reg: "registered m1 = registered m" by (simp add: registered_def)
  note IH = Cons.IH [OF conjunct1 [OF i] _ _ t(2)]
  have one: "only_receives (- {r}) m m1 \<and> (\<forall>h. objects m r = Some h \<longrightarrow> (\<exists>h'. objects m1 r = Some h' \<and> commands h' = Some drained))"
  proof (cases "objects m r")
    case None
    then show ?thesis using t(1) by (auto simp: TeardownSession_def close_and_drain_def)
  next
    case (Some h)
    have "commands h \<noteq> None" using manager_invD(1) [OF Cons.prems(1) Some] by (auto simp: hosted_ok_def)
    from Teardown_effect [OF Some this t(1)] show ?thesis using Some by auto
  qed
  have rest: "only_receives (- set rs) m1 m'" "\<forall>r\<in>set rs. \<forall>h. objects m1 r = Some h \<longrightarrow> (\<exists>h'. objects m' r = Some h' \<and> commands h' = Some drained)"
    using IH reg Cons.prems(2,3) by auto
  have "only_receives (- set (r # rs)) m m'"
    by (rule only_receives_trans [of _ _ m1]) (use one rest(1) in \<open>auto simp: only_receives_def\<close>)
  moreover have "\<exists>h'. objects m' x = Some h' \<and> commands h' = Some drained" if x: "x \<in> set (r # rs)" "objects m x = Some h" for x h
  proof (cases "x = r")
    case True
    then obtain h1 where h1: "objects m1 r = Some h1" "commands h1 = Some drained" using one x(2) by blast
    moreover have "\<not> accepts h1" using h1(2) by (simp add: accepts_def drained_def)
    ultimately show ?thesis using rest(1) True Cons.prems(3) by (fastforce simp: only_receives_def receives_def)
  next
    case False
    then show ?thesis using one rest(2) x by (fastforce simp: only_receives_def)
  qed
  ultimately show ?case by blast
qed simp

text \<open>A sweep of the reaper removes exactly the idle sessions, those without a client since at least the
  timeout, and counts them. A session that stays registered keeps its state and still admits
  commands; one that is removed ends closed, with every accepted command handled.\<close>

theorem reap_exactly_idle:
  fixes m :: "'a SessionManager"
  assumes "manager_reachable lib sl m" and "0 < m_idle_timeout m" and "ReapIdleSessions lib sl sched now m = Some (n, m')"
  shows "m_sessions m' = filter (\<lambda>e. \<not> idle_entry now m e) (m_sessions m) \<and>
    n = length (filter (idle_entry now m) (m_sessions m)) \<and>
    ((sid, r) \<in> set (m_sessions m) \<longrightarrow>
       (\<exists>h h'. objects m r = Some h \<and> objects m' r = Some h' \<and>
          (if clients (session h) = [] \<and> (\<exists>t. empty_since (session h) = Some t \<and> now - t \<ge> ns (m_idle_timeout m))
           then commands h' = Some drained
           else session h' = session h \<and> accepts h')))"
proof -
  note inv = manager_reachable_inv [OF assms(1)]
  let ?m = "m\<lparr>m_sessions := filter (\<lambda>e. \<not> idle_entry now m e) (m_sessions m)\<rparr>"
  let ?rs = "map snd (filter (idle_entry now m) (m_sessions m))"
  have n: "n = length (filter (idle_entry now m) (m_sessions m))" and t: "teardown_all lib sl sched ?rs ?m = Some m'"
    using assms(2,3) by (auto simp: ReapIdleSessions_def Let_def)
  have inv': "manager_inv ?m" by (rule manager_step_inv [OF manager_step.unregister inv])
  have dis: "set ?rs \<inter> registered ?m = {}" using registered_unique [OF inv] by (fastforce simp: registered_def)
  have "distinct ?rs" using inv by (auto simp: manager_inv_def distinct_map_filter)
  note eff = teardown_all_effect [OF inv' dis this t]
  have "m_sessions m' = m_sessions ?m" using mm.teardown_all_moves [OF inv' dis t] by blast
  moreover have "\<exists>h h'. objects m r = Some h \<and> objects m' r = Some h' \<and>
      (if is_idle now (m_idle_timeout m) (session h) then commands h' = Some drained else session h' = session h \<and> accepts h')"
    if mem: "(sid, r) \<in> set (m_sessions m)"
  proof -
    obtain h where h: "objects m r = Some h" "accepts h" using inv mem by (auto simp: manager_inv_def)
    have idle: "is_idle now (m_idle_timeout m) (session h) \<longleftrightarrow> r \<in> set ?rs"
      using h(1) mem registered_unique [OF inv mem] by (auto simp: idle_entry_def image_iff split: option.splits)
    show ?thesis using eff h idle by (cases "r \<in> set ?rs") (fastforce simp: only_receives_def receives_def)+
  qed
  moreover have "is_idle now k s \<longleftrightarrow> clients s = [] \<and> (\<exists>t. empty_since s = Some t \<and> now - t \<ge> ns k)" for k and s :: "'a Session"
    by (auto simp: is_idle_def split: option.splits)
  ultimately show ?thesis using n by simp
qed

theorem reap_exactly_idle_witness:
  "\<exists>m'. ReapIdleSessions mini_lib demo_stages in_turn (ns 60) demo_manager = Some (1, m') \<and> m_sessions m' = []"
proof -
  have i: "0 < m_idle_timeout demo_manager"
    by (simp add: demo_manager_eq demo_empty_def SessionManager_create_def)
  have idle: "filter (idle_entry (ns 60) demo_manager) (m_sessions demo_manager) = m_sessions demo_manager"
    by (simp add: demo_manager_eq idle_entry_def is_idle_def demo_hosted_def new_session_alt demo_empty_def SessionManager_create_def)
  then have idle': "filter (\<lambda>e. \<not> idle_entry (ns 60) demo_manager e) (m_sessions demo_manager) = []"
    by (auto simp: filter_empty_conv filter_id_conv)
  have ms: "m_sessions demo_manager = [(demo_id, 0)]" by (simp add: demo_manager_eq)
  have "close_and_drain mini_lib in_turn 0 (demo_manager\<lparr>m_sessions := []\<rparr>) \<noteq> None"
    by (simp add: close_and_drain_def demo_manager_eq demo_hosted_def empty_queue_def pending_commands_def)
  from Teardown_total [OF mini_save_returns this, of demo_stages] obtain n m' where
    "ReapIdleSessions mini_lib demo_stages in_turn (ns 60) demo_manager = Some (n, m')"
    using i idle idle' ms by (auto simp: ReapIdleSessions_def)
  from reap_exactly_idle [OF demo_reachable i this] this show ?thesis using idle idle' ms by auto
qed

subsection \<open>Reloads\<close>

definition received :: "bool \<Rightarrow> SessionCommand \<Rightarrow> 'st hosted \<Rightarrow> 'st hosted" where
  "received lossy c h = h\<lparr>commands := map_option (\<lambda>q. snd (admit lossy Normal c q)) (commands h)\<rparr>"

definition admits :: "bool \<Rightarrow> SessionCommand \<Rightarrow> 'st hosted option \<Rightarrow> bool" where
  "admits lossy c ho \<longleftrightarrow> (\<exists>h q. ho = Some h \<and> commands h = Some q \<and> fst (admit lossy Normal c q) = Accepted)"

lemma Submit_effect:
  assumes "Submit sched Normal r c m = (status, m')"
  shows "objects m' = (objects m)(r := map_option (received (push_lossy sched r) c) (objects m r))"
    and "status = SubmitAccepted \<longleftrightarrow> admits (push_lossy sched r) c (objects m r)"
proof -
  have id: "h\<lparr>commands := commands h\<rparr> = h" for h :: "'a hosted" by simp
  have "objects m' = (objects m)(r := map_option (received (push_lossy sched r) c) (objects m r)) \<and>
      (status = SubmitAccepted \<longleftrightarrow> admits (push_lossy sched r) c (objects m r))"
  proof (cases "objects m r")
    case None
    then show ?thesis using assms by (auto simp: Submit_def admits_def fun_upd_idem)
  next
    case (Some h)
    show ?thesis
    proof (cases "commands h")
      case None
      then have "received (push_lossy sched r) c h = h" by (cases h) (simp add: received_def)
      then show ?thesis using assms Some None by (auto simp: Submit_def admits_def fun_upd_idem)
    next
      case (Some q)
      obtain st q' where a: "admit (push_lossy sched r) Normal c q = (st, q')" by fastforce
      then show ?thesis using assms Some \<open>objects m r = Some h\<close>
        by (cases st) (auto simp: Submit_def admits_def received_def)
    qed
  qed
  then show "objects m' = (objects m)(r := map_option (received (push_lossy sched r) c) (objects m r))"
    and "status = SubmitAccepted \<longleftrightarrow> admits (push_lossy sched r) c (objects m r)" by blast+
qed

lemma submit_each_effect:
  assumes "submit_each sched c rs m = (n, m')" and "distinct rs"
  shows "objects m' r = (if r \<in> set rs then map_option (received (push_lossy sched r) c) (objects m r) else objects m r)"
    and "n = length (filter (\<lambda>r. admits (push_lossy sched r) c (objects m r)) rs)"
proof -
  have "(\<forall>r. objects m' r = (if r \<in> set rs then map_option (received (push_lossy sched r) c) (objects m r) else objects m r)) \<and>
      n = length (filter (\<lambda>r. admits (push_lossy sched r) c (objects m r)) rs)"
    using assms
  proof (induction rs arbitrary: m n m')
    case (Cons x rs)
    obtain status m1 where s: "Submit sched Normal x c m = (status, m1)" by fastforce
    obtain k m2 where e: "submit_each sched c rs m1 = (k, m2)" by fastforce
    have m2: "m' = m2" "n = k + (if status = SubmitAccepted then 1 else 0)" using Cons.prems(1) s e by simp_all
    have "filter (\<lambda>r. admits (push_lossy sched r) c (objects m1 r)) rs = filter (\<lambda>r. admits (push_lossy sched r) c (objects m r)) rs"
      using Cons.prems(2) Submit_effect(1) [OF s] by (intro filter_cong) auto
    then show ?case using Cons.IH [OF e] Cons.prems(2) Submit_effect [OF s] m2 by auto
  qed simp
  then show "objects m' r = (if r \<in> set rs then map_option (received (push_lossy sched r) c) (objects m r) else objects m r)"
    and "n = length (filter (\<lambda>r. admits (push_lossy sched r) c (objects m r)) rs)" by blast+
qed

lemma admit_accepting:
  "q_accepting q \<Longrightarrow> admit lossy Normal c q =
     (if length (q_normal q) + (if lossy then 1 else 0) < kMailboxCapacity then (Accepted, q\<lparr>q_normal := q_normal q @ [c]\<rparr>) else (QueueFull, q))"
  by (simp add: admit_def lane_capacity_def)

text \<open>C38: Replacing a file reaches every session on it. The request queues exactly one reload behind the
  commands of each registered session that was created for that path, except the one to skip and
  those whose queue is full, and reports how many accepted it; no other session is touched.\<close>

theorem reload_reaches_sessions:
  assumes "manager_reachable lib sl m" and "(sid, r) \<in> set (m_sessions m)" and "objects m r = Some h" and "commands h = Some q"
    and "SubmitReloadSessionsCommand sched f skip m = (n, m')"
  shows "(\<exists>h'. objects m' r = Some h' \<and> session h' = session h \<and>
      commands h' = Some (if usd_file (session h) = f \<and> Some r \<noteq> skip \<and>
          length (q_normal q) + (if push_lossy sched r then 1 else 0) < kMailboxCapacity
        then q\<lparr>q_normal := q_normal q @ [ReloadRoot]\<rparr> else q)) \<and>
    n = length (filter (\<lambda>r. Some r \<noteq> skip \<and> (\<exists>h q. objects m r = Some h \<and> usd_file (session h) = f \<and> commands h = Some q \<and>
          length (q_normal q) + (if push_lossy sched r then 1 else 0) < kMailboxCapacity)) (List_sessions m))"
proof -
  note inv = manager_reachable_inv [OF assms(1)]
  let ?rs = "filter (\<lambda>r. Some r \<noteq> skip) (FindByUsdFile f m)"
  have e: "submit_each sched ReloadRoot ?rs m = (n, m')" using assms(5) by (simp add: SubmitReloadSessionsCommand_def)
  have d: "distinct ?rs" using inv by (simp add: FindByUsdFile_def List_sessions_def manager_inv_def)
  have acc: "\<exists>h q. objects m x = Some h \<and> commands h = Some q \<and> q_accepting q" if "x \<in> set (List_sessions m)" for x
    using registered_object [OF inv, of x] that by (auto simp: List_sessions_def registered_def accepts_def split: option.splits)
  have r: "r \<in> set (List_sessions m)" using assms(2) by (force simp: List_sessions_def)
  then have mem: "r \<in> set ?rs \<longleftrightarrow> usd_file (session h) = f \<and> Some r \<noteq> skip" using assms(3) by (auto simp: FindByUsdFile_def)
  have qa: "q_accepting q" using acc [OF r] assms(3,4) by auto
  have "\<exists>h'. objects m' r = Some h' \<and> session h' = session h \<and>
      commands h' = Some (if r \<in> set ?rs \<and> length (q_normal q) + (if push_lossy sched r then 1 else 0) < kMailboxCapacity
        then q\<lparr>q_normal := q_normal q @ [ReloadRoot]\<rparr> else q)"
    using submit_each_effect(1) [OF e d, of r] assms(3,4) admit_accepting [OF qa, of "push_lossy sched r" ReloadRoot]
    by (auto simp: received_def)
  moreover have "filter (\<lambda>r. admits (push_lossy sched r) ReloadRoot (objects m r)) ?rs =
      filter (\<lambda>r. Some r \<noteq> skip \<and> (\<exists>h q. objects m r = Some h \<and> usd_file (session h) = f \<and> commands h = Some q \<and>
          length (q_normal q) + (if push_lossy sched r then 1 else 0) < kMailboxCapacity)) (List_sessions m)"
    unfolding FindByUsdFile_def filter_filter
  proof (rule filter_cong [OF refl])
    fix x assume "x \<in> set (List_sessions m)"
    from acc [OF this] obtain h' q' where "objects m x = Some h'" "commands h' = Some q'" "q_accepting q'" by blast
    then show "((case objects m x of None \<Rightarrow> False | Some h \<Rightarrow> usd_file (session h) = f) \<and> Some x \<noteq> skip) \<and>
        admits (push_lossy sched x) ReloadRoot (objects m x) \<longleftrightarrow>
      Some x \<noteq> skip \<and> (\<exists>h q. objects m x = Some h \<and> usd_file (session h) = f \<and> commands h = Some q \<and>
          length (q_normal q) + (if push_lossy sched x then 1 else 0) < kMailboxCapacity)"
      by (auto simp: admits_def admit_accepting)
  qed
  ultimately show ?thesis using submit_each_effect(2) [OF e d] mem by (simp only: simp_thms conj_assoc)
qed

theorem reload_reaches_sessions_witness:
  "\<exists>m' h'. SubmitReloadSessionsCommand in_turn ''a.usda'' None demo_manager = (1, m') \<and> objects m' 0 = Some h' \<and>
     commands h' = Some (empty_queue\<lparr>q_normal := [ReloadRoot]\<rparr>)"
proof -
  obtain n m' where e: "SubmitReloadSessionsCommand in_turn ''a.usda'' None demo_manager = (n, m')" by fastforce
  have d: "(demo_id, 0) \<in> set (m_sessions demo_manager)" "objects demo_manager 0 = Some demo_hosted" "commands demo_hosted = Some empty_queue"
    "usd_file (session demo_hosted) = ''a.usda''" "List_sessions demo_manager = [0]"
    by (simp_all add: demo_manager_eq demo_hosted_def new_session_alt List_sessions_def)
  from reload_reaches_sessions [OF demo_reachable d(1-3) e] e d show ?thesis
    by (auto simp: empty_queue_def kMailboxCapacity_def)
qed

end
