(* ===== verification/File_Serving.thy ===== *)
theory File_Serving
  imports Thumbnail_Worker Manager_Properties Jwt_Auth
begin

text \<open>
  The file endpoints (\<^verbatim>\<open>source/controller/FileServingController.{h,cpp}\<close>, \<^verbatim>\<open>source/dto/UploadDto.h\<close>).

  The disk is the one of the session manager. A full path is the list of its elements, the key of its
  file on the disk. The multipart parser, the directory iteration, what the streams and the
  file system report, and opening a layer are the fields of \<open>file_env\<close>, an argument. A stream
  that reports success may have lost bytes when it was flushed on closing, so \<open>stream_write\<close>
  gives the bytes that reach the file next to the reported success. \<open>dump_throws\<close> is the exception of
  \<^verbatim>\<open>json::dump\<close> on a string that is not UTF-8, as the name of a file put below the root by other means
  may be; the names an upload accepts are ASCII. The read endpoints return their reply only: the
  default locator they create for a default-constructed controller, which the server never
  uses, is the value of \<open>Locator\<close> but is not stored.
\<close>

subsection \<open>Request data\<close>

record part =
  part_body :: string
  part_headers :: "(string \<times> (string \<times> string) list) list"

record dir_entry =
  de_path :: fspath
  de_regular :: bool
  de_relative :: fspath
  de_size :: "int throws"
  de_modified :: "int throws"

record file_env =
  env_vars :: environment
  env_fs :: filesystem_view
  multipart_message :: "request \<Rightarrow> (string \<Rightarrow> part) throws"
  directory_at :: "string list \<Rightarrow> bool"
  stream_opens :: "string list \<Rightarrow> bool"
  stream_write :: "string list \<Rightarrow> string \<Rightarrow> bool \<times> string"
  rename_fails :: "string list \<Rightarrow> string list \<Rightarrow> string option"
  removes :: "string list \<Rightarrow> bool"
  size_known :: "string list \<Rightarrow> bool"
  recursive_directory_iterator :: "fspath \<Rightarrow> dir_entry list throws"
  LayerData :: "fspath \<Rightarrow> (string \<rightharpoonup> string) option"
  dump_throws :: "json \<Rightarrow> string option"

text \<open>\<^verbatim>\<open>std::stoull\<close>: white space, a sign and the longest run of digits; a negative number is negated
  modulo the word size.\<close>

definition stoull :: "string \<Rightarrow> u64 option" where
  "stoull s =
     (let t = dropWhile is_space s;
          negative = (t \<noteq> [] \<and> hd t = CHR ''-'');
          u = (if t \<noteq> [] \<and> (hd t = CHR ''-'' \<or> hd t = CHR ''+'') then tl t else t);
          ds = takeWhile is_digit u
      in if ds = [] \<or> digits_value ds \<ge> 2 ^ 64 then None
         else Some (if negative then - of_nat (digits_value ds) else of_nat (digits_value ds)))"

definition UploadMaxBytes :: "environment \<Rightarrow> u64" where
  "UploadMaxBytes env =
     (case env ''IDTX_UPLOAD_MAX_BYTES'' of
        None \<Rightarrow> 500 * 1024 * 1024
      | Some v \<Rightarrow> (case stoull v of Some n \<Rightarrow> n | None \<Rightarrow> 500 * 1024 * 1024))"

definition tolower :: "char \<Rightarrow> char" where
  "tolower c = (let n = (of_char c :: nat) in if 65 \<le> n \<and> n \<le> 90 then char_of (n + 32) else c)"

definition ParseBool :: "string \<Rightarrow> bool \<Rightarrow> bool" where
  "ParseBool s fallback =
     (if s = [] then fallback
      else let lower = map tolower s in lower = ''1'' \<or> lower = ''true'' \<or> lower = ''yes'' \<or> lower = ''on'')"

definition FieldBody :: "(string \<Rightarrow> part) \<Rightarrow> string \<Rightarrow> string" where
  "FieldBody msg name = part_body (msg name)"

definition ExtractPartFilename :: "part \<Rightarrow> string" where
  "ExtractPartFilename p =
     (case map_of (part_headers p) ''Content-Disposition'' of
        None \<Rightarrow> []
      | Some params \<Rightarrow> (case map_of params ''filename'' of None \<Rightarrow> [] | Some f \<Rightarrow> f))"

subsection \<open>Reply data\<close>

datatype ThumbnailStatus = ThumbQueued | ThumbGenerated | ThumbSkipped | ThumbFailed

fun ThumbnailStatus_to_json :: "ThumbnailStatus \<Rightarrow> json" where
  "ThumbnailStatus_to_json ThumbQueued = JString ''queued''"
| "ThumbnailStatus_to_json ThumbGenerated = JString ''generated''"
| "ThumbnailStatus_to_json ThumbSkipped = JString ''skipped''"
| "ThumbnailStatus_to_json ThumbFailed = JString ''failed''"

record ThumbnailInfo =
  ti_status :: ThumbnailStatus
  ti_path :: string
  ti_error :: string

definition ThumbnailInfo_to_json :: "ThumbnailInfo \<Rightarrow> json" where
  "ThumbnailInfo_to_json t =
     JObject [(''status'', ThumbnailStatus_to_json (ti_status t)), (''path'', JString (ti_path t)), (''error'', JString (ti_error t))]"

record UploadResponse =
  ur_filepath :: string
  ur_filename :: string
  ur_directory :: string
  ur_size :: int
  ur_thumbnail :: ThumbnailInfo

definition UploadResponse_to_json :: "UploadResponse \<Rightarrow> json" where
  "UploadResponse_to_json r =
     JObject [(''filepath'', JString (ur_filepath r)), (''filename'', JString (ur_filename r)),
       (''directory'', JString (ur_directory r)), (''size'', JInt (ur_size r)),
       (''thumbnail'', ThumbnailInfo_to_json (ur_thumbnail r))]"

subsection \<open>Paths as text\<close>

text \<open>The text of a path given by its elements, and \<^verbatim>\<open>generic_string\<close>, which writes one separator between
  two elements.\<close>

fun join_names :: "string list \<Rightarrow> fspath" where
  "join_names [] = []"
| "join_names [n] = n"
| "join_names (n # es) = n @ slash # join_names es"

definition path_text :: "string list \<Rightarrow> fspath" where
  "path_text es = (case es of [] \<Rightarrow> [] | e # es' \<Rightarrow> if e = [slash] then slash # join_names es' else join_names es)"

definition generic_string :: "fspath \<Rightarrow> string" where
  "generic_string p = path_text (path_elems p)"

subsection \<open>The controller\<close>

record 'st FileServingController =
  m_locator_ptr :: "UsdFileLocator option"
  m_thumbnails :: "ThumbnailWorker option"
  m_session_manager :: bool
  sm :: "'st SessionManager"

definition Locator :: "('st, 'z) FileServingController_scheme \<Rightarrow> UsdFileLocator" where
  "Locator s = (case m_locator_ptr s of Some l \<Rightarrow> l | None \<Rightarrow> \<lparr>root = ''uploads'', session_root = ''sessions''\<rparr>)"

definition plain_response :: "int \<Rightarrow> body_text \<Rightarrow> response" where
  "plain_response c b = empty_response\<lparr>code := c, res_body := b\<rparr>"

text \<open>One entry of the listing; sizes and times may throw.\<close>

definition list_entry :: "string \<Rightarrow> string \<Rightarrow> dir_entry \<Rightarrow> json list throws" where
  "list_entry name_filter ext_filter e =
     (let f = path_filename (de_path e)
      in if \<not> de_regular e \<or> \<not> IsUsdFilename f then Inr []
         else if name_filter \<noteq> [] \<and> \<not> contains f name_filter then Inr []
         else if ext_filter \<noteq> [] \<and> \<not> ends_with f (''.'' @ ext_filter) then Inr []
         else
           (case de_size e of
              Inl what \<Rightarrow> Inl what
            | Inr sz \<Rightarrow>
                (case de_modified e of
                   Inl what \<Rightarrow> Inl what
                 | Inr modified \<Rightarrow>
                     Inr [JObject [(''filepath'', JString (de_relative e)), (''filename'', JString f),
                            (''directory'', JString (path_parent (de_relative e))), (''size'', JInt sz),
                            (''modified'', JInt modified)]])))"

fun list_entries :: "string \<Rightarrow> string \<Rightarrow> dir_entry list \<Rightarrow> json list throws" where
  "list_entries nf ef [] = Inr []"
| "list_entries nf ef (e # es) =
     (case list_entry nf ef e of
        Inl what \<Rightarrow> Inl what
      | Inr js \<Rightarrow> (case list_entries nf ef es of Inl what \<Rightarrow> Inl what | Inr rest \<Rightarrow> Inr (js @ rest)))"

definition GetFileList :: "file_env \<Rightarrow> (string \<rightharpoonup> string) \<Rightarrow> ('st, 'z) FileServingController_scheme \<Rightarrow> response" where
  "GetFileList env url_params s =
     (let name_filter = (case url_params ''name_contains'' of None \<Rightarrow> [] | Some v \<Rightarrow> v);
          ext_filter = (case url_params ''extension'' of None \<Rightarrow> [] | Some v \<Rightarrow> v)
      in case (case recursive_directory_iterator env (root (Locator s)) of
                 Inl what \<Rightarrow> Inl what | Inr es \<Rightarrow> list_entries name_filter ext_filter es) of
           Inl what \<Rightarrow> plain_response 500 (Json (JObject [(''error'', JString what)]))
         | Inr listed \<Rightarrow>
             (case dump_throws env (JObject [(''files'', JArray listed)]) of
                Some what \<Rightarrow> plain_response 500 (Json (JObject [(''error'', JString what)]))
              | None \<Rightarrow> plain_response 200 (Json (JObject [(''files'', JArray listed)]))))"

definition set_held :: "string \<Rightarrow> string option \<Rightarrow> response \<Rightarrow> response" where
  "set_held k v r = (case v of None \<Rightarrow> r | Some x \<Rightarrow> set_header k x r)"

definition FileExists :: "file_env \<Rightarrow> string \<Rightarrow> ('st, 'z) FileServingController_scheme \<Rightarrow> response" where
  "FileExists env filepath s =
     (case Resolve (env_fs env) (Locator s) filepath of
        (Ok, resolved) \<Rightarrow>
          (case LayerData env resolved of
             None \<Rightarrow> set_header ''USD-ERROR'' ''Unable to access usd file'' (plain_response 405 (Text []))
           | Some layer_data \<Rightarrow>
               set_held ''USD-Version'' (layer_data ''Version'')
                 (set_held ''USD-Timestamp'' (layer_data ''Timestamp'') (plain_response 200 (Text []))))
      | _ \<Rightarrow> set_header ''USD-ERROR'' ''File not found'' (plain_response 404 (Text [])))"

text \<open>A stream that cannot be opened reads as empty.\<close>

definition read_file :: "string list \<Rightarrow> disk \<Rightarrow> string" where
  "read_file k d = (case d k of None \<Rightarrow> [] | Some b \<Rightarrow> b)"

definition ServeFile :: "file_env \<Rightarrow> string \<Rightarrow> ('st, 'z) FileServingController_scheme \<Rightarrow> response" where
  "ServeFile env filepath s =
     (case Resolve (env_fs env) (Locator s) filepath of
        (Ok, resolved) \<Rightarrow>
          set_header ''Content-Disposition'' (''attachment; filename='' @ path_filename resolved)
            (set_header ''Content-Type'' ''application/octet-stream''
              (plain_response 200 (Text (read_file (file_key resolved) (files (sm s))))))
      | _ \<Rightarrow> plain_response 404 (Text ''File not found''))"

subsection \<open>Upload\<close>

text \<open>The guards before the file system is touched: the body, the file name and the overwrite flag, or
  the error reply.\<close>

definition upload_fields :: "file_env \<Rightarrow> request \<Rightarrow> (response + string \<times> string \<times> string \<times> bool)" where
  "upload_fields env req =
     (if length (req_body req) > unat (UploadMaxBytes (env_vars env))
      then Inl (make_error 413 ''payload_too_large'' ''Upload exceeds the configured size limit.'')
      else
        (case multipart_message env req of
           Inl what \<Rightarrow> Inl (make_error 400 ''invalid_request'' (''Malformed upload: '' @ what))
         | Inr msg \<Rightarrow>
             let file_part = msg ''file'';
                 named = FieldBody msg ''filename'';
                 filename = (if named = [] then ExtractPartFilename file_part else named)
             in if part_body file_part = [] then Inl (make_error 400 ''invalid_request'' ''Missing or empty 'file' part.'')
                else if filename = [] then Inl (make_error 400 ''invalid_request'' ''No filename provided.'')
                else Inr (part_body file_part, filename, FieldBody msg ''path'', ParseBool (FieldBody msg ''overwrite'') False)))"

definition target_error :: "Status \<Rightarrow> response" where
  "target_error status =
     (case status of
        NotAUsdFile \<Rightarrow> make_error 400 ''invalid_request'' ''Only .usd, .usda, .usdc and .usdz files may be uploaded.''
      | InvalidEncoding \<Rightarrow> make_error 400 ''invalid_request'' ''Path contains invalid percent-encoding.''
      | OutsideRoot \<Rightarrow> make_error 403 ''forbidden_path'' ''Resolved path is outside the uploads root.''
      | _ \<Rightarrow> make_error 400 ''invalid_request'' (''Invalid path: '' @ StatusToString status))"

definition tmp_key :: "string list \<Rightarrow> string list" where
  "tmp_key full = butlast full @ [last full @ ''.part'']"

definition remove_key :: "file_env \<Rightarrow> string list \<Rightarrow> disk \<Rightarrow> disk" where
  "remove_key env k d = (if removes env k then d(k := None) else d)"

text \<open>Write a sibling temporary file and rename it over the target.\<close>

definition write_upload :: "file_env \<Rightarrow> string list \<Rightarrow> string \<Rightarrow> disk \<Rightarrow> response option \<times> disk" where
  "write_upload env full content d =
     (let tmp = tmp_key full
      in if \<not> stream_opens env tmp
         then (Some (make_error 500 ''internal_error'' ''Failed to open target file for writing.''), d)
         else
           (case stream_write env tmp content of (good, bytes) \<Rightarrow>
              let d1 = d(tmp \<mapsto> bytes)
              in if \<not> good
                 then (Some (make_error 500 ''internal_error'' ''Failed to write file bytes.''), remove_key env tmp d1)
                 else
                   (case rename_fails env tmp full of
                      Some e \<Rightarrow> (Some (make_error 500 ''internal_error'' (''Failed to finalise uploaded file: '' @ e)),
                                  remove_key env tmp d1)
                    | None \<Rightarrow> (None, d1(full \<mapsto> bytes, tmp := None)))))"

definition thumb_name :: "string \<Rightarrow> fspath \<Rightarrow> string" where
  "thumb_name ext relative = path_stem relative @ ext"

text \<open>The thumbnail job of a stored upload; the worker runs it later.\<close>

definition queue_thumbnail ::
  "file_env \<Rightarrow> UsdFileLocator \<Rightarrow> string list \<Rightarrow> fspath \<Rightarrow> ThumbnailWorker option \<Rightarrow> ThumbnailInfo \<times> ThumbnailWorker option" where
  "queue_thumbnail env loc full relative thumbnails =
     (case thumbnails of
        None \<Rightarrow> (\<lparr>ti_status = ThumbSkipped, ti_path = [], ti_error = []\<rparr>, None)
      | Some w \<Rightarrow>
          let ext = Extension (m_generator w);
              thumbs_dir = butlast full @ [''thumbs''];
              thumb_full = thumbs_dir @ [thumb_name ext relative];
              thumb_rel = path_join (path_join (path_parent relative) ''thumbs'') (thumb_name ext relative)
          in if EnsureDirectoryInsideRoot (env_fs env) loc (path_text thumbs_dir) \<noteq> Ok
             then (\<lparr>ti_status = ThumbFailed, ti_path = [], ti_error = ''Failed to prepare thumbs directory.''\<rparr>, Some w)
             else (\<lparr>ti_status = ThumbQueued, ti_path = generic_string thumb_rel, ti_error = []\<rparr>,
                   Some (SubmitJob (path_text full) (path_text thumb_full) w)))"

definition upload_reply :: "file_env \<Rightarrow> string list \<Rightarrow> fspath \<Rightarrow> string \<Rightarrow> disk \<Rightarrow> ThumbnailInfo \<Rightarrow> response" where
  "upload_reply env full relative content d tinfo =
     (let resp = \<lparr>ur_filepath = generic_string relative, ur_filename = path_filename relative,
                  ur_directory = generic_string (path_parent relative),
                  ur_size = (if size_known env full then int (length (read_file full d)) else int (length content)),
                  ur_thumbnail = tinfo\<rparr>
      in set_header ''Location'' (''/api/v1/download/'' @ ur_filepath resp)
           (set_header ''Content-Type'' ''application/json'' (plain_response 201 (Json (UploadResponse_to_json resp)))))"

text \<open>After the guards: prepare the directory, write, tell the sessions, queue the thumbnail, reply.\<close>

definition store_upload ::
  "file_env \<Rightarrow> schedule \<Rightarrow> string list \<Rightarrow> fspath \<Rightarrow> string \<Rightarrow> bool \<Rightarrow> 'st FileServingController \<Rightarrow> response \<times> 'st FileServingController" where
  "store_upload env sched full relative content replaces s =
     (case EnsureDirectoryInsideRoot (env_fs env) (Locator s) (path_text (butlast full)) of
        Ok \<Rightarrow>
          (case write_upload env full content (files (sm s)) of
             (Some refusal, d) \<Rightarrow> (refusal, s\<lparr>sm := (sm s)\<lparr>files := d\<rparr>\<rparr>)
           | (None, d) \<Rightarrow>
               let m1 = (sm s)\<lparr>files := d\<rparr>;
                   m2 = (if replaces \<and> m_session_manager s
                         then snd (SubmitReloadSessionsCommand sched (generic_string relative) None m1) else m1)
               in (case queue_thumbnail env (Locator s) full relative (m_thumbnails s) of
                     (tinfo, thumbnails) \<Rightarrow>
                       (upload_reply env full relative content d tinfo, s\<lparr>sm := m2, m_thumbnails := thumbnails\<rparr>)))
      | PermissionDenied \<Rightarrow>
          (make_error 500 ''internal_error'' (''Upload target directory is not writable by the server. '' @
             ''This is a server configuration issue.''), s)
      | _ \<Rightarrow> (make_error 500 ''internal_error'' ''Failed to prepare target directory.'', s))"

definition UploadFile ::
  "file_env \<Rightarrow> schedule \<Rightarrow> request \<Rightarrow> 'st FileServingController \<Rightarrow> response \<times> 'st FileServingController" where
  "UploadFile env sched req s =
     (case upload_fields env req of
        Inl refusal \<Rightarrow> (refusal, s)
      | Inr (content, filename, target_dir, overwrite) \<Rightarrow>
          let s1 = s\<lparr>m_locator_ptr := Some (Locator s)\<rparr>
          in (case ValidateUploadTarget (Locator s) target_dir filename of
                (Ok, full, relative) \<Rightarrow>
                  let existed = (files (sm s) full \<noteq> None \<or> directory_at env full)
                  in if existed \<and> \<not> overwrite
                     then (make_error 409 ''conflict''
                            (''A file with the same name already exists. Set 'overwrite=true' to replace it.''), s1)
                     else store_upload env sched full relative content (existed \<and> overwrite) s1
              | (status, _) \<Rightarrow> (target_error status, s1)))"

subsection \<open>Thumbnails\<close>

text \<open>\<open>None\<close> is the dereference of an unset locator pointer.\<close>

definition ResolveThumbnailPath ::
  "string \<Rightarrow> ('st, 'z) FileServingController_scheme \<Rightarrow> (Status \<times> string list \<times> fspath) option" where
  "ResolveThumbnailPath usd_filepath s =
     (case m_locator_ptr s of
        None \<Rightarrow> None
      | Some loc \<Rightarrow>
          Some (case ValidatePath usd_filepath of
            (Ok, decoded) \<Rightarrow>
              if \<not> IsUsdFilename (path_filename decoded) then (NotAUsdFile, [], [])
              else
                let ext = (case m_thumbnails s of None \<Rightarrow> ''.png'' | Some w \<Rightarrow> Extension (m_generator w));
                    relative = path_join (path_join (path_parent decoded) ''thumbs'') (thumb_name ext decoded);
                    candidate = lexically_normal (path_join (root loc) relative)
                in if \<not> elems_within (lexically_normal (root loc)) candidate then (OutsideRoot, [], [])
                   else if ''..'' \<in> set (path_elems relative) then (OutsideRoot, [], [])
                   else (Ok, candidate, relative)
          | (status, _) \<Rightarrow> (status, [], [])))"

definition regular_file :: "string list \<Rightarrow> disk \<Rightarrow> bool" where
  "regular_file k d \<longleftrightarrow> d k \<noteq> None"

definition ThumbnailExists :: "string \<Rightarrow> ('st, 'z) FileServingController_scheme \<Rightarrow> response option" where
  "ThumbnailExists usd_filepath s =
     map_option (\<lambda>r.
       case r of
         (Ok, full, _) \<Rightarrow> if regular_file full (files (sm s)) then plain_response 200 (Text []) else plain_response 404 (Text [])
       | _ \<Rightarrow> plain_response 404 (Text []))
     (ResolveThumbnailPath usd_filepath s)"

definition content_type :: "string \<Rightarrow> string" where
  "content_type ext =
     (if ext = ''.png'' then ''image/png''
      else if ext = ''.jpg'' \<or> ext = ''.jpeg'' then ''image/jpeg''
      else ''application/octet-stream'')"

definition ServeThumbnail :: "string \<Rightarrow> ('st, 'z) FileServingController_scheme \<Rightarrow> response option" where
  "ServeThumbnail usd_filepath s =
     map_option (\<lambda>r.
       case r of
         (Ok, full, _) \<Rightarrow>
           if \<not> regular_file full (files (sm s))
           then make_error 404 ''not_found'' ''Thumbnail has not been generated yet.''
           else set_header ''Content-Disposition'' (''inline; filename='' @ last full)
                  (set_header ''Content-Type'' (content_type (snd (name_split (last full))))
                    (plain_response 200 (Text (read_file full (files (sm s))))))
       | _ \<Rightarrow> make_error 404 ''not_found'' ''Thumbnail path resolution failed.'')
     (ResolveThumbnailPath usd_filepath s)"

end
