(* ===== verification/Session_Rest.thy ===== *)
theory Session_Rest
  imports Manager_Properties
begin

text \<open>
  The REST side of the sessions (\<^verbatim>\<open>source/controller/SessionController.cpp\<close>, \<^verbatim>\<open>source/dto/SessionDto.h\<close>).

  Each handler maps the manager to the response and the new manager. JSON parsing is the library record
  of \<open>Http\<close>; opening stages, the file system and the session library are those of \<open>Session_Manager\<close>.
\<close>

subsection \<open>The request body\<close>

record CreateSessionRequest =
  csr_usd_file :: string
  csr_mode :: SessionMode
  csr_auto_commit :: bool

text \<open>An enumeration is read by its text; anything else is its first entry.\<close>

definition SessionMode_from_json :: "json \<Rightarrow> SessionMode" where
  "SessionMode_from_json j =
     (if j = JString ''single_edit'' then SingleEdit
      else if j = JString ''single_runtime'' then SingleRuntime
      else if j = JString ''collaborative_edit'' then CollaborativeEdit
      else if j = JString ''collaborative_runtime'' then CollaborativeRuntime
      else SingleEdit)"

definition CreateSessionRequest_from_json :: "json_library \<Rightarrow> json \<Rightarrow> json_error + CreateSessionRequest" where
  "CreateSessionRequest_from_json lib j =
     (case (case json_field ''usd_file'' j of
              None \<Rightarrow> Inr [] | Some (JString s) \<Rightarrow> Inr s | Some _ \<Rightarrow> Inl (Type_error (type_text lib ''usd_file''))) of
        Inl e \<Rightarrow> Inl e
      | Inr f \<Rightarrow>
          let md = (case json_field ''mode'' j of None \<Rightarrow> SingleEdit | Some v \<Rightarrow> SessionMode_from_json v)
          in (case json_field ''auto_commit'' j of
                None \<Rightarrow> Inr \<lparr>csr_usd_file = f, csr_mode = md, csr_auto_commit = False\<rparr>
              | Some (JBool b) \<Rightarrow> Inr \<lparr>csr_usd_file = f, csr_mode = md, csr_auto_commit = b\<rparr>
              | Some _ \<Rightarrow> Inl (Type_error (type_text lib ''auto_commit''))))"

subsection \<open>Handlers\<close>

definition json_response :: "int \<Rightarrow> json \<Rightarrow> response" where
  "json_response c j = set_header ''Content-Type'' ''application/json'' (empty_response\<lparr>code := c, res_body := Json j\<rparr>)"

definition object_json :: "'st SessionManager \<Rightarrow> nat \<Rightarrow> json list" where
  "object_json m r = (case objects m r of None \<Rightarrow> [] | Some h \<Rightarrow> [ToJson (session h)])"

definition GetSessionList :: "'st SessionManager \<Rightarrow> response" where
  "GetSessionList m = json_response 200 (JObject [(''sessions'', JArray (concat (map (object_json m) (List_sessions m))))])"

definition session_not_found :: response where
  "session_not_found = make_error 404 ''not_found'' ''Session not found.''"

definition GetSession :: "string \<Rightarrow> 'st SessionManager \<Rightarrow> response" where
  "GetSession sid m =
     (case Get_session m sid of
        None \<Rightarrow> session_not_found
      | Some r \<Rightarrow> (case objects m r of None \<Rightarrow> session_not_found | Some h \<Rightarrow> json_response 200 (ToJson (session h))))"

definition create_failure :: "CreateStatus \<Rightarrow> string \<Rightarrow> response" where
  "create_failure status error_msg =
     (case status of
        FileNotFound \<Rightarrow> make_error 404 ''not_found'' error_msg
      | StageOpenFailed \<Rightarrow> make_error 409 ''stage_open_failed'' error_msg
      | CreateOk \<Rightarrow> make_error 500 ''internal_error'' error_msg)"

definition CreateSession ::
  "json_library \<Rightarrow> filesystem_view \<Rightarrow> 'st stage_library \<Rightarrow> u64 \<times> u64 \<Rightarrow> int \<Rightarrow> time_point \<Rightarrow> request \<Rightarrow> 'st SessionManager \<Rightarrow>
   response \<times> 'st SessionManager" where
  "CreateSession jlib fs sl random system_now steady_now req m =
     (case parse_json_dto jlib (CreateSessionRequest_from_json jlib) req of
        Inl refusal \<Rightarrow> (refusal, m)
      | Inr b \<Rightarrow>
          if csr_usd_file b = [] then (make_error 400 ''invalid_request'' (quoted ''usd_file'' @ '' must not be empty.''), m)
          else
            (case Create_session fs sl random system_now steady_now (csr_usd_file b) (csr_mode b) (csr_auto_commit b) m of
               ((status, error_msg, None), m') \<Rightarrow> (create_failure status error_msg, m')
             | ((status, error_msg, Some r), m') \<Rightarrow>
                 (case objects m' r of
                    None \<Rightarrow> (create_failure status error_msg, m')
                  | Some h \<Rightarrow>
                      (set_header ''Location'' (''/api/v1/sessions/'' @ s_id (session h)) (json_response 201 (ToJson (session h))), m'))))"

definition DeleteSession ::
  "('st, 'ly) Library \<Rightarrow> 'st stage_library \<Rightarrow> schedule \<Rightarrow> string \<Rightarrow> 'st SessionManager \<Rightarrow> (response \<times> 'st SessionManager) option" where
  "DeleteSession lib sl sched sid m =
     map_option (\<lambda>r. case r of (found, m') \<Rightarrow>
       (if found then empty_response\<lparr>code := 204\<rparr> else session_not_found, m')) (Destroy lib sl sched sid m)"

definition commit_reply :: "string \<Rightarrow> CommitResult \<Rightarrow> response" where
  "commit_reply sid r =
     (case commit_status r of
        CommitOk \<Rightarrow> json_response 200 (JObject [(''committed'', JBool True), (''session_id'', JString sid)])
      | CommitUnknownSession \<Rightarrow> session_not_found
      | NothingToCommit \<Rightarrow> make_error 409 ''nothing_to_commit'' (commit_error r)
      | Unavailable \<Rightarrow> make_error 503 ''unavailable'' (commit_error r)
      | WriteFailed \<Rightarrow> make_error 500 ''commit_failed'' (commit_error r))"

definition CommitSession ::
  "schedule \<Rightarrow> (nat \<Rightarrow> future_state) \<Rightarrow> string \<Rightarrow> 'st SessionManager \<Rightarrow> response \<times> 'st SessionManager" where
  "CommitSession sched outcome sid m =
     (case SubmitCommitSessionCommand sched outcome sid m of (r, m') \<Rightarrow> (commit_reply sid r, m'))"

subsection \<open>Property\<close>

lemma json_response_simps [simp]:
  "code (json_response c j) = c" "res_body (json_response c j) = Json j"
  "code (set_header k v r) = code r" "res_body (set_header k v r) = res_body r"
  "map_of (res_headers (set_header k v r)) k = Some v" "code (make_error c e msg) = c"
  by (simp_all add: json_response_def set_header_def update_conv' make_error_def)

lemma teardown_fresh:
  assumes "save_returns lib" and "objects m r = Some h" and "commands h = Some empty_queue"
  shows "\<exists>m'. TeardownSession lib sl sched r m = Some m'"
  using assms(2,3) Teardown_total [OF assms(1), of sched r m sl]
  by (simp add: close_and_drain_def pending_commands_def empty_queue_def)

text \<open>A creation through the REST interface, at the level of the manager.\<close>

lemma CreateSession_cases:
  assumes "CreateSession jlib fs sl rnd t now req m = (res, m1)"
  shows "code res \<in> {400, 404, 409} \<and> m1 = m\<lparr>files := files m1\<rparr> \<or>
    (\<exists>f md auto e h. Create_session fs sl rnd t now f md auto m = ((CreateOk, e, Some (next_object m)), m1) \<and>
       objects m1 (next_object m) = Some h \<and> s_id (session h) = GenerateUuidV4 (fst rnd) (snd rnd) \<and>
       commands h = Some empty_queue \<and>
       res = set_header ''Location'' (''/api/v1/sessions/'' @ s_id (session h)) (json_response 201 (ToJson (session h))))"
proof (cases "parse_json_dto jlib (CreateSessionRequest_from_json jlib) req")
  case (Inl r)
  then show ?thesis using assms parse_json_dto_error [OF Inl] by (simp add: CreateSession_def)
next
  case (Inr b)
  show ?thesis
  proof (cases "csr_usd_file b = []")
    case True
    then show ?thesis using assms Inr by (auto simp: CreateSession_def)
  next
    case False
    obtain status e r m' where c: "Create_session fs sl rnd t now (csr_usd_file b) (csr_mode b) (csr_auto_commit b) m = ((status, e, r), m')"
      by (metis prod_cases3 surj_pair)
    from Create_session_cases [OF c] show ?thesis
    proof (elim disjE conjE exE)
      fix d
      assume "r = None" "status \<noteq> CreateOk" "m' = m\<lparr>files := d\<rparr>"
      then show ?thesis
        using assms Inr False c by (auto simp: CreateSession_def create_failure_def split: CreateStatus.splits)
    next
      fix st d sid resolved sc
      assume a: "status = CreateOk" "r = Some (next_object m)" "sid = GenerateUuidV4 (fst rnd) (snd rnd)"
        "m' = put_object (next_object m)
          \<lparr>session = new_session sid (csr_usd_file b) resolved st (csr_mode b) (csr_auto_commit b) sc t now, commands = Some empty_queue\<rparr>
          (m\<lparr>files := d, next_object := Suc (next_object m), m_sessions := emplace sid (next_object m) (m_sessions m)\<rparr>)"
      have o: "objects m' (next_object m) = Some \<lparr>session = new_session sid (csr_usd_file b) resolved st (csr_mode b) (csr_auto_commit b) sc t now,
          commands = Some empty_queue\<rparr>" by (simp add: a(4) put_object_def)
      have "m1 = m'" "res = set_header ''Location'' (''/api/v1/sessions/'' @ sid)
          (json_response 201 (ToJson (new_session sid (csr_usd_file b) resolved st (csr_mode b) (csr_auto_commit b) sc t now)))"
        using assms Inr False c a(1,2) o by (auto simp: CreateSession_def new_session_alt)
      then show ?thesis using c a(1-3) o by (auto simp: new_session_alt)
    qed
  qed
qed

text \<open>What a successful creation changes for readers of the registry, and that the new session can be torn
  down at once.\<close>

lemma created_registry:
  assumes c: "Create_session fs sl rnd t now f md auto m = ((CreateOk, e, Some (next_object m)), m1)"
    and inv: "manager_inv m" and new: "Get_session m (GenerateUuidV4 (fst rnd) (snd rnd)) = None"
  shows "m_sessions m1 = m_sessions m @ [(GenerateUuidV4 (fst rnd) (snd rnd), next_object m)]"
    and "Get_session m1 sid = (if sid = GenerateUuidV4 (fst rnd) (snd rnd) then Some (next_object m) else Get_session m sid)"
    and "sid \<noteq> GenerateUuidV4 (fst rnd) (snd rnd) \<Longrightarrow> GetSession sid m1 = GetSession sid m"
proof -
  show ms: "m_sessions m1 = m_sessions m @ [(GenerateUuidV4 (fst rnd) (snd rnd), next_object m)]"
    using Create_session_cases [OF c] new by (auto simp: put_object_def emplace_def Get_session_def)
  show get: "Get_session m1 sid = (if sid = GenerateUuidV4 (fst rnd) (snd rnd) then Some (next_object m) else Get_session m sid)"
    using new by (auto simp: Get_session_def ms map_add_def split: option.split)
  have o: "objects m1 r = objects m r" if "r \<noteq> next_object m" for r
    using that Create_session_cases [OF c] by (auto simp: put_object_def)
  have "r \<noteq> next_object m" if "Get_session m sid = Some r" for r
  proof -
    have "(sid, r) \<in> set (m_sessions m)" using that by (auto simp: Get_session_def dest: map_of_SomeD)
    then obtain h where "objects m r = Some h"
      using registered_object [OF inv, of r] by (force simp: registered_def)
    from manager_invD(2) [OF inv this] show ?thesis by simp
  qed
  then show "GetSession sid m1 = GetSession sid m" if "sid \<noteq> GenerateUuidV4 (fst rnd) (snd rnd)"
    using that o by (auto simp: GetSession_def get split: option.split)
qed

lemma delete_fresh:
  assumes save: "save_returns lib" and inv: "manager_inv m" and get: "Get_session m sid = Some r"
    and h: "objects m r = Some h" "commands h = Some empty_queue"
  obtains m2 where "DeleteSession lib sl sched sid m = Some (empty_response\<lparr>code := 204\<rparr>, m2)"
    and "\<And>other. Get_session m2 other = (if other = sid then None else Get_session m other)"
proof -
  obtain m2 where t: "TeardownSession lib sl sched r (erase sid m) = Some m2"
    using teardown_fresh [of lib "erase sid m" r h sl sched] save h by (auto simp: erase_def)
  have "(sid, r) \<in> set (m_sessions m)" using get by (auto simp: Get_session_def dest: map_of_SomeD)
  from registered_unique [OF inv this] have "r \<notin> registered (erase sid m)"
    by (force simp: registered_def erase_def)
  from Teardown_inv [OF erase_inv [OF inv] this t] have "m_sessions m2 = m_sessions (erase sid m)" by blast
  then have "Get_session m2 other = (if other = sid then None else Get_session m other)" for other
    by (auto simp: Get_session_def erase_def map_of_eq_None_iff map_of_filter_other)
  moreover have "DeleteSession lib sl sched sid m = Some (empty_response\<lparr>code := 204\<rparr>, m2)"
    using t get by (simp add: DeleteSession_def Destroy_def)
  ultimately show ?thesis using that by blast
qed


definition demo_json :: json_library where
  "demo_json = \<lparr>json_parse = (\<lambda>_. Inr (JObject [(''usd_file'', JString ''a.usda'')])), missing_text = id, type_text = id\<rparr>"

definition demo_create_request :: request where
  "demo_create_request =
     \<lparr>http_method = PostMethod, url = ''/api/v1/sessions'', header = (\<lambda>_. []), req_body = ''{}'', remote_ip_address = ''10.0.0.1''\<rparr>"

definition demo_created :: "response \<times> mini_stage SessionManager" where
  "demo_created = CreateSession demo_json demo_fs demo_stages (1, 2) 0 0 demo_create_request demo_empty"


end
