(* ===== verification/Server.thy ===== *)
theory Server
  imports Health File_Serving Session_Rest Rate_Limit_Handler Placeholder_Thumbnail
begin

text \<open>
  Start-up and request dispatch: the composition root (\<^verbatim>\<open>source/app/ApplicationContext.h\<close>,
  \<^verbatim>\<open>source/app/Application.{h,cpp}\<close>), the server (\<^verbatim>\<open>source/server/Server.{h,cpp}\<close>) and the route tables
  (\<^verbatim>\<open>source/routes/http/*.h\<close>).

  The web framework runs the \<^verbatim>\<open>before_handle\<close> of the middlewares in the order of the server's type, stops
  when one of them ends the response, and otherwise calls the handler of the matching route;
  \<^verbatim>\<open><string>\<close> stands for one segment of the path and \<^verbatim>\<open><path>\<close> for the rest. What the framework answers by
  itself (no route, an exception, its own CORS middleware) is an argument. The websocket route is the
  subject of \<open>Web_Socket\<close>.
\<close>

subsection \<open>The composition root\<close>

datatype generator_choice = PlaceholderChoice u32 | ImagingChoice u32

record application_context =
  ctx_locator :: UsdFileLocator
  ctx_generator :: "generator_choice option"
  ctx_auth :: AuthController
  ctx_idle_timeout :: seconds
  ctx_workers :: nat
  ctx_flush_ms :: int

definition env_or :: "environment \<Rightarrow> string \<Rightarrow> string \<Rightarrow> string" where
  "env_or env name fallback = (case get_env env name of None \<Rightarrow> fallback | Some v \<Rightarrow> v)"

definition thumbnail_size :: "environment \<Rightarrow> u32" where
  "thumbnail_size env =
     (case get_env env ''IDTX_THUMBNAIL_SIZE'' of
        None \<Rightarrow> 256
      | Some v \<Rightarrow> (case stoull v of None \<Rightarrow> 256 | Some n \<Rightarrow> ucast n))"

definition choose_generator :: "bool \<Rightarrow> environment \<Rightarrow> generator_choice option" where
  "choose_generator imaging env =
     (let thumb_enabled = env_or env ''IDTX_THUMBNAIL_ENABLED'' ''true''
      in if thumb_enabled = ''false'' \<or> thumb_enabled = ''0'' then None
         else if imaging \<and> env_or env ''IDTX_THUMBNAIL_RENDER'' ''real'' \<noteq> ''placeholder''
         then Some (ImagingChoice (thumbnail_size env))
         else Some (PlaceholderChoice (thumbnail_size env)))"

text \<open>A 64-bit number of seconds becomes a signed duration.\<close>

definition chrono_count :: "u64 \<Rightarrow> int" where
  "chrono_count n = sint n"

definition session_workers :: "nat \<Rightarrow> environment \<Rightarrow> u64" where
  "session_workers hardware_concurrency env =
     max (get_env_u64 env ''IDTX_SESSION_WORKERS'' (of_nat (max 1 (min 4 hardware_concurrency)))) 1"

definition ApplicationContext_create ::
  "filesystem_view \<Rightarrow> string \<Rightarrow> nat \<Rightarrow> bool \<Rightarrow> environment \<Rightarrow> application_context throws" where
  "ApplicationContext_create fs root_ec hardware_concurrency imaging env =
     (let uploads_root = env_or env ''IDTX_UPLOADS_ROOT'' ''./uploads'';
          locator = \<lparr>root = uploads_root, session_root = env_or env ''IDTX_SESSIONS_ROOT'' ''./sessions''\<rparr>;
          root_status = EnsureRootExists fs locator
      in if root_status \<noteq> Ok
         then Inl (''Uploads root '' @ quoted uploads_root @ '' is not usable ('' @ StatusToString root_status @
                   (if root_ec \<noteq> [] then '': '' @ root_ec else []) @
                   ''). Set IDTX_UPLOADS_ROOT and ensure the directory is writable by the server process '' @
                   ''(check volume ownership / securityContext.fsGroup in Kubernetes).'')
         else Inr \<lparr>ctx_locator = locator, ctx_generator = choose_generator imaging env,
                ctx_auth = \<lparr>tokenUrl = env_or env ''OAUTH_TOKEN_URL'' [], clientId = env_or env ''OAUTH_CLIENT_ID'' [],
                  clientSecret = env_or env ''OAUTH_CLIENT_SECRET'' [], auth_scope = env_or env ''OAUTH_SCOPE'' [],
                  auth_trustForwardedFor = True\<rparr>,
                ctx_idle_timeout = chrono_count (get_env_u64 env ''IDTX_SESSION_IDLE_TIMEOUT_SECONDS'' 300),
                ctx_workers = unat (session_workers hardware_concurrency env),
                ctx_flush_ms = chrono_count (get_env_u64 env ''IDTX_SESSION_FLUSH_INTERVAL_MS'' 2000)\<rparr>)"

subsection \<open>Initialisation\<close>

definition env_nat :: "environment \<Rightarrow> string \<Rightarrow> nat \<Rightarrow> nat" where
  "env_nat env name fallback = unat (get_env_u64 env name (of_nat fallback))"

definition env_seconds :: "environment \<Rightarrow> string \<Rightarrow> seconds \<Rightarrow> seconds" where
  "env_seconds env name fallback = chrono_count (get_env_u64 env name (of_int fallback))"

definition rate_limit_config :: "environment \<Rightarrow> Config" where
  "rate_limit_config env =
     (let c = default_Config
      in c\<lparr>globalMaxRequests := env_nat env ''RL_GLOBAL_MAX_REQUESTS'' (globalMaxRequests c),
           globalWindow := env_seconds env ''RL_GLOBAL_WINDOW_SECONDS'' (globalWindow c),
           loginMaxRequests := env_nat env ''RL_LOGIN_MAX_REQUESTS'' (loginMaxRequests c),
           loginWindow := env_seconds env ''RL_LOGIN_WINDOW_SECONDS'' (loginWindow c),
           loginMaxFailures := env_nat env ''RL_LOGIN_MAX_FAILURES'' (loginMaxFailures c),
           loginFailureWindow := env_seconds env ''RL_LOGIN_FAILURE_WINDOW_SECONDS'' (loginFailureWindow c),
           loginLockout := env_seconds env ''RL_LOGIN_LOCKOUT_SECONDS'' (loginLockout c),
           loginMaxBodyBytes := env_nat env ''RL_LOGIN_MAX_BODY_BYTES'' (loginMaxBodyBytes c),
           globalMaxBodyBytes := env_nat env ''RL_GLOBAL_MAX_BODY_BYTES'' (globalMaxBodyBytes c),
           trustForwardedFor := (case get_env env ''RL_TRUST_FORWARDED_FOR'' of
             None \<Rightarrow> trustForwardedFor c | Some v \<Rightarrow> v \<noteq> ''false'' \<and> v \<noteq> ''0'')\<rparr>)"

record 'st server =
  srv_rate :: RateLimitHandler
  srv_jwt :: JwtAuthHandler
  srv_auth :: AuthController
  srv_files :: "'st FileServingController"

text \<open>Everything outside the program that a request may involve.\<close>

record ('st, 'ly) world =
  w_json :: json_library
  w_jwt :: jwt_library
  w_transport :: transport
  w_library :: "('st, 'ly) Library"
  w_stages :: "'st stage_library"
  w_files :: file_env
  w_schedule :: schedule
  w_outcome :: "nat \<Rightarrow> future_state"
  w_random :: "u64 \<times> u64"
  w_system_now :: int
  w_clock :: "nat \<Rightarrow> time_point"
  w_seconds :: nat
  w_url_params :: "string \<rightharpoonup> string"
  w_method_name :: "HTTPMethod \<Rightarrow> string"
  w_cors :: "request \<Rightarrow> response \<Rightarrow> response"
  w_unrouted :: "request \<Rightarrow> response"
  w_exception :: "string \<Rightarrow> response"

definition Initialize ::
  "('st, 'ly) world \<Rightarrow> environment \<Rightarrow> JwtAuthHandler \<Rightarrow> AuthController \<Rightarrow> 'st FileServingController \<Rightarrow> ('st server \<times> AuditRecord list) throws" where
  "Initialize w env jwt0 auth fc =
     (let cfg = rate_limit_config env; rate = configure cfg (w_clock w 0) RateLimitHandler_create
      in case OidcConfiguration_create env ''OIDC_WELLKNOWN_URL'' ''OIDC_AUDIENCES'' of
           Inl what \<Rightarrow> Inl what
         | Inr (oidc, recs) \<Rightarrow>
             Inr (\<lparr>srv_rate = rate,
                   srv_jwt = JwtAuthHandler_configure (w_json w) (w_jwt w) (w_transport w) oidc [''RS256'', ''PS256''] 60 jwt0,
                   srv_auth = auth\<lparr>auth_trustForwardedFor := trustForwardedFor cfg\<rparr>, srv_files = fc\<rparr>, recs))"

text \<open>\<^verbatim>\<open>atoi\<close> into a 16-bit port, and the idle timeout in one byte.\<close>

definition atoi16 :: "string \<Rightarrow> 16 word" where
  "atoi16 s =
     (let t = dropWhile is_space s;
          u = (if t \<noteq> [] \<and> (hd t = CHR ''-'' \<or> hd t = CHR ''+'') then tl t else t);
          n = (of_nat (digits_value (takeWhile is_digit u)) :: 16 word)
      in if t \<noteq> [] \<and> hd t = CHR ''-'' then - n else n)"

definition server_port :: "environment \<Rightarrow> 16 word" where
  "server_port env = atoi16 (env_or env ''SERVER_PORT'' ''8080'')"

definition server_timeout :: "environment \<Rightarrow> u8" where
  "server_timeout env = ucast (get_env_u64 env ''SERVER_TIMEOUT_SECONDS'' 5)"

subsection \<open>Routes\<close>

datatype endpoint =
    HealthEndpoint
  | LoginEndpoint
  | FileListEndpoint
  | FileExistsEndpoint string
  | ServeFileEndpoint string
  | UploadEndpoint
  | ThumbnailExistsEndpoint string
  | ServeThumbnailEndpoint string
  | SessionListEndpoint
  | CreateSessionEndpoint
  | GetSessionEndpoint string
  | DeleteSessionEndpoint string
  | CommitSessionEndpoint string

definition path_after :: "string \<Rightarrow> string \<Rightarrow> string option" where
  "path_after p u = (if starts_with u p \<and> drop (length p) u \<noteq> [] then Some (drop (length p) u) else None)"

definition segment_after :: "string \<Rightarrow> string \<Rightarrow> string option" where
  "segment_after p u = (case path_after p u of None \<Rightarrow> None | Some s \<Rightarrow> if slash \<in> set s then None else Some s)"

definition commit_segment :: "string \<Rightarrow> string option" where
  "commit_segment u =
     (if ends_with u ''/commit'' then segment_after ''/api/v1/sessions/'' (take (length u - 7) u) else None)"

definition HealthRoutes :: "HTTPMethod \<Rightarrow> string \<Rightarrow> endpoint option" where
  "HealthRoutes md u = (if md = Get \<and> u = ''/api/v1/health'' then Some HealthEndpoint else None)"

definition AuthRoutes :: "HTTPMethod \<Rightarrow> string \<Rightarrow> endpoint option" where
  "AuthRoutes md u = (if md = PostMethod \<and> u = ''/api/v1/auth/login'' then Some LoginEndpoint else None)"

definition FileServingRoutes :: "HTTPMethod \<Rightarrow> string \<Rightarrow> endpoint option" where
  "FileServingRoutes md u =
     (if md = Get \<and> u = ''/api/v1/files'' then Some FileListEndpoint
      else if md = Head \<and> path_after ''/api/v1/download/'' u \<noteq> None then map_option FileExistsEndpoint (path_after ''/api/v1/download/'' u)
      else if md = Get \<and> path_after ''/api/v1/download/'' u \<noteq> None then map_option ServeFileEndpoint (path_after ''/api/v1/download/'' u)
      else if md = PostMethod \<and> u = ''/api/v1/upload'' then Some UploadEndpoint
      else if md = Head \<and> path_after ''/api/v1/thumbnail/'' u \<noteq> None then map_option ThumbnailExistsEndpoint (path_after ''/api/v1/thumbnail/'' u)
      else if md = Get \<and> path_after ''/api/v1/thumbnail/'' u \<noteq> None then map_option ServeThumbnailEndpoint (path_after ''/api/v1/thumbnail/'' u)
      else None)"

definition SessionRoutes :: "HTTPMethod \<Rightarrow> string \<Rightarrow> endpoint option" where
  "SessionRoutes md u =
     (if md = Get \<and> u = ''/api/v1/sessions'' then Some SessionListEndpoint
      else if md = PostMethod \<and> u = ''/api/v1/sessions'' then Some CreateSessionEndpoint
      else if md = Get \<and> segment_after ''/api/v1/sessions/'' u \<noteq> None then map_option GetSessionEndpoint (segment_after ''/api/v1/sessions/'' u)
      else if md = Delete \<and> segment_after ''/api/v1/sessions/'' u \<noteq> None then map_option DeleteSessionEndpoint (segment_after ''/api/v1/sessions/'' u)
      else if md = PostMethod then map_option CommitSessionEndpoint (commit_segment u)
      else None)"

fun first_some :: "'a option list \<Rightarrow> 'a option" where
  "first_some [] = None"
| "first_some (Some x # xs) = Some x"
| "first_some (None # xs) = first_some xs"

definition RegisterAllRoutes :: "HTTPMethod \<Rightarrow> string \<Rightarrow> endpoint option" where
  "RegisterAllRoutes md u = first_some [HealthRoutes md u, AuthRoutes md u, FileServingRoutes md u, SessionRoutes md u]"

subsection \<open>Dispatch\<close>

definition with_manager :: "'st SessionManager \<Rightarrow> 'st server \<Rightarrow> 'st server" where
  "with_manager m s = s\<lparr>srv_files := (srv_files s)\<lparr>sm := m\<rparr>\<rparr>"

text \<open>The handler of an endpoint; \<open>None\<close> is a handler that does not return.\<close>

fun run_endpoint :: "('st, 'ly) world \<Rightarrow> request \<Rightarrow> endpoint \<Rightarrow> 'st server \<Rightarrow> (response \<times> 'st server) option" where
  "run_endpoint w req HealthEndpoint s = Some (GetHealth (w_seconds w), s)"
| "run_endpoint w req LoginEndpoint s =
     (case Login (w_json w) (w_transport w) (w_clock w 3) (srv_auth s) req (GetLoginThrottler (srv_rate s)) of
        (res, throttler, recs) \<Rightarrow> Some (res, s\<lparr>srv_rate := (srv_rate s)\<lparr>loginThrottler := throttler\<rparr>\<rparr>))"
| "run_endpoint w req FileListEndpoint s = Some (GetFileList (w_files w) (w_url_params w) (srv_files s), s)"
| "run_endpoint w req (FileExistsEndpoint p) s = Some (FileExists (w_files w) p (srv_files s), s)"
| "run_endpoint w req (ServeFileEndpoint p) s = Some (ServeFile (w_files w) p (srv_files s), s)"
| "run_endpoint w req UploadEndpoint s =
     (case UploadFile (w_files w) (w_schedule w) req (srv_files s) of (res, fc) \<Rightarrow> Some (res, s\<lparr>srv_files := fc\<rparr>))"
| "run_endpoint w req (ThumbnailExistsEndpoint p) s = map_option (\<lambda>res. (res, s)) (ThumbnailExists p (srv_files s))"
| "run_endpoint w req (ServeThumbnailEndpoint p) s = map_option (\<lambda>res. (res, s)) (ServeThumbnail p (srv_files s))"
| "run_endpoint w req SessionListEndpoint s = Some (GetSessionList (sm (srv_files s)), s)"
| "run_endpoint w req CreateSessionEndpoint s =
     (case CreateSession (w_json w) (env_fs (w_files w)) (w_stages w) (w_random w) (w_system_now w) (w_clock w 3) req (sm (srv_files s)) of
        (res, m) \<Rightarrow> Some (res, with_manager m s))"
| "run_endpoint w req (GetSessionEndpoint sid) s = Some (GetSession sid (sm (srv_files s)), s)"
| "run_endpoint w req (DeleteSessionEndpoint sid) s =
     map_option (\<lambda>r. case r of (res, m) \<Rightarrow> (res, with_manager m s))
       (DeleteSession (w_library w) (w_stages w) (w_schedule w) sid (sm (srv_files s)))"
| "run_endpoint w req (CommitSessionEndpoint sid) s =
     (case CommitSession (w_schedule w) (w_outcome w) sid (sm (srv_files s)) of (res, m) \<Rightarrow> Some (res, with_manager m s))"

text \<open>Rate limiting, then CORS, then authentication, then the handler.\<close>

definition handle_request :: "('st, 'ly) world \<Rightarrow> request \<Rightarrow> 'st server \<Rightarrow> (response \<times> 'st server) option" where
  "handle_request w req s =
     (case before_handle (w_method_name w) (w_clock w) req (srv_rate s) empty_response \<lparr>blocked = False, ctx_clientIp = []\<rparr> of
        (rate, res, ctx, recs) \<Rightarrow>
          let s1 = s\<lparr>srv_rate := rate\<rparr>
          in if ended res then Some (res, s1)
             else let res1 = w_cors w req res
                  in if ended res1 then Some (res1, s1)
                     else
                       (case jwt_before_handle (w_json w) (w_jwt w) (w_transport w) req (srv_jwt s1) res1
                               \<lparr>authenticated = False, ctx_message = [], ctx_sub = []\<rparr> of
                          Inl what \<Rightarrow> Some (w_exception w what, s1)
                        | Inr (jwt, res2, jctx) \<Rightarrow>
                            let s2 = s1\<lparr>srv_jwt := jwt\<rparr>
                            in if ended res2 then Some (res2, s2)
                               else
                                 (case RegisterAllRoutes (http_method req) (url req) of
                                    None \<Rightarrow> Some (w_unrouted w req, s2)
                                  | Some e \<Rightarrow> run_endpoint w req e s2)))"

end
