(* ===== verification/File_Serving_Properties.thy ===== *)
theory File_Serving_Properties
  imports File_Serving
begin

text \<open>
  What the file endpoints promise: an upload changes one file or none, below the uploads root, and what
  was uploaded is found again by the paths in the reply.
\<close>

subsection \<open>The text of a relative path\<close>

lemma path_names_join_names:
  "(\<And>n. n \<in> set es \<Longrightarrow> n \<noteq> [] \<and> slash \<notin> set n) \<Longrightarrow> path_names (join_names es) = es"
  by (induction es rule: join_names.induct) (auto simp: path_names_name)

lemma join_names_facts:
  assumes "es \<noteq> []" and "\<And>n. n \<in> set es \<Longrightarrow> n \<noteq> [] \<and> slash \<notin> set n"
  shows "join_names es \<noteq> [] \<and> hd (join_names es) \<noteq> slash \<and> last (join_names es) \<noteq> slash \<and>
    path_filename (join_names es) = last es \<and> set (join_names es) \<subseteq> insert slash (\<Union> (set ` set es))"
  using assms
proof (induction es rule: join_names.induct)
  case (2 n)
  then have "hd n \<in> set n" "last n \<in> set n" "split_on slash n = [n]" "slash \<notin> set n" by (simp_all add: split_on_no_sep)
  then have "hd n \<noteq> slash" "last n \<noteq> slash" by metis+
  with 2 \<open>split_on slash n = [n]\<close> show ?case by (auto simp: path_filename_def)
next
  case (3 n m es)
  then have "hd n \<in> set n" "slash \<notin> set n" by simp_all
  then have "hd n \<noteq> slash" by metis
  moreover have "hd (join_names (n # m # es)) = hd n" using 3 by simp
  moreover have "path_filename (join_names (n # m # es)) = path_filename (join_names (m # es))"
    by (simp add: path_filename_def split_on_append)
  ultimately show ?case using 3 by auto
qed simp

lemma contains_append_slash:
  "contains (a @ slash # b) p \<Longrightarrow> slash \<notin> set p \<Longrightarrow> contains a p \<or> contains b p"
proof -
  assume "contains (a @ slash # b) p" "slash \<notin> set p"
  then obtain u v where eq: "a @ slash # b = u @ p @ v" by (auto simp: contains_sublist sublist_def)
  show "contains a p \<or> contains b p"
  proof (cases "length (u @ p) \<le> length a")
    case True
    then have "prefix (u @ p) a" using eq by (metis append.assoc prefix_def prefix_length_prefix prefixI)
    then show ?thesis by (auto simp: contains_sublist prefix_def)
  next
    case False
    show ?thesis
    proof (cases "length u \<le> length a")
      case True
      have "(a @ slash # b) ! length a = slash" by simp
      moreover have i: "length a - length u < length p" using True False by auto
      then have "(u @ p @ v) ! length a = p ! (length a - length u)" using True by (simp add: nth_append)
      ultimately have "slash \<in> set p" using i nth_mem unfolding eq by metis
      then show ?thesis using \<open>slash \<notin> set p\<close> by simp
    next
      case False
      then have "prefix (a @ [slash]) u"
        using eq by (metis Suc_leI append.assoc append_Cons append_Nil length_append_singleton not_le prefixI prefix_length_prefix)
      then obtain u' where "u = a @ slash # u'" by (auto simp: prefix_def)
      then have "b = u' @ p @ v" using eq by simp
      then show ?thesis by (auto simp: contains_sublist)
    qed
  qed
qed

lemma join_names_no_dots:
  "(\<And>n. n \<in> set es \<Longrightarrow> \<not> contains n ''..'') \<Longrightarrow> \<not> contains (join_names es) ''..''"
proof (induction es rule: join_names.induct)
  case (3 n m es)
  then show ?case using contains_append_slash [of n "join_names (m # es)" "''..''"] by (auto simp: slash_def)
qed simp_all

text \<open>The relative path of an accepted upload, written with single separators, names the same file.\<close>

lemma upload_generic:
  assumes "validate_filename rf = (Ok, f)" and "validate_directory rd = (Ok, d)"
    and "relative = (if d = [] then f else path_join d f)"
  defines "g \<equiv> generic_string relative"
  shows "path_names g = path_names relative" "g \<noteq> []" "\<not> is_absolute g" "last g \<noteq> slash" "path_filename g = f"
    "list_all path_char g" "\<not> contains g ''..''"
proof -
  note R = upload_relative [OF assms(1,2), folded assms(3)]
    and F = validate_filename_ok [OF assms(1)] and D = validate_directory_ok [OF assms(2)]
  have g: "g = join_names (path_names relative)"
  proof (cases "path_names relative")
    case (Cons n es)
    then have "n \<noteq> [slash]" using path_names_nonempty [of n relative] by auto
    then show ?thesis
      using R(2,4) Cons by (simp add: g_def generic_string_def path_elems_def has_trailing_slash_def path_text_def)
  qed (use R(1) in simp)
  have ne: "path_names relative \<noteq> []" using R(1) by simp
  show "path_names g = path_names relative" unfolding g by (rule path_names_join_names) (rule path_names_nonempty)
  have J: "g \<noteq> [] \<and> hd g \<noteq> slash \<and> last g \<noteq> slash \<and> path_filename g = last (path_names relative) \<and>
      set g \<subseteq> insert slash (\<Union> (set ` set (path_names relative)))"
    unfolding g by (rule join_names_facts [OF ne]) (rule path_names_nonempty)
  show "g \<noteq> []" "last g \<noteq> slash" using J by simp_all
  show "\<not> is_absolute g" using J by (simp add: is_absolute_def)
  show "path_filename g = f" using J R(1) by simp
  have f2: "\<not> contains f ''..''"
    using assms(1) by (auto simp: validate_filename_def split: option.splits if_splits)
  have names: "list_all path_char n \<and> \<not> contains n ''..''" if "n \<in> set (path_names relative)" for n
  proof (cases "n = f")
    case True
    then show ?thesis using F f2 by (auto simp: list_all_iff path_char_def)
  next
    case False
    then have "n \<in> set (path_names d)" using that R(1) by simp
    then have "n \<in> set (split_on slash d)" by (simp add: path_names_def)
    then have "sublist n d" by (rule split_on_sublist)
    then show ?thesis using D contains_sublist_mono [of n "''..''" d] by (auto simp: list_all_iff dest: set_mono_sublist)
  qed
  then show "\<not> contains g ''..''" unfolding g by (intro join_names_no_dots) simp
  have "path_char slash" by (simp add: path_char_def)
  then show "list_all path_char g" using J names by (fastforce simp: list_all_iff)
qed

subsection \<open>What an upload writes\<close>

lemma write_upload_effect:
  assumes "write_upload env full content d = (r, d')" and "full \<noteq> []"
  shows "(r = None \<longrightarrow> (\<exists>bytes. stream_write env (tmp_key full) content = (True, bytes) \<and>
      d' = d(tmp_key full := None, full \<mapsto> bytes))) \<and>
    (\<forall>resp. r = Some resp \<longrightarrow> code resp = 500 \<and> (\<forall>k. k \<noteq> tmp_key full \<longrightarrow> d' k = d k))"
proof -
  have "tmp_key full \<noteq> full"
    using assms(2) by (metis append_butlast_last_id append_self_conv list.distinct(1) same_append_eq tmp_key_def list.inject)
  then show ?thesis
    using assms(1)
    by (auto simp: write_upload_def Let_def remove_key_def make_error_def set_header_def fun_upd_twist
        split: if_splits prod.splits option.splits)
qed

lemma submit_each_files: "files (snd (submit_each sched c rs m)) = files m"
proof (induction rs arbitrary: m)
  case (Cons r rs)
  have "files (snd (Submit sched Normal r c m)) = files m"
    by (auto simp: Submit_def put_object_def split: option.split prod.split)
  with Cons show ?case by (auto split: prod.splits) (metis snd_conv)
qed simp

lemma reload_files [simp]: "files (snd (SubmitReloadSessionsCommand sched f skip m)) = files m"
  by (simp add: SubmitReloadSessionsCommand_def submit_each_files)

lemma error_not_created [simp]:
  "code (make_error c e msg) = c" "code (upload_reply env full relative content d t) = 201"
  by (simp_all add: make_error_def set_header_def upload_reply_def plain_response_def Let_def)

lemma upload_fields_error: "upload_fields env req = Inl r \<Longrightarrow> code r \<noteq> 201"
  by (auto simp: upload_fields_def Let_def split: if_splits sum.splits)

lemma target_error_code: "code (target_error st) \<noteq> 201"
  by (auto simp: target_error_def split: Status.split)

text \<open>Either nothing but the temporary file next to the target changed, or the upload was stored.\<close>

lemma store_upload_effect:
  assumes "store_upload env sched full relative content replaces s = (res, s')" and "full \<noteq> []"
  shows "code res \<noteq> 201 \<and> (\<forall>k. k \<noteq> tmp_key full \<longrightarrow> files (sm s') k = files (sm s) k) \<and>
      s' = s\<lparr>sm := (sm s)\<lparr>files := files (sm s')\<rparr>\<rparr> \<or>
    (\<exists>bytes t w. stream_write env (tmp_key full) content = (True, bytes) \<and>
      files (sm s') = (files (sm s))(tmp_key full := None, full \<mapsto> bytes) \<and>
      queue_thumbnail env (Locator s) full relative (m_thumbnails s) = (t, w) \<and> m_thumbnails s' = w \<and>
      m_locator_ptr s' = m_locator_ptr s \<and>
      res = upload_reply env full relative content (files (sm s')) t \<and>
      sm s' = (if replaces \<and> m_session_manager s
        then snd (SubmitReloadSessionsCommand sched (generic_string relative) None ((sm s)\<lparr>files := files (sm s')\<rparr>))
        else (sm s)\<lparr>files := files (sm s')\<rparr>))"
proof (cases "EnsureDirectoryInsideRoot (env_fs env) (Locator s) (path_text (butlast full))")
  case Ok
  obtain r d where w: "write_upload env full content (files (sm s)) = (r, d)" by fastforce
  note W = write_upload_effect [OF w assms(2)]
  show ?thesis
  proof (cases r)
    case (Some resp)
    then have "res = resp" "s' = s\<lparr>sm := (sm s)\<lparr>files := d\<rparr>\<rparr>" using assms(1) by (simp_all add: store_upload_def Ok w)
    then show ?thesis using W Some by simp
  next
    case None
    obtain t thumbs where q: "queue_thumbnail env (Locator s) full relative (m_thumbnails s) = (t, thumbs)" by fastforce
    have "res = upload_reply env full relative content d t" "files (sm s') = d" "m_thumbnails s' = thumbs" "m_locator_ptr s' = m_locator_ptr s"
      "sm s' = (if replaces \<and> m_session_manager s
        then snd (SubmitReloadSessionsCommand sched (generic_string relative) None ((sm s)\<lparr>files := d\<rparr>)) else (sm s)\<lparr>files := d\<rparr>)"
      using assms(1) by (auto simp: store_upload_def Ok w None q Let_def)
    then show ?thesis using W None q by auto
  qed
qed (use assms(1) in \<open>auto simp: store_upload_def\<close>)

subsection \<open>Reading back\<close>

lemma PercentDecode_plain: "list_all path_char p \<Longrightarrow> PercentDecode p False False = Some p"
proof (induction p)
  case (Cons c p)
  then have "c \<noteq> CHR ''%''" by (auto simp: path_char_def name_char_def slash_def Let_def)
  with Cons show ?case by simp
qed simp

lemma generic_validated:
  assumes "validate_filename rf = (Ok, f)" and "validate_directory rd = (Ok, d)"
    and "relative = (if d = [] then f else path_join d f)"
  shows "ValidatePath (generic_string relative) = (Ok, generic_string relative)"
  using upload_generic [OF assms] PercentDecode_plain by (simp add: ValidatePath_def)

lemma generic_key:
  assumes "validate_filename rf = (Ok, f)" and "validate_directory rd = (Ok, d)"
    and "relative = (if d = [] then f else path_join d f)"
  shows "file_key (path_join r (generic_string relative)) = lexically_normal (path_join r relative)"
proof -
  note R = upload_relative [OF assms(1,2), folded assms(3)] and G = upload_generic [OF assms]
    and F = validate_filename_ok [OF assms(1)]
  show ?thesis
    unfolding file_key_def
    using lexically_normal_join [OF R(2,3,4,5,1), of r] lexically_normal_join [OF G(3,2,4), of "path_names d" f r] F G(1) R(1,5) by simp
qed

lemma path_filename_join: "\<not> is_absolute q \<Longrightarrow> path_filename (path_join p q) = path_filename q"
proof (cases "p = []")
  case False
  assume q: "\<not> is_absolute q"
  have "last (split_on slash (x @ slash # q)) = last (split_on slash q)" for x by (simp add: split_on_append)
  moreover have "path_join p q = (if last p = slash then butlast p else p) @ slash # q"
  proof (cases "last p = slash")
    case True
    then have "p = butlast p @ [slash]" using append_butlast_last_id [OF False] by simp
    then have "p @ q = butlast p @ slash # q" by (metis append.assoc append_Cons append_Nil)
    then show ?thesis using True q False by (simp add: path_join_def)
  qed (use q False in \<open>simp add: path_join_def\<close>)
  ultimately show ?thesis by (simp add: path_filename_def)
qed (simp add: path_join_def)

definition located :: "filesystem_view \<Rightarrow> UsdFileLocator \<Rightarrow> fspath \<Rightarrow> bool" where
  "located fs loc p \<longleftrightarrow>
     (\<exists>r c. fs_canonical fs (root loc) = Inr r \<and> fs_canonical fs (path_join (root loc) p) = Inr c \<and> elems_within r c \<and>
        fs_exists fs (path_join (root loc) p))"

lemma Resolve_generic:
  assumes "validate_filename rf = (Ok, f)" and "validate_directory rd = (Ok, d)"
    and "relative = (if d = [] then f else path_join d f)" and "located fs loc (generic_string relative)"
  shows "Resolve fs loc (generic_string relative) = (Ok, path_join (root loc) (generic_string relative))"
proof -
  let ?g = "generic_string relative"
  note G = upload_generic [OF assms(1-3)] and F = validate_filename_ok [OF assms(1)]
  have "path_filename (path_join (root loc) ?g) = f"
    using G(3,5) path_filename_join by simp
  moreover obtain r c where "fs_canonical fs (root loc) = Inr r" "fs_canonical fs (path_join (root loc) ?g) = Inr c"
    "elems_within r c" "fs_exists fs (path_join (root loc) ?g)"
    using assms(4) unfolding located_def by blast
  ultimately show ?thesis
    using F by (simp add: Resolve_def generic_validated [OF assms(1-3)] Let_def)
qed

subsection \<open>Properties\<close>

definition below_root :: "UsdFileLocator \<Rightarrow> string list \<Rightarrow> bool" where
  "below_root loc k \<longleftrightarrow> (\<exists>rest. k = lexically_normal (root loc) @ rest \<and> rest \<noteq> [] \<and> list_all plain_name rest)"

lemma upload_keys:
  assumes "ValidateUploadTarget loc dir filename = (Ok, full, relative)"
  shows "full \<noteq> []" "below_root loc full" "below_root loc (tmp_key full)" "\<not> IsUsdFilename (last (tmp_key full))"
proof -
  obtain f d where f: "validate_filename filename = (Ok, f)" and d: "validate_directory dir = (Ok, d)"
    and rel: "relative = (if d = [] then f else path_join d f)"
    and full: "full = lexically_normal (root loc) @ filter (\<lambda>n. n \<noteq> ''.'') (path_names relative)"
    using upload_target_shape [OF assms] by metis
  note R = upload_relative [OF f d, folded rel] and F = validate_filename_ok [OF f]
  let ?ds = "filter (\<lambda>n. n \<noteq> ''.'') (path_names d)"
  have full: "full = lexically_normal (root loc) @ ?ds @ [f]" using full R(1) F by simp
  then show "full \<noteq> []" by simp
  have ds: "list_all plain_name ?ds"
    using R(1,5) path_names_nonempty [of _ d] by (auto simp: list_all_iff plain_name_def)
  have "plain_name f" using F by (simp add: plain_name_def)
  then show "below_root loc full" using ds unfolding below_root_def full by (intro exI [of _ "?ds @ [f]"]) simp
  have tmp: "tmp_key full = lexically_normal (root loc) @ ?ds @ [f @ ''.part'']" by (simp add: tmp_key_def full butlast_append)
  have "plain_name (f @ ''.part'')" using F by (auto simp: plain_name_def slash_def append_eq_Cons_conv)
  then show "below_root loc (tmp_key full)" using ds unfolding below_root_def tmp by (intro exI [of _ "?ds @ [f @ ''.part'']"]) simp
  show "\<not> IsUsdFilename (last (tmp_key full))"
    by (simp add: tmp IsUsdFilename_def ends_with_suffix suffix_def append_eq_append_conv2 append_eq_Cons_conv)
qed

text \<open>C3: An upload is all or nothing and stays inside the uploads root. Whatever the request is and whatever
  the file system does, only files below the root change, and a USD file changes only when the reply is
  201. Any other reply leaves the sessions and the thumbnail queue alone. With 201 the target holds
  the bytes the stream wrote, the temporary file is gone, and nothing else changed; an existing file
  was replaced only on request, and exactly then the sessions on it are asked to reload.\<close>

theorem upload_all_or_nothing:
  assumes "UploadFile env sched req s = (res, s')"
  shows "(\<forall>k. files (sm s') k \<noteq> files (sm s) k \<longrightarrow> below_root (Locator s) k \<and> (IsUsdFilename (last k) \<longrightarrow> code res = 201)) \<and>
    (code res \<noteq> 201 \<longrightarrow> sm s' = (sm s)\<lparr>files := files (sm s')\<rparr> \<and> m_thumbnails s' = m_thumbnails s) \<and>
    (code res = 201 \<longrightarrow> (\<exists>content filename dir overwrite full relative bytes.
      upload_fields env req = Inr (content, filename, dir, overwrite) \<and>
      ValidateUploadTarget (Locator s) dir filename = (Ok, full, relative) \<and>
      stream_write env (tmp_key full) content = (True, bytes) \<and>
      files (sm s') = (files (sm s))(tmp_key full := None, full \<mapsto> bytes) \<and>
      (let replaced = files (sm s) full \<noteq> None \<or> directory_at env full; m1 = (sm s)\<lparr>files := files (sm s')\<rparr>
       in (replaced \<longrightarrow> overwrite) \<and>
          sm s' = (if replaced \<and> m_session_manager s
                   then snd (SubmitReloadSessionsCommand sched (generic_string relative) None m1) else m1))))"
proof (cases "upload_fields env req")
  case (Inl r)
  then show ?thesis using assms upload_fields_error [OF Inl] by (simp add: UploadFile_def)
next
  case (Inr x)
  obtain content filename dir overwrite where x: "x = (content, filename, dir, overwrite)" by (metis prod_cases4)
  obtain status full relative where v: "ValidateUploadTarget (Locator s) dir filename = (status, full, relative)"
    by (metis prod_cases3)
  show ?thesis
  proof (cases "status = Ok \<and> ((files (sm s) full \<noteq> None \<or> directory_at env full) \<longrightarrow> overwrite)")
    case False
    then show ?thesis
      using assms target_error_code by (auto simp: UploadFile_def Inr x v Let_def split: Status.splits)
  next
    case True
    let ?s1 = "s\<lparr>m_locator_ptr := Some (Locator s)\<rparr>"
    have st: "store_upload env sched full relative content ((files (sm s) full \<noteq> None \<or> directory_at env full) \<and> overwrite) ?s1 = (res, s')"
      using assms True by (auto simp: UploadFile_def Inr x v Let_def)
    note K = upload_keys [OF v [unfolded True [THEN conjunct1]]]
    from store_upload_effect [OF st K(1)] show ?thesis
    proof (elim disjE exE conjE)
      assume a: "code res \<noteq> 201" "\<forall>k. k \<noteq> tmp_key full \<longrightarrow> files (sm s') k = files (sm ?s1) k"
        "s' = ?s1\<lparr>sm := (sm ?s1)\<lparr>files := files (sm s')\<rparr>\<rparr>"
      have "sm s' = (sm s)\<lparr>files := files (sm s')\<rparr>" "m_thumbnails s' = m_thumbnails s" by (subst a(3), simp)+
      moreover have "k = tmp_key full" if "files (sm s') k \<noteq> files (sm s) k" for k using a(2) that by auto
      ultimately show ?thesis using a(1) K(3,4) by auto
    next
      fix bytes t w
      assume a: "stream_write env (tmp_key full) content = (True, bytes)"
        "files (sm s') = (files (sm ?s1))(tmp_key full := None, full \<mapsto> bytes)"
        "res = upload_reply env full relative content (files (sm s')) t"
        "sm s' = (if ((files (sm s) full \<noteq> None \<or> directory_at env full) \<and> overwrite) \<and> m_session_manager ?s1
          then snd (SubmitReloadSessionsCommand sched (generic_string relative) None ((sm ?s1)\<lparr>files := files (sm s')\<rparr>))
          else (sm ?s1)\<lparr>files := files (sm s')\<rparr>)"
      have "below_root (Locator s) k" if "files (sm s') k \<noteq> files (sm s) k" for k
        using that K(2,3) a(2) by (auto split: if_splits)
      moreover have "code res = 201" using a(3) by simp
      ultimately show ?thesis
        using a True Inr x v by (auto simp: Let_def)
    qed
  qed
qed

text \<open>The data of a stored upload.\<close>

lemma upload_stored:
  assumes "UploadFile env sched req s = (res, s')" and "code res = 201"
  shows "\<exists>content filename dir overwrite full relative bytes t.
    upload_fields env req = Inr (content, filename, dir, overwrite) \<and>
    ValidateUploadTarget (Locator s) dir filename = (Ok, full, relative) \<and>
    stream_write env (tmp_key full) content = (True, bytes) \<and> files (sm s') full = Some bytes \<and>
    m_locator_ptr s' = Some (Locator s) \<and>
    queue_thumbnail env (Locator s) full relative (m_thumbnails s) = (t, m_thumbnails s') \<and>
    res = upload_reply env full relative content (files (sm s')) t"
proof (cases "upload_fields env req")
  case (Inl r)
  then show ?thesis using assms upload_fields_error [OF Inl] by (simp add: UploadFile_def)
next
  case (Inr x)
  obtain content filename dir overwrite where x: "x = (content, filename, dir, overwrite)" by (metis prod_cases4)
  obtain status full relative where v: "ValidateUploadTarget (Locator s) dir filename = (status, full, relative)"
    by (metis prod_cases3)
  let ?s1 = "s\<lparr>m_locator_ptr := Some (Locator s)\<rparr>"
  let ?e = "files (sm s) full \<noteq> None \<or> directory_at env full"
  have ok: "status = Ok" and st: "store_upload env sched full relative content (?e \<and> overwrite) ?s1 = (res, s')"
    using assms target_error_code by (auto simp: UploadFile_def Inr x v Let_def split: Status.splits if_splits)
  have loc: "Locator ?s1 = Locator s" by (simp add: Locator_def)
  from store_upload_effect [OF st upload_keys(1) [OF v [unfolded ok]]] assms(2) obtain bytes t where
    "stream_write env (tmp_key full) content = (True, bytes)" "files (sm s') full = Some bytes"
    "queue_thumbnail env (Locator s) full relative (m_thumbnails s) = (t, m_thumbnails s')"
    "m_locator_ptr s' = Some (Locator s)" "res = upload_reply env full relative content (files (sm s')) t"
    unfolding loc by auto
  then show ?thesis using Inr x v ok by blast
qed

lemma reply_location: "map_of (res_headers (upload_reply env full relative content d t)) ''Location'' =
    Some (''/api/v1/download/'' @ generic_string relative)"
  by (simp add: upload_reply_def Let_def set_header_def update_conv')

text \<open>C23: What was uploaded is downloaded. After a stored upload, a download of the path in the
  \<^verbatim>\<open>Location\<close> header of the reply returns exactly the uploaded bytes, whatever spelling the request used
  for the directory, provided the stream wrote the bytes it accepted and the file system finds the
  stored file inside the uploads root.\<close>

theorem upload_round_trip:
  assumes "UploadFile env sched req s = (res, s')" and "code res = 201"
    and "map_of (res_headers res) ''Location'' = Some (''/api/v1/download/'' @ p)"
    and "located (env_fs env) (Locator s) p"
    and "\<forall>k c bytes. stream_write env k c = (True, bytes) \<longrightarrow> bytes = c"
  shows "\<exists>content rest. upload_fields env req = Inr (content, rest) \<and>
    code (ServeFile env p s') = 200 \<and> res_body (ServeFile env p s') = Text content"
proof -
  obtain content filename dir overwrite full relative bytes t where
    fields: "upload_fields env req = Inr (content, filename, dir, overwrite)"
    and v: "ValidateUploadTarget (Locator s) dir filename = (Ok, full, relative)"
    and w: "stream_write env (tmp_key full) content = (True, bytes)" "files (sm s') full = Some bytes"
    and loc: "m_locator_ptr s' = Some (Locator s)"
    and res: "res = upload_reply env full relative content (files (sm s')) t"
    using upload_stored [OF assms(1,2)] by blast
  have p: "p = generic_string relative" using assms(3) by (simp add: res reply_location)
  obtain f d where fd: "validate_filename filename = (Ok, f)" "validate_directory dir = (Ok, d)"
    "relative = (if d = [] then f else path_join d f)" and full: "full = lexically_normal (path_join (root (Locator s)) relative)"
    using upload_target_shape [OF v] by metis
  have "Locator s' = Locator s" using loc by (simp add: Locator_def)
  then have "ServeFile env p s' = set_header ''Content-Disposition'' (''attachment; filename='' @ path_filename (path_join (root (Locator s)) p))
      (set_header ''Content-Type'' ''application/octet-stream'' (plain_response 200 (Text (read_file full (files (sm s'))))))"
    using Resolve_generic [OF fd assms(4) [unfolded p]] generic_key [OF fd, of "root (Locator s)"]
    by (simp add: ServeFile_def p full)
  moreover have "read_file full (files (sm s')) = content" using assms(5) w by (simp add: read_file_def)
  ultimately show ?thesis using fields by (simp add: set_header_def plain_response_def)
qed

text \<open>The name under which a thumbnail is looked up from the reply's path.\<close>

lemma thumb_name_plain:
  assumes "plain_name (path_filename p)" and "ext = CHR ''.'' # e" and "e \<noteq> []" and "slash \<notin> set e"
  shows "plain_name (thumb_name ext p)"
proof -
  have "path_filename p \<noteq> []" using assms(1) by (simp add: plain_name_def)
  then have "path_stem p \<noteq> []" by (auto simp: path_stem_def name_split_def Let_def)
  moreover have "slash \<notin> set (path_stem p)" using stem_no_slash [OF assms(1)] by simp
  ultimately show ?thesis
    using assms(2-4) by (auto simp: plain_name_def thumb_name_def slash_def append_eq_Cons_conv)
qed

lemma not_absolute_join: "\<not> is_absolute p \<Longrightarrow> \<not> is_absolute q \<Longrightarrow> \<not> is_absolute (path_join p q)"
  using is_absolute_join [of q p] by (cases "p = []") (simp_all add: path_join_def)

lemma thumbnail_key:
  assumes "ValidateUploadTarget loc dir filename = (Ok, full, relative)" and "ext = CHR ''.'' # e" and "e \<noteq> []" and "slash \<notin> set e"
  defines "g \<equiv> generic_string relative"
  defines "rel \<equiv> path_join (path_join (path_parent g) ''thumbs'') (thumb_name ext g)"
  defines "thumb \<equiv> butlast full @ [''thumbs'', thumb_name ext relative]"
  shows "lexically_normal (path_join (root loc) rel) = thumb" and "elems_within (lexically_normal (root loc)) thumb"
    and "''..'' \<notin> set (path_elems rel)"
proof -
  obtain f d where fd: "validate_filename filename = (Ok, f)" "validate_directory dir = (Ok, d)"
    "relative = (if d = [] then f else path_join d f)"
    and full: "full = lexically_normal (path_join (root loc) relative)"
      "full = lexically_normal (root loc) @ filter (\<lambda>n. n \<noteq> ''.'') (path_names relative)"
    using upload_target_shape [OF assms(1)] by metis
  note R = upload_relative [OF fd(1,2), folded fd(3)] and G = upload_generic [OF fd, folded g_def]
    and F = validate_filename_ok [OF fd(1)]
  have f: "plain_name f" "\<not> is_absolute f" using F by (auto simp: plain_name_def is_absolute_def dest: hd_in_set)
  have parent: "path_names (path_parent g) = path_names d" "\<not> is_absolute (path_parent g)"
    using path_parent_shape [of g] f(1) G(1,3,5) R(1) by (auto simp: is_absolute_def)
  have "path_filename relative = f" using fd(3) f path_filename_join [of f d] by (simp add: path_filename_def split_on_no_sep plain_name_def)
  then have tn: "thumb_name ext g = thumb_name ext relative" using G(5) by (simp add: thumb_name_def path_stem_def)
  let ?t = "thumb_name ext relative"
  have t: "plain_name ?t" using thumb_name_plain [OF _ assms(2-4), of g] f(1) G(5) tn by simp
  note plain = plain_relative [OF t]
  have thumbs: "\<not> is_absolute ''thumbs''" by (simp add: is_absolute_def slash_def)
  have names: "path_names rel = (path_names d @ [''thumbs'']) @ [?t]"
    using t plain thumbs parent(1) path_names_name [of "''thumbs''"]
    by (simp add: rel_def tn path_names_join path_names_name plain_name_def slash_def)
  have abs: "\<not> is_absolute rel" unfolding rel_def tn using parent(2) thumbs plain by (simp add: not_absolute_join)
  have ends: "rel \<noteq> []" "last rel \<noteq> slash" using plain by (auto simp: rel_def tn path_join_def)
  have dots: "''..'' \<notin> set (path_names rel)" using names R(1,5) t by (auto simp: plain_name_def)
  have "has_trailing_slash rel = False" using ends by (simp add: has_trailing_slash_def)
  then show "''..'' \<notin> set (path_elems rel)" using abs dots by (simp add: path_elems_def)
  have "lexically_normal (root loc) = (if root loc \<noteq> [] \<and> is_absolute (root loc) then [[slash]] else []) @
      norm_names (root loc \<noteq> [] \<and> is_absolute (root loc)) (path_names (root loc))"
    using lexically_normal_join [OF R(2,3,4,5,1), of "root loc"] full F by simp
  then have "lexically_normal (path_join (root loc) rel) = lexically_normal (root loc) @ filter (\<lambda>n. n \<noteq> ''.'') (path_names rel)"
    using lexically_normal_join [OF abs ends dots names, of "root loc"] t by (simp add: plain_name_def)
  also have "\<dots> = thumb" unfolding thumb_def full(2) names R(1) using F t by (simp add: plain_name_def butlast_append)
  finally show "lexically_normal (path_join (root loc) rel) = thumb" .
  show "elems_within (lexically_normal (root loc)) thumb"
    unfolding thumb_def full(2) R(1) using F by (simp add: elems_within_def butlast_append)
qed

text \<open>C36: The thumbnail of an upload is looked for where it is rendered. When an upload queues a thumbnail
  job, the job reads the stored file and writes exactly the file that the thumbnail endpoints resolve
  for the path in the reply, inside the uploads root.\<close>

theorem thumbnail_found_again:
  assumes "UploadFile env sched req s = (res, s')" and "code res = 201"
    and "map_of (res_headers res) ''Location'' = Some (''/api/v1/download/'' @ p)"
    and "m_thumbnails s = Some w" and "m_thumbnails s' = Some w'" and "m_queue w' = m_queue w @ [job]"
    and "Extension (m_generator w) = CHR ''.'' # e" and "e \<noteq> []" and "slash \<notin> set e"
  shows "\<exists>thumb rel. ResolveThumbnailPath p s' = Some (Ok, thumb, rel) \<and> job_out_path job = path_text thumb \<and>
    elems_within (lexically_normal (root (Locator s))) thumb \<and>
    job_usd_file job = path_text (file_key (path_join (root (Locator s)) p))"
proof -
  obtain dir filename full relative t content where v: "ValidateUploadTarget (Locator s) dir filename = (Ok, full, relative)"
    and loc: "m_locator_ptr s' = Some (Locator s)"
    and q: "queue_thumbnail env (Locator s) full relative (m_thumbnails s) = (t, m_thumbnails s')"
    and res: "res = upload_reply env full relative content (files (sm s')) t"
    using upload_stored [OF assms(1,2)] by blast
  have p: "p = generic_string relative" using assms(3) by (simp add: res reply_location)
  obtain f d where fd: "validate_filename filename = (Ok, f)" "validate_directory dir = (Ok, d)"
    "relative = (if d = [] then f else path_join d f)" and full: "full = lexically_normal (path_join (root (Locator s)) relative)"
    using upload_target_shape [OF v] by metis
  note T = thumbnail_key [OF v assms(7-9)] and G = upload_generic [OF fd]
  let ?ext = "Extension (m_generator w)"
  have job: "job = \<lparr>job_usd_file = path_text full, job_out_path = path_text (butlast full @ [''thumbs'', thumb_name ?ext relative])\<rparr>"
    and gen: "m_generator w' = m_generator w"
    using q assms(4-6) by (auto simp: queue_thumbnail_def SubmitJob_def Let_def split: if_splits)
  have "IsUsdFilename (path_filename p)" using G(5) validate_filename_ok [OF fd(1)] by (simp add: p)
  then have "\<exists>rel. ResolveThumbnailPath p s' = Some (Ok, butlast full @ [''thumbs'', thumb_name ?ext relative], rel)"
    using T generic_validated [OF fd] by (simp add: ResolveThumbnailPath_def loc assms(5) gen p Let_def)
  moreover have "file_key (path_join (root (Locator s)) p) = full" using generic_key [OF fd] by (simp add: p full)
  ultimately show ?thesis using T(2) job by auto
qed

subsection \<open>A concrete upload\<close>

definition demo_file_env :: file_env where
  "demo_file_env =
     \<lparr>env_vars = Map.empty, env_fs = demo_fs,
      multipart_message = (\<lambda>_. Inr (\<lambda>n.
        \<lparr>part_body = (if n = ''file'' then ''new'' else if n = ''filename'' then ''a.usda'' else if n = ''path'' then ''/x//y/''
            else if n = ''overwrite'' then ''1'' else []), part_headers = []\<rparr>)),
      directory_at = (\<lambda>_. False), stream_opens = (\<lambda>_. True), stream_write = (\<lambda>_ c. (True, c)), rename_fails = (\<lambda>_ _. None),
      removes = (\<lambda>_. True), size_known = (\<lambda>_. True), recursive_directory_iterator = (\<lambda>_. Inr []), LayerData = (\<lambda>_. None),
      dump_throws = (\<lambda>_. None)\<rparr>"

definition demo_file_server :: "mini_stage FileServingController" where
  "demo_file_server =
     \<lparr>m_locator_ptr = Some \<lparr>root = ''uploads'', session_root = ''sessions''\<rparr>,
      m_thumbnails = Some (ThumbnailWorker_create failing_generator), m_session_manager = True,
      sm = demo_manager\<lparr>files := [[''uploads'', ''x'', ''y'', ''a.usda''] \<mapsto> ''old'']\<rparr>\<rparr>"

definition demo_upload_request :: request where
  "demo_upload_request =
     \<lparr>http_method = PostMethod, url = ''/api/v1/upload'', header = (\<lambda>_. []), req_body = ''raw'', remote_ip_address = ''10.0.0.1''\<rparr>"

lemma demo_fields: "upload_fields demo_file_env demo_upload_request = Inr (''new'', ''a.usda'', ''/x//y/'', True)"
  by (simp add: upload_fields_def demo_file_env_def demo_upload_request_def UploadMaxBytes_def FieldBody_def ParseBool_def tolower_def Let_def)

lemma demo_target:
  "ValidateUploadTarget \<lparr>root = ''uploads'', session_root = ''sessions''\<rparr> ''/x//y/'' ''a.usda'' =
     (Ok, [''uploads'', ''x'', ''y'', ''a.usda''], ''x//y/a.usda'')"
  by code_simp

lemma demo_generic: "generic_string ''x//y/a.usda'' = ''x/y/a.usda''"
  by code_simp

lemma demo_directories:
  "EnsureDirectoryInsideRoot demo_fs \<lparr>root = ''uploads'', session_root = ''sessions''\<rparr> (path_text [''uploads'', ''x'', ''y'']) = Ok"
  "EnsureDirectoryInsideRoot demo_fs \<lparr>root = ''uploads'', session_root = ''sessions''\<rparr> (path_text [''uploads'', ''x'', ''y'', ''thumbs'']) = Ok"
  by code_simp+

lemma demo_env_simps [simp]:
  "env_fs demo_file_env = demo_fs" "directory_at demo_file_env = (\<lambda>_. False)" "stream_opens demo_file_env = (\<lambda>_. True)"
  "stream_write demo_file_env = (\<lambda>_ c. (True, c))" "rename_fails demo_file_env = (\<lambda>_ _. None)"
  by (simp_all add: demo_file_env_def)

lemma demo_server_simps [simp]:
  "Locator demo_file_server = \<lparr>root = ''uploads'', session_root = ''sessions''\<rparr>"
  "m_thumbnails demo_file_server = Some (ThumbnailWorker_create failing_generator)"
  "files (sm demo_file_server) = [[''uploads'', ''x'', ''y'', ''a.usda''] \<mapsto> ''old'']"
  "m_queue (ThumbnailWorker_create failing_generator) = []"
  "Extension (m_generator (ThumbnailWorker_create failing_generator)) = ''.png''"
  by (simp_all add: Locator_def demo_file_server_def ThumbnailWorker_create_def failing_generator_def)

definition demo_uploaded :: "response \<times> mini_stage FileServingController" where
  "demo_uploaded = UploadFile demo_file_env in_turn demo_upload_request demo_file_server"

lemma demo_upload_facts:
  "code (fst demo_uploaded) = 201"
  "map_of (res_headers (fst demo_uploaded)) ''Location'' = Some (''/api/v1/download/'' @ ''x/y/a.usda'')"
  "\<exists>w' job. m_thumbnails (snd demo_uploaded) = Some w' \<and> m_queue w' = m_queue (ThumbnailWorker_create failing_generator) @ [job]"
proof -
  let ?s1 = "demo_file_server\<lparr>m_locator_ptr := Some \<lparr>root = ''uploads'', session_root = ''sessions''\<rparr>\<rparr>"
  have "Locator ?s1 = \<lparr>root = ''uploads'', session_root = ''sessions''\<rparr>" by (simp add: Locator_def)
  then have st: "demo_uploaded = store_upload demo_file_env in_turn [''uploads'', ''x'', ''y'', ''a.usda''] ''x//y/a.usda'' ''new'' True ?s1"
    by (simp add: demo_uploaded_def UploadFile_def demo_fields demo_target)
  obtain t w where q: "queue_thumbnail demo_file_env \<lparr>root = ''uploads'', session_root = ''sessions''\<rparr>
      [''uploads'', ''x'', ''y'', ''a.usda''] ''x//y/a.usda'' (Some (ThumbnailWorker_create failing_generator)) = (t, Some w)"
    and w: "\<exists>job. m_queue w = [job]"
    using demo_directories(2) by (simp add: queue_thumbnail_def Let_def SubmitJob_def) (simp add: ThumbnailWorker_create_def Let_def)
  have "\<exists>d m. demo_uploaded = (upload_reply demo_file_env [''uploads'', ''x'', ''y'', ''a.usda''] ''x//y/a.usda'' ''new'' d t,
      ?s1\<lparr>sm := m, m_thumbnails := Some w\<rparr>)"
    using \<open>Locator ?s1 = _\<close> demo_directories(1) q by (simp add: st store_upload_def write_upload_def Let_def) blast
  then obtain d m where e: "demo_uploaded = (upload_reply demo_file_env [''uploads'', ''x'', ''y'', ''a.usda''] ''x//y/a.usda'' ''new'' d t,
      ?s1\<lparr>sm := m, m_thumbnails := Some w\<rparr>)" by blast
  show "code (fst demo_uploaded) = 201"
    "map_of (res_headers (fst demo_uploaded)) ''Location'' = Some (''/api/v1/download/'' @ ''x/y/a.usda'')"
    "\<exists>w' job. m_thumbnails (snd demo_uploaded) = Some w' \<and> m_queue w' = m_queue (ThumbnailWorker_create failing_generator) @ [job]"
    unfolding e using w by (simp_all add: reply_location demo_generic)
qed

lemma demo_located: "located demo_fs \<lparr>root = ''uploads'', session_root = ''sessions''\<rparr> ''x/y/a.usda''"
proof -
  have "fs_canonical demo_fs ''uploads'' = Inr [''uploads'']"
    "fs_canonical demo_fs (path_join ''uploads'' ''x/y/a.usda'') = Inr [''uploads'', ''x'', ''y'', ''a.usda'']"
    "fs_exists demo_fs (path_join ''uploads'' ''x/y/a.usda'')"
    by code_simp+
  then show ?thesis by (simp add: located_def elems_within_def)
qed

theorem upload_all_or_nothing_witness:
  "\<exists>full. files (sm (snd demo_uploaded)) = (files (sm demo_file_server))(tmp_key full := None, full \<mapsto> ''new'')"
proof -
  have up: "UploadFile demo_file_env in_turn demo_upload_request demo_file_server = (fst demo_uploaded, snd demo_uploaded)"
    by (simp add: demo_uploaded_def)
  have "\<exists>content filename dir overwrite full relative bytes.
      upload_fields demo_file_env demo_upload_request = Inr (content, filename, dir, overwrite) \<and>
      stream_write demo_file_env (tmp_key full) content = (True, bytes) \<and>
      files (sm (snd demo_uploaded)) = (files (sm demo_file_server))(tmp_key full := None, full \<mapsto> bytes)"
    using upload_all_or_nothing [OF up] demo_upload_facts(1) by blast
  then show ?thesis by (auto simp: demo_fields)
qed

theorem upload_round_trip_witness:
  "code (ServeFile demo_file_env ''x/y/a.usda'' (snd demo_uploaded)) = 200 \<and>
   res_body (ServeFile demo_file_env ''x/y/a.usda'' (snd demo_uploaded)) = Text ''new''"
proof -
  have up: "UploadFile demo_file_env in_turn demo_upload_request demo_file_server = (fst demo_uploaded, snd demo_uploaded)"
    by (simp add: demo_uploaded_def)
  from upload_round_trip [OF up demo_upload_facts(1,2)] show ?thesis by (simp add: demo_located demo_fields)
qed

theorem thumbnail_found_again_witness:
  "\<exists>thumb rel. ResolveThumbnailPath ''x/y/a.usda'' (snd demo_uploaded) = Some (Ok, thumb, rel)"
proof -
  have up: "UploadFile demo_file_env in_turn demo_upload_request demo_file_server = (fst demo_uploaded, snd demo_uploaded)"
    by (simp add: demo_uploaded_def)
  obtain w' job where "m_thumbnails (snd demo_uploaded) = Some w'" "m_queue w' = m_queue (ThumbnailWorker_create failing_generator) @ [job]"
    using demo_upload_facts(3) by blast
  from thumbnail_found_again [OF up demo_upload_facts(1,2) _ this, of "''png''"] show ?thesis
    by (auto simp: slash_def)
qed

end
