(* ===== verification/Server_Properties.thy ===== *)
theory Server_Properties
  imports Server File_Serving_Properties
begin

text \<open>
  The request pipeline as a whole: what a started server lets a request do.
\<close>

subsection \<open>Routes that change something\<close>

lemma first_some_in: "first_some xs = Some e \<Longrightarrow> Some e \<in> set xs"
  by (induction xs rule: first_some.induct) auto

fun acts :: "endpoint \<Rightarrow> bool" where
  "acts UploadEndpoint = True"
| "acts CreateSessionEndpoint = True"
| "acts (DeleteSessionEndpoint _) = True"
| "acts (CommitSessionEndpoint _) = True"
| "acts _ = False"

lemma file_chain:
  assumes "(if a then Some FileListEndpoint else if b then map_option FileExistsEndpoint x else if c then map_option ServeFileEndpoint y
      else if d then Some UploadEndpoint else if f then map_option ThumbnailExistsEndpoint z
      else if g then map_option ServeThumbnailEndpoint v else None) = Some e" and "acts e"
  shows "d"
  using assms by (auto split: if_split_asm)

lemma session_chain:
  assumes "(if a then Some SessionListEndpoint else if b then Some CreateSessionEndpoint else if c then map_option GetSessionEndpoint x
      else if d then map_option DeleteSessionEndpoint y else if f then map_option CommitSessionEndpoint z else None) = Some e" and "acts e"
  shows "b \<or> d \<or> f \<and> z \<noteq> None"
  using assms by (auto split: if_split_asm)

lemma exempt_paths:
  "segment_after ''/api/v1/sessions/'' ''/api/v1/health'' = None" "segment_after ''/api/v1/sessions/'' ''/api/v1/auth/login'' = None"
  "commit_segment ''/api/v1/health'' = None" "commit_segment ''/api/v1/auth/login'' = None"
  by code_simp+

lemma not_exempt:
  assumes "RegisterAllRoutes md u = Some e" and "acts e"
  shows "md \<noteq> Options \<and> u \<noteq> ''/api/v1/health'' \<and> u \<noteq> ''/api/v1/auth/login''"
proof -
  have "\<not> acts HealthEndpoint" "\<not> acts LoginEndpoint" by simp_all
  then consider "FileServingRoutes md u = Some e" | "SessionRoutes md u = Some e"
    using first_some_in [OF assms(1) [unfolded RegisterAllRoutes_def]] assms(2)
    by (auto simp: HealthRoutes_def AuthRoutes_def split: if_split_asm)
  then show ?thesis
  proof cases
    case 1
    then show ?thesis using file_chain [OF 1 [unfolded FileServingRoutes_def] assms(2)] by simp
  next
    case 2
    then show ?thesis using session_chain [OF 2 [unfolded SessionRoutes_def] assms(2)] exempt_paths by auto
  qed
qed

lemma endpoint_effect:
  assumes "run_endpoint w req e s = Some (res, s')"
  shows "(\<not> acts e \<longrightarrow> srv_files s' = srv_files s) \<and> srv_jwt s' = srv_jwt s"
  using assms by (cases e) (auto simp: with_manager_def split: prod.splits)

subsection \<open>Authentication stays on\<close>

lemma refreshJwks_enabled: "is_enabled (fst (refreshJwks lib jl transport h)) = is_enabled h"
  by (auto simp: refreshJwks_def Let_def split: sum.splits)

lemma authenticate_token_enabled: "authenticate_token lib jl transport token h = Inr (h', r) \<Longrightarrow> is_enabled h' = is_enabled h"
  using refreshJwks_enabled [of lib jl transport h]
  by (auto simp: authenticate_token_def bind_throws_Inr Let_def split: if_splits sum.splits option.splits prod.splits)

lemma authenticate_enabled: "authenticate lib jl transport req h = Inr (h', r) \<Longrightarrow> is_enabled h' = is_enabled h"
  by (auto simp: authenticate_def split: option.splits dest: authenticate_token_enabled)

lemma jwt_before_handle_enabled:
  "jwt_before_handle lib jl transport req h res ctx = Inr (h', res', ctx') \<Longrightarrow> is_enabled h' = is_enabled h"
  by (auto simp: jwt_before_handle_def bind_throws_Inr split: if_splits dest: authenticate_enabled)

lemma configure_enabled: "is_enabled (JwtAuthHandler_configure lib jl transport oidc algs lw h) = oidc_enabled oidc"
  by (auto simp: JwtAuthHandler_configure_def Let_def refreshJwks_enabled split: sum.splits)

definition auth_disabled :: "environment \<Rightarrow> bool" where
  "auth_disabled env \<longleftrightarrow> env ''IDTX_INSECURE_DISABLE_AUTH'' = Some ''true'' \<or> env ''IDTX_INSECURE_DISABLE_AUTH'' = Some ''1''"

lemma oidc_enabled_unless_disabled:
  "OidcConfiguration_create env a b = Inr (oidc, recs) \<Longrightarrow> \<not> auth_disabled env \<Longrightarrow> oidc_enabled oidc"
  by (auto simp: OidcConfiguration_create_def auth_disabled_def get_env_def Let_def split: if_splits option.splits)

subsection \<open>A running server\<close>

text \<open>The server after start-up, any requests in any order, and whatever the websocket endpoint, the session
  consumers and the background threads do to the sessions and files.\<close>

inductive server_running :: "('st, 'ly) world set \<Rightarrow> environment \<Rightarrow> 'st server \<Rightarrow> bool"
  for worlds :: "('st, 'ly) world set" and env :: environment where
  started: "w \<in> worlds \<Longrightarrow> Initialize w env jwt0 auth fc = Inr (s, recs) \<Longrightarrow> server_running worlds env s"
| request: "server_running worlds env s \<Longrightarrow> w \<in> worlds \<Longrightarrow> handle_request w req s = Some (res, s') \<Longrightarrow>
    server_running worlds env s'"
| elsewhere: "server_running worlds env s \<Longrightarrow> server_running worlds env (s\<lparr>srv_files := fc\<rparr>)"

text \<open>A request is answered by a middleware or the framework, or it passed the whole chain.\<close>

lemma handle_request_cases:
  assumes "handle_request w req s = Some (res, s')"
  shows "srv_files s' = srv_files s \<and> is_enabled (srv_jwt s') = is_enabled (srv_jwt s) \<or>
    (\<exists>rate res0 ctx recs jwt res1 res2 jctx e.
       before_handle (w_method_name w) (w_clock w) req (srv_rate s) empty_response \<lparr>blocked = False, ctx_clientIp = []\<rparr> = (rate, res0, ctx, recs) \<and>
       \<not> ended res0 \<and>
       jwt_before_handle (w_json w) (w_jwt w) (w_transport w) req (srv_jwt s) res1 \<lparr>authenticated = False, ctx_message = [], ctx_sub = []\<rparr> =
         Inr (jwt, res2, jctx) \<and> \<not> ended res2 \<and> RegisterAllRoutes (http_method req) (url req) = Some e \<and>
       run_endpoint w req e (s\<lparr>srv_rate := rate, srv_jwt := jwt\<rparr>) = Some (res, s'))"
proof -
  obtain rate res0 ctx recs where b: "before_handle (w_method_name w) (w_clock w) req (srv_rate s) empty_response
      \<lparr>blocked = False, ctx_clientIp = []\<rparr> = (rate, res0, ctx, recs)" by (metis prod_cases4)
  let ?res1 = "w_cors w req res0"
  let ?j = "jwt_before_handle (w_json w) (w_jwt w) (w_transport w) req (srv_jwt s) ?res1 \<lparr>authenticated = False, ctx_message = [], ctx_sub = []\<rparr>"
  show ?thesis
  proof (cases "ended res0 \<or> ended ?res1 \<or> (\<exists>what. ?j = Inl what)")
    case True
    with assms have "srv_files s' = srv_files s \<and> srv_jwt s' = srv_jwt s"
      unfolding handle_request_def b prod.case Let_def by (auto split: if_splits)
    then show ?thesis by simp
  next
    case False
    then obtain jwt res2 jctx where j: "?j = Inr (jwt, res2, jctx)" by (metis prod_cases3 sum.exhaust)
    show ?thesis
    proof (cases "ended res2 \<or> RegisterAllRoutes (http_method req) (url req) = None")
      case True
      with assms False have "srv_files s' = srv_files s" "srv_jwt s' = jwt"
        unfolding handle_request_def b prod.case Let_def by (auto simp: j split: if_splits)
      then show ?thesis using jwt_before_handle_enabled [OF j] by simp
    next
      case False': False
      then obtain e where e: "RegisterAllRoutes (http_method req) (url req) = Some e" by auto
      then have "run_endpoint w req e (s\<lparr>srv_rate := rate, srv_jwt := jwt\<rparr>) = Some (res, s')"
        using assms False False' by (simp add: handle_request_def b j Let_def)
      then show ?thesis using b False False' j e by blast
    qed
  qed
qed

lemma server_running_enabled:
  assumes "server_running worlds env s" and "\<not> auth_disabled env"
  shows "is_enabled (srv_jwt s)"
  using assms(1)
proof (induction rule: server_running.induct)
  case (started w jwt0 auth fc s recs)
  then show ?case
    using assms(2) by (auto simp: Initialize_def Let_def configure_enabled split: sum.splits dest: oidc_enabled_unless_disabled)
next
  case (request s w req res s')
  from handle_request_cases [OF request(3)] request(4) show ?case
    using endpoint_effect jwt_before_handle_enabled by (elim disjE exE conjE) (fastforce, fastforce)
qed simp

subsection \<open>Property\<close>

text \<open>C10: Only admitted and authenticated requests act. On a server that was started without the variable that
  disables authentication, after any sequence of requests, a request changes the sessions, the uploaded
  files or the thumbnail queue only if the rate limiter did not block it and it carries a bearer
  token that authentication accepted; a CORS preflight and the exempted login and health paths
  never do.\<close>

theorem only_authenticated_requests_act:
  assumes "server_running worlds env s" and "\<not> auth_disabled env"
    and "handle_request w req s = Some (res, s')" and "srv_files s' \<noteq> srv_files s"
  shows "http_method req \<noteq> Options \<and>
    \<not> result_blocked (before_handle (w_method_name w) (w_clock w) req (srv_rate s) empty_response \<lparr>blocked = False, ctx_clientIp = []\<rparr>) \<and>
    (\<exists>token jwt r. getBearerToken req = Some token \<and>
       authenticate_token (w_json w) (w_jwt w) (w_transport w) token (srv_jwt s) = Inr (jwt, r) \<and> success r)"
  using handle_request_cases [OF assms(3)]
proof (elim disjE exE conjE)
  assume "srv_files s' = srv_files s"
  then show ?thesis using assms(4) by simp
next
  fix rate res0 ctx recs jwt res1 res2 jctx e
  assume b: "before_handle (w_method_name w) (w_clock w) req (srv_rate s) empty_response \<lparr>blocked = False, ctx_clientIp = []\<rparr> = (rate, res0, ctx, recs)"
    and ne: "\<not> ended res0" "\<not> ended res2"
    and j: "jwt_before_handle (w_json w) (w_jwt w) (w_transport w) req (srv_jwt s) res1 \<lparr>authenticated = False, ctx_message = [], ctx_sub = []\<rparr> =
      Inr (jwt, res2, jctx)"
    and r: "RegisterAllRoutes (http_method req) (url req) = Some e"
    and e: "run_endpoint w req e (s\<lparr>srv_rate := rate, srv_jwt := jwt\<rparr>) = Some (res, s')"
  have "acts e" using endpoint_effect [OF e] assms(4) by auto
  note x = not_exempt [OF r this]
  have "\<not> blocked ctx"
    using before_handle_ok [of "\<lparr>blocked = False, ctx_clientIp = []\<rparr>" empty_response "w_method_name w" "w_clock w" req "srv_rate s"] b ne(1)
    by (auto simp: stage_ok_def split: if_splits)
  moreover obtain h' result where "authenticate (w_json w) (w_jwt w) (w_transport w) req (srv_jwt s) = Inr (h', result)" "success result"
    using j x ne(2) server_running_enabled [OF assms(1,2)] by (auto simp: jwt_before_handle_def bind_throws_Inr split: if_splits)
  ultimately show ?thesis using x b by (auto simp: authenticate_def auth_fail_def split: option.splits)
qed

subsection \<open>A concrete server\<close>

definition demo_discovery :: json_library where
  "demo_discovery = \<lparr>json_parse = (\<lambda>_. Inr (JObject [(''issuer'', JString ''i''), (''jwks_uri'', JString ''j''),
     (''keys'', JArray [JObject [(''kty'', JString ''RSA''), (''kid'', JString ''k1''), (''alg'', JString ''RS256''),
        (''n'', JString ''n''), (''e'', JString ''e'')]])])), missing_text = id, type_text = id\<rparr>"

definition demo_world :: "(mini_stage, SdfPath list) world" where
  "demo_world = \<lparr>w_json = demo_discovery, w_jwt = demo_jwt,
     w_transport = (\<lambda>_. \<lparr>status_code = 200, transfer_ok = True, error_message = [], text_body = []\<rparr>), w_library = mini_lib,
     w_stages = demo_stages, w_files = demo_file_env, w_schedule = in_turn, w_outcome = (\<lambda>_. Timed_out), w_random = (3, 4),
     w_system_now = 0, w_clock = (\<lambda>_. 0), w_seconds = 0, w_url_params = Map.empty, w_method_name = (\<lambda>_. ''POST''),
     w_cors = (\<lambda>_ r. r), w_unrouted = (\<lambda>_. empty_response), w_exception = (\<lambda>_. empty_response)\<rparr>"

definition demo_environment :: environment where
  "demo_environment = [''OIDC_WELLKNOWN_URL'' \<mapsto> ''w'', ''OIDC_AUDIENCES'' \<mapsto> ''core'']"

definition demo_jwt0 :: JwtAuthHandler where
  "demo_jwt0 = \<lparr>is_enabled = True, well_known_url = [], issuer = [], jwks_uri = [], handler_audiences = [], allowed_algs = [],
     leeway = 0, last_error = [], cache = None\<rparr>"

definition demo_server :: "mini_stage server" where
  "demo_server =
     \<lparr>srv_rate = configure (rate_limit_config demo_environment) 0 RateLimitHandler_create,
      srv_jwt = \<lparr>is_enabled = True, well_known_url = ''w'', issuer = ''i'', jwks_uri = ''j'', handler_audiences = [''core''],
        allowed_algs = [''RS256'', ''PS256''], leeway = 60, last_error = [],
        cache = Some [''k1'' \<mapsto> \<lparr>pem = ''n'', kid = ''k1'', kty = ''RSA'', use = ''sig'', alg = ''RS256''\<rparr>]\<rparr>,
      srv_auth = \<lparr>tokenUrl = [], clientId = [], clientSecret = [], auth_scope = [], auth_trustForwardedFor = True\<rparr>,
      srv_files = demo_file_server\<rparr>"

definition demo_put :: request where
  "demo_put = demo_upload_request\<lparr>header := (\<lambda>k. if k = ''Authorization'' then ''Bearer k1'' else [])\<rparr>"

lemma demo_environment_unset:
  "get_env demo_environment k = (if k = ''OIDC_WELLKNOWN_URL'' then Some ''w'' else if k = ''OIDC_AUDIENCES'' then Some ''core'' else None)"
  by (simp add: get_env_def demo_environment_def)

lemma demo_split: "split_env ''core'' = [''core'']"
  by (simp add: split_env_def trim_space_def is_space_def Let_def)

lemma demo_http: "HttpClient_get (w_transport demo_world) u = \<lparr>ok = True, body = [], http_code = 200, err = []\<rparr>"
  by (simp add: HttpClient_get_def http_result_def demo_world_def)

lemma demo_keys:
  "loadJwksJson demo_discovery demo_jwt t = Inr [''k1'' \<mapsto> \<lparr>pem = ''n'', kid = ''k1'', kty = ''RSA'', use = ''sig'', alg = ''RS256''\<rparr>]"
  by (simp add: loadJwksJson_def demo_discovery_def demo_jwt_def bind_throws_def load_key_def json_value_def json_at_string_def at_string_def)

lemma demo_started:
  "Initialize demo_world demo_environment demo_jwt0 (srv_auth demo_server) demo_file_server = Inr (demo_server, [])"
proof -
  have oidc: "OidcConfiguration_create demo_environment ''OIDC_WELLKNOWN_URL'' ''OIDC_AUDIENCES'' =
      Inr (\<lparr>wellKnownUrl = ''w'', audiences = [''core''], oidc_enabled = True\<rparr>, [])"
    by (simp add: OidcConfiguration_create_def demo_environment_unset demo_split Let_def)
  have jwt: "JwtAuthHandler_configure demo_discovery demo_jwt (w_transport demo_world)
      \<lparr>wellKnownUrl = ''w'', audiences = [''core''], oidc_enabled = True\<rparr> [''RS256'', ''PS256''] 60 demo_jwt0 = srv_jwt demo_server"
  proof -
    obtain j where "json_parse demo_discovery [] = Inr j" "json_at_string demo_discovery j ''issuer'' = Inr ''i''"
      "json_at_string demo_discovery j ''jwks_uri'' = Inr ''j''"
      by (simp add: demo_discovery_def json_at_string_def at_string_def)
    then show ?thesis
      by (simp add: JwtAuthHandler_configure_def refreshJwks_def demo_http demo_keys demo_server_def demo_jwt0_def Let_def)
  qed
  have "trustForwardedFor (rate_limit_config demo_environment)"
    by (simp add: rate_limit_config_def demo_environment_unset default_Config_def Let_def)
  then show ?thesis
    using jwt by (simp add: Initialize_def oidc Let_def demo_world_def) (simp add: demo_server_def)
qed

lemma demo_limits: "rate_limit_config demo_environment = default_Config"
proof -
  have u: "get_env_u64 demo_environment k v = v" if "k \<noteq> ''OIDC_WELLKNOWN_URL''" "k \<noteq> ''OIDC_AUDIENCES''" for k v
    using that by (simp add: get_env_u64_def demo_environment_unset)
  show ?thesis
    by (simp add: rate_limit_config_def env_nat_def env_seconds_def chrono_count_def u demo_environment_unset default_Config_def Let_def)
qed

lemma demo_passes_limit:
  "\<exists>rate ctx recs. before_handle (\<lambda>_. ''POST'') (\<lambda>_. 0) demo_put (srv_rate demo_server) empty_response \<lparr>blocked = False, ctx_clientIp = []\<rparr> =
     (rate, empty_response, ctx, recs)"
  by (simp add: demo_server_def demo_limits before_handle_def rate_stage_def global_stage_def configure_def RateLimitHandler_create_def
      default_Config_def demo_put_def demo_upload_request_def maxBody_def
      is_login_def is_upload_def NormalisePath_def c_loginPath_def c_uploadPath_def
      LoginThrottler_create_def SlidingWindowLimiter_create_def Allow_def MaybeSweep_def bucket_at_def roll_def decide_def ns_def Let_def)

lemma demo_authenticates:
  "\<exists>ctx. jwt_before_handle (w_json demo_world) (w_jwt demo_world) (w_transport demo_world) demo_put (srv_jwt demo_server) r demo_context =
     Inr (srv_jwt demo_server, r, ctx)"
  by (simp add: jwt_before_handle_def demo_put_def demo_upload_request_def demo_server_def demo_world_def authenticate_def getBearerToken_def
        starts_with_def authenticate_token_def demo_jwt_def header_claim_def payload_claim_def as_string_def
        bind_throws_def tryVerify_def getKeyEntry_def supported_algs_def Let_def)

lemma demo_put_uploads:
  "UploadFile demo_file_env in_turn demo_put demo_file_server = demo_uploaded"
proof -
  have "upload_fields demo_file_env demo_put = upload_fields demo_file_env demo_upload_request"
    by (simp add: upload_fields_def demo_put_def demo_file_env_def)
  then show ?thesis by (simp add: demo_uploaded_def UploadFile_def)
qed

lemma demo_upload_changes: "snd demo_uploaded \<noteq> demo_file_server"
proof -
  have "UploadFile demo_file_env in_turn demo_upload_request demo_file_server = (fst demo_uploaded, snd demo_uploaded)"
    by (simp add: demo_uploaded_def)
  from upload_stored [OF this demo_upload_facts(1)]
  have "files (sm (snd demo_uploaded)) [''uploads'', ''x'', ''y'', ''a.usda''] = Some ''new''"
    by (auto simp: demo_fields demo_target)
  then show ?thesis by auto
qed

theorem only_authenticated_requests_act_witness:
  "\<exists>res s'. handle_request demo_world demo_put demo_server = Some (res, s') \<and> srv_files s' \<noteq> srv_files demo_server \<and>
     getBearerToken demo_put \<noteq> None"
proof -
  obtain rate ctx recs where b: "before_handle (w_method_name demo_world) (w_clock demo_world) demo_put (srv_rate demo_server) empty_response
      \<lparr>blocked = False, ctx_clientIp = []\<rparr> = (rate, empty_response, ctx, recs)"
    using demo_passes_limit by (auto simp: demo_world_def)
  obtain jctx where j: "jwt_before_handle (w_json demo_world) (w_jwt demo_world) (w_transport demo_world) demo_put (srv_jwt demo_server)
      empty_response demo_context = Inr (srv_jwt demo_server, empty_response, jctx)" using demo_authenticates by blast
  have r: "RegisterAllRoutes (http_method demo_put) (url demo_put) = Some UploadEndpoint"
    by (simp add: demo_put_def demo_upload_request_def RegisterAllRoutes_def HealthRoutes_def AuthRoutes_def FileServingRoutes_def)
  have w: "w_cors demo_world = (\<lambda>_ r. r)" "w_files demo_world = demo_file_env" "w_schedule demo_world = in_turn"
    by (simp_all add: demo_world_def)
  have f: "srv_files demo_server = demo_file_server" and e: "\<not> ended empty_response"
    by (simp_all add: demo_server_def empty_response_def)
  obtain res s' where h: "handle_request demo_world demo_put demo_server = Some (res, s')" and s': "srv_files s' = snd demo_uploaded"
  proof -
    obtain res fc where u: "demo_uploaded = (res, fc)" by (rule prod.exhaust)
    show ?thesis
      by (rule that [of res "demo_server\<lparr>srv_rate := rate, srv_files := fc\<rparr>"])
        (simp_all add: handle_request_def b j r w f e demo_put_uploads u Let_def)
  qed
  have "server_running {demo_world} demo_environment demo_server"
    using demo_started by (rule server_running.started [rotated]) simp
  moreover have "\<not> auth_disabled demo_environment" by (simp add: auth_disabled_def demo_environment_def)
  moreover have "srv_files s' \<noteq> srv_files demo_server" using s' demo_upload_changes f by simp
  ultimately have "getBearerToken demo_put \<noteq> None"
    using only_authenticated_requests_act [OF _ _ h] by blast
  then show ?thesis using h \<open>srv_files s' \<noteq> srv_files demo_server\<close> by blast
qed

subsection \<open>Configuration\<close>

text \<open>The worker pool is never asked for zero threads, so its constructor accepts the count.\<close>

lemma session_workers_accepted:
  "WorkerExecutor_create True (unat (session_workers n env)) \<noteq> Inl Invalid_argument"
proof -
  have "1 \<le> session_workers n env" by (simp add: session_workers_def)
  then have "unat (session_workers n env) \<noteq> 0" by (auto simp: unat_eq_zero)
  then show ?thesis by (simp add: WorkerExecutor_create_def)
qed

text \<open>The idle timeout is cut to one byte: 256 seconds become zero.\<close>

lemma server_timeout_wraps: "server_timeout [''SERVER_TIMEOUT_SECONDS'' \<mapsto> ''256''] = 0"
  by (simp add: server_timeout_def get_env_u64_def get_env_def from_chars_u64_def is_digit_def digits_value_def)

end
