(* ===== verification/Logger.thy ===== *)
theory Logger
  imports Idtx_Prelude
begin

text \<open>
  Logging (\<^verbatim>\<open>shared/include/idtx/utils/Logger.h\<close>, \<^verbatim>\<open>source/utils/IDTXCoreLogger.h\<close>): the composition of a line and
  its routing to the two streams of the process, which are the strings written so far. The pointer to
  the installed logger is an option. Format strings are checked by the compiler; here one with too few
  arguments formats to nothing.
\<close>

datatype LogLevel = LogError | LogWarn | LogInfo | LogDebug

fun level_string :: "LogLevel \<Rightarrow> string" where
  "level_string LogError = ''ERROR''"
| "level_string LogWarn = ''WARN''"
| "level_string LogInfo = ''INFO''"
| "level_string LogDebug = ''DEBUG''"

record ILogger =
  log_prefix :: string
  log_module :: string

definition IDTXCoreLogger :: ILogger where
  "IDTXCoreLogger = \<lparr>log_prefix = ''IDTXCore'', log_module = []\<rparr>"

definition set_prefix :: "string \<Rightarrow> ILogger \<Rightarrow> ILogger" where
  "set_prefix p l = l\<lparr>log_prefix := p\<rparr>"

definition set_module_name :: "string \<Rightarrow> ILogger \<Rightarrow> ILogger" where
  "set_module_name n l = l\<lparr>log_module := n\<rparr>"

text \<open>\<^verbatim>\<open>std::format\<close> with plain replacement fields and doubled braces.\<close>

fun std_format :: "string \<Rightarrow> string list \<Rightarrow> string option" where
  "std_format [] [] = Some []"
| "std_format [] (_ # _) = Some []"
| "std_format [c] args = (if c = CHR ''{'' \<or> c = CHR ''}'' then None else Some [c])"
| "std_format (c # e # fmt) args =
     (if c = CHR ''{'' then
        if e = CHR ''{'' then map_option (Cons c) (std_format fmt args)
        else if e = CHR ''}'' then (case args of [] \<Rightarrow> None | a # as \<Rightarrow> map_option ((@) a) (std_format fmt as))
        else None
      else if c = CHR ''}'' then (if e = CHR ''}'' then map_option (Cons c) (std_format fmt args) else None)
      else map_option (Cons c) (std_format (e # fmt) args))"

definition format_line :: "ILogger \<Rightarrow> string \<Rightarrow> string \<Rightarrow> LogLevel \<Rightarrow> string option" where
  "format_line l category message level =
     (if log_module l = []
      then std_format ''[{}] [{}] [{}] {}'' [log_prefix l, level_string level, category, message]
      else std_format ''[{}] [{}] [{}] [{}] {}'' [log_prefix l, log_module l, level_string level, category, message])"

record console =
  cout :: string
  cerr :: string

fun IDTXCoreLogger_log :: "string \<Rightarrow> LogLevel \<Rightarrow> console \<Rightarrow> console" where
  "IDTXCoreLogger_log line LogError c = c\<lparr>cerr := cerr c @ line @ [CHR 0x0A]\<rparr>"
| "IDTXCoreLogger_log line LogWarn c = c\<lparr>cout := cout c @ line @ [CHR 0x0A]\<rparr>"
| "IDTXCoreLogger_log line LogInfo c = c\<lparr>cout := cout c @ line @ [CHR 0x0A]\<rparr>"
| "IDTXCoreLogger_log line LogDebug c = c\<lparr>cout := cout c @ line @ [CHR 0x0A]\<rparr>"

definition Log_log :: "ILogger option \<Rightarrow> LogLevel \<Rightarrow> string \<Rightarrow> string \<Rightarrow> string list \<Rightarrow> console \<Rightarrow> console" where
  "Log_log inst level category fmt args c =
     (case inst of
        None \<Rightarrow> c
      | Some l \<Rightarrow>
          (case Option.bind (std_format fmt args) (\<lambda>message. format_line l category message level) of
             None \<Rightarrow> c
           | Some line \<Rightarrow> IDTXCoreLogger_log line level c))"

text \<open>The macro \<^verbatim>\<open>IDTX_LOGF\<close>.\<close>

definition IDTX_LOGF :: "ILogger option \<Rightarrow> LogLevel \<Rightarrow> string \<Rightarrow> string list \<Rightarrow> console \<Rightarrow> console" where
  "IDTX_LOGF inst level fmt args c = Log_log inst level ''General'' fmt args c"

subsection \<open>A line read back\<close>

definition bracketed :: "string \<Rightarrow> string" where
  "bracketed s = ''['' @ s @ ''] ''"

lemma format_line_fields:
  "format_line l category message level =
     Some (bracketed (log_prefix l) @ (if log_module l = [] then [] else bracketed (log_module l)) @
       bracketed (level_string level) @ bracketed category @ message)"
  by (simp add: format_line_def bracketed_def)

fun read_fields :: "nat \<Rightarrow> string \<Rightarrow> string list \<times> string" where
  "read_fields 0 s = ([], s)"
| "read_fields (Suc n) s =
     (let f = takeWhile (\<lambda>c. c \<noteq> CHR '']'') (drop 1 s); r = read_fields n (drop (length f + 3) s) in (f # fst r, snd r))"

lemma read_bracketed:
  "CHR '']'' \<notin> set f \<Longrightarrow> read_fields (Suc n) (bracketed f @ s) = (f # fst (read_fields n s), snd (read_fields n s))"
proof -
  assume f: "CHR '']'' \<notin> set f"
  have t: "takeWhile (\<lambda>c. c \<noteq> CHR '']'') (f @ CHR '']'' # CHR '' '' # s) = f"
    using f by (subst takeWhile_append2) auto
  have "drop (length f + 3) (bracketed f @ s) = s" by (simp add: bracketed_def numeral_eq_Suc)
  then show ?thesis using t by (simp add: bracketed_def Let_def)
qed

text \<open>A log call writes one line, to the error stream exactly when its level is error, and the line can be
  taken apart again: the product prefix, the module if one is set, the level, the category and the
  message, as long as the names contain no closing bracket.\<close>

theorem log_line_reads_back:
  assumes "std_format fmt args = Some message"
    and "CHR '']'' \<notin> set (log_prefix l)" and "CHR '']'' \<notin> set (log_module l)" and "CHR '']'' \<notin> set category"
  shows "\<exists>line. Log_log (Some l) level category fmt args c =
      (if level = LogError then c\<lparr>cerr := cerr c @ line @ [CHR 0x0A]\<rparr> else c\<lparr>cout := cout c @ line @ [CHR 0x0A]\<rparr>) \<and>
    read_fields (if log_module l = [] then 3 else 4) line =
      ([log_prefix l] @ (if log_module l = [] then [] else [log_module l]) @ [level_string level, category], message)"
proof -
  have level: "CHR '']'' \<notin> set (level_string level)" by (cases level) simp_all
  have r: "read_fields (if log_module l = [] then 3 else 4) (bracketed (log_prefix l) @
       (if log_module l = [] then [] else bracketed (log_module l)) @ bracketed (level_string level) @ bracketed category @ message) =
      ([log_prefix l] @ (if log_module l = [] then [] else [log_module l]) @ [level_string level, category], message)"
    using assms(2-4) level by (simp add: numeral_eq_Suc read_bracketed del: read_fields.simps(2))
  show ?thesis
    by (rule exI, rule conjI [OF _ r]) (cases level; simp add: Log_log_def assms(1) format_line_fields)
qed

theorem log_line_reads_back_witness:
  "\<exists>line. Log_log (Some IDTXCoreLogger) LogError ''Server'' ''Failed for {}: {}'' [''a.usd'', ''gone''] \<lparr>cout = [], cerr = []\<rparr> =
      \<lparr>cout = [], cerr = line @ [CHR 0x0A]\<rparr> \<and>
    read_fields 3 line = ([''IDTXCore'', ''ERROR'', ''Server''], ''Failed for a.usd: gone'')"
  using log_line_reads_back [of "''Failed for {}: {}''" "[''a.usd'', ''gone'']" "''Failed for a.usd: gone''" IDTXCoreLogger "''Server''" LogError
      "\<lparr>cout = [], cerr = []\<rparr>"]
  by (simp add: IDTXCoreLogger_def del: read_fields.simps)

end
