(* ===== verification/Startup.thy ===== *)
theory Startup
  imports Server_Properties Logger
begin

text \<open>
  The process as a whole (\<^verbatim>\<open>source/main.cpp\<close> and the constructor of \<^verbatim>\<open>Application\<close>): the logger is installed, the
  \<^verbatim>\<open>.env\<close> file completes the environment, the composition root is built, the middlewares are configured,
  and the server runs until it is stopped. An exception anywhere before that ends the process. Of the
  lines written to the console only those of \<^verbatim>\<open>main\<close> itself are modelled.
\<close>

text \<open>The controllers built from the composition root. Which generator object stands for a choice is an
  argument, and so is the content of the disk.\<close>

definition Application_create :: "(generator_choice \<Rightarrow> generator) \<Rightarrow> disk \<Rightarrow> application_context \<Rightarrow> 'st FileServingController" where
  "Application_create gens d ctx =
     \<lparr>m_locator_ptr = Some (ctx_locator ctx),
      m_thumbnails = map_option (\<lambda>g. ThumbnailWorker_create (gens g)) (ctx_generator ctx),
      m_session_manager = True, sm = SessionManager_create (ctx_locator ctx) (ctx_idle_timeout ctx) d\<rparr>"

datatype 'st process = Exits int | Serves "'st server" "16 word" u8

text \<open>The file system at start-up, the number of cores, the build option, and the \<^verbatim>\<open>.env\<close> file if there is one.\<close>

record machine =
  mc_fs :: filesystem_view
  mc_root_error :: string
  mc_cores :: nat
  mc_imaging :: bool
  mc_dotenv :: "string option"

definition main :: "('st, 'ly) world \<Rightarrow> machine \<Rightarrow> (generator_choice \<Rightarrow> generator) \<Rightarrow> JwtAuthHandler \<Rightarrow> disk \<Rightarrow> environment \<Rightarrow> console \<Rightarrow> 'st process \<times> console" where
  "main w mc gens jwt0 d env out =
     (let g_logger = Some IDTXCoreLogger;
          env1 = load_dotenv (mc_dotenv mc) env;
          failed = (\<lambda>what. (Exits 1, IDTX_LOGF g_logger LogError ''Application error: {}'' [what] out))
      in case ApplicationContext_create (mc_fs mc) (mc_root_error mc) (mc_cores mc) (mc_imaging mc) env1 of
           Inl what \<Rightarrow> failed what
         | Inr ctx \<Rightarrow>
             (case Initialize w env1 jwt0 (ctx_auth ctx) (Application_create gens d ctx) of
                Inl what \<Rightarrow> failed what
              | Inr (s, _) \<Rightarrow> (Serves s (server_port env1) (server_timeout env1), out)))"

lemma load_dotenv_keeps: "env k = Some v \<Longrightarrow> load_dotenv file env k = Some v"
  by (simp add: load_dotenv_def fold_dotenv_keeps split: option.split)

lemma failure_line:
  "IDTX_LOGF (Some IDTXCoreLogger) LogError ''Application error: {}'' [what] out =
   out\<lparr>cerr := cerr out @ ''[IDTXCore] [ERROR] [General] Application error: '' @ what @ [CHR 0x0A]\<rparr>"
  by (simp add: IDTX_LOGF_def Log_log_def format_line_fields IDTXCoreLogger_def bracketed_def)

lemma ApplicationContext_create_cases:
  "(\<exists>what. ApplicationContext_create fs e n imaging env = Inl what) \<longleftrightarrow>
     EnsureRootExists fs \<lparr>root = env_or env ''IDTX_UPLOADS_ROOT'' ''./uploads'', session_root = env_or env ''IDTX_SESSIONS_ROOT'' ''./sessions''\<rparr> \<noteq> Ok"
  "ApplicationContext_create fs e n imaging env = Inr ctx \<Longrightarrow> EnsureRootExists fs (ctx_locator ctx) = Ok \<and>
     ctx_generator ctx = choose_generator imaging env"
  by (auto simp: ApplicationContext_create_def Let_def split: if_splits)

lemma choose_generator_None: "choose_generator imaging env = None \<longleftrightarrow> env_or env ''IDTX_THUMBNAIL_ENABLED'' ''true'' \<in> {''false'', ''0''}"
  by (auto simp: choose_generator_def Let_def)

lemma Initialize_cases:
  "(\<exists>what. Initialize w env jwt0 auth fc = Inl what) \<longleftrightarrow> (\<exists>what. OidcConfiguration_create env ''OIDC_WELLKNOWN_URL'' ''OIDC_AUDIENCES'' = Inl what)"
  "Initialize w env jwt0 auth fc = Inr (s, recs) \<Longrightarrow> srv_files s = fc"
  by (auto simp: Initialize_def Let_def split: sum.splits)


text \<open>The audience comes from the \<^verbatim>\<open>.env\<close> file, the discovery address from the process.\<close>

definition demo_machine :: machine where
  "demo_machine = \<lparr>mc_fs = demo_fs, mc_root_error = [], mc_cores = 8, mc_imaging = False,
     mc_dotenv = Some (''OIDC_WELLKNOWN_URL=x'' @ [CHR 0x0A] @ ''OIDC_AUDIENCES=core'')\<rparr>"


end
