(* ===== verification/Web_Socket.thy ===== *)
theory Web_Socket
  imports Manager_Properties
begin

text \<open>
  The websocket endpoint (\<^verbatim>\<open>WebSocketController.{h,cpp}\<close>).

  A connection is named by the id it gets when it is accepted; \<open>userdata\<close> holds the \<^verbatim>\<open>WsUserData\<close> of the
  connections whose close handler has not run. \<open>outbox\<close> is what the controller itself hands to
  \<^verbatim>\<open>send_binary\<close> and \<open>close_calls\<close> its calls of \<^verbatim>\<open>close\<close>, in order. The manager is never null. The weak
  pointer to the session is the key of the session object. Parsing is the protobuf library's and an
  argument; encoding a message that was built here does not fail.
\<close>

subsection \<open>State\<close>

record WsUserData =
  ws_session_id :: string
  ws_connection_id :: ConnectionId
  ws_remote_ip :: string
  ws_session :: "nat option"
  pending_corrections :: "string list"

record 'st WebSocketController =
  manager :: "'st SessionManager"
  m_next_connection_id :: ConnectionId
  userdata :: "ConnectionId \<rightharpoonup> WsUserData"
  outbox :: "(ConnectionId \<times> BaseMessage) list"
  close_calls :: "(ConnectionId \<times> string) list"

definition WebSocketController_create :: "'st SessionManager \<Rightarrow> 'st WebSocketController" where
  "WebSocketController_create m =
     \<lparr>manager = m, m_next_connection_id = 1, userdata = Map.empty, outbox = [], close_calls = []\<rparr>"

definition RejectionReason :: "SubmitStatus \<Rightarrow> string" where
  "RejectionReason status = (if status = SubmitQueueFull then ''queue_full'' else ''session_closing'')"

definition conn_send :: "ConnectionId \<Rightarrow> BaseMessage \<Rightarrow> 'st WebSocketController \<Rightarrow> 'st WebSocketController" where
  "conn_send c msg w = w\<lparr>outbox := outbox w @ [(c, msg)]\<rparr>"

definition conn_close :: "ConnectionId \<Rightarrow> string \<Rightarrow> 'st WebSocketController \<Rightarrow> 'st WebSocketController" where
  "conn_close c reason w = w\<lparr>close_calls := close_calls w @ [(c, reason)]\<rparr>"

subsection \<open>Opening and closing\<close>

text \<open>The result is the id of the accepted connection.\<close>

definition OnAccept :: "string option \<Rightarrow> string \<Rightarrow> 'st WebSocketController \<Rightarrow> ConnectionId option \<times> 'st WebSocketController" where
  "OnAccept sid_param ip w =
     (case sid_param of
        None \<Rightarrow> (None, w)
      | Some sid \<Rightarrow>
          if \<not> Exists_session (manager w) sid then (None, w)
          else if IsSingleEditBusy sid (manager w) then (None, w)
          else
            let c = m_next_connection_id w
            in (Some c, w\<lparr>m_next_connection_id := c + 1,
                  userdata := (userdata w)(c \<mapsto> \<lparr>ws_session_id = sid, ws_connection_id = c, ws_remote_ip = ip,
                    ws_session = None, pending_corrections = []\<rparr>)\<rparr>))"

definition handshake_message :: "'st Session \<Rightarrow> BaseMessage" where
  "handshake_message s =
     \<lparr>msg_session_id = s_id s, msg_request_id = 0, msg_server_seq = 0,
      message_case = kHandshake \<lparr>hs_session_id = s_id s, hs_usd_path = usd_file s,
        hs_usd_uri = ''/api/v1/download/'' @ usd_file s\<rparr>\<rparr>"

text \<open>After a successful attach: remember the session, send the handshake, queue the snapshot.\<close>

definition opened_by :: "schedule \<Rightarrow> ConnectionId \<Rightarrow> WsUserData \<Rightarrow> nat \<Rightarrow> 'st Session \<Rightarrow> 'st WebSocketController \<Rightarrow> 'st WebSocketController" where
  "opened_by sched c d r s w =
     (let w1 = conn_send c (handshake_message s) (w\<lparr>userdata := (userdata w)(c \<mapsto> d\<lparr>ws_session := Some r\<rparr>)\<rparr>)
      in case SubmitJoinSnapshotCommand sched (ws_session_id d) (ws_connection_id d) (manager w1) of
           (status, m') \<Rightarrow>
             let w2 = w1\<lparr>manager := m'\<rparr>
             in if status \<noteq> SubmitAccepted then conn_close c (RejectionReason status) w2 else w2)"

definition OnOpen :: "schedule \<Rightarrow> ConnectionId \<Rightarrow> 'st WebSocketController \<Rightarrow> 'st WebSocketController" where
  "OnOpen sched c w =
     (case userdata w c of
        None \<Rightarrow> conn_close c ''missing session id'' w
      | Some d \<Rightarrow>
          if ws_session_id d = [] then conn_close c ''missing session id'' w
          else
            (case Get_session (manager w) (ws_session_id d) of
               None \<Rightarrow> conn_close c ''session no longer exists'' w
             | Some r \<Rightarrow>
                 (case objects (manager w) r of
                    None \<Rightarrow> conn_close c ''session no longer exists'' w
                  | Some h \<Rightarrow>
                      (case AttachClient (ws_session_id d) (ws_connection_id d) (manager w) of
                         (SingleEditBusy, m') \<Rightarrow> conn_close c ''single_edit_busy'' (w\<lparr>manager := m'\<rparr>)
                       | (AttachUnknownSession, m') \<Rightarrow> conn_close c ''session no longer exists'' (w\<lparr>manager := m'\<rparr>)
                       | (AttachOk, m') \<Rightarrow> opened_by sched c d r (session h) (w\<lparr>manager := m'\<rparr>)))))"

definition OnClose :: "time_point \<Rightarrow> ConnectionId \<Rightarrow> 'st WebSocketController \<Rightarrow> 'st WebSocketController" where
  "OnClose now c w =
     (case userdata w c of
        None \<Rightarrow> w
      | Some d \<Rightarrow>
          let w1 = w\<lparr>userdata := (userdata w)(c := None)\<rparr>
          in (case ws_session d of
                None \<Rightarrow> w1
              | Some r \<Rightarrow> w1\<lparr>manager := detach_object now r (ws_connection_id d) (manager w1)\<rparr>))"

subsection \<open>Messages\<close>

definition rejection_ack :: "WsUserData \<Rightarrow> u64 \<Rightarrow> SubmitStatus \<Rightarrow> BaseMessage" where
  "rejection_ack d request_id status =
     \<lparr>msg_session_id = ws_session_id d, msg_request_id = request_id, msg_server_seq = 0,
      message_case = kAck False (RejectionReason status)\<rparr>"

text \<open>An accepted command is answered by the consumer, any other one here.\<close>

definition answer_submit ::
  "ConnectionId \<Rightarrow> WsUserData \<Rightarrow> u64 \<Rightarrow> SubmitStatus \<times> 'st SessionManager \<Rightarrow> 'st WebSocketController \<Rightarrow> 'st WebSocketController" where
  "answer_submit c d request_id sm w =
     (case sm of (status, m') \<Rightarrow>
        if status = SubmitAccepted then w\<lparr>manager := m'\<rparr>
        else conn_send c (rejection_ack d request_id status) (w\<lparr>manager := m'\<rparr>))"

definition SubmitCorrection :: "schedule \<Rightarrow> ConnectionId \<Rightarrow> WsUserData \<Rightarrow> string \<Rightarrow> 'st WebSocketController \<Rightarrow> 'st WebSocketController" where
  "SubmitCorrection sched c d prim_path w =
     (if prim_path = [] then w
      else
        w\<lparr>userdata := (userdata w)(c \<mapsto> d\<lparr>pending_corrections := List.insert prim_path (pending_corrections d)\<rparr>),
          manager := SubmitCorrectionCommand sched (ws_session_id d) (ws_connection_id d)
            (Some (ws_connection_id d, prim_path)) (manager w)\<rparr>)"

definition OnMessage ::
  "(string \<Rightarrow> BaseMessage option) \<Rightarrow> schedule \<Rightarrow> ConnectionId \<Rightarrow> string \<Rightarrow> bool \<Rightarrow> 'st WebSocketController \<Rightarrow> 'st WebSocketController" where
  "OnMessage ParseFromString sched c data isBinary w =
     (if \<not> isBinary then w
      else
        (case userdata w c of
           None \<Rightarrow> w
         | Some d \<Rightarrow>
             if ws_session_id d = [] then w
             else
               (case ParseFromString data of
                  None \<Rightarrow> w
                | Some msg \<Rightarrow>
                    let request_id = msg_request_id msg
                    in (case message_case msg of
                          kXformUpdate u \<Rightarrow>
                            let sm = SubmitTransformCommand sched (ws_session_id d) (Some u) (ws_connection_id d) request_id
                                       (msg_server_seq msg) (manager w);
                                w1 = answer_submit c d request_id sm w
                            in if fst sm = SubmitQueueFull then SubmitCorrection sched c d (upd_prim_path u) w1 else w1
                        | kCreatePrim parent_path type \<Rightarrow>
                            answer_submit c d request_id
                              (SubmitCreatePrimCommand sched (ws_session_id d) parent_path type (ws_connection_id d) request_id (manager w)) w
                        | kSetPrimActive prim_path active \<Rightarrow>
                            answer_submit c d request_id
                              (SubmitSetPrimActiveCommand sched (ws_session_id d) prim_path active (ws_connection_id d) request_id (manager w)) w
                        | _ \<Rightarrow> w))))"

end
