(* ===== verification/Web_Socket_Protocol.thy ===== *)
theory Web_Socket_Protocol
  imports Web_Socket
begin

text \<open>
  Every request is answered exactly once, from the websocket endpoint through the queue of the session
  to its consumer. The proof counts acknowledgements: what a handler adds to a session's frames, what
  a step of the manager adds, and what the endpoint answers itself.
\<close>

subsection \<open>Acknowledgements in a session\<close>

definition acks :: "ConnectionId \<Rightarrow> u64 \<Rightarrow> (ConnectionId \<times> BaseMessage) list \<Rightarrow> nat" where
  "acks c rid fs = cnt (\<lambda>f. fst f = c \<and> is_ack (snd f) \<and> msg_request_id (snd f) = rid) fs"

lemma cnt_append [simp]: "cnt P (xs @ ys) = cnt P xs + cnt P ys"
  by (simp add: cnt_def)

lemma cnt_none: "(\<And>x. x \<in> set xs \<Longrightarrow> \<not> P x) \<Longrightarrow> cnt P xs = 0"
  by (induction xs) auto

lemma acks_simps [simp]:
  "acks c rid [] = 0" "acks c rid (fs @ gs) = acks c rid fs + acks c rid gs"
  "acks c rid [f] = (if fst f = c \<and> is_ack (snd f) \<and> msg_request_id (snd f) = rid then 1 else 0)"
  by (simp_all add: acks_def)

lemma acks_none: "(\<And>f. f \<in> set fs \<Longrightarrow> \<not> is_ack (snd f)) \<Longrightarrow> acks c rid fs = 0"
  by (auto simp: acks_def intro: cnt_none)

lemma not_ack [simp]:
  "\<not> is_ack (SerializeSetPrimActiveBroadcast s p a q)" "\<not> is_ack (SerializeCreatePrimBroadcast s par t prim q)"
  "\<not> is_ack (AssembleXformBroadcast lib s p tr q)" "\<not> is_ack (SnapshotCompleteMessage s q)"
  "\<not> is_ack (handshake_message s)"
  by (simp_all add: is_ack_def SerializeSetPrimActiveBroadcast_def SerializeCreatePrimBroadcast_def
      AssembleXformBroadcast_def SnapshotCompleteMessage_def handshake_message_def)

lemma ack_request_id [simp]: "msg_request_id (SerializeAck s r q ok e) = r"
  by (simp add: SerializeAck_def)

text \<open>What an operation adds to the acknowledgements of a session whose clients it keeps.\<close>

definition adds_ack :: "(ConnectionId \<times> u64) option \<Rightarrow> 'st Session \<Rightarrow> 'st Session \<Rightarrow> bool" where
  "adds_ack a s s' \<longleftrightarrow> clients s' = clients s \<and>
     (\<forall>c rid. acks c rid (sent s') = acks c rid (sent s) + (if a = Some (c, rid) \<and> c \<noteq> 0 \<and> c \<in> set (clients s) then 1 else 0))"

lemma adds_ack_None_trans: "adds_ack None s s' \<Longrightarrow> adds_ack a s' s'' \<Longrightarrow> adds_ack a s s''"
  by (simp add: adds_ack_def)

lemma adds_ack_trans_None: "adds_ack a s s' \<Longrightarrow> adds_ack None s' s'' \<Longrightarrow> adds_ack a s s''"
  by (simp add: adds_ack_def)

lemma adds_ack_same: "clients s' = clients s \<Longrightarrow> sent s' = sent s \<Longrightarrow> adds_ack None s s'"
  by (simp add: adds_ack_def)

lemma adds_ack_frames:
  "clients s' = clients s \<Longrightarrow> sent s' = sent s @ fs \<Longrightarrow> (\<And>f. f \<in> set fs \<Longrightarrow> \<not> is_ack (snd f)) \<Longrightarrow> adds_ack None s s'"
  by (simp add: adds_ack_def acks_none)

lemma adds_ack_fold:
  assumes "\<And>x s. adds_ack None s (f x s)"
  shows "adds_ack None s (fold f xs s)"
proof (induction xs arbitrary: s)
  case (Cons x xs)
  show ?case using adds_ack_None_trans [OF assms Cons.IH, of s x] by simp
qed (simp add: adds_ack_same)

lemma OnObjectsChanged_adds: "adds_ack None s (OnObjectsChanged lib n s)"
proof (rule adds_ack_frames)
  note e = OnObjectsChanged_effect [of lib n s]
  show "clients (OnObjectsChanged lib n s) = clients s" using viewD(4) e by blast
  show "sent (OnObjectsChanged lib n s) = sent s @
     concat (map (broadcast_frames lib s (announced_origin s) (server_seq s + 1)) (announced_prims lib s n))" using e by blast
  show "\<not> is_ack (snd f)" if "f \<in> set (concat (map (broadcast_frames lib s (announced_origin s) (server_seq s + 1)) (announced_prims lib s n)))" for f
    using that by (auto simp: broadcast_frames_def BuildBroadcastMessage_def split: option.splits)
qed

lemma deliver_adds: "adds_ack None s (deliver lib nts s)"
  by (simp add: deliver_def adds_ack_fold OnObjectsChanged_adds adds_ack_same)

lemma SendAck_adds: "adds_ack (Some (c, r)) s (SendAck s c r ok e)"
  by (auto simp: adds_ack_def SendAck_def SendToConnection_def Let_def)

lemma SendCorrection_adds: "adds_ack None s (SendCorrection lib s c p)"
proof -
  obtain post where "sent (SendCorrection lib s c p) = sent s @ post" "\<forall>f\<in>set post. \<not> is_ack (snd f)"
    using SendCorrection_effect [of lib s c p] by blast
  moreover have "clients (SendCorrection lib s c p) = clients s"
    using kept_sending(4) [of lib s c p] by (simp add: kept_def fixed_part_def)
  ultimately show ?thesis by (blast intro: adds_ack_frames)
qed

lemma BroadcastToAll_adds: "\<not> is_ack m \<Longrightarrow> adds_ack None s (BroadcastToAll s m q)"
proof (rule adds_ack_frames)
  note e = send_to_all_effect [of "clients s" m q s, folded BroadcastToAll_def]
  show "clients (BroadcastToAll s m q) = clients s" using viewD(4) e by blast
  show "sent (BroadcastToAll s m q) = sent s @ map (\<lambda>c. (c, m)) (clients s)" using e by blast
qed auto

text \<open>The request a command carries, by its sender and request id.\<close>

fun request_of :: "SessionCommand \<Rightarrow> (ConnectionId \<times> u64) option" where
  "request_of (Transform t) = Some (tc_origin t, tc_request_id t)"
| "request_of (CreatePrim t) = Some (cc_origin t, cc_request_id t)"
| "request_of (SetPrimActive t) = Some (ac_origin t, ac_request_id t)"
| "request_of _ = None"

lemma deliver_around_adds: "adds_ack None s (deliver lib nts s1)" if "clients s1 = clients s" "sent s1 = sent s"
  using that deliver_adds [of s1 lib nts] adds_ack_same [of s1 s] adds_ack_None_trans by blast

lemma HandleTransform_adds [acks_added]: "adds_ack (request_of (Transform t)) s (HandleTransform lib t s)"
proof -
  obtain ok nts st' where a: "TransformDispatcher_Apply (usd lib) (stage s) (tc_update t) = (ok, nts, st')"
    by (metis prod_cases3)
  let ?s1 = "deliver lib nts (s\<lparr>current_origin := tc_origin t, stage := st'\<rparr>)"
  let ?s3 = "if ok then ?s1\<lparr>current_origin := 0, dirty := True\<rparr> else ?s1\<lparr>current_origin := 0\<rparr>"
  have "adds_ack None s ?s3"
    using deliver_around_adds [of "s\<lparr>current_origin := tc_origin t, stage := st'\<rparr>" s lib nts] by (auto simp: adds_ack_def)
  then have "adds_ack (request_of (Transform t)) s (SendAck ?s3 (tc_origin t) (tc_request_id t) ok ''apply_failed'')"
    using SendAck_adds adds_ack_None_trans by fastforce
  moreover from this have "adds_ack (request_of (Transform t)) s
      (SendCorrection lib (SendAck ?s3 (tc_origin t) (tc_request_id t) ok ''apply_failed'') (tc_origin t) (upd_prim_path (tc_update t)))"
    using SendCorrection_adds adds_ack_trans_None by blast
  ultimately show ?thesis
    using a by (auto simp: HandleTransform_def Let_def SendAck_adds split: UpdateBaseStatus.split)
qed

lemma announced_adds:
  assumes "clients s2 = clients s" "sent s2 = sent s" "next_seq (s2\<lparr>dirty := True\<rparr>) = (q, s3)" "\<not> is_ack m"
  shows "adds_ack (Some (c, r)) s (SendAck (BroadcastToAll (record_change p q w s3) m q) c r ok e)"
proof -
  have "adds_ack None s (record_change p q w s3)" using assms(1-3) by (intro adds_ack_same) (auto simp: next_seq_def)
  then have "adds_ack None s (BroadcastToAll (record_change p q w s3) m q)"
    using BroadcastToAll_adds [OF assms(4)] adds_ack_None_trans by blast
  then show ?thesis using SendAck_adds adds_ack_None_trans by blast
qed

lemma HandleCreatePrim_adds [acks_added]:
  assumes "HandleCreatePrim lib t s = Some s'"
  shows "adds_ack (request_of (CreatePrim t)) s s'"
proof (cases "stage s")
  case None
  then show ?thesis using assms by (auto simp: HandleCreatePrim_def SendAck_adds)
next
  case (Some st)
  obtain created nts st' where
    a: "PrimDispatcher_Create (usd lib) (stage s) (cc_parent_path t) (cc_type t) = Some (created, nts, st')"
    using Some assms by (auto simp: HandleCreatePrim_def split: option.splits)
  let ?s0 = "s\<lparr>current_origin := cc_origin t, create_in_progress := True, stage := st'\<rparr>"
  let ?s2 = "(deliver lib nts ?s0)\<lparr>create_in_progress := False, current_origin := 0\<rparr>"
  have d: "deliver lib nts ?s0 = ?s0" by (rule deliver_suppressed) simp
  show ?thesis
  proof (cases created)
    case None
    then have s': "s' = SendAck ?s2 (cc_origin t) (cc_request_id t) False ''invalid_parent''"
      using assms a Some by (auto simp: HandleCreatePrim_def Let_def)
    have "adds_ack None s ?s2" unfolding d by (rule adds_ack_same) simp_all
    then show ?thesis unfolding s' request_of.simps using SendAck_adds adds_ack_None_trans by blast
  next
    case (Some prim)
    obtain q s3 where q: "next_seq (?s2\<lparr>dirty := True\<rparr>) = (q, s3)" by fastforce
    show ?thesis
      using assms a Some \<open>stage s = Some st\<close> q announced_adds [OF _ _ q]
      by (auto simp: HandleCreatePrim_def Let_def d)
  qed
qed

lemma HandleSetPrimActive_adds [acks_added]: "adds_ack (request_of (SetPrimActive t)) s (HandleSetPrimActive lib t s)"
proof (cases "stage s")
  case None
  then show ?thesis by (simp add: HandleSetPrimActive_def SendAck_adds)
next
  case (Some st)
  obtain status nts st' where a: "PrimDispatcher_SetActive (usd lib) (stage s) (ac_prim_path t) (ac_active t) = (status, nts, st')"
    by (metis prod_cases3)
  let ?s0 = "s\<lparr>current_origin := ac_origin t, set_active_in_progress := True, stage := st'\<rparr>"
  let ?s2 = "(deliver lib nts ?s0)\<lparr>set_active_in_progress := False, current_origin := 0\<rparr>"
  have d: "deliver lib nts ?s0 = ?s0" by (rule deliver_suppressed) simp
  have "adds_ack None s ?s2" unfolding d by (rule adds_ack_same) simp_all
  then have ack: "adds_ack (request_of (SetPrimActive t)) s (SendAck ?s2 (ac_origin t) (ac_request_id t) ok e)" for ok e
    unfolding request_of.simps using SendAck_adds adds_ack_None_trans by blast
  obtain q s3 where q: "next_seq (?s2\<lparr>dirty := True\<rparr>) = (q, s3)" by fastforce
  show ?thesis
    using a Some q announced_adds [OF _ _ q] ack
    by (cases status) (auto simp: HandleSetPrimActive_def Let_def d)
qed

lemma HandleJoin_adds [acks_added]: "adds_ack None s (HandleJoin lib c s)"
proof -
  have f: "\<not> is_ack m" if "m \<in> set (snapshot_frames lib s st q)" for m st q
    using that by (auto simp: snapshot_frames_def create_frames_def transform_frames_def delete_frames_def Let_def
        split: option.splits if_splits)
  have g: "sent (fold (send_binary c) ms s) = sent s @ map (Pair c) ms \<and> clients (fold (send_binary c) ms s) = clients s" for ms
    by (induction ms arbitrary: s) simp_all
  show ?thesis
  proof (cases "\<exists>st. stage s = Some st \<and> c \<in> set (clients s)")
    case True
    then obtain st where st: "stage s = Some st" "c \<in> set (clients s)" by blast
    show ?thesis
      by (rule adds_ack_frames [of _ _ "map (Pair c) (snapshot_frames lib s st (server_seq s))"])
        (use st f g in \<open>auto simp: HandleJoin_def Let_def\<close>)
  next
    case False
    then show ?thesis by (auto simp: HandleJoin_def Let_def adds_ack_same split: option.split)
  qed
qed

lemma ReloadRootLayer_adds [acks_added]: "adds_ack None s (ReloadRootLayer lib d s)"
  using deliver_around_adds [of _ s lib]
  by (auto simp: ReloadRootLayer_def adds_ack_def split: option.split prod.split)

lemma HandleCommit_adds [acks_added]:
  assumes "HandleCommit lib k (s, d) = (s', d')"
  shows "adds_ack None s s'"
proof -
  obtain res s1 d1 where c: "CommitOverrides lib True (s, d) = (res, s1, d1)" by (metis prod_cases3)
  have "adds_ack None s s1" using c ReloadRootLayer_adds [of "s\<lparr>dirty := False\<rparr>" lib]
    by (auto simp: CommitOverrides_def Let_def adds_ack_def split: option.splits if_splits prod.splits sum.splits)
  then show ?thesis using assms c by (auto simp: HandleCommit_def Let_def adds_ack_def split: sum.splits)
qed

lemma HandleFlush_adds [acks_added]: "HandleFlush lib (s, d) = (s', d') \<Longrightarrow> adds_ack None s s'"
  by (auto simp: HandleFlush_def Let_def adds_ack_def split: option.splits if_splits prod.splits sum.splits bool.splits)

lemma HandleCommand_adds:
  assumes "HandleCommand lib cmd (s, d) = Some (s', d')"
  shows "adds_ack (request_of cmd) s s'"
proof (cases cmd)
  case (Correction c r)
  have "adds_ack None s (SendCorrection lib (s\<lparr>correction_queued := f\<rparr>) c p)" for f p
    by (rule adds_ack_None_trans [OF adds_ack_same SendCorrection_adds]) simp_all
  then show ?thesis using assms Correction by (cases r) (auto simp: HandleCorrection_def adds_ack_same)
qed (use assms acks_added in \<open>auto simp del: request_of.simps(1-3) simp: request_of.simps(4-)\<close>)

subsection \<open>Answered and waiting requests of a session\<close>

definition waiting :: "ConnectionId \<Rightarrow> u64 \<Rightarrow> command_queue \<Rightarrow> nat" where
  "waiting c rid q = cnt (\<lambda>cmd. request_of cmd = Some (c, rid)) (q_priority q @ q_normal q)"

definition balance :: "ConnectionId \<Rightarrow> u64 \<Rightarrow> 'st hosted \<Rightarrow> nat" where
  "balance c rid h = acks c rid (sent (session h)) + (case commands h of None \<Rightarrow> 0 | Some q \<Rightarrow> waiting c rid q)"

text \<open>One session before and after a step of the others: a waiting request of a client is answered or
  still waits; one of a connection that has left may disappear.\<close>

definition settles :: "'st hosted \<Rightarrow> 'st hosted \<Rightarrow> bool" where
  "settles h h' \<longleftrightarrow> s_id (session h') = s_id (session h) \<and> clients (session h') = clients (session h) \<and>
     (\<forall>c rid. balance c rid h' \<le> balance c rid h \<and> (c \<noteq> 0 \<and> c \<in> set (clients (session h)) \<longrightarrow> balance c rid h' = balance c rid h))"

definition background :: "'st SessionManager \<Rightarrow> 'st SessionManager \<Rightarrow> bool" where
  "background m m' \<longleftrightarrow>
     (\<forall>r h. objects m r = Some h \<longrightarrow> (\<exists>h'. objects m' r = Some h' \<and> settles h h')) \<and>
     (\<forall>r h'. objects m r = None \<and> objects m' r = Some h' \<longrightarrow> (\<forall>c rid. balance c rid h' = 0))"

lemma settles_refl [simp]: "settles h h"
  by (simp add: settles_def)

lemma settles_trans: "settles h h' \<Longrightarrow> settles h' h'' \<Longrightarrow> settles h h''"
  unfolding settles_def by (metis le_trans)

lemma background_same: "objects m' = objects m \<Longrightarrow> background m m'"
  by (auto simp: background_def)

lemma background_Some: "background m m' \<Longrightarrow> objects m r = Some h \<Longrightarrow> \<exists>h'. objects m' r = Some h' \<and> settles h h'"
  by (simp add: background_def)

lemma background_None: "background m m' \<Longrightarrow> objects m r = None \<Longrightarrow> objects m' r = Some h' \<Longrightarrow> balance c rid h' = 0"
  by (simp add: background_def)

lemma background_trans:
  assumes "background m m'" "background m' m''"
  shows "background m m''"
  unfolding background_def
proof (intro conjI allI impI)
  show "\<exists>h''. objects m'' r = Some h'' \<and> settles h h''" if "objects m r = Some h" for r h
    using background_Some [OF assms(1) that] background_Some [OF assms(2)] settles_trans by meson
  show "balance c rid h'' = 0" if n: "objects m r = None \<and> objects m'' r = Some h''" for r h'' c rid
  proof (cases "objects m' r")
    case None
    then show ?thesis using background_None [OF assms(2)] n by blast
  next
    case (Some h')
    then have "balance c rid h' = 0" "settles h' h''"
      using background_None [OF assms(1)] background_Some [OF assms(2) Some] n by auto
    then show ?thesis by (metis le_zero_eq settles_def)
  qed
qed

lemma background_put:
  assumes "objects m r = Some h" "settles h h'" "objects m' = (objects m)(r \<mapsto> h')"
  shows "background m m'"
  using assms by (auto simp: background_def)

lemma settles_enqueue:
  assumes "commands h = Some q" "admit lossy l cmd q = (st, q')" "request_of cmd = None"
    "sent s' = sent (session h)" "clients s' = clients (session h)" "s_id s' = s_id (session h)"
  shows "settles h (h\<lparr>commands := Some q', session := s'\<rparr>)"
proof -
  have "waiting c rid q' = waiting c rid q" for c rid
    using cq.submit_cnt [OF assms(2), of "\<lambda>cmd. request_of cmd = Some (c, rid)" Normal]
      cq.submit_cnt [OF assms(2), of "\<lambda>cmd. request_of cmd = Some (c, rid)" Priority] assms(3)
    by (simp add: waiting_def)
  then show ?thesis using assms by (simp add: settles_def balance_def)
qed

lemma Submit_background:
  assumes "Submit sched l r cmd m = (status, m')" "request_of cmd = None"
  shows "background m m'"
proof (cases "\<exists>h q. objects m r = Some h \<and> commands h = Some q")
  case True
  then obtain h q where h: "objects m r = Some h" "commands h = Some q" by blast
  obtain st q' where a: "admit (push_lossy sched r) l cmd q = (st, q')" by fastforce
  have "settles h (h\<lparr>commands := Some q'\<rparr>)" using settles_enqueue [OF h(2) a assms(2), of "session h"] by simp
  then show ?thesis using assms(1) h a by (intro background_put [OF h(1)]) (auto simp: Submit_def)
next
  case False
  then show ?thesis using assms(1) by (auto simp: Submit_def background_same split: option.splits)
qed

lemma submit_each_background:
  assumes "submit_each sched cmd rs m = (n, m')" "request_of cmd = None"
  shows "background m m'"
  using assms(1)
proof (induction rs arbitrary: m n m')
  case (Cons r rs)
  obtain status m1 where s: "Submit sched Normal r cmd m = (status, m1)" by fastforce
  obtain k m2 where e: "submit_each sched cmd rs m1 = (k, m2)" by fastforce
  have "m' = m2" using Cons.prems s e by simp
  then show ?case using Submit_background [OF s assms(2)] Cons.IH [OF e] background_trans by blast
qed (simp add: background_same)

lemma reloads_background:
  "background m (fold (\<lambda>f m. snd (SubmitReloadSessionsCommand sched f skip m)) fs m)"
proof (induction fs arbitrary: m)
  case (Cons f fs)
  obtain n m1 where e: "SubmitReloadSessionsCommand sched f skip m = (n, m1)" by fastforce
  have "background m m1" by (rule submit_each_background [OF e [unfolded SubmitReloadSessionsCommand_def]]) simp
  then show ?case using Cons.IH [of m1] e background_trans by fastforce
qed (simp add: background_same)

lemma mark_background: "background m (mark_correction key b r m)"
proof (cases "objects m r")
  case None
  then show ?thesis by (simp add: mark_correction_def background_same)
next
  case (Some h)
  let ?h = "h\<lparr>session := (session h)\<lparr>correction_queued := (correction_queued (session h))(key := b)\<rparr>\<rparr>"
  have "settles h ?h" by (simp add: settles_def balance_def)
  then show ?thesis using Some by (intro background_put [OF Some]) (simp_all add: mark_correction_def)
qed

lemma SubmitCorrection_background: "background m (SubmitCorrectionCommand sched sid c (Some key) m)"
proof (cases "\<exists>r. Get_session m sid = Some r \<and> \<not> correction_marked key r m")
  case False
  then show ?thesis by (auto simp: SubmitCorrectionCommand_def background_same split: option.split)
next
  case True
  then obtain r where r: "Get_session m sid = Some r" "\<not> correction_marked key r m" by blast
  obtain st m1 where s: "Submit sched Priority r (Correction c (Some key)) (mark_correction key True r m) = (st, m1)" by fastforce
  have 1: "background m m1" using background_trans [OF mark_background Submit_background [OF s]] by simp
  then show ?thesis using r s background_trans [OF 1 mark_background] by (simp add: SubmitCorrectionCommand_def)
qed

lemma waiting_next:
  assumes "take_command sched r q = Some (cmd, q')"
  shows "waiting c rid q = waiting c rid q' + (if request_of cmd = Some (c, rid) then 1 else 0)"
  using take_command_lanes [OF assms] by (auto simp: waiting_def)

lemma consume_background:
  assumes "consume lib sched r m = Some m'"
  shows "background m m'"
proof (cases "\<exists>h q cmd q'. objects m r = Some h \<and> commands h = Some q \<and> take_command sched r q = Some (cmd, q')")
  case False
  then have "m' = m" using assms by (auto simp: consume_def split: option.splits)
  then show ?thesis by (simp add: background_same)
next
  case True
  then obtain h q cmd q' where h: "objects m r = Some h" "commands h = Some q" "take_command sched r q = Some (cmd, q')" by blast
  obtain s' d' where hc: "HandleCommand lib cmd (session h, files m) = Some (s', d')"
    using assms h by (auto simp: consume_def ProcessCommand_def split: option.splits)
  let ?h = "h\<lparr>commands := Some q', session := s'\<lparr>reload_requests := []\<rparr>\<rparr>"
  have m': "m' = fold (\<lambda>f m. snd (SubmitReloadSessionsCommand sched f (Some r) m)) (reload_requests s')
      (put_object r ?h (m\<lparr>files := d'\<rparr>))"
    using assms h hc by (simp add: consume_def ProcessCommand_def put_object_def)
  have "settles h ?h"
    using HandleCommand_adds [OF hc] HandleCommand_kept(1) [OF hc] waiting_next [OF h(3)] h(2)
    by (auto simp: settles_def balance_def adds_ack_def fixed_part_def)
  then have "background m (put_object r ?h (m\<lparr>files := d'\<rparr>))" by (intro background_put [OF h(1)]) simp_all
  then show ?thesis unfolding m' using reloads_background background_trans by blast
qed

lemma consume_n_background: "consume_n lib sched r n m = Some m' \<Longrightarrow> background m m'"
  by (induction n arbitrary: m) (auto simp: background_same bind_eq_Some_conv dest!: consume_background intro: background_trans)

lemma teardown_idle_frames:
  assumes "teardown_idle lib sl (s, d) = (ws, s', d')"
  shows "sent s' = sent s \<and> clients s' = clients s \<and> s_id s' = s_id s"
proof -
  let ?s0 = "s\<lparr>listener_registered := False\<rparr>"
  obtain res s1 d1 where c: "CommitOverrides lib False (?s0, d) = (res, s1, d1)" by (metis prod_cases3)
  have "sent s1 = sent s \<and> clients s1 = clients s \<and> s_id s1 = s_id s"
    using c by (auto simp: CommitOverrides_def Let_def split: option.splits if_splits prod.splits sum.splits)
  then show ?thesis
    using assms c by (auto simp: teardown_idle_def Let_def split: if_splits option.splits sum.splits prod.splits)
qed

lemma Teardown_background:
  assumes "TeardownSession lib sl sched r m = Some m'"
  shows "background m m'"
proof -
  obtain m1 where m1: "close_and_drain lib sched r m = Some m1" using assms by (auto simp: TeardownSession_def bind_eq_Some_conv)
  have b: "background m m1"
  proof (cases "\<exists>h q. objects m r = Some h \<and> commands h = Some q")
    case False
    then show ?thesis using m1 by (auto simp: close_and_drain_def background_same split: option.splits)
  next
    case True
    then obtain h q where h: "objects m r = Some h" "commands h = Some q" by blast
    let ?h = "h\<lparr>commands := Some (q\<lparr>q_accepting := False\<rparr>)\<rparr>"
    have "background m (put_object r ?h m)"
      using h by (intro background_put [OF h(1)]) (simp_all add: settles_def balance_def waiting_def)
    moreover have "background (put_object r ?h m) m1"
      using m1 h by (auto simp: close_and_drain_def intro: consume_n_background)
    ultimately show ?thesis by (rule background_trans)
  qed
  show ?thesis
  proof (cases "objects m1 r")
    case None
    then show ?thesis using assms m1 b by (simp add: TeardownSession_def)
  next
    case (Some h)
    obtain ws s' d' where t: "teardown_idle lib sl (session h, files m1) = (Inr ws, s', d')"
      using assms m1 Some by (rule Teardown_returns)
    have "sent s' = sent (session h) \<and> clients s' = clients (session h) \<and> s_id s' = s_id (session h)"
      by (rule teardown_idle_frames [OF t])
    then have "background m1 m'"
      using assms m1 Some t by (intro background_put [OF Some, of "h\<lparr>session := s'\<rparr>"])
        (auto simp: TeardownSession_def settles_def balance_def)
    then show ?thesis using b background_trans by blast
  qed
qed

subsection \<open>Histories of the endpoint\<close>

text \<open>Everything the other threads do to the manager. A session id is never generated twice.\<close>

inductive background_step :: "('st, 'ly) Library \<Rightarrow> 'st stage_library \<Rightarrow> 'st SessionManager \<Rightarrow> 'st SessionManager \<Rightarrow> bool"
  for lib sl where
  create: "Create_session fs sl rnd t now f md auto m = (res, m') \<Longrightarrow>
    (\<And>r h. objects m r = Some h \<Longrightarrow> s_id (session h) \<noteq> GenerateUuidV4 (fst rnd) (snd rnd)) \<Longrightarrow> background_step lib sl m m'"
| unregister: "background_step lib sl m (m\<lparr>m_sessions := filter P (m_sessions m)\<rparr>)"
| teardown: "r \<notin> registered m \<Longrightarrow> TeardownSession lib sl sched r m = Some m' \<Longrightarrow> background_step lib sl m m'"
| promise: "background_step lib sl m (m\<lparr>next_promise := Suc (next_promise m)\<rparr>)"
| submit: "cmd = ReloadRoot \<or> cmd = Flush \<or> cmd = Commit k \<Longrightarrow> Submit sched Normal r cmd m = (st, m') \<Longrightarrow> background_step lib sl m m'"
| consume: "consume lib sched r m = Some m' \<Longrightarrow> background_step lib sl m m'"
| disk: "background_step lib sl m (m\<lparr>files := d\<rparr>)"

text \<open>The request that a message carries, and the histories: the connections that were opened and the
  requests received on them are recorded. Crow opens an accepted connection once and delivers its
  messages afterwards; fewer than 2^64 connections are accepted.\<close>

fun is_request :: "message_case \<Rightarrow> bool" where
  "is_request (kXformUpdate _) = True"
| "is_request (kCreatePrim _ _) = True"
| "is_request (kSetPrimActive _ _) = True"
| "is_request _ = False"

definition requests_in :: "(string \<Rightarrow> BaseMessage option) \<Rightarrow> ConnectionId \<Rightarrow> string \<Rightarrow> bool \<Rightarrow> (ConnectionId \<times> u64) list" where
  "requests_in ParseFromString c data isBinary =
     (case ParseFromString data of
        Some msg \<Rightarrow> if isBinary \<and> is_request (message_case msg) then [(c, msg_request_id msg)] else []
      | None \<Rightarrow> [])"

type_synonym 'st ws_state = "'st WebSocketController \<times> ConnectionId set \<times> (ConnectionId \<times> u64) list"

inductive ws_step :: "('st, 'ly) Library \<Rightarrow> 'st stage_library \<Rightarrow> (string \<Rightarrow> BaseMessage option) \<Rightarrow> 'st ws_state \<Rightarrow> 'st ws_state \<Rightarrow> bool"
  for lib sl parse where
  accept: "unat (m_next_connection_id w) + 1 < 2 ^ 64 \<Longrightarrow> OnAccept sid_param ip w = (res, w') \<Longrightarrow>
    ws_step lib sl parse (w, opened, asked) (w', opened, asked)"
| opens: "c \<notin> opened \<Longrightarrow> userdata w c \<noteq> None \<Longrightarrow>
    ws_step lib sl parse (w, opened, asked) (OnOpen sched c w, insert c opened, asked)"
| closes: "ws_step lib sl parse (w, opened, asked) (OnClose now c w, opened, asked)"
| message: "c \<in> opened \<Longrightarrow> userdata w c \<noteq> None \<Longrightarrow>
    ws_step lib sl parse (w, opened, asked) (OnMessage parse sched c data isBinary w, opened, asked @ requests_in parse c data isBinary)"
| others: "background_step lib sl (manager w) m' \<Longrightarrow>
    ws_step lib sl parse (w, opened, asked) (w\<lparr>manager := m'\<rparr>, opened, asked)"

inductive ws_run :: "('st, 'ly) Library \<Rightarrow> 'st stage_library \<Rightarrow> (string \<Rightarrow> BaseMessage option) \<Rightarrow> 'st ws_state \<Rightarrow> bool"
  for lib sl parse where
  init: "ws_run lib sl parse (WebSocketController_create (SessionManager_create loc timeout d), {}, [])"
| step: "ws_run lib sl parse x \<Longrightarrow> ws_step lib sl parse x y \<Longrightarrow> ws_run lib sl parse y"

subsection \<open>The invariant\<close>

definition ids_unique :: "'st SessionManager \<Rightarrow> bool" where
  "ids_unique m \<longleftrightarrow> (\<forall>r r' h h'. objects m r = Some h \<and> objects m r' = Some h' \<and> s_id (session h) = s_id (session h') \<longrightarrow> r = r')"

text \<open>An attached connection: its requests are the answered ones, here or by the consumer, and the waiting
  ones.\<close>

definition attached_ok :: "'st ws_state \<Rightarrow> ConnectionId \<Rightarrow> WsUserData \<Rightarrow> nat \<Rightarrow> bool" where
  "attached_ok x c d r \<longleftrightarrow>
     (case x of (w, opened, asked) \<Rightarrow>
        c \<in> opened \<and> ws_session_id d \<noteq> [] \<and>
        (\<exists>h. objects (manager w) r = Some h \<and> s_id (session h) = ws_session_id d \<and> c \<in> set (clients (session h)) \<and>
          (\<forall>rid. cnt ((=) (c, rid)) asked = balance c rid h + acks c rid (outbox w))))"

text \<open>A connection that was not opened has neither sent nor been sent anything.\<close>

definition silent :: "'st ws_state \<Rightarrow> ConnectionId \<Rightarrow> bool" where
  "silent x c \<longleftrightarrow>
     (case x of (w, opened, asked) \<Rightarrow>
        \<forall>rid. cnt ((=) (c, rid)) asked = 0 \<and> acks c rid (outbox w) = 0 \<and>
          (\<forall>r h. objects (manager w) r = Some h \<longrightarrow> balance c rid h = 0))"

definition ws_inv :: "'st ws_state \<Rightarrow> bool" where
  "ws_inv x \<longleftrightarrow>
     (case x of (w, opened, asked) \<Rightarrow>
        manager_inv (manager w) \<and> ids_unique (manager w) \<and> m_next_connection_id w \<noteq> 0 \<and>
        (\<forall>c. c \<in> opened \<or> userdata w c \<noteq> None \<longrightarrow> c \<noteq> 0 \<and> c < m_next_connection_id w) \<and>
        (\<forall>c d. userdata w c = Some d \<longrightarrow> ws_connection_id d = c) \<and>
        (\<forall>c d r. userdata w c = Some d \<and> ws_session d = Some r \<longrightarrow> attached_ok x c d r) \<and>
        (\<forall>c. c \<notin> opened \<longrightarrow> silent x c))"

lemma ids_unique_background:
  assumes "ids_unique m" "background m m'" "\<And>r. objects m r = None \<Longrightarrow> objects m' r = None"
  shows "ids_unique m'"
proof -
  have "\<exists>h. objects m r = Some h \<and> s_id (session h) = s_id (session h')" if "objects m' r = Some h'" for r h'
    using background_Some [OF assms(2)] assms(3) that unfolding settles_def by (metis not_Some_eq option.inject)
  then show ?thesis using assms(1) unfolding ids_unique_def by metis
qed

lemma Submit_objects: "Submit sched l r cmd m = (st, m') \<Longrightarrow> objects m x = None \<Longrightarrow> objects m' x = None"
  by (auto simp: Submit_def split: option.splits prod.splits)

lemma submit_each_objects: "submit_each sched cmd rs m = (n, m') \<Longrightarrow> objects m x = None \<Longrightarrow> objects m' x = None"
  by (induction rs arbitrary: m n m') (auto dest: Submit_objects split: prod.splits)

lemma reloads_objects:
  "objects m x = None \<Longrightarrow> objects (fold (\<lambda>f m. snd (SubmitReloadSessionsCommand sched f skip m)) fs m) x = None"
proof (induction fs arbitrary: m)
  case (Cons f fs)
  obtain n m1 where e: "SubmitReloadSessionsCommand sched f skip m = (n, m1)" by fastforce
  then have "objects m1 x = None" using submit_each_objects Cons.prems by (metis SubmitReloadSessionsCommand_def)
  then show ?case using Cons.IH e by simp
qed simp

lemma consume_objects: "consume lib sched r m = Some m' \<Longrightarrow> objects m x = None \<Longrightarrow> objects m' x = None"
  by (auto simp: consume_def ProcessCommand_def split: option.splits if_splits
      intro!: reloads_objects)

lemma consume_n_objects: "consume_n lib sched r n m = Some m' \<Longrightarrow> objects m x = None \<Longrightarrow> objects m' x = None"
  by (induction n arbitrary: m) (auto simp: bind_eq_Some_conv dest: consume_objects)

lemma Teardown_objects:
  assumes "TeardownSession lib sl sched r m = Some m'" "objects m x = None"
  shows "objects m' x = None"
proof -
  obtain m1 where m1: "close_and_drain lib sched r m = Some m1" using assms(1) by (auto simp: TeardownSession_def bind_eq_Some_conv)
  have "objects m1 x = None"
    using m1 assms(2) by (auto simp: close_and_drain_def split: option.splits if_splits dest!: consume_n_objects)
  then show ?thesis using assms(1) m1 by (auto simp: TeardownSession_def split: option.splits prod.splits sum.splits)
qed

lemma Create_background:
  assumes "manager_inv m" and "ids_unique m" and c: "Create_session fs sl rnd t now f md auto m = (res, m')"
    and fresh: "\<And>r h. objects m r = Some h \<Longrightarrow> s_id (session h) \<noteq> GenerateUuidV4 (fst rnd) (snd rnd)"
  shows "ids_unique m' \<and> background m m'"
proof -
  obtain status e ro where res: "res = (status, e, ro)" by (metis prod_cases3)
  have none: "objects m (next_object m) = None"
    using assms(1) by (metis less_irrefl manager_invD(2) not_None_eq)
  consider "objects m' = objects m"
    | h where "objects m' = (objects m)(next_object m \<mapsto> h)" "s_id (session h) = GenerateUuidV4 (fst rnd) (snd rnd)"
        "\<And>c rid. balance c rid h = 0"
    using Create_session_cases [OF c [unfolded res]]
    by (auto simp: new_session_alt balance_def waiting_def empty_queue_def)
  then show ?thesis
  proof cases
    case 1
    then show ?thesis using assms(2) by (simp add: background_same ids_unique_def)
  next
    case 2
    then have "background m m'" using none by (auto simp: background_def)
    moreover have "ids_unique m'"
      using assms(2) fresh 2(1,2) unfolding ids_unique_def by (metis fun_upd_apply option.inject)
    ultimately show ?thesis by blast
  qed
qed

lemma background_step_effect:
  assumes "background_step lib sl m m'" "manager_inv m" "ids_unique m"
  shows "manager_inv m' \<and> ids_unique m' \<and> background m m'"
  using assms
proof (induction rule: background_step.induct)
  case (create fs rnd t now f md auto m res m')
  then show ?case
    using Create_background [OF create.prems create.hyps(1)] Create_inv [OF create.prems(1) create.hyps(1)] by blast
next
  case (unregister m P)
  then show ?case
    using manager_step_inv [OF manager_step.unregister] by (auto simp: ids_unique_def background_same)
next
  case (teardown r m sched m')
  then show ?case using Teardown_inv Teardown_background ids_unique_background Teardown_objects by metis
next
  case (promise m)
  then show ?case by (auto simp: manager_inv_def ids_unique_def background_same)
next
  case (submit cmd k sched r m st m')
  have r: "request_of cmd = None" "\<And>key. \<not> is_correction key cmd" using submit.hyps(1) by auto
  then show ?case
    using Submit_inv [OF submit.prems(1) submit.hyps(2)] Submit_background [OF submit.hyps(2)]
      ids_unique_background [OF submit.prems(2)] Submit_objects [OF submit.hyps(2)] by blast
next
  case (consume sched r m m')
  then show ?case using consume_inv consume_background ids_unique_background consume_objects by metis
next
  case (disk m d)
  then show ?case by (auto simp: manager_inv_def ids_unique_def background_same)
qed

lemma background_manager_step: "background_step lib sl m m' \<Longrightarrow> manager_step lib sl m m'"
proof (induction rule: background_step.induct)
  case (submit cmd k sched r m st m')
  show ?case by (rule manager_step.submit [OF _ submit(2)]) (use submit(1) in auto)
qed (auto intro: manager_step.intros)

interpretation bg: manager_moves lib sl "background_step lib sl"
  by unfold_locales (auto intro: background_step.intros dest: background_manager_step manager_step_inv)

subsection \<open>What a step means for one connection\<close>

definition conn_kept :: "ConnectionId \<Rightarrow> 'st SessionManager \<Rightarrow> 'st SessionManager \<Rightarrow> bool" where
  "conn_kept c m m' \<longleftrightarrow>
     (\<forall>r h. objects m r = Some h \<and> c \<in> set (clients (session h)) \<longrightarrow>
        (\<exists>h'. objects m' r = Some h' \<and> s_id (session h') = s_id (session h) \<and> c \<in> set (clients (session h')) \<and>
          (\<forall>rid. balance c rid h' = balance c rid h)))"

definition quiet_kept :: "ConnectionId \<Rightarrow> 'st SessionManager \<Rightarrow> 'st SessionManager \<Rightarrow> bool" where
  "quiet_kept c m m' \<longleftrightarrow>
     (\<forall>rid. (\<forall>r h. objects m r = Some h \<longrightarrow> balance c rid h = 0) \<longrightarrow> (\<forall>r h. objects m' r = Some h \<longrightarrow> balance c rid h = 0))"

lemma kept_same: "objects m' = objects m \<Longrightarrow> conn_kept c m m' \<and> quiet_kept c m m'"
  by (simp add: conn_kept_def quiet_kept_def)

lemma kept_trans:
  "conn_kept c m m' \<Longrightarrow> conn_kept c m' m'' \<Longrightarrow> conn_kept c m m''"
  "quiet_kept c m m' \<Longrightarrow> quiet_kept c m' m'' \<Longrightarrow> quiet_kept c m m''"
  unfolding conn_kept_def quiet_kept_def by (metis, blast)

lemma kept_put:
  assumes "objects m r = Some h" "objects m' = (objects m)(r \<mapsto> h')" "s_id (session h') = s_id (session h)"
    "\<And>rid. balance c rid h' = balance c rid h"
  shows "quiet_kept c m m'" "(c \<in> set (clients (session h)) \<Longrightarrow> c \<in> set (clients (session h'))) \<Longrightarrow> conn_kept c m m'"
  using assms by (auto simp: conn_kept_def quiet_kept_def)

lemma background_kept:
  assumes "background m m'"
  shows "quiet_kept c m m'" "c \<noteq> 0 \<Longrightarrow> conn_kept c m m'"
proof -
  show "quiet_kept c m m'" unfolding quiet_kept_def
  proof (intro allI impI)
    fix rid r h'
    assume z: "\<forall>r h. objects m r = Some h \<longrightarrow> balance c rid h = 0" and h': "objects m' r = Some h'"
    show "balance c rid h' = 0"
    proof (cases "objects m r")
      case None
      then show ?thesis using background_None [OF assms None h'] by simp
    next
      case (Some h)
      then have "balance c rid h' \<le> balance c rid h" using background_Some [OF assms Some] h' by (auto simp: settles_def)
      then show ?thesis using z Some by simp
    qed
  qed
  show "c \<noteq> 0 \<Longrightarrow> conn_kept c m m'"
    using background_Some [OF assms] unfolding conn_kept_def settles_def by metis
qed

lemma attached_ok_step:
  assumes "attached_ok (w, opened, asked) c d r" and "conn_kept c (manager w) (manager w')" and "opened \<subseteq> opened'"
    and "\<And>rid. cnt ((=) (c, rid)) asked' = cnt ((=) (c, rid)) asked" and "\<And>rid. acks c rid (outbox w') = acks c rid (outbox w)"
    and "ws_session_id d' = ws_session_id d"
  shows "attached_ok (w', opened', asked') c d' r"
proof -
  obtain h where h: "c \<in> opened" "ws_session_id d \<noteq> []" "objects (manager w) r = Some h" "s_id (session h) = ws_session_id d"
      "c \<in> set (clients (session h))" "\<And>rid. cnt ((=) (c, rid)) asked = balance c rid h + acks c rid (outbox w)"
    using assms(1) by (auto simp: attached_ok_def)
  from assms(2) h(3,5) obtain h' where "objects (manager w') r = Some h'" "s_id (session h') = s_id (session h)"
      "c \<in> set (clients (session h'))" "\<And>rid. balance c rid h' = balance c rid h" unfolding conn_kept_def by blast
  then show ?thesis using h assms(3-6) by (auto simp: attached_ok_def)
qed

lemma silent_step:
  assumes "silent (w, opened, asked) c" and "quiet_kept c (manager w) (manager w')"
    and "\<And>rid. cnt ((=) (c, rid)) asked' = cnt ((=) (c, rid)) asked" and "\<And>rid. acks c rid (outbox w') = acks c rid (outbox w)"
  shows "silent (w', opened', asked') c"
  using assms unfolding silent_def quiet_kept_def by auto

lemma ws_invD:
  assumes "ws_inv (w, opened, asked)"
  shows "manager_inv (manager w)" "ids_unique (manager w)" "m_next_connection_id w \<noteq> 0"
    "c \<in> opened \<or> userdata w c \<noteq> None \<Longrightarrow> c \<noteq> 0 \<and> c < m_next_connection_id w"
    "userdata w c = Some d \<Longrightarrow> ws_connection_id d = c"
    "userdata w c = Some d \<Longrightarrow> ws_session d = Some r \<Longrightarrow> attached_ok (w, opened, asked) c d r"
    "c \<notin> opened \<Longrightarrow> silent (w, opened, asked) c"
  using assms unfolding ws_inv_def prod.case by blast+

lemma ws_invI:
  assumes "manager_inv (manager w)" "ids_unique (manager w)" "m_next_connection_id w \<noteq> 0"
    "\<And>c. c \<in> opened \<or> userdata w c \<noteq> None \<Longrightarrow> c \<noteq> 0 \<and> c < m_next_connection_id w"
    "\<And>c d. userdata w c = Some d \<Longrightarrow> ws_connection_id d = c"
    "\<And>c d r. userdata w c = Some d \<Longrightarrow> ws_session d = Some r \<Longrightarrow> attached_ok (w, opened, asked) c d r"
    "\<And>c. c \<notin> opened \<Longrightarrow> silent (w, opened, asked) c"
  shows "ws_inv (w, opened, asked)"
  unfolding ws_inv_def prod.case using assms by blast

text \<open>A step that leaves the connections' data and the controller's own frames alone.\<close>

lemma ws_inv_manager:
  assumes "ws_inv (w, opened, asked)" and "manager_inv m'" "ids_unique m'" "background (manager w) m'"
  shows "ws_inv (w\<lparr>manager := m'\<rparr>, opened, asked)"
proof (rule ws_invI)
  note i = ws_invD [OF assms(1)]
  show "attached_ok (w\<lparr>manager := m'\<rparr>, opened, asked) c d r"
    if "userdata (w\<lparr>manager := m'\<rparr>) c = Some d" "ws_session d = Some r" for c d r
    using that i(4) [of c] background_kept(2) [OF assms(4), of c] by (intro attached_ok_step [OF i(6) [of c d r]]) auto
  show "silent (w\<lparr>manager := m'\<rparr>, opened, asked) c" if "c \<notin> opened" for c
    using that background_kept(1) [OF assms(4), of c] by (intro silent_step [OF i(7)]) auto
  show "c \<noteq> 0 \<and> c < m_next_connection_id (w\<lparr>manager := m'\<rparr>)" if "c \<in> opened \<or> userdata (w\<lparr>manager := m'\<rparr>) c \<noteq> None" for c
    using i(4) [of c] that by simp
  show "ws_connection_id d = c" if "userdata (w\<lparr>manager := m'\<rparr>) c = Some d" for c d
    using i(5) [of c d] that by simp
  show "m_next_connection_id (w\<lparr>manager := m'\<rparr>) \<noteq> 0" using i(3) by simp
qed (use assms(2,3) in simp_all)

lemma accept_inv:
  assumes "ws_inv (w, opened, asked)" and "unat (m_next_connection_id w) + 1 < 2 ^ 64" and "OnAccept sid_param ip w = (res, w')"
  shows "ws_inv (w', opened, asked)"
proof (cases "res")
  case None
  then show ?thesis using assms(1,3) by (auto simp: OnAccept_def Let_def split: option.splits if_splits)
next
  case (Some c)
  note i = ws_invD [OF assms(1)]
  obtain sid where w': "c = m_next_connection_id w" "w' = w\<lparr>m_next_connection_id := c + 1,
      userdata := (userdata w)(c \<mapsto> \<lparr>ws_session_id = sid, ws_connection_id = c, ws_remote_ip = ip, ws_session = None, pending_corrections = []\<rparr>)\<rparr>"
    using assms(3) Some by (auto simp: OnAccept_def Let_def split: option.splits if_splits)
  have less: "c < c + 1" using word_less_inc [of c] assms(2) w'(1) by simp
  have same: "manager w' = manager w" "outbox w' = outbox w" using w'(2) by simp_all
  have nx: "m_next_connection_id w' = c + 1" using w'(2) by simp
  have ud: "userdata w' x = (if x = c then Some \<lparr>ws_session_id = sid, ws_connection_id = c, ws_remote_ip = ip,
      ws_session = None, pending_corrections = []\<rparr> else userdata w x)" for x using w'(2) by simp
  show ?thesis
  proof (rule ws_invI)
    show "attached_ok (w', opened, asked) x d r" if u: "userdata w' x = Some d" "ws_session d = Some r" for x d r
    proof -
      have "userdata w x = Some d" using u unfolding ud by (auto split: if_splits)
      then show ?thesis using i(6) u(2) same by (simp add: attached_ok_def)
    qed
    show "silent (w', opened, asked) x" if "x \<notin> opened" for x using i(7) [OF that] same by (simp add: silent_def)
    show "x \<noteq> 0 \<and> x < m_next_connection_id w'" if "x \<in> opened \<or> userdata w' x \<noteq> None" for x
    proof (cases "x = c")
      case True
      then show ?thesis using less i(3) nx w'(1) by metis
    next
      case False
      then have "x \<in> opened \<or> userdata w x \<noteq> None" using that ud by simp
      then have "x \<noteq> 0 \<and> x < c" using i(4) w'(1) by blast
      then show ?thesis using less nx by (metis less_trans)
    qed
    show "ws_connection_id d = x" if "userdata w' x = Some d" for x d
      using that i(5) [of x d] unfolding ud by (auto split: if_splits)
    show "m_next_connection_id w' \<noteq> 0" using less nx by (metis word_not_simps(1))
  qed (use i(1,2) same in simp_all)
qed

subsection \<open>Opening and closing\<close>

lemma attach_effect:
  assumes "attach_object r c m = (AttachOk, m')" "objects m r = Some h"
  shows "\<exists>h'. objects m' = (objects m)(r \<mapsto> h') \<and> s_id (session h') = s_id (session h) \<and>
    set (clients (session h')) = insert c (set (clients (session h))) \<and> (\<forall>x rid. balance x rid h' = balance x rid h)"
  using assms by (auto simp: attach_object_def attach_client_def balance_def split: if_splits)

lemma attach_not_ok: "attach_object r c m = (st, m') \<Longrightarrow> st \<noteq> AttachOk \<Longrightarrow> m' = m"
  by (auto simp: attach_object_def attach_client_def put_object_same split: option.splits if_splits)

lemma conn_close_inv:
  assumes "ws_inv (w, opened, asked)"
  shows "ws_inv (conn_close c reason w, opened, asked)"
proof -
  have f: "manager (conn_close c reason w) = manager w" "outbox (conn_close c reason w) = outbox w"
    "userdata (conn_close c reason w) = userdata w" "m_next_connection_id (conn_close c reason w) = m_next_connection_id w"
    by (simp_all add: conn_close_def)
  have "attached_ok (conn_close c reason w, opened, asked) x d r = attached_ok (w, opened, asked) x d r"
    "silent (conn_close c reason w, opened, asked) x = silent (w, opened, asked) x" for x d r
    by (simp_all add: attached_ok_def silent_def f)
  then show ?thesis using assms unfolding ws_inv_def prod.case f by simp
qed

lemma ids_unique_put:
  assumes "ids_unique m" "objects m r = Some h" "objects m' = (objects m)(r \<mapsto> h')" "s_id (session h') = s_id (session h)"
  shows "ids_unique m'"
  using assms unfolding ids_unique_def by (metis fun_upd_apply option.inject)

text \<open>Recording that a connection was opened only weakens what is known of it.\<close>

lemma ws_inv_opened:
  assumes "ws_inv (w, opened, asked)" "userdata w c \<noteq> None"
  shows "ws_inv (w, insert c opened, asked)"
proof (rule ws_invI)
  note i = ws_invD [OF assms(1)]
  show "attached_ok (w, insert c opened, asked) x d r" if "userdata w x = Some d" "ws_session d = Some r" for x d r
    using i(6) [OF that] by (auto simp: attached_ok_def)
  show "silent (w, insert c opened, asked) x" if "x \<notin> insert c opened" for x
    using i(7) [of x] that by (simp add: silent_def)
  show "x \<noteq> 0 \<and> x < m_next_connection_id w" if "x \<in> insert c opened \<or> userdata w x \<noteq> None" for x
    using i(4) [of x] assms(2) that by blast
qed (use ws_invD(1-3,5) [OF assms(1)] in simp_all)

lemma attached_inv:
  assumes inv: "ws_inv (w, opened, asked)" and c: "c \<notin> opened" "userdata w c = Some d" "ws_session_id d \<noteq> []"
    and r: "objects (manager w) r = Some h" "s_id (session h) = ws_session_id d"
    and a: "attach_object r c (manager w) = (AttachOk, m1)" and msg: "\<not> is_ack msg"
  shows "ws_inv (conn_send c msg (w\<lparr>manager := m1, userdata := (userdata w)(c \<mapsto> d\<lparr>ws_session := Some r\<rparr>)\<rparr>), insert c opened, asked)"
    (is "ws_inv (?w1, _, _)")
proof (rule ws_invI)
  note i = ws_invD [OF inv]
  obtain h' where h': "objects m1 = (objects (manager w))(r \<mapsto> h')" "s_id (session h') = s_id (session h)"
      "set (clients (session h')) = insert c (set (clients (session h)))" "\<And>x rid. balance x rid h' = balance x rid h"
    using attach_effect [OF a r(1)] by auto
  have out: "acks x rid (outbox ?w1) = acks x rid (outbox w)" for x rid using msg by (simp add: conn_send_def)
  show "manager_inv (manager ?w1)" using attach_inv [OF i(1) a] by (simp add: conn_send_def)
  show "ids_unique (manager ?w1)" using ids_unique_put [OF i(2) r(1) h'(1,2)] by (simp add: conn_send_def)
  show "attached_ok (?w1, insert c opened, asked) x d' r'" if u: "userdata ?w1 x = Some d'" "ws_session d' = Some r'" for x d' r'
  proof (cases "x = c")
    case True
    then have "d' = d\<lparr>ws_session := Some r\<rparr>" using u(1) by (simp add: conn_send_def)
    moreover from this have "r' = r" using u(2) by simp
    moreover have "cnt ((=) (c, rid)) asked = 0" "balance c rid h = 0" "acks c rid (outbox w) = 0" for rid
      using i(7) [OF c(1)] r(1) by (auto simp: silent_def)
    ultimately show ?thesis using True h' r(2) c(3) msg by (simp add: attached_ok_def conn_send_def)
  next
    case False
    then have u': "userdata w x = Some d'" using u(1) by (simp add: conn_send_def)
    show ?thesis
      by (rule attached_ok_step [OF i(6) [OF u' u(2)]])
        (use kept_put(2) [OF r(1) h'(1,2), of x] h'(3,4) out in \<open>auto simp: conn_send_def\<close>)
  qed
  show "silent (?w1, insert c opened, asked) x" if "x \<notin> insert c opened" for x
    by (rule silent_step [OF i(7)]) (use that kept_put(1) [OF r(1) h'(1,2), of x] h'(4) out in \<open>auto simp: conn_send_def\<close>)
  show "x \<noteq> 0 \<and> x < m_next_connection_id ?w1" if "x \<in> insert c opened \<or> userdata ?w1 x \<noteq> None" for x
    using that i(4) [of x] i(4) [of c] c(2) by (auto simp: conn_send_def split: if_splits)
  show "ws_connection_id d' = x" if "userdata ?w1 x = Some d'" for x d'
    using that i(5) [OF c(2)] i(5) by (auto simp: conn_send_def split: if_splits)
qed (use ws_invD(3) [OF inv] in \<open>simp add: conn_send_def\<close>)

lemma join_inv:
  assumes inv: "ws_inv (w, opened, asked)" and j: "SubmitJoinSnapshotCommand sched sid c (manager w) = (st, m2)"
  shows "ws_inv (w\<lparr>manager := m2\<rparr>, opened, asked)"
proof (cases "Get_session (manager w) sid")
  case None
  then show ?thesis using j ws_invD(1,2) [OF inv]
    by (intro ws_inv_manager [OF inv]) (simp_all add: SubmitJoinSnapshotCommand_def submit_to_def background_same)
next
  case (Some x)
  then have s: "Submit sched Normal x (Join c) (manager w) = (st, m2)"
    using j by (simp add: SubmitJoinSnapshotCommand_def submit_to_def)
  show ?thesis
    using Submit_inv [OF ws_invD(1) [OF inv] s] Submit_background [OF s] Submit_objects [OF s]
      ids_unique_background [OF ws_invD(2) [OF inv]] by (intro ws_inv_manager [OF inv]) auto
qed

lemma opened_by_inv:
  assumes inv: "ws_inv (w, opened, asked)" and c: "c \<notin> opened" "userdata w c = Some d" "ws_session_id d \<noteq> []"
    and r: "objects (manager w) r = Some h" "s_id (session h) = ws_session_id d"
    and a: "attach_object r (ws_connection_id d) (manager w) = (AttachOk, m1)"
  shows "ws_inv (opened_by sched c d r (session h) (w\<lparr>manager := m1\<rparr>), insert c opened, asked)"
proof -
  have cid: "ws_connection_id d = c" by (rule ws_invD(5) [OF inv c(2)])
  let ?w1 = "conn_send c (handshake_message (session h)) (w\<lparr>manager := m1, userdata := (userdata w)(c \<mapsto> d\<lparr>ws_session := Some r\<rparr>)\<rparr>)"
  have inv1: "ws_inv (?w1, insert c opened, asked)"
    by (rule attached_inv [OF inv c r a [unfolded cid]]) (simp add: handshake_message_def is_ack_def)
  obtain st m2 where j: "SubmitJoinSnapshotCommand sched (ws_session_id d) (ws_connection_id d) (manager ?w1) = (st, m2)" by fastforce
  note inv2 = join_inv [OF inv1 j]
  have "opened_by sched c d r (session h) (w\<lparr>manager := m1\<rparr>) =
      (if st \<noteq> SubmitAccepted then conn_close c (RejectionReason st) (?w1\<lparr>manager := m2\<rparr>) else ?w1\<lparr>manager := m2\<rparr>)"
    using j by (simp add: opened_by_def Let_def)
  then show ?thesis using inv2 conn_close_inv [OF inv2] by simp
qed

lemma open_inv:
  assumes "ws_inv (w, opened, asked)" and "c \<notin> opened" and "userdata w c \<noteq> None"
  shows "ws_inv (OnOpen sched c w, insert c opened, asked)"
proof -
  obtain d where d: "userdata w c = Some d" using assms(3) by blast
  note closed = conn_close_inv [OF ws_inv_opened [OF assms(1,3)]]
  show ?thesis
  proof (cases "ws_session_id d = [] \<or> Get_session (manager w) (ws_session_id d) = None")
    case True
    then show ?thesis using d closed by (auto simp: OnOpen_def)
  next
    case False
    then obtain r where r: "Get_session (manager w) (ws_session_id d) = Some r" "ws_session_id d \<noteq> []" by blast
    obtain h where h: "objects (manager w) r = Some h" "s_id (session h) = ws_session_id d"
      using ws_invD(1) [OF assms(1)] map_of_SomeD [OF r(1) [unfolded Get_session_def]] by (auto simp: manager_inv_def)
    obtain st m1 where a: "attach_object r (ws_connection_id d) (manager w) = (st, m1)" by fastforce
    then have at: "AttachClient (ws_session_id d) (ws_connection_id d) (manager w) = (st, m1)" using r by (simp add: AttachClient_def)
    show ?thesis
    proof (cases "st = AttachOk")
      case True
      then show ?thesis using opened_by_inv [OF assms(1,2) d r(2) h] a at d r h by (simp add: OnOpen_def)
    next
      case False
      then have "m1 = manager w" using attach_not_ok [OF a] by simp
      then show ?thesis using False at d r h closed by (cases st) (simp_all add: OnOpen_def)
    qed
  qed
qed

lemma forget_inv:
  assumes "ws_inv (w, opened, asked)"
  shows "ws_inv (w\<lparr>userdata := (userdata w)(c := None)\<rparr>, opened, asked)" (is "ws_inv (?w1, _, _)")
proof (rule ws_invI)
  note i = ws_invD [OF assms]
  show "attached_ok (?w1, opened, asked) x d r" if "userdata ?w1 x = Some d" "ws_session d = Some r" for x d r
    using i(6) [of x d r] that by (auto simp: attached_ok_def split: if_splits)
  show "silent (?w1, opened, asked) x" if "x \<notin> opened" for x using i(7) [OF that] by (simp add: silent_def)
qed (use ws_invD(1-5) [OF assms] in \<open>auto split: if_splits\<close>)

lemma close_inv:
  assumes "ws_inv (w, opened, asked)"
  shows "ws_inv (OnClose now c w, opened, asked)"
proof (cases "userdata w c")
  case None
  then show ?thesis using assms by (simp add: OnClose_def)
next
  case (Some d)
  note i = ws_invD [OF assms]
  let ?w1 = "w\<lparr>userdata := (userdata w)(c := None)\<rparr>"
  show ?thesis
  proof (cases "ws_session d")
    case None
    then show ?thesis using Some forget_inv [OF assms] by (simp add: OnClose_def Let_def)
  next
    case (Some r)
    obtain h where h: "objects (manager w) r = Some h" using i(6) [OF \<open>userdata w c = Some d\<close> Some] by (auto simp: attached_ok_def)
    let ?h = "h\<lparr>session := DetachClient now c (session h)\<rparr>"
    let ?w2 = "?w1\<lparr>manager := put_object r ?h (manager w)\<rparr>"
    have w2: "OnClose now c w = ?w2"
      using Some h \<open>userdata w c = Some d\<close> i(5) [OF \<open>userdata w c = Some d\<close>] by (simp add: OnClose_def Let_def detach_object_def)
    have hf: "s_id (session ?h) = s_id (session h)" "\<And>x rid. balance x rid ?h = balance x rid h"
      "\<And>x. x \<noteq> c \<Longrightarrow> x \<in> set (clients (session h)) \<Longrightarrow> x \<in> set (clients (session ?h))"
      by (simp_all add: DetachClient_def Let_def balance_def)
    have ob: "objects (manager ?w2) = (objects (manager w))(r \<mapsto> ?h)" by simp
    show ?thesis unfolding w2
    proof (rule ws_invI)
      show "attached_ok (?w2, opened, asked) x d' r'" if "userdata ?w2 x = Some d'" "ws_session d' = Some r'" for x d' r'
      proof (rule attached_ok_step)
        have "x \<noteq> c" using that(1) by auto
        then show "attached_ok (w, opened, asked) x d' r'" "conn_kept x (manager w) (manager ?w2)"
          using that i(6) kept_put(2) [OF h ob hf(1), of x] hf(2,3) by auto
      qed simp_all
      show "silent (?w2, opened, asked) x" if "x \<notin> opened" for x
        by (rule silent_step [OF i(7) [OF that]]) (use kept_put(1) [OF h ob hf(1), of x] hf(2) in simp_all)
      show "manager_inv (manager ?w2)" using detach_inv [OF i(1), of now r c] h by (simp add: detach_object_def)
      show "ids_unique (manager ?w2)" by (rule ids_unique_put [OF i(2) h ob hf(1)])
    qed (use i(3-5) in \<open>auto split: if_splits\<close>)
  qed
qed

subsection \<open>Messages\<close>

lemma submit_to_refused:
  assumes "submit_to sched sid cmd m = (st, m')" "st \<noteq> SubmitAccepted"
  shows "m' = m"
proof (cases "\<exists>r h q. Get_session m sid = Some r \<and> objects m r = Some h \<and> commands h = Some q")
  case False
  then show ?thesis using assms(1) by (auto simp: submit_to_def Submit_def split: option.splits)
next
  case True
  then obtain r h q where h: "Get_session m sid = Some r" "objects m r = Some h" "commands h = Some q" by blast
  obtain a q' where a: "admit (push_lossy sched r) Normal cmd q = (a, q')" by fastforce
  have "a \<noteq> Accepted" using assms h a by (auto simp: submit_to_def Submit_def)
  then have "q' = q" by (rule cq.submit_refused [OF a])
  moreover have "h\<lparr>commands := Some q\<rparr> = h" using h(3) by (cases h) simp
  ultimately show ?thesis using assms(1) h a by (simp add: submit_to_def Submit_def put_object_same)
qed

lemma submit_to_accepted:
  assumes "submit_to sched sid cmd m = (SubmitAccepted, m')" "request_of cmd = Some (c, rid)"
  shows "\<exists>r h h'. Get_session m sid = Some r \<and> objects m r = Some h \<and> objects m' = (objects m)(r \<mapsto> h') \<and> session h' = session h \<and>
    (\<forall>x k. balance x k h' = balance x k h + (if (x, k) = (c, rid) then 1 else 0))"
proof -
  obtain r h q where h: "Get_session m sid = Some r" "objects m r = Some h" "commands h = Some q"
    using assms(1) by (auto simp: submit_to_def Submit_def split: option.splits)
  obtain a q' where a: "admit (push_lossy sched r) Normal cmd q = (a, q')" by fastforce
  have m': "m' = put_object r (h\<lparr>commands := Some q'\<rparr>) m" and acc: "a = Accepted"
    using assms(1) h a by (cases a; auto simp: submit_to_def Submit_def)+
  have "waiting x k q' = waiting x k q + (if (x, k) = (c, rid) then 1 else 0)" for x k
    using cq.submit_cnt [OF a, of "\<lambda>cmd. request_of cmd = Some (x, k)" Normal]
      cq.submit_cnt [OF a, of "\<lambda>cmd. request_of cmd = Some (x, k)" Priority] assms(2) acc
    by (auto simp: waiting_def)
  then show ?thesis using h m' by (auto simp: balance_def)
qed

lemma submit_to_inv:
  assumes "submit_to sched sid cmd m = (st, m')" "manager_inv m" "ids_unique m" "\<And>key. \<not> is_correction key cmd"
  shows "manager_inv m' \<and> ids_unique m'"
proof (cases "Get_session m sid")
  case None
  then show ?thesis using assms by (simp add: submit_to_def)
next
  case (Some r)
  then have s: "Submit sched Normal r cmd m = (st, m')" using assms(1) by (simp add: submit_to_def)
  have "\<exists>h. objects m x = Some h \<and> session h = session h'" if "objects m' x = Some h'" for x h'
    using s that by (auto simp: Submit_def split: option.splits prod.splits if_splits)
  then have "ids_unique m'" using assms(3) unfolding ids_unique_def by metis
  then show ?thesis using Submit_inv [OF assms(2) s assms(4)] by blast
qed

text \<open>The session a connection is attached to is the one its session id names, if any.\<close>

lemma attached_session:
  assumes "ws_inv (w, opened, asked)" "userdata w c = Some d" "ws_session d = Some r" "Get_session (manager w) (ws_session_id d) = Some r'"
  shows "r' = r"
proof -
  obtain h where "objects (manager w) r = Some h" "s_id (session h) = ws_session_id d"
    using ws_invD(6) [OF assms(1-3)] by (auto simp: attached_ok_def)
  moreover obtain h' where "objects (manager w) r' = Some h'" "s_id (session h') = ws_session_id d"
    using ws_invD(1) [OF assms(1)] map_of_SomeD [OF assms(4) [unfolded Get_session_def]] by (auto simp: manager_inv_def)
  ultimately show ?thesis using ws_invD(2) [OF assms(1)] unfolding ids_unique_def by metis
qed

text \<open>A request that is counted together with what answers it or keeps it waiting.\<close>

lemma ws_inv_request:
  assumes inv: "ws_inv (w, opened, asked)" and c: "c \<in> opened"
    and w': "userdata w' = userdata w" "m_next_connection_id w' = m_next_connection_id w"
      "manager_inv (manager w')" "ids_unique (manager w')"
    and others: "\<And>x. x \<noteq> c \<Longrightarrow> conn_kept x (manager w) (manager w') \<and> quiet_kept x (manager w) (manager w') \<and>
        (\<forall>k. acks x k (outbox w') = acks x k (outbox w))"
    and own: "\<And>d r. userdata w c = Some d \<Longrightarrow> ws_session d = Some r \<Longrightarrow> attached_ok (w', opened, asked @ [(c, rid)]) c d r"
  shows "ws_inv (w', opened, asked @ [(c, rid)])"
proof (rule ws_invI)
  note i = ws_invD [OF inv]
  show "attached_ok (w', opened, asked @ [(c, rid)]) x d r" if u: "userdata w' x = Some d" "ws_session d = Some r" for x d r
  proof (cases "x = c")
    case True
    then show ?thesis using own u w'(1) by simp
  next
    case False
    then show ?thesis using u w'(1) others [OF False] by (intro attached_ok_step [OF i(6) [of x d r]]) auto
  qed
  show "silent (w', opened, asked @ [(c, rid)]) x" if "x \<notin> opened" for x
    using that c others [of x] by (intro silent_step [OF i(7) [OF that]]) auto
  show "x \<noteq> 0 \<and> x < m_next_connection_id w'" if "x \<in> opened \<or> userdata w' x \<noteq> None" for x
    using that i(4) [of x] w'(1,2) by simp
  show "ws_connection_id d = x" if "userdata w' x = Some d" for x d using that i(5) [of x d] w'(1) by simp
  show "m_next_connection_id w' \<noteq> 0" using i(3) w'(2) by simp
qed (use w'(3,4) in simp_all)

lemma answer_inv:
  assumes inv: "ws_inv (w, opened, asked)" and c: "c \<in> opened" "userdata w c = Some d"
    and cmd: "request_of cmd = Some (c, rid)" "\<And>key. \<not> is_correction key cmd"
    and s: "submit_to sched (ws_session_id d) cmd (manager w) = (st, m1)"
  shows "ws_inv (answer_submit c d rid (st, m1) w, opened, asked @ [(c, rid)])"
proof (cases "st = SubmitAccepted")
  case False
  then have m1: "m1 = manager w" using submit_to_refused [OF s] by simp
  let ?w1 = "conn_send c (rejection_ack d rid st) w"
  have w1: "answer_submit c d rid (st, m1) w = ?w1" using False m1 by (simp add: answer_submit_def conn_send_def)
  have ack: "is_ack (rejection_ack d rid st)" "msg_request_id (rejection_ack d rid st) = rid"
    by (simp_all add: rejection_ack_def is_ack_def)
  show ?thesis unfolding w1
  proof (rule ws_inv_request [OF inv c(1)])
    show "attached_ok (?w1, opened, asked @ [(c, rid)]) c d' r" if "userdata w c = Some d'" "ws_session d' = Some r" for d' r
      using ws_invD(6) [OF inv that] by (auto simp: attached_ok_def conn_send_def ack)
  qed (use ws_invD(1,2) [OF inv] in \<open>auto simp: conn_send_def kept_same\<close>)
next
  case True
  obtain r h h' where h: "Get_session (manager w) (ws_session_id d) = Some r" "objects (manager w) r = Some h"
      "objects m1 = (objects (manager w))(r \<mapsto> h')" "session h' = session h"
      "\<And>x k. balance x k h' = balance x k h + (if (x, k) = (c, rid) then 1 else 0)"
    using submit_to_accepted [OF s [unfolded True] cmd(1)] by blast
  have w1: "answer_submit c d rid (st, m1) w = w\<lparr>manager := m1\<rparr>" using True by (simp add: answer_submit_def)
  show ?thesis unfolding w1
  proof (rule ws_inv_request [OF inv c(1)])
    show "conn_kept x (manager w) (manager (w\<lparr>manager := m1\<rparr>)) \<and> quiet_kept x (manager w) (manager (w\<lparr>manager := m1\<rparr>)) \<and>
        (\<forall>k. acks x k (outbox (w\<lparr>manager := m1\<rparr>)) = acks x k (outbox w))" if "x \<noteq> c" for x
      using kept_put [OF h(2,3), of x] h(4,5) that by simp
    show "attached_ok (w\<lparr>manager := m1\<rparr>, opened, asked @ [(c, rid)]) c d' r'" if "userdata w c = Some d'" "ws_session d' = Some r'" for d' r'
    proof -
      have "r' = r" using attached_session [OF inv that] h(1) c(2) that(1) by simp
      then show ?thesis using ws_invD(6) [OF inv that] h by (auto simp: attached_ok_def)
    qed
  qed (use submit_to_inv [OF s ws_invD(1,2) [OF inv] cmd(2)] in auto)
qed

lemma SubmitCorrection_ws_inv:
  assumes "ws_inv (w, opened, asked)" "userdata w c = Some d"
  shows "ws_inv (SubmitCorrection sched c d p w, opened, asked)"
proof (cases "p = []")
  case True
  then show ?thesis using assms(1) by (simp add: SubmitCorrection_def)
next
  case False
  let ?m = "SubmitCorrectionCommand sched (ws_session_id d) (ws_connection_id d) (Some (ws_connection_id d, p)) (manager w)"
  let ?d = "d\<lparr>pending_corrections := List.insert p (pending_corrections d)\<rparr>"
  note i = ws_invD [OF assms(1)]
  have none: "objects (manager w) x = None \<Longrightarrow> objects ?m x = None" for x
    by (auto simp: SubmitCorrectionCommand_def mark_correction_def Submit_def split: option.splits prod.splits)
  have "ws_inv (w\<lparr>manager := ?m\<rparr>, opened, asked)"
    by (rule ws_inv_manager [OF assms(1)])
      (use SubmitCorrection_inv [OF i(1)] SubmitCorrection_background ids_unique_background [OF i(2) SubmitCorrection_background none] in auto)
  note j = ws_invD [OF this]
  let ?w1 = "w\<lparr>userdata := (userdata w)(c \<mapsto> ?d), manager := ?m\<rparr>"
  have "ws_inv (?w1, opened, asked)"
  proof (rule ws_invI)
    show "attached_ok (?w1, opened, asked) x d' r" if u: "userdata ?w1 x = Some d'" "ws_session d' = Some r" for x d' r
    proof (cases "x = c")
      case True
      then have "d' = ?d" using u(1) by simp
      then show ?thesis using j(6) [of c d r] u True assms(2) by (auto simp: attached_ok_def)
    next
      case False
      then show ?thesis using j(6) [of x d' r] u by (simp add: attached_ok_def)
    qed
    show "silent (?w1, opened, asked) x" if "x \<notin> opened" for x using j(7) [OF that] by (simp add: silent_def)
    show "x \<noteq> 0 \<and> x < m_next_connection_id ?w1" if "x \<in> opened \<or> userdata ?w1 x \<noteq> None" for x
      using that j(4) [of x] assms(2) by (auto split: if_splits)
    show "ws_connection_id d' = x" if "userdata ?w1 x = Some d'" for x d'
      using that i(5) [of x] assms(2) by (auto split: if_splits)
  qed (use j(1-3) in simp_all)
  then show ?thesis using False by (simp add: SubmitCorrection_def)
qed

lemma message_inv:
  assumes inv: "ws_inv (w, opened, asked)" and c: "c \<in> opened" "userdata w c \<noteq> None"
  shows "ws_inv (OnMessage parse sched c data isBinary w, opened, asked @ requests_in parse c data isBinary)"
proof -
  obtain d where d: "userdata w c = Some d" using c(2) by blast
  have cid: "ws_connection_id d = c" by (rule ws_invD(5) [OF inv d])
  show ?thesis
  proof (cases "isBinary \<and> (\<exists>msg. parse data = Some msg \<and> is_request (message_case msg))")
    case False
    then have "requests_in parse c data isBinary = []" by (auto simp: requests_in_def split: option.split)
    moreover have "OnMessage parse sched c data isBinary w = w"
      using False d by (auto simp: OnMessage_def Let_def split: option.split message_case.split)
    ultimately show ?thesis using inv by simp
  next
    case True
    then obtain msg where msg: "parse data = Some msg" "is_request (message_case msg)" and bin: "isBinary" by blast
    let ?rid = "msg_request_id msg"
    have asked: "requests_in parse c data isBinary = [(c, ?rid)]" using msg bin by (simp add: requests_in_def)
    show ?thesis
    proof (cases "ws_session_id d = []")
      case True
      then have same: "OnMessage parse sched c data isBinary w = w" using d by (simp add: OnMessage_def)
      show ?thesis unfolding same asked
      proof (rule ws_inv_request [OF inv c(1)])
        show "attached_ok (w, opened, asked @ [(c, ?rid)]) c d' r" if "userdata w c = Some d'" "ws_session d' = Some r" for d' r
          using ws_invD(6) [OF inv that] True d that(1) by (simp add: attached_ok_def)
      qed (use ws_invD(1,2) [OF inv] in \<open>auto simp: kept_same\<close>)
    next
      case sid: False
      let ?sub = "\<lambda>cmd. submit_to sched (ws_session_id d) cmd (manager w)"
      have ans: "ws_inv (answer_submit c d ?rid (?sub cmd) w, opened, asked @ [(c, ?rid)])"
        if "request_of cmd = Some (c, ?rid)" "\<And>key. \<not> is_correction key cmd" for cmd
        using answer_inv [OF inv c(1) d that] by (metis prod.collapse)
      have ud: "userdata (answer_submit c d ?rid sm w) c = Some d" for sm :: "SubmitStatus \<times> 'a SessionManager"
        using d by (simp add: answer_submit_def conn_send_def split: prod.split)
      have tr: "SubmitTransformCommand sched (ws_session_id d) (Some u) c ?rid b (manager w) =
          ?sub (Transform \<lparr>tc_update = u, tc_origin = c, tc_request_id = ?rid, tc_base_seq = b\<rparr>)" for u b
        by (simp add: SubmitTransformCommand_def submit_to_def split: option.split)
      show ?thesis unfolding asked
        using msg bin d sid ans SubmitCorrection_ws_inv [OF ans ud]
        by (cases "message_case msg")
          (simp_all add: OnMessage_def Let_def cid tr SubmitCreatePrimCommand_def SubmitSetPrimActiveCommand_def)
    qed
  qed
qed

lemma ws_step_inv: "ws_step lib sl parse x y \<Longrightarrow> ws_inv x \<Longrightarrow> ws_inv y"
proof (induction rule: ws_step.induct)
  case (others w m' opened asked)
  then show ?case using background_step_effect ws_invD(1,2) ws_inv_manager by metis
qed (blast intro: accept_inv open_inv close_inv message_inv)+

lemma ws_run_inv: "ws_run lib sl parse x \<Longrightarrow> ws_inv x"
proof (induction rule: ws_run.induct)
  case (init loc timeout d)
  show ?case
    by (rule ws_invI) (auto simp: WebSocketController_create_def SessionManager_create_def manager_inv_def ids_unique_def silent_def)
qed (rule ws_step_inv)

subsection \<open>Every request is answered once\<close>

text \<open>C6: Every request of a connected client is answered exactly once. In every history of the endpoint, over
  all interleavings with the consumers, the reaper, other connections and the REST handlers: the
  updates, creations and activations that were received on an attached connection under a request id
  are as many as the acknowledgements sent to it under that id, by the session's consumer or, for a
  request that was not admitted, by the endpoint itself, plus those that still wait in the queue of
  its session. So nothing is answered twice, and once the queue is empty everything is answered.\<close>

theorem every_request_answered:
  assumes "ws_run lib sl parse (w, opened, asked)" and "userdata w c = Some d" and "ws_session d = Some r"
  shows "\<exists>h q. objects (manager w) r = Some h \<and> commands h = Some q \<and> c \<in> set (clients (session h)) \<and>
    cnt ((=) (c, rid)) asked = acks c rid (sent (session h)) + acks c rid (outbox w) + waiting c rid q"
proof -
  note inv = ws_run_inv [OF assms(1)]
  obtain h where h: "objects (manager w) r = Some h" "c \<in> set (clients (session h))"
      "\<And>rid. cnt ((=) (c, rid)) asked = balance c rid h + acks c rid (outbox w)"
    using ws_invD(6) [OF inv assms(2,3)] by (auto simp: attached_ok_def)
  obtain q where "commands h = Some q" using manager_invD(1) [OF ws_invD(1) [OF inv] h(1)] by (auto simp: hosted_ok_def)
  then show ?thesis using h by (simp add: balance_def)
qed

definition demo_message :: "string \<Rightarrow> BaseMessage option" where
  "demo_message _ = Some \<lparr>msg_session_id = [], msg_request_id = 7, msg_server_seq = 0, message_case = kSetPrimActive ''/World'' False\<rparr>"

definition demo_accepted :: "mini_stage WebSocketController" where
  "demo_accepted = snd (OnAccept (Some demo_id) [] ((WebSocketController_create demo_empty)\<lparr>manager := demo_manager\<rparr>))"

definition demo_opened :: "mini_stage WebSocketController" where
  "demo_opened = OnOpen in_turn 1 demo_accepted"

lemma demo_id_nonempty: "demo_id \<noteq> []"
  unfolding demo_id_def by code_simp

lemma demo_accepted_userdata:
  "demo_accepted = (WebSocketController_create demo_empty)\<lparr>manager := demo_manager, m_next_connection_id := 2,
     userdata := [1 \<mapsto> \<lparr>ws_session_id = demo_id, ws_connection_id = 1, ws_remote_ip = [], ws_session = None, pending_corrections = []\<rparr>]\<rparr>"
  by (simp add: demo_accepted_def OnAccept_def WebSocketController_create_def demo_manager_eq Exists_session_def Get_session_def
      IsSingleEditBusy_def demo_hosted_def new_session_alt Let_def)

lemma demo_opened_userdata: "\<exists>d. userdata demo_opened 1 = Some d \<and> ws_session d = Some 0 \<and> ws_session_id d = demo_id"
  using demo_id_nonempty
  by (auto simp: demo_opened_def OnOpen_def demo_accepted_userdata demo_manager_eq Get_session_def AttachClient_def attach_object_def
      attach_client_def demo_hosted_def new_session_alt opened_by_def conn_send_def conn_close_def Let_def split: prod.split)

lemma ws_run_steps: "(ws_step lib sl parse)\<^sup>*\<^sup>* x y \<Longrightarrow> ws_run lib sl parse x \<Longrightarrow> ws_run lib sl parse y"
  by (induction rule: rtranclp_induct) (auto intro: ws_run.step)

lemma demo_ws_steps:
  "(ws_step mini_lib demo_stages demo_message)\<^sup>*\<^sup>* (WebSocketController_create demo_empty, {}, []) (demo_opened, {1}, [])"
proof -
  let ?w0 = "WebSocketController_create demo_empty"
  let ?step = "ws_step mini_lib demo_stages demo_message"
  have "background_step mini_lib demo_stages demo_empty demo_manager"
    unfolding demo_manager_def
    by (rule background_step.create [OF prod.collapse [symmetric]]) (simp add: demo_empty_def SessionManager_create_def)
  then have a: "?step (?w0, {}, []) (?w0\<lparr>manager := demo_manager\<rparr>, {}, [])"
    by (intro ws_step.others) (simp add: WebSocketController_create_def)
  have b: "?step (?w0\<lparr>manager := demo_manager\<rparr>, {}, []) (demo_accepted, {}, [])"
    unfolding demo_accepted_def
    by (rule ws_step.accept [OF _ prod.collapse [symmetric]]) (simp add: WebSocketController_create_def)
  have c: "?step (demo_accepted, {}, []) (demo_opened, {1}, [])"
    unfolding demo_opened_def by (rule ws_step.opens) (simp_all add: demo_accepted_userdata)
  show ?thesis
    using rtranclp.rtrancl_into_rtrancl [OF rtranclp.rtrancl_into_rtrancl
        [OF rtranclp.rtrancl_into_rtrancl [OF rtranclp.rtrancl_refl [where r = ?step] a] b] c] .
qed

lemma demo_ws_run: "ws_run mini_lib demo_stages demo_message (demo_opened, {1}, [])"
  using ws_run_steps [OF demo_ws_steps] ws_run.init unfolding demo_empty_def by blast

theorem every_request_answered_witness:
  "\<exists>h q. objects (manager (OnMessage demo_message in_turn 1 [] True demo_opened)) 0 = Some h \<and> commands h = Some q \<and>
     (1 :: nat) = acks 1 7 (sent (session h)) + acks 1 7 (outbox (OnMessage demo_message in_turn 1 [] True demo_opened)) + waiting 1 7 q"
proof -
  let ?w = "OnMessage demo_message in_turn 1 [] True demo_opened"
  obtain d where d: "userdata demo_opened 1 = Some d" "ws_session d = Some 0" "ws_session_id d = demo_id"
    using demo_opened_userdata by blast
  then have "ws_step mini_lib demo_stages demo_message (demo_opened, {1}, []) (?w, {1}, [] @ requests_in demo_message 1 [] True)"
    by (intro ws_step.message) simp_all
  then have run: "ws_run mini_lib demo_stages demo_message (?w, {1}, [(1, 7)])"
    using ws_run.step [OF demo_ws_run] by (simp add: requests_in_def demo_message_def)
  have "userdata ?w 1 = Some d" using d by (auto simp: OnMessage_def demo_message_def answer_submit_def conn_send_def Let_def split: prod.split)
  from every_request_answered [OF run this d(2), of 7] show ?thesis by auto
qed

text \<open>Connection ids are never reused, as the version tracking of a session relies on.\<close>

lemma accepted_id_fresh:
  assumes "ws_run lib sl parse (w, opened, asked)" and "OnAccept sid_param ip w = (Some c, w')"
  shows "c \<noteq> 0 \<and> c \<notin> opened \<and> userdata w c = None"
proof -
  have "c = m_next_connection_id w" using assms(2) by (auto simp: OnAccept_def Let_def split: option.splits if_splits)
  then show ?thesis using ws_invD(3,4) [OF ws_run_inv [OF assms(1)]] by fastforce
qed

text \<open>A connection that was refused when it opened keeps its session id, and the message handler does not ask
  whether it was attached: an update it still delivers is queued like one of an editor.\<close>

lemma refused_connection_still_writes:
  assumes "userdata w c = Some d" "ws_session d = None" "ws_session_id d \<noteq> []" "Get_session (manager w) (ws_session_id d) = Some r"
    "objects (manager w) r = Some h" "commands h = Some q" "q_accepting q" "length (q_normal q) + 1 < kMailboxCapacity"
    "parse data = Some msg" "message_case msg = kXformUpdate u"
  shows "\<exists>h'. objects (manager (OnMessage parse sched c data True w)) r = Some h' \<and>
    commands h' = Some (q\<lparr>q_normal := q_normal q @ [Transform \<lparr>tc_update = u, tc_origin = ws_connection_id d,
      tc_request_id = msg_request_id msg, tc_base_seq = msg_server_seq msg\<rparr>]\<rparr>)"
  using assms by (auto simp: OnMessage_def Let_def SubmitTransformCommand_def Submit_def admit_accepting answer_submit_def)

end
