(* ===== verification/System.thy ===== *)
theory System
  imports Startup Web_Socket_Protocol
begin

text \<open>
  The running process: HTTP requests, websocket callbacks, session consumers, the reaper, the flusher and
  the thumbnail worker over one session manager, from the start of \<^verbatim>\<open>main\<close> on. The web server, the
  websocket controller and the background threads share the manager by pointer; in the state it is the
  manager of the file controller, and the one of the websocket controller is kept equal to it.

  A whole HTTP request and a whole sweep of the reaper or flusher are steps here, and so are the
  elementary moves they are composed of, one by one: a handler in progress is overtaken by others at each
  of its moves.
\<close>

subsection \<open>HTTP requests as moves of the manager\<close>

context manager_moves
begin

lemma CreateSession_moves:
  assumes "CreateSession jlib fs sl rnd t now req m = (res, m')"
    and "\<And>r h. objects m r = Some h \<Longrightarrow> s_id (session h) \<noteq> GenerateUuidV4 (fst rnd) (snd rnd)"
  shows "moves\<^sup>*\<^sup>* m m'"
proof -
  have "m' = m \<or> (\<exists>f md auto x. Create_session fs sl rnd t now f md auto m = (x, m'))"
    using assms(1) by (auto simp: CreateSession_def split: sum.splits if_splits prod.splits option.splits)
  then show ?thesis using create assms(2) by blast
qed

lemma store_upload_moves:
  assumes "store_upload env sched full relative content replaces s = (res, s')"
  shows "moves\<^sup>*\<^sup>* (sm s) (sm s')"
proof -
  have written: "moves\<^sup>*\<^sup>* (sm s) ((sm s)\<lparr>files := d\<rparr>)" for d using disk by blast
  moreover have "moves\<^sup>*\<^sup>* (sm s) (snd (SubmitReloadSessionsCommand sched f None ((sm s)\<lparr>files := d\<rparr>)))" for f d
    using written reload_moves by (rule rtranclp_trans)
  ultimately show ?thesis
    using assms by (auto simp: store_upload_def Let_def split: prod.splits Status.splits option.splits)
qed

lemma UploadFile_moves:
  assumes "UploadFile env sched req s = (res, s')"
  shows "moves\<^sup>*\<^sup>* (sm s) (sm s')"
proof -
  have "sm s' = sm s \<or> (\<exists>full relative content replaces.
      store_upload env sched full relative content replaces (s\<lparr>m_locator_ptr := Some (Locator s)\<rparr>) = (res, s'))"
    using assms unfolding UploadFile_def Let_def by (auto split: sum.splits prod.splits Status.splits if_splits)
  then show ?thesis using store_upload_moves by fastforce
qed

lemma endpoint_moves:
  assumes "run_endpoint w req e s = Some (res, s')" and "w_library w = lib" and "w_stages w = sl"
    and "manager_inv (sm (srv_files s))"
    and "\<And>r h. objects (sm (srv_files s)) r = Some h \<Longrightarrow> s_id (session h) \<noteq> GenerateUuidV4 (fst (w_random w)) (snd (w_random w))"
  shows "moves\<^sup>*\<^sup>* (sm (srv_files s)) (sm (srv_files s'))"
proof (cases e)
  case UploadEndpoint
  then show ?thesis using assms(1) UploadFile_moves by (auto split: prod.splits)
next
  case CreateSessionEndpoint
  then show ?thesis using assms(1,3,5) by (auto simp: with_manager_def split: prod.splits intro: CreateSession_moves)
next
  case (DeleteSessionEndpoint sid)
  then show ?thesis
    using assms(1-4) Destroy_moves by (auto simp: with_manager_def DeleteSession_def split: prod.splits)
next
  case (CommitSessionEndpoint sid)
  then show ?thesis
    using assms(1) commit_moves by (auto simp: with_manager_def CommitSession_def split: prod.splits)
qed (use assms(1) in \<open>auto split: prod.splits\<close>)

lemma request_moves:
  assumes "handle_request w req s = Some (res, s')" and "w_library w = lib" and "w_stages w = sl"
    and "manager_inv (sm (srv_files s))"
    and "\<And>r h. objects (sm (srv_files s)) r = Some h \<Longrightarrow> s_id (session h) \<noteq> GenerateUuidV4 (fst (w_random w)) (snd (w_random w))"
  shows "moves\<^sup>*\<^sup>* (sm (srv_files s)) (sm (srv_files s'))"
  using handle_request_cases [OF assms(1)] endpoint_moves [OF _ assms(2,3)] assms(4,5) by fastforce

end

subsection \<open>Executions of the process\<close>

type_synonym 'st idtx_state = "'st server \<times> 'st WebSocketController \<times> ConnectionId set \<times> (ConnectionId \<times> u64) list"

text \<open>The identifier drawn for a new session is a fresh one. The thumbnail worker takes the next step on its
  jobs and may write any files.\<close>

inductive idtx_step :: "('st, 'ly) Library \<Rightarrow> 'st stage_library \<Rightarrow> (string \<Rightarrow> BaseMessage option) \<Rightarrow> 'st idtx_state \<Rightarrow> 'st idtx_state \<Rightarrow> bool"
  for lib sl parse where
  http: "handle_request v req s = Some (res, s') \<Longrightarrow> w_library v = lib \<Longrightarrow> w_stages v = sl \<Longrightarrow>
    (\<And>r h. objects (sm (srv_files s)) r = Some h \<Longrightarrow> s_id (session h) \<noteq> GenerateUuidV4 (fst (w_random v)) (snd (w_random v))) \<Longrightarrow>
    idtx_step lib sl parse (s, w, opened, asked) (s', w\<lparr>manager := sm (srv_files s')\<rparr>, opened, asked)"
| websocket: "ws_step lib sl parse (w, opened, asked) (w', opened', asked') \<Longrightarrow>
    idtx_step lib sl parse (s, w, opened, asked) (with_manager (manager w') s, w', opened', asked')"
| reaper: "ReapIdleSessions lib sl sched now (manager w) = Some (n, m') \<Longrightarrow>
    idtx_step lib sl parse (s, w, opened, asked) (with_manager m' s, w\<lparr>manager := m'\<rparr>, opened, asked)"
| flusher: "SubmitFlushDirtySessionsCommand sched (manager w) = (n, m') \<Longrightarrow>
    idtx_step lib sl parse (s, w, opened, asked) (with_manager m' s, w\<lparr>manager := m'\<rparr>, opened, asked)"
| thumbnail: "m_thumbnails (srv_files s) = Some tw \<Longrightarrow> Run_step tw = Some tw' \<Longrightarrow> m' = (manager w)\<lparr>files := d\<rparr> \<Longrightarrow>
    idtx_step lib sl parse (s, w, opened, asked)
      (s\<lparr>srv_files := (srv_files s)\<lparr>m_thumbnails := Some tw', sm := m'\<rparr>\<rparr>, w\<lparr>manager := m'\<rparr>, opened, asked)"

inductive idtx_run :: "('st, 'ly) Library \<Rightarrow> 'st stage_library \<Rightarrow> (string \<Rightarrow> BaseMessage option) \<Rightarrow> machine \<Rightarrow> environment \<Rightarrow> 'st idtx_state \<Rightarrow> bool"
  for lib sl parse mc env where
  start: "main v mc gens jwt0 d env out = (Serves s port idle, out') \<Longrightarrow> w_library v = lib \<Longrightarrow> w_stages v = sl \<Longrightarrow>
    idtx_run lib sl parse mc env (s, WebSocketController_create (sm (srv_files s)), {}, [])"
| step: "idtx_run lib sl parse mc env x \<Longrightarrow> idtx_step lib sl parse x y \<Longrightarrow> idtx_run lib sl parse mc env y"

subsection \<open>The websocket endpoint within the process\<close>

text \<open>Whatever the rest of the process does is, for the websocket endpoint, a sequence of its background steps.\<close>

lemma ws_run_background:
  assumes "ws_run lib sl parse (w, opened, asked)" and "(background_step lib sl)\<^sup>*\<^sup>* (manager w) m'"
  shows "ws_run lib sl parse (w\<lparr>manager := m'\<rparr>, opened, asked)"
  using assms(2)
proof (induction rule: rtranclp_induct)
  case base
  then show ?case using assms(1) by simp
next
  case (step m m')
  from ws_step.others [of lib sl "w\<lparr>manager := m\<rparr>" m'] step.hyps(2) ws_run.step [OF step.IH] show ?case by simp
qed

lemma main_serves:
  assumes "main v mc gens jwt0 d env out = (Serves s port idle, out')"
  shows "\<exists>loc timeout. sm (srv_files s) = SessionManager_create loc timeout d"
    and "\<not> auth_disabled (load_dotenv (mc_dotenv mc) env) \<Longrightarrow> is_enabled (srv_jwt s)"
proof -
  let ?env = "load_dotenv (mc_dotenv mc) env"
  obtain ctx recs where i: "Initialize v ?env jwt0 (ctx_auth ctx) (Application_create gens d ctx) = Inr (s, recs)"
    using assms by (auto simp: main_def Let_def split: sum.splits prod.splits)
  show "\<exists>loc timeout. sm (srv_files s) = SessionManager_create loc timeout d"
    using Initialize_cases(2) [OF i] by (auto simp: Application_create_def)
  show "is_enabled (srv_jwt s)" if "\<not> auth_disabled ?env"
    using server_running_enabled [OF server_running.started [OF _ i, of "{v}"] that] by simp
qed

definition process_inv :: "('st, 'ly) Library \<Rightarrow> 'st stage_library \<Rightarrow> (string \<Rightarrow> BaseMessage option) \<Rightarrow> bool \<Rightarrow> 'st idtx_state \<Rightarrow> bool" where
  "process_inv lib sl parse protected x \<longleftrightarrow>
     (case x of (s, w, opened, asked) \<Rightarrow>
        manager w = sm (srv_files s) \<and> ws_run lib sl parse (w, opened, asked) \<and> (protected \<longrightarrow> is_enabled (srv_jwt s)))"

lemma process_inv_background:
  assumes "process_inv lib sl parse protected (s, w, opened, asked)" and "(background_step lib sl)\<^sup>*\<^sup>* (manager w) m'"
    and "sm (srv_files s') = m'" and "is_enabled (srv_jwt s') = is_enabled (srv_jwt s)"
  shows "process_inv lib sl parse protected (s', w\<lparr>manager := m'\<rparr>, opened, asked)"
  using assms ws_run_background [OF _ assms(2)] by (simp add: process_inv_def)

lemma process_inv_manager: "process_inv lib sl parse protected (s, w, opened, asked) \<Longrightarrow> manager_inv (manager w)"
  using ws_invD(1) [OF ws_run_inv] by (fastforce simp: process_inv_def)

lemma handle_request_enabled:
  assumes "handle_request w req s = Some (res, s')"
  shows "is_enabled (srv_jwt s') = is_enabled (srv_jwt s)"
  using handle_request_cases [OF assms] endpoint_effect jwt_before_handle_enabled by (elim disjE exE conjE) (fastforce, fastforce)

lemma idtx_step_inv: "idtx_step lib sl parse x y \<Longrightarrow> process_inv lib sl parse protected x \<Longrightarrow> process_inv lib sl parse protected y"
proof (induction rule: idtx_step.induct)
  case (http v req s res s' w opened asked)
  have m: "manager w = sm (srv_files s)" using http.prems by (simp add: process_inv_def)
  show ?case
    using bg.request_moves [OF http.hyps(1-3)] process_inv_manager [OF http.prems] http.hyps(4) handle_request_enabled [OF http.hyps(1)]
    by (intro process_inv_background [OF http.prems]) (simp_all add: m)
next
  case (websocket w opened asked w' opened' asked' s)
  then show ?case using ws_run.step by (fastforce simp: process_inv_def with_manager_def)
next
  case (reaper sched now w n m' s opened asked)
  then show ?case
    using bg.Reap_moves [OF process_inv_manager [OF reaper.prems] reaper.hyps]
    by (intro process_inv_background [OF reaper.prems]) (simp_all add: with_manager_def)
next
  case (flusher sched w n m' s opened asked)
  then show ?case
    using bg.flush_moves [where lib = lib and sl = sl and m = "manager w" and sched = sched]
    by (intro process_inv_background [OF flusher.prems]) (simp_all add: with_manager_def)
next
  case (thumbnail s tw tw' m' d w opened asked)
  then show ?case
    using bg.disk [where lib = lib and sl = sl and m = "manager w" and d = d] by (intro process_inv_background [OF thumbnail.prems]) auto
qed

lemma idtx_run_inv:
  "idtx_run lib sl parse mc env x \<Longrightarrow> process_inv lib sl parse (\<not> auth_disabled (load_dotenv (mc_dotenv mc) env)) x"
proof (induction rule: idtx_run.induct)
  case (start v gens jwt0 d out s port idle out')
  obtain loc timeout where "sm (srv_files s) = SessionManager_create loc timeout d"
    using main_serves(1) [OF start(1)] by blast
  then show ?case
    using main_serves(2) [OF start(1)] ws_run.init [of lib sl parse loc timeout d]
    by (simp add: process_inv_def WebSocketController_create_def)
qed (blast intro: idtx_step_inv)

subsection \<open>Property\<close>

lemma run_balance:
  assumes "ws_run lib sl parse (w, opened, asked)" and "userdata w c = Some d" and "ws_session d = Some r"
  obtains h q where "objects (manager w) r = Some h" "commands h = Some q" "c \<in> set (clients (session h))"
    "\<And>rid. cnt ((=) (c, rid)) asked = acks c rid (sent (session h)) + acks c rid (outbox w) + waiting c rid q"
proof -
  note inv = ws_run_inv [OF assms(1)]
  obtain h where h: "objects (manager w) r = Some h" "c \<in> set (clients (session h))"
      "\<And>rid. cnt ((=) (c, rid)) asked = balance c rid h + acks c rid (outbox w)"
    using ws_invD(6) [OF inv assms(2,3)] by (auto simp: attached_ok_def)
  obtain q where q: "commands h = Some q" using manager_invD(1) [OF ws_invD(1) [OF inv] h(1)] by (auto simp: hosted_ok_def)
  show ?thesis by (rule that [OF h(1) q h(2)]) (use h(3) q in \<open>simp add: balance_def\<close>)
qed

lemma consume_n_steps: "consume_n lib sched r n m = Some m' \<Longrightarrow> (background_step lib sl)\<^sup>*\<^sup>* m m'"
proof (induction n arbitrary: m)
  case (Suc n)
  then obtain m1 where "consume lib sched r m = Some m1" "consume_n lib sched r n m1 = Some m'" by (auto simp: bind_eq_Some_conv)
  then show ?case using Suc.IH background_step.consume by (metis converse_rtranclp_into_rtranclp)
qed simp

lemma drained_balance:
  assumes run: "ws_run lib sl parse (w, opened, asked)" and u: "userdata w c = Some d" "ws_session d = Some r"
    and h: "objects (manager w) r = Some h" and n: "consume_n lib sched r (pending_commands h) (manager w) = Some m'"
  shows "\<exists>h'. objects m' r = Some h' \<and> cnt ((=) (c, rid)) asked = acks c rid (sent (session h')) + acks c rid (outbox w)"
proof -
  obtain q where q: "commands h = Some q" by (rule run_balance [OF run u]) (use h in auto)
  obtain h' where h': "objects m' r = Some h'" "commands h' = Some \<lparr>q_normal = [], q_priority = [], q_accepting = q_accepting q\<rparr>"
    using consume_n_drains [OF h q _ n] q by (auto simp: pending_commands_def)
  note run' = ws_run_background [OF run consume_n_steps [OF n]]
  have "cnt ((=) (c, rid)) asked = acks c rid (sent (session h')) + acks c rid (outbox w)"
    by (rule run_balance [OF run', of c d r]) (use u h' in \<open>auto simp: waiting_def\<close>)
  then show ?thesis using h'(1) by blast
qed

text \<open>C11: The whole process keeps its promises together. In every execution from \<^verbatim>\<open>main\<close> on, with HTTP requests,
  websocket callbacks, consumers, the reaper, the flusher and the thumbnail worker in any order:
  authentication stays on unless the environment switched it off; a session found by its id carries that
  id and takes commands; and of the requests an attached websocket client has made under a request id, each
  has been acknowledged once, by the session or by the endpoint, or still waits in the session's queue.
  Once the session's consumer has worked off that queue, every request has its one answer.\<close>

theorem process_answers_every_request:
  assumes "idtx_run lib sl parse mc env (s, w, opened, asked)"
  shows "(\<not> auth_disabled (load_dotenv (mc_dotenv mc) env) \<longrightarrow> is_enabled (srv_jwt s)) \<and>
    (\<forall>sid r. Get_session (sm (srv_files s)) sid = Some r \<longrightarrow>
       (\<exists>h. objects (sm (srv_files s)) r = Some h \<and> s_id (session h) = sid \<and> accepts h)) \<and>
    (\<forall>c d r rid. userdata w c = Some d \<and> ws_session d = Some r \<longrightarrow>
       (\<exists>h q. objects (sm (srv_files s)) r = Some h \<and> commands h = Some q \<and> c \<in> set (clients (session h)) \<and>
          cnt ((=) (c, rid)) asked = acks c rid (sent (session h)) + acks c rid (outbox w) + waiting c rid q \<and>
          (\<forall>sched m'. consume_n lib sched r (pending_commands h) (sm (srv_files s)) = Some m' \<longrightarrow>
             (\<exists>h'. objects m' r = Some h' \<and>
                cnt ((=) (c, rid)) asked = acks c rid (sent (session h')) + acks c rid (outbox w)))))"
proof (intro conjI allI impI)
  have i: "manager w = sm (srv_files s)" "ws_run lib sl parse (w, opened, asked)"
      "\<not> auth_disabled (load_dotenv (mc_dotenv mc) env) \<longrightarrow> is_enabled (srv_jwt s)"
    using idtx_run_inv [OF assms] by (simp_all add: process_inv_def)
  show "is_enabled (srv_jwt s)" if "\<not> auth_disabled (load_dotenv (mc_dotenv mc) env)" using i(3) that by blast
  have inv: "manager_inv (sm (srv_files s))" using ws_invD(1) [OF ws_run_inv [OF i(2)]] i(1) by simp
  show "\<exists>h. objects (sm (srv_files s)) r = Some h \<and> s_id (session h) = sid \<and> accepts h" if "Get_session (sm (srv_files s)) sid = Some r" for sid r
    using inv map_of_SomeD [OF that [unfolded Get_session_def]] by (auto simp: manager_inv_def)
  fix c d r rid
  assume "userdata w c = Some d \<and> ws_session d = Some r"
  then have u: "userdata w c = Some d" "ws_session d = Some r" by simp_all
  obtain h q where h: "objects (manager w) r = Some h" "commands h = Some q" "c \<in> set (clients (session h))"
      "\<And>rid. cnt ((=) (c, rid)) asked = acks c rid (sent (session h)) + acks c rid (outbox w) + waiting c rid q"
    by (rule run_balance [OF i(2) u]) blast
  then show "\<exists>h q. objects (sm (srv_files s)) r = Some h \<and> commands h = Some q \<and> c \<in> set (clients (session h)) \<and>
      cnt ((=) (c, rid)) asked = acks c rid (sent (session h)) + acks c rid (outbox w) + waiting c rid q \<and>
      (\<forall>sched m'. consume_n lib sched r (pending_commands h) (sm (srv_files s)) = Some m' \<longrightarrow>
         (\<exists>h'. objects m' r = Some h' \<and> cnt ((=) (c, rid)) asked = acks c rid (sent (session h')) + acks c rid (outbox w)))"
    using drained_balance [OF i(2) u h(1)] i(1) by (intro exI [of _ h] exI [of _ q]) auto
qed

text \<open>A process that is started, creates a session, lets a client in and receives one request from it.\<close>

definition demo_host :: machine where
  "demo_host = \<lparr>mc_fs = demo_fs, mc_root_error = [], mc_cores = 8, mc_imaging = False, mc_dotenv = None\<rparr>"

definition demo_settings :: environment where
  "demo_settings = [''OIDC_WELLKNOWN_URL'' \<mapsto> ''w'', ''OIDC_AUDIENCES'' \<mapsto> ''core'', ''IDTX_UPLOADS_ROOT'' \<mapsto> ''uploads'',
     ''IDTX_SESSIONS_ROOT'' \<mapsto> ''sessions'', ''IDTX_SESSION_IDLE_TIMEOUT_SECONDS'' \<mapsto> ''60'']"

lemma demo_settings_simps:
  "env_or demo_settings ''IDTX_UPLOADS_ROOT'' d = ''uploads''" "env_or demo_settings ''IDTX_SESSIONS_ROOT'' d = ''sessions''"
  "chrono_count (get_env_u64 demo_settings ''IDTX_SESSION_IDLE_TIMEOUT_SECONDS'' 300) = 60"
proof -
  have "get_env demo_settings ''IDTX_SESSION_IDLE_TIMEOUT_SECONDS'' = Some ''60''" by (simp add: get_env_def demo_settings_def)
  moreover have "from_chars_u64 ''60'' = Some 60" by (simp add: from_chars_u64_def is_digit_def digits_value_def)
  ultimately show "chrono_count (get_env_u64 demo_settings ''IDTX_SESSION_IDLE_TIMEOUT_SECONDS'' 300) = 60"
    by (simp add: get_env_u64_def chrono_count_def)
qed (simp_all add: env_or_def get_env_def demo_settings_def)

lemma demo_oidc: "\<nexists>what. OidcConfiguration_create demo_settings ''OIDC_WELLKNOWN_URL'' ''OIDC_AUDIENCES'' = Inl what"
proof -
  have "get_env demo_settings ''OIDC_WELLKNOWN_URL'' = Some ''w''" "get_env demo_settings ''OIDC_AUDIENCES'' = Some ''core''"
    by (simp_all add: get_env_def demo_settings_def)
  then show ?thesis by (simp add: OidcConfiguration_create_def demo_split Let_def)
qed

lemma demo_context_fields:
  "\<exists>ctx. ApplicationContext_create (mc_fs demo_host) (mc_root_error demo_host) (mc_cores demo_host) (mc_imaging demo_host) demo_settings = Inr ctx \<and>
     ctx_locator ctx = \<lparr>root = ''uploads'', session_root = ''sessions''\<rparr> \<and> ctx_idle_timeout ctx = 60"
proof -
  have "EnsureRootExists (mc_fs demo_host) loc = Ok" for loc by (simp add: EnsureRootExists_def demo_host_def demo_fs_def)
  then show ?thesis unfolding ApplicationContext_create_def Let_def demo_settings_simps by simp
qed

lemma demo_process:
  "\<exists>s port idle out. main demo_world demo_host (\<lambda>_. failing_generator) demo_jwt0 Map.empty demo_settings \<lparr>cout = [], cerr = []\<rparr> =
     (Serves s port idle, out) \<and> sm (srv_files s) = demo_empty"
proof -
  have env: "load_dotenv (mc_dotenv demo_host) demo_settings = demo_settings" by (simp add: load_dotenv_def demo_host_def)
  obtain ctx where ctx: "ApplicationContext_create (mc_fs demo_host) (mc_root_error demo_host) (mc_cores demo_host)
      (mc_imaging demo_host) demo_settings = Inr ctx"
    and c: "ctx_locator ctx = \<lparr>root = ''uploads'', session_root = ''sessions''\<rparr>" "ctx_idle_timeout ctx = 60"
    using demo_context_fields by blast
  let ?fc = "Application_create (\<lambda>_. failing_generator) Map.empty ctx :: mini_stage FileServingController"
  obtain s recs where i: "Initialize demo_world demo_settings demo_jwt0 (ctx_auth ctx) ?fc = Inr (s, recs)"
    using demo_oidc Initialize_cases(1) [of demo_world demo_settings demo_jwt0 "ctx_auth ctx" ?fc]
    by (cases "Initialize demo_world demo_settings demo_jwt0 (ctx_auth ctx) ?fc") auto
  have "sm (srv_files s) = demo_empty"
    using Initialize_cases(2) [OF i] c by (simp add: Application_create_def demo_empty_def)
  then show ?thesis using ctx i by (auto simp: main_def env Let_def)
qed

lemma idtx_run_websocket:
  assumes "idtx_run lib sl parse mc env (s, x)" and "(ws_step lib sl parse)\<^sup>*\<^sup>* x y"
  shows "\<exists>s'. idtx_run lib sl parse mc env (s', y)"
  using assms(2)
proof (induction rule: rtranclp_induct)
  case base
  then show ?case using assms(1) by blast
next
  case (step y z)
  obtain s1 where s1: "idtx_run lib sl parse mc env (s1, y)" using step.IH by blast
  obtain w opened asked where y: "y = (w, opened, asked)" by (metis prod_cases3)
  obtain w' opened' asked' where z: "z = (w', opened', asked')" by (metis prod_cases3)
  show ?case using idtx_run.step [OF s1 [unfolded y] idtx_step.websocket [OF step.hyps(2) [unfolded y z]]] unfolding z by (rule exI)
qed

theorem process_answers_every_request_witness:
  "\<exists>s h q. objects (sm (srv_files s)) 0 = Some h \<and> commands h = Some q \<and> is_enabled (srv_jwt s) \<and>
     idtx_run mini_lib demo_stages demo_message demo_host demo_settings (s, OnMessage demo_message in_turn 1 [] True demo_opened, {1}, [(1, 7)]) \<and>
     (1 :: nat) = acks 1 7 (sent (session h)) + acks 1 7 (outbox (OnMessage demo_message in_turn 1 [] True demo_opened)) + waiting 1 7 q"
proof -
  let ?w = "OnMessage demo_message in_turn 1 [] True demo_opened"
  let ?run = "idtx_run mini_lib demo_stages demo_message demo_host demo_settings"
  obtain d where d: "userdata demo_opened 1 = Some d" "ws_session d = Some 0" using demo_opened_userdata by blast
  then have "ws_step mini_lib demo_stages demo_message (demo_opened, {1}, []) (?w, {1}, [] @ requests_in demo_message 1 [] True)"
    by (intro ws_step.message) simp_all
  then have steps: "(ws_step mini_lib demo_stages demo_message)\<^sup>*\<^sup>* (WebSocketController_create demo_empty, {}, []) (?w, {1}, [(1, 7)])"
    using rtranclp.rtrancl_into_rtrancl [OF demo_ws_steps] by (simp add: requests_in_def demo_message_def)
  obtain s0 port idle out where s0: "main demo_world demo_host (\<lambda>_. failing_generator) demo_jwt0 Map.empty demo_settings \<lparr>cout = [], cerr = []\<rparr> =
      (Serves s0 port idle, out)" "sm (srv_files s0) = demo_empty" using demo_process by blast
  have "w_library demo_world = mini_lib" "w_stages demo_world = demo_stages" by (simp_all add: demo_world_def)
  from idtx_run.start [OF s0(1) this] have "?run (s0, WebSocketController_create demo_empty, {}, [])" unfolding s0(2) .
  then obtain s where run: "?run (s, ?w, {1}, [(1, 7)])" using idtx_run_websocket [OF _ steps] by blast
  have u: "userdata ?w 1 = Some d" using d by (auto simp: OnMessage_def demo_message_def answer_submit_def conn_send_def Let_def split: prod.split)
  have "\<not> auth_disabled (load_dotenv (mc_dotenv demo_host) demo_settings)"
    by (simp add: auth_disabled_def load_dotenv_def demo_host_def demo_settings_def)
  with process_answers_every_request [OF run, THEN conjunct1] have on: "is_enabled (srv_jwt s)" by blast
  from process_answers_every_request [OF run, THEN conjunct2, THEN conjunct2, rule_format, OF conjI [OF u d(2)], of 7]
  obtain h q where "objects (sm (srv_files s)) 0 = Some h" "commands h = Some q"
    "cnt ((=) (1 :: ConnectionId, 7 :: u64)) [(1, 7)] = acks 1 7 (sent (session h)) + acks 1 7 (outbox ?w) + waiting 1 7 q" by blast
  then show ?thesis using on run by (intro exI [of _ s] exI [of _ h] exI [of _ q]) simp
qed

end
