(* ===== verification/Spec2Isabelle.thy ===== *)
theory Spec2Isabelle
  imports Session_Versions Worker_Pool Ring_Refinement Scheduler_Progress Rate_Limit_Handler Jwt_Auth Thumbnail_Generators
    System
begin

section \<open>Verification of the idtx-core server\<close>

text \<open>
  \<^bold>\<open>The program.\<close> idtx-core is a collaboration server for USD scenes. Clients upload files and create
  sessions on them by HTTP, and edit the stage of a session by websocket messages. Every edit is
  written to a session layer, broadcast with a version number to the other clients, and acknowledged;
  the layer is saved beside the file, committed into it on request, and reloaded when the file is
  replaced. All edits of one session are executed by one consumer at a time: requests are commands in
  two lock-free mailboxes, a scheduler posts drain tasks to a pool of worker threads, and a drain task
  handles commands in order. Around this stand rate limiting, token authentication, login, uploads,
  thumbnails, a reaper of idle sessions and a flusher of changed ones.

  \<^bold>\<open>How the theories follow the code.\<close> The names below are of files under \<^verbatim>\<open>src/source\<close>; definitions bear
  the names of the functions they translate. A class is a \<^verbatim>\<open>record\<close> of its fields, an operation a function
  from state to state, an exception or an error reply a value of the result.

  \<^item> \<open>Idtx_Prelude\<close>: machine integers, results, string functions, lemmas used by more than one component.
  \<^item> \<open>Mailbox\<close>, \<open>Mailbox_Invariant\<close>, \<open>Mailbox_Queue\<close>: \<^verbatim>\<open>session/BoundedMpscMailbox.h\<close>. Producers and the consumer
    are interleaved, one step for each access to shared memory. The ring refines a queue of cells and
    is first-in first-out; no value is read, written or destroyed where none lives; the locale
    \<open>mpsc_queue\<close> is what a client may rely on.
  \<^item> \<open>Executor\<close>: \<^verbatim>\<open>concurrency/WorkerExecutor\<close>, with the locale \<open>fifo_executor\<close> that the thumbnail worker shares.
  \<^item> \<open>Scheduler\<close>, \<open>Scheduler_Invariant\<close>, \<open>Scheduler_Refinement\<close>: \<^verbatim>\<open>session/SessionCommandScheduler\<close>. Any number of
    threads submit, drain, close and wait. No accepted command is stranded, one drain runs at a time,
    each lane is handled in order, closing is final; and the whole refines the sequential
    \<^typ>\<open>command_queue\<close> that the session manager is modelled with.
  \<^item> \<open>Scheduler_Progress\<close>: from every state the scheduler's threads can finish what was begun; the proof is a measure.
  \<^item> \<open>Simulation\<close>: the locale of refinements between step relations, and the chain of two. \<open>Ring_Scheduler\<close>,
    \<open>Ring_Refinement\<close>: the scheduler with its calls into the two ring buffers executed access by access. The
    scheduler keeps the single-consumer contract of the mailbox, and the whole refines, in two steps, the
    \<^typ>\<open>command_queue\<close> of the session manager.
  \<^item> \<open>Worker_Pool\<close>: the schedulers of all sessions on the executor they share. A session has at most one drain
    among the queued tasks and the running threads of the whole pool, and when the pool has been stopped no
    session has an unhandled command.
  \<^item> \<open>Session_Versions\<close>: \<^verbatim>\<open>session/SessionVersions\<close>, the check that an update was made on the current state. It is
    proved equal to a reference over the history of all recorded events, from the laws of the
    locale \<open>version_tracker\<close> alone.
  \<^item> \<open>Protocol\<close>, \<open>Usd_Interface\<close>, \<open>Usd_Instance\<close>: messages and commands (\<^verbatim>\<open>session/SessionCommand.h\<close>), and the calls of
    OpenUSD that the sources make, as a parameter with a small concrete instance.
  \<^item> \<open>Dispatchers\<close>: \<^verbatim>\<open>session/TransformDispatcher\<close>, \<^verbatim>\<open>session/PrimDispatcher\<close>. What was authored reads back; the search
    for a free name ends.
  \<^item> \<open>Stage_Committer\<close>: \<^verbatim>\<open>session/StageCommitter\<close>. A commit replaces the file or leaves it alone.
  \<^item> \<open>Session_Core\<close>, \<open>Session_Invariant\<close>, \<open>Session_Protocol\<close>: \<^verbatim>\<open>session/Session.h\<close>, the command handlers of
    \<^verbatim>\<open>session/SessionManager.cpp\<close> and \<^verbatim>\<open>session/StageNoticeListener\<close>. Versions reach each client in order;
    every edit is acknowledged after its broadcasts; a snapshot, replayed, gives the stage.
  \<^item> \<open>Session_Manager\<close>, \<open>Manager_Invariant\<close>, \<open>Manager_Properties\<close>: the registry half of \<^verbatim>\<open>session/SessionManager.cpp\<close> and
    \<^verbatim>\<open>session/SessionFlusher\<close>. The registry stays sound over every interleaving of callers, consumers,
    reaper and flusher; destruction, reloads and corrections do what they promise. What the manager
    needs of a scheduler is the locale \<open>command_admission\<close>.
  \<^item> \<open>Web_Socket\<close>, \<open>Web_Socket_Protocol\<close>: \<^verbatim>\<open>controller/WebSocketController\<close>, its callbacks
    as \<^verbatim>\<open>routes/websocket/WebSocketRoutes.h\<close> registers them. Every request of a connection is
    answered at most once, and once when the queues are empty.
  \<^item> \<open>Http\<close>, \<open>Environment\<close>, \<open>Logger\<close>, \<open>Health\<close>: \<^verbatim>\<open>dto/ErrorResponse.h\<close>, \<^verbatim>\<open>dto/JsonDto.h\<close>, \<^verbatim>\<open>utils/SecurityAuditLog.h\<close>,
    \<^verbatim>\<open>utils/Environment.h\<close>, \<^verbatim>\<open>utils/Uuid.h\<close>, the logger, \<^verbatim>\<open>controller/HealthController\<close>.
  \<^item> \<open>Rate_Limiter\<close>, \<open>Rate_Limit_Handler\<close>, \<open>Auth\<close>, \<open>Jwt_Auth\<close>: \<^verbatim>\<open>middleware/RateLimiter.h\<close>,
    \<^verbatim>\<open>middleware/RateLimitHandler.h\<close>, \<^verbatim>\<open>controller/AuthController\<close>, \<^verbatim>\<open>middleware/JwtAuthHandler\<close>,
    \<^verbatim>\<open>middleware/OidcConfiguration\<close>.
  \<^item> \<open>File_Locator\<close>, \<open>File_Serving\<close>, \<open>File_Serving_Properties\<close>: \<^verbatim>\<open>utils/UsdFileLocator.h\<close>,
    \<^verbatim>\<open>controller/FileServingController\<close>. An upload changes one file below the root or none, and is found
    again under the path of the reply.
  \<^item> \<open>Mini_Png\<close>, \<open>Placeholder_Thumbnail\<close>, \<open>Preview_Camera\<close>, \<open>Imaging_Thumbnail\<close>, \<open>Thumbnail_Worker\<close>,
    \<open>Thumbnail_Generators\<close>: \<^verbatim>\<open>thumbnails/\<close>. The PNG writer is inverted by a decoder; no pixel is written out of
    bounds; the synthetic camera frames the whole content; both generators satisfy the
    locale \<open>thumbnail_generator\<close>, and rendering leaves every uploaded file alone.
  \<^item> \<open>Session_Rest\<close>, \<open>Server\<close>, \<open>Server_Properties\<close>, \<open>Startup\<close>: \<^verbatim>\<open>controller/SessionController\<close>, the routes, \<^verbatim>\<open>app/\<close>,
    \<^verbatim>\<open>server/\<close> and \<^verbatim>\<open>main.cpp\<close>: the composition. Only an authenticated request changes files or
    sessions, and the process starts fail-closed.
  \<^item> \<open>System\<close>: executions of the whole process over one session manager. HTTP requests, reaper and flusher
    sweeps are sequences of the moves that the locale \<open>manager_moves\<close> names, so what was proved of the
    websocket endpoint and of the registry holds beside them.

  \<^bold>\<open>How the components meet.\<close> The mailbox is proved to refine queues of cells; the scheduler runs on
  such queues and is proved to refine a sequential queue with an admission gate; the manager, the
  websocket endpoint and the REST endpoints run on that queue. A step of the scheduler that depends on
  timing (a push refused one below the capacity, a normal command that overtakes a priority one) is a
  choice in the record \<^typ>\<open>schedule\<close>, and the theorems hold for every choice.

  \<^bold>\<open>Parameters.\<close> Code outside the repository is an argument: OpenUSD (\<^typ>\<open>'st Usd\<close>), the file system, Crow,
  the JSON, JWT and HTTP client libraries, EGL and OSMesa, protobuf parsing, clocks and random numbers. Where a
  theorem needs documented behaviour of it, that is a named hypothesis, and the witness
  instantiates the parameter with a concrete function that satisfies it.

  \<^bold>\<open>Bounds and fuel.\<close> Versions are 64-bit words and the ordering theorems assume that fewer than
  \<^term>\<open>(2::nat) ^ 63\<close> were issued and that one call of OpenUSD delivers fewer than \<^term>\<open>(2::nat) ^ 32\<close> notices; fewer than \<^term>\<open>(2::nat) ^ 63\<close> mailbox positions were reserved,
  since past that the subtraction of the sources overflows. \<open>UniqueChildPath\<close> is a partial function and is
  proved to return when the prim has finitely many children. The thumbnail worker's destructor runs
  with fuel twice its queue plus two, proved to be enough. Request counters are natural numbers.

  \<^bold>\<open>Assumptions of the model.\<close> Interleavings are sequentially consistent. A method that holds its mutex
  throughout is one step. A handler of a session command is one step; other sessions' notices and
  changes of the client registry happen between such steps. In \<open>Session_Manager\<close> the admission gate and
  the push are one step; \<open>Scheduler_Refinement\<close> states what the scheduler does beyond that: a submission
  that found the gate open may push after it closed, and is then counted as pending. Exceptions of the
  libraries derive from \<^verbatim>\<open>std::exception\<close>. Saving the sidecar inside a commit may throw: a commit command
  then ends without a result, and a teardown does not return (\<open>None\<close>), after which the model stops.

  \<^bold>\<open>Not modelled.\<close> Sockets and threads of Crow and its CORS middleware;
  the protobuf wire format and classes (generated); rounding in the geometry of the preview camera,
  which is over the reals; the log calls inside
  components, except where a log line is the only effect; memory orderings weaker than
  sequential consistency; tests, load tools and build scripts.
\<close>

end
